(* ===== verification/Prelude.thy ===== *)
theory Prelude
  imports Main "HOL-Library.Word"
begin

text \<open>
  Shared vocabulary of the development: 64-bit size arithmetic written out on \<open>nat\<close>, byte
  memories and the block copy \<open>blit\<close>, sequencing of fallible steps, and the ordered map that
  stands for \<open>std::map\<close> (iteration in ascending key order).  The laws a client of the ordered
  map uses are the locale \<open>ordered_map\<close>, interpreted on the sorted association list.
\<close>

section \<open>Sizes, addresses, memories\<close>

named_theorems u64_simps \<open>64-bit arithmetic that does not wrap\<close>
named_theorems blit_simps \<open>rewriting of block copies\<close>

type_synonym addr = nat
type_synonym byte = "8 word"
type_synonym mem = "nat \<Rightarrow> byte"

definition u64_add :: "nat \<Rightarrow> nat \<Rightarrow> nat" where
  "u64_add a b = (a + b) mod 2 ^ 64"

definition u64_sub :: "nat \<Rightarrow> nat \<Rightarrow> nat" where
  "u64_sub a b = (2 ^ 64 + a - b) mod 2 ^ 64"

definition blit :: "nat \<Rightarrow> nat \<Rightarrow> nat \<Rightarrow> mem \<Rightarrow> mem \<Rightarrow> mem" where
  \<comment> \<open>\<open>memcpy(to + dst, from + src, n)\<close> between two separate memories\<close>
  "blit dst src n from to = (\<lambda>a. if dst \<le> a \<and> a < dst + n then from (src + (a - dst)) else to a)"

section \<open>Sequencing of steps that may end the process\<close>

fun rbind :: "'e + 'a \<Rightarrow> ('a \<Rightarrow> 'e + 'b) \<Rightarrow> 'e + 'b" where
  "rbind (Inl e) f = Inl e"
| "rbind (Inr x) f = f x"

section \<open>Calls into code that is not part of the program\<close>

text \<open>
  A library outside the program (a GPU driver, the C library, an operating system service) is
  known only by the calls made to it.  It is a parameter: a function of the call and of the whole
  history of calls and results before it, so that it may keep any state of its own.
\<close>

type_synonym 'c history = "('c \<times> int \<times> nat) list" \<comment> \<open>call, return code, value returned\<close>
type_synonym 'c native_lib = "'c \<Rightarrow> 'c history \<Rightarrow> int \<times> nat"

definition native :: "'c native_lib \<Rightarrow> 'c \<Rightarrow> 'c history \<Rightarrow> int \<times> nat \<times> 'c history" where
  "native lib c h = (case lib c h of (r, v) \<Rightarrow> (r, v, h @ [(c, r, v)]))"

section \<open>Ordered maps (\<open>std::map\<close>) and ordered sets (\<open>std::set\<close>)\<close>

fun omap_put :: "'k::linorder \<Rightarrow> 'v \<Rightarrow> ('k \<times> 'v) list \<Rightarrow> ('k \<times> 'v) list" where
  "omap_put k v [] = [(k, v)]"
| "omap_put k v ((k', v') # xs) =
     (if k < k' then (k, v) # (k', v') # xs
      else if k = k' then (k, v) # xs
      else (k', v') # omap_put k v xs)"

fun omap_erase :: "'k::linorder \<Rightarrow> ('k \<times> 'v) list \<Rightarrow> ('k \<times> 'v) list" where
  "omap_erase k [] = []"
| "omap_erase k ((k', v') # xs) = (if k = k' then xs else (k', v') # omap_erase k xs)"

definition omap_ok :: "('k::linorder \<times> 'v) list \<Rightarrow> bool" where
  "omap_ok xs = sorted_wrt (<) (map fst xs)"

fun oset_insert :: "'k::linorder \<Rightarrow> 'k list \<Rightarrow> 'k list" where
  "oset_insert k [] = [k]"
| "oset_insert k (x # xs) =
     (if k < x then k # x # xs else if k = x then x # xs else x # oset_insert k xs)"

fun oset_erase :: "'k::linorder \<Rightarrow> 'k list \<Rightarrow> 'k list" where
  "oset_erase k [] = []"
| "oset_erase k (x # xs) = (if k = x then xs else x # oset_erase k xs)"

section \<open>Lemmas on 64-bit arithmetic\<close>

lemma u64_add_id [u64_simps]: "a + b < 2 ^ 64 \<Longrightarrow> u64_add a b = a + b"
  by (simp add: u64_add_def)

lemma u64_sub_id [u64_simps]: "b \<le> a \<Longrightarrow> a < 2 ^ 64 \<Longrightarrow> u64_sub a b = a - b"
  by (simp add: u64_sub_def le_mod_geq)

lemma u64_add_less [simp]: "u64_add a b < 2 ^ 64"
  by (simp add: u64_add_def)

section \<open>Lemmas on block copies\<close>

lemma blit_0 [simp]: "blit d s 0 f t = t"
  by (auto simp: blit_def fun_eq_iff)

lemma blit_in [blit_simps]: "d \<le> a \<Longrightarrow> a < d + n \<Longrightarrow> blit d s n f t a = f (s + (a - d))"
  by (simp add: blit_def)

lemma blit_out [blit_simps]: "a < d \<or> d + n \<le> a \<Longrightarrow> blit d s n f t a = t a"
  by (auto simp: blit_def)

lemma blit_append:
  "blit (d + n1) (s + n1) n2 f (blit d s n1 f t) = blit d s (n1 + n2) f t"
  by (auto simp: blit_def fun_eq_iff)

lemma blit_cong:
  assumes "\<And>i. i < n \<Longrightarrow> f (s + i) = g (s' + i)"
  shows "blit d s n f t = blit d s' n g t"
proof
  fix a
  show "blit d s n f t a = blit d s' n g t a"
    using assms [of "a - d"] by (cases "d \<le> a \<and> a < d + n") (auto simp: blit_def)
qed

section \<open>Lemmas on sequencing\<close>

lemma rbind_Inr_iff: "rbind x f = Inr y \<longleftrightarrow> (\<exists>a. x = Inr a \<and> f a = Inr y)"
  by (cases x) auto

lemma rbind_Inl_iff: "rbind x f = Inl e \<longleftrightarrow> x = Inl e \<or> (\<exists>a. x = Inr a \<and> f a = Inl e)"
  by (cases x) auto

section \<open>The interface of the ordered map\<close>

locale ordered_map =
  fixes empty :: "'m"
    and put :: "'k::linorder \<Rightarrow> 'v \<Rightarrow> 'm \<Rightarrow> 'm"
    and erase :: "'k \<Rightarrow> 'm \<Rightarrow> 'm"
    and get :: "'m \<Rightarrow> 'k \<Rightarrow> 'v option"
    and entries :: "'m \<Rightarrow> ('k \<times> 'v) list"
    and invar :: "'m \<Rightarrow> bool"
  assumes get_empty: "get empty = (\<lambda>_. None)"
    and get_put: "invar m \<Longrightarrow> get (put k v m) = (get m)(k \<mapsto> v)"
    and get_erase: "invar m \<Longrightarrow> get (erase k m) = (get m)(k := None)"
    and entries_get: "invar m \<Longrightarrow> map_of (entries m) = get m"
    and entries_sorted: "invar m \<Longrightarrow> sorted_wrt (<) (map fst (entries m))"
    and invar_empty: "invar empty"
    and invar_put: "invar m \<Longrightarrow> invar (put k v m)"
    and invar_erase: "invar m \<Longrightarrow> invar (erase k m)"
begin

lemma dom_put: "invar m \<Longrightarrow> dom (get (put k v m)) = insert k (dom (get m))"
  by (simp add: get_put)

lemma dom_erase: "invar m \<Longrightarrow> dom (get (erase k m)) = dom (get m) - {k}"
  by (simp add: get_erase)

lemma distinct_keys: "invar m \<Longrightarrow> distinct (map fst (entries m))"
  using entries_sorted by (auto intro: strict_sorted_imp_sorted simp: strict_sorted_iff)

lemma entries_iff: "invar m \<Longrightarrow> (k, v) \<in> set (entries m) \<longleftrightarrow> get m k = Some v"
  by (metis distinct_keys entries_get map_of_eq_Some_iff)

lemma put_erase_get: "invar m \<Longrightarrow> get (erase k (put k v m)) = (get m)(k := None)"
  by (simp add: get_put get_erase invar_put)

end

section \<open>The sorted association list implements it\<close>

lemma omap_ok_Nil [simp]: "omap_ok []"
  by (simp add: omap_ok_def)

lemma omap_ok_Cons [simp]:
  "omap_ok ((k, v) # xs) \<longleftrightarrow> omap_ok xs \<and> (\<forall>k' \<in> fst ` set xs. k < k')"
  by (auto simp: omap_ok_def)

lemma keys_omap_put: "fst ` set (omap_put k v xs) = insert k (fst ` set xs)"
  by (induction k v xs rule: omap_put.induct) auto

lemma keys_omap_erase: "fst ` set (omap_erase k xs) \<subseteq> fst ` set xs"
  by (induction k xs rule: omap_erase.induct) auto

lemma omap_ok_put [simp, intro]: "omap_ok xs \<Longrightarrow> omap_ok (omap_put k v xs)"
proof (induction k v xs rule: omap_put.induct)
  case (2 k v k' v' xs)
  then show ?case
    by (auto simp: keys_omap_put simp del: set_map dest: less_trans)
qed simp

lemma omap_ok_erase [simp, intro]: "omap_ok xs \<Longrightarrow> omap_ok (omap_erase k xs)"
  by (induction k xs rule: omap_erase.induct) (use keys_omap_erase in \<open>fastforce+\<close>)

lemma map_of_smaller: "\<forall>k' \<in> fst ` set xs. k < k' \<Longrightarrow> map_of xs (k::'k::linorder) = None"
  by (induction xs) auto

lemma map_of_omap_put [simp]: "map_of (omap_put k v xs) = (map_of xs)(k \<mapsto> v)"
  by (induction k v xs rule: omap_put.induct) (auto simp: fun_eq_iff)

lemma map_of_omap_erase [simp]:
  "omap_ok xs \<Longrightarrow> map_of (omap_erase k xs) = (map_of xs)(k := None)"
  by (induction k xs rule: omap_erase.induct) (auto simp: fun_eq_iff map_of_smaller)

interpretation omap: ordered_map "[] :: ('k::linorder \<times> 'v) list" omap_put omap_erase map_of
  "\<lambda>xs. xs" omap_ok
  by unfold_locales (auto simp: omap_ok_def [symmetric])

lemmas omap_laws = omap.dom_put omap.dom_erase omap.distinct_keys omap.entries_iff

lemma set_oset_insert [simp]: "set (oset_insert k xs) = insert k (set xs)"
  by (induction k xs rule: oset_insert.induct) auto

lemma oset_insert_sorted: "sorted_wrt (<) xs \<Longrightarrow> sorted_wrt (<) (oset_insert k xs)"
  by (induction k xs rule: oset_insert.induct) auto

lemma set_oset_erase: "sorted_wrt (<) xs \<Longrightarrow> set (oset_erase k xs) = set xs - {k}"
  by (induction k xs rule: oset_erase.induct) auto

lemma oset_erase_sorted: "sorted_wrt (<) xs \<Longrightarrow> sorted_wrt (<) (oset_erase k xs)"
proof (induction k xs rule: oset_erase.induct)
  case (2 k x xs)
  then show ?case by (auto simp: set_oset_erase)
qed simp

section \<open>Injective maps\<close>

definition inj_map :: "('k \<rightharpoonup> 'v) \<Rightarrow> bool" where
  "inj_map m \<longleftrightarrow> (\<forall>p q v. m p = Some v \<longrightarrow> m q = Some v \<longrightarrow> p = q)"

lemma ran_erase_inj: "inj_map m \<Longrightarrow> m p = Some h \<Longrightarrow> ran (m(p := None)) = ran m - {h}"
  unfolding inj_map_def ran_def by (auto, metis option.inject)

lemma inj_map_erase: "inj_map m \<Longrightarrow> inj_map (m(p := None))"
  by (simp add: inj_map_def)

lemma inj_map_put: "inj_map m \<Longrightarrow> h \<notin> ran m \<Longrightarrow> inj_map (m(p \<mapsto> h))"
  by (simp add: inj_map_def ran_def) metis

section \<open>Updating one element\<close>

lemma list_update_field:
  assumes "g (f (xs ! i)) = g (xs ! i)"
  shows "g (xs[i := f (xs ! i)] ! j) = g (xs ! j)"
proof (cases "i < length xs")
  case True
  with assms show ?thesis by (cases "i = j") simp_all
qed (simp add: list_update_beyond)

lemma map_list_update_field:
  assumes "g (f (xs ! i)) = g (xs ! i)"
  shows "map g (xs[i := f (xs ! i)]) = map g xs"
  by (rule nth_equalityI) (simp_all add: list_update_field [where g = g and f = f, OF assms])

lemma filter_upt_nth:
  "map (\<lambda>i. f (xs ! i)) (filter (\<lambda>i. P (xs ! i)) [0..<length xs]) = map f (filter P xs)"
proof -
  have "filter P xs = filter P (map ((!) xs) [0..<length xs])" by (simp add: map_nth)
  also have "\<dots> = map ((!) xs) (filter (P \<circ> (!) xs) [0..<length xs])" by (rule filter_map)
  finally show ?thesis by (simp add: comp_def)
qed

end
