(* ===== verification/Layout.thy ===== *)
theory Layout
  imports Prelude
begin

unbundle bit_operations_syntax

text \<open>
  The constants and shared-memory layout of \<open>src/common.h\<close>, \<open>src/comm/comm.h\<close> and
  \<open>src/ipc_hooks.h\<close>: rounding to the 2 MB granule, the file table \<open>shared_mem_fs\<close> at the
  front of a worker's checkpoint buffer, and the two IPC rebuild blocks that share its first
  huge page.  Structure sizes are those of the LP64 ABI the code is built for.
\<close>

section \<open>Constants\<close>

abbreviation HUGE_PAGE_SIZE :: nat where "HUGE_PAGE_SIZE \<equiv> 2097152"
definition VMM_GRANULE_SIZE :: nat where "VMM_GRANULE_SIZE = 2 * 1024 * 1024"
definition SHM_SIZE :: nat where "SHM_SIZE = 25 * 2 ^ 30"
definition MAX_FILE_NUM :: nat where "MAX_FILE_NUM = 4096"
definition NUM_COPY_THREADS :: nat where "NUM_COPY_THREADS = 4"
definition MAX_MULTI_GPU_PROCS :: nat where "MAX_MULTI_GPU_PROCS = 32"
definition STAGING_BUF_SIZE :: nat where "STAGING_BUF_SIZE = 2 ^ 30"
definition STAGING_BUF_NUM :: nat where "STAGING_BUF_NUM = 2"
definition MAX_SELECTIVE_REGIONS :: nat where "MAX_SELECTIVE_REGIONS = 4096"
definition IPC_MAX_EXPORTS_PER_PROC :: nat where "IPC_MAX_EXPORTS_PER_PROC = 64"

definition ROUND_UP_2MB :: "64 word \<Rightarrow> 64 word" where
  \<comment> \<open>\<open>(((x) + (2 * 1024 * 1024 - 1)) & ~(2 * 1024 * 1024 - 1))\<close> on \<open>uint64_t\<close>\<close>
  "ROUND_UP_2MB x = (x + (2 * 1024 * 1024 - 1)) AND NOT (2 * 1024 * 1024 - 1)"

definition round_up_2mb :: "nat \<Rightarrow> nat" where
  "round_up_2mb n = unat (ROUND_UP_2MB (word_of_nat n))"

definition granule_clamp :: "nat \<Rightarrow> nat \<Rightarrow> nat" where
  "granule_clamp dev_ptr len =
     (let to_boundary = VMM_GRANULE_SIZE - dev_ptr mod VMM_GRANULE_SIZE
      in if len < to_boundary then len else to_boundary)"

section \<open>The file table and the rebuild blocks\<close>

record shared_mem_file =
  ptr :: nat
  start_offset :: nat
  size :: nat

record shared_mem_fs =
  file_num :: nat
  current_offset :: nat
  files :: "nat \<Rightarrow> shared_mem_file"

record IpcExportShmEntry =
  owner_pid :: int
  shm_fd :: int
  local_ptr :: nat
  entry_size :: nat
  valid :: bool

record IpcRebuildShmBlock =
  num_exports :: nat
  entries :: "nat \<Rightarrow> IpcExportShmEntry"

definition sizeof_shared_mem_file :: nat where "sizeof_shared_mem_file = 24"
definition sizeof_shared_mem_fs :: nat where
  "sizeof_shared_mem_fs = 8 + 8 + MAX_FILE_NUM * sizeof_shared_mem_file"
definition sizeof_IpcExportShmEntry :: nat where "sizeof_IpcExportShmEntry = 32"
definition sizeof_IpcRebuildShmBlock :: nat where
  "sizeof_IpcRebuildShmBlock = 8 + IPC_MAX_EXPORTS_PER_PROC * sizeof_IpcExportShmEntry"

definition fs_data_start :: nat where
  "fs_data_start = round_up_2mb sizeof_shared_mem_fs"

definition get_my_block :: "nat \<Rightarrow> nat" where
  "get_my_block shm_ptr = shm_ptr + fs_data_start - sizeof_IpcRebuildShmBlock"

definition get_peer_block :: "nat \<Rightarrow> nat" where
  "get_peer_block shm_ptr = shm_ptr + fs_data_start - sizeof_IpcRebuildShmBlock * 2"

definition file_list :: "shared_mem_fs \<Rightarrow> shared_mem_file list" where
  "file_list fs = map (files fs) [0..<file_num fs]"

definition fs_reset :: "shared_mem_fs \<Rightarrow> shared_mem_fs" where
  "fs_reset fs = fs\<lparr>file_num := 0, current_offset := fs_data_start\<rparr>"

section \<open>Rounding\<close>

lemma and_not_mask_sub: "(x :: 64 word) AND NOT (mask n) = x - take_bit n x"
proof -
  have "x = push_bit n (drop_bit n x) + take_bit n x" by (simp add: bits_ident)
  moreover have "x AND NOT (mask n) = push_bit n (drop_bit n x)"
    by (rule bit_word_eqI) (auto simp: bit_simps)
  ultimately show ?thesis by (metis add_diff_cancel_right')
qed

lemma unat_and_not_mask: "unat ((x :: 64 word) AND NOT (mask n)) = unat x - unat x mod 2 ^ n"
proof -
  have t: "unat (take_bit n x) = unat x mod 2 ^ n"
    by (rule trans [OF unsigned_take_bit_eq take_bit_eq_mod])
  then have "take_bit n x \<le> x" by (simp add: word_le_nat_alt)
  then show ?thesis by (simp add: and_not_mask_sub unat_sub t)
qed

lemma round_up_2mb_wrap:
  "round_up_2mb n = (let y = (n + 2097151) mod 2 ^ 64 in y - y mod 2097152)"
proof -
  have m: "(2 * 1024 * 1024 - 1 :: 64 word) = mask 21"
    by (simp add: mask_eq_exp_minus_1)
  have "unat (word_of_nat n + mask 21 :: 64 word) = (n + 2097151) mod 2 ^ 64"
    by (simp add: unat_word_ariths unsigned_of_nat take_bit_eq_mod mask_eq_exp_minus_1 mod_simps)
  then show ?thesis
    unfolding round_up_2mb_def ROUND_UP_2MB_def m unat_and_not_mask by (simp add: Let_def)
qed

lemma round_up_2mb_eq:
  "n + 2097151 < 2 ^ 64 \<Longrightarrow> round_up_2mb n = (n + 2097151) div 2097152 * 2097152"
  by (simp add: round_up_2mb_wrap Let_def minus_mod_eq_div_mult)

lemma round_up_2mb_ge: "n + 2097151 < 2 ^ 64 \<Longrightarrow> n \<le> round_up_2mb n"
  unfolding round_up_2mb_eq by linarith

lemma round_up_2mb_less: "n + 2097151 < 2 ^ 64 \<Longrightarrow> round_up_2mb n < n + 2097152"
  unfolding round_up_2mb_eq by linarith

lemma round_up_2mb_dvd: "2097152 dvd round_up_2mb n"
  unfolding round_up_2mb_wrap Let_def by (metis dvd_minus_mod)

lemma round_up_2mb_mono:
  "m \<le> n \<Longrightarrow> n + 2097151 < 2 ^ 64 \<Longrightarrow> round_up_2mb m \<le> round_up_2mb n"
  by (simp add: round_up_2mb_eq div_le_mono)

lemma round_up_2mb_idem: "n + 2097151 < 2 ^ 64 \<Longrightarrow> 2097152 dvd n \<Longrightarrow> round_up_2mb n = n"
  by (auto simp: round_up_2mb_eq elim!: dvdE)

section \<open>Layout of the first huge page\<close>

lemma fs_data_start_eq [simp]: "fs_data_start = 2097152"
  by (simp add: fs_data_start_def round_up_2mb_eq sizeof_shared_mem_fs_def
      sizeof_shared_mem_file_def MAX_FILE_NUM_def)

lemmas sizeof_defs = sizeof_shared_mem_fs_def sizeof_shared_mem_file_def MAX_FILE_NUM_def
  sizeof_IpcRebuildShmBlock_def sizeof_IpcExportShmEntry_def IPC_MAX_EXPORTS_PER_PROC_def

lemma SHM_SIZE_lt [simp]: "SHM_SIZE < 2 ^ 64"
  by (simp add: SHM_SIZE_def)

lemma staging_pos [simp]: "0 < STAGING_BUF_SIZE"
  by (simp add: STAGING_BUF_SIZE_def)

lemma granule_clamp_le: "granule_clamp p n \<le> n"
  by (simp add: granule_clamp_def Let_def)

lemma granule_clamp_pos: "0 < n \<Longrightarrow> 0 < granule_clamp p n"
  by (simp add: granule_clamp_def Let_def VMM_GRANULE_SIZE_def)

section \<open>Properties\<close>

text \<open>Rounding to the 2 MB granule gives the least multiple of the granule that is not smaller
  than the argument, as long as the 64-bit addition does not wrap around.\<close>

lemma round_up_2mb_least:
  assumes "n + 2097151 < 2 ^ 64"
  shows "round_up_2mb n = (LEAST k. n \<le> k \<and> VMM_GRANULE_SIZE dvd k)"
proof (rule Least_equality [symmetric])
  show "n \<le> round_up_2mb n \<and> VMM_GRANULE_SIZE dvd round_up_2mb n"
    using round_up_2mb_ge [OF assms] round_up_2mb_dvd by (simp add: VMM_GRANULE_SIZE_def)
next
  fix k assume k: "n \<le> k \<and> VMM_GRANULE_SIZE dvd k"
  then obtain q where q: "k = 2097152 * q" by (auto simp: VMM_GRANULE_SIZE_def)
  have "(n + 2097151) div 2097152 \<le> q" using k q by linarith
  then show "round_up_2mb n \<le> k" using q by (simp add: round_up_2mb_eq [OF assms] mult.commute)
qed

text \<open>In the first huge page of the checkpoint buffer the file table, the block with the exports
  of the peers and the block with the exports of the worker itself do not overlap, and the data of a
  checkpoint starts after them.\<close>

theorem first_page_layout:
  "shm_ptr + sizeof_shared_mem_fs \<le> get_peer_block shm_ptr \<and>
   get_peer_block shm_ptr + sizeof_IpcRebuildShmBlock = get_my_block shm_ptr \<and>
   get_my_block shm_ptr + sizeof_IpcRebuildShmBlock = shm_ptr + fs_data_start \<and>
   fs_data_start = HUGE_PAGE_SIZE"
  by (simp add: get_peer_block_def get_my_block_def sizeof_defs)

text \<open>A device copy clamped at the granule is not empty, not longer than asked for, and starts
  and ends in the same 2 MB granule.\<close>

theorem granule_clamp_one_granule:
  assumes "0 < len"
  shows "0 < granule_clamp p len \<and> granule_clamp p len \<le> len \<and>
    (p + granule_clamp p len - 1) div VMM_GRANULE_SIZE = p div VMM_GRANULE_SIZE"
proof -
  let ?G = VMM_GRANULE_SIZE and ?c = "granule_clamp p len"
  have c: "0 < ?c" "?c \<le> ?G - p mod ?G"
    using granule_clamp_pos [OF assms] by (simp_all add: granule_clamp_def Let_def)
  define r where "r = p mod ?G + (?c - 1)"
  have G: "0 < ?G" by (simp add: VMM_GRANULE_SIZE_def)
  then have "p mod ?G < ?G" by simp
  then have "r < ?G" unfolding r_def using c by linarith
  have "p + ?c - 1 = r + p div ?G * ?G" using c(1) by (simp add: r_def)
  then have "(p + ?c - 1) div ?G = r div ?G + p div ?G" using G by simp
  then have "(p + ?c - 1) div ?G = p div ?G" using \<open>r < ?G\<close> by simp
  with c(1) granule_clamp_le show ?thesis by blast
qed

theorem granule_clamp_one_granule_witness:
  "granule_clamp 2097151 100 = 1 \<and> (2097151 + granule_clamp 2097151 100 - 1) div VMM_GRANULE_SIZE = 0"
  using granule_clamp_one_granule [of 100 2097151] by (simp add: granule_clamp_def VMM_GRANULE_SIZE_def)

end
