(* ===== verification/Data_Path.thy ===== *)
theory Data_Path
  imports Layout "HOL-Library.Multiset"
begin

text \<open>
  The data path of \<open>src/vGPU.cpp\<close>: asynchronous copies between device memory and the two
  staging buffers, and multi-threaded copies between the staging buffers and the checkpoint
  buffer in shared memory.  The GPU runtime is a parameter (\<open>driver\<close>): it chooses every
  return code and how many of the copies issued so far have completed when a call returns.  What
  the code relies on, the documented ordering of one stream and of its event, is the hypothesis
  \<open>stream_contract\<close>.  The chunk size of a copy is a policy with the laws of the locale
  \<open>chunk_policy\<close>; the two policies of the code (whole remaining chunk, clamped at the 2 MB
  granule) are its interpretations.
\<close>

section \<open>Machine, driver and GPU interface\<close>

datatype exit_reason =
    StreamCreateFailed | EventCreateFailed | MemcpyFailed | NoSpace | TooManyFiles
  | ReleaseFailed nat | RemapFailed nat | AssertFailed | BackendExit
  | Diverges \<comment> \<open>a loop whose body makes no progress: the process never returns\<close>

datatype GPUVendor = NVIDIA | AMD | UNKNOWN

datatype copy_op =
    D2H nat nat nat \<comment> \<open>staging offset, device address, bytes\<close>
  | H2D nat nat nat \<comment> \<open>device address, staging offset, bytes\<close>

datatype gpu_call =
    CreateStream | CreateEvent | RecordEvent | MemcpyAsync copy_op
  | SynchronizeEvent | SynchronizeStream | DestroyStream | DestroyEvent

record 'g machine =
  dev :: mem
  stg :: mem
  shm :: mem
  queue :: "copy_op list" \<comment> \<open>issued on the stream, not yet completed\<close>
  mark :: nat             \<comment> \<open>how many of them precede the last \<open>recordEvent\<close>\<close>
  gst :: 'g               \<comment> \<open>state of the GPU backend (allocation tables)\<close>

record 'g driver =
  vendor :: GPUVendor
  api_rc :: "gpu_call \<Rightarrow> 'g machine \<Rightarrow> int"
  progress :: "gpu_call \<Rightarrow> 'g machine \<Rightarrow> nat"

fun exec_op :: "copy_op \<Rightarrow> mem \<times> mem \<Rightarrow> mem \<times> mem" where
  "exec_op (D2H d s n) (dv, st) = (dv, blit d s n dv st)"
| "exec_op (H2D d s n) (dv, st) = (blit d s n st dv, st)"

definition retire :: "nat \<Rightarrow> 'g machine \<Rightarrow> 'g machine" where
  "retire k m = (let (dv, st) = fold exec_op (take k (queue m)) (dev m, stg m)
     in m\<lparr>dev := dv, stg := st, queue := drop k (queue m), mark := mark m - k\<rparr>)"

definition nv_check_ret :: "int \<Rightarrow> exit_reason + int" where
  "nv_check_ret err = (if err \<noteq> 0 then Inl BackendExit else Inr 0)"

definition amd_check_ret :: "int \<Rightarrow> exit_reason + int" where
  "amd_check_ret err = (if err \<noteq> 0 then Inr (-1) else Inr 0)"

definition check_ret :: "GPUVendor \<Rightarrow> int \<Rightarrow> exit_reason + int" where
  "check_ret v err = (case v of AMD \<Rightarrow> amd_check_ret err | _ \<Rightarrow> nv_check_ret err)"

definition gpu_step ::
    "'g driver \<Rightarrow> gpu_call \<Rightarrow> ('g machine \<Rightarrow> 'g machine) \<Rightarrow> 'g machine \<Rightarrow>
     exit_reason + int \<times> 'g machine" where
  "gpu_step drv c upd m = rbind (check_ret (vendor drv) (api_rc drv c m)) (\<lambda>r.
     let m' = (if r = 0 then upd m else m) in Inr (r, retire (progress drv c m') m'))"

definition createStream :: "'g driver \<Rightarrow> 'g machine \<Rightarrow> exit_reason + int \<times> 'g machine" where
  "createStream drv = gpu_step drv CreateStream (\<lambda>m. m\<lparr>queue := [], mark := 0\<rparr>)"

definition createEvent :: "'g driver \<Rightarrow> 'g machine \<Rightarrow> exit_reason + int \<times> 'g machine" where
  "createEvent drv = gpu_step drv CreateEvent (\<lambda>m. m)"

definition destroyStream :: "'g driver \<Rightarrow> 'g machine \<Rightarrow> exit_reason + int \<times> 'g machine" where
  "destroyStream drv = gpu_step drv DestroyStream (\<lambda>m. m)"

definition destroyEvent :: "'g driver \<Rightarrow> 'g machine \<Rightarrow> exit_reason + int \<times> 'g machine" where
  "destroyEvent drv = gpu_step drv DestroyEvent (\<lambda>m. m)"

definition recordEvent :: "'g driver \<Rightarrow> 'g machine \<Rightarrow> exit_reason + int \<times> 'g machine" where
  "recordEvent drv = gpu_step drv RecordEvent (\<lambda>m. m\<lparr>mark := length (queue m)\<rparr>)"

definition memcpyAsync ::
    "'g driver \<Rightarrow> copy_op \<Rightarrow> 'g machine \<Rightarrow> exit_reason + int \<times> 'g machine" where
  "memcpyAsync drv cop = gpu_step drv (MemcpyAsync cop) (\<lambda>m. m\<lparr>queue := queue m @ [cop]\<rparr>)"

definition synchronizeEvent :: "'g driver \<Rightarrow> 'g machine \<Rightarrow> exit_reason + int \<times> 'g machine" where
  "synchronizeEvent drv = gpu_step drv SynchronizeEvent (\<lambda>m. m)"

definition synchronizeStream :: "'g driver \<Rightarrow> 'g machine \<Rightarrow> exit_reason + int \<times> 'g machine" where
  "synchronizeStream drv = gpu_step drv SynchronizeStream (\<lambda>m. m)"

definition stream_contract :: "'g driver \<Rightarrow> bool" where
  "stream_contract drv \<longleftrightarrow>
     (\<forall>c m. api_rc drv c m = 0) \<and>
     (\<forall>m. mark m \<le> progress drv SynchronizeEvent m) \<and>
     (\<forall>m. length (queue m) \<le> progress drv SynchronizeStream m)"

section \<open>Copies by the host\<close>

definition memcpy_chunks :: "nat \<Rightarrow> (nat \<times> nat) list" where
  "memcpy_chunks n =
     (let chunk_size = (n + NUM_COPY_THREADS - 1) div NUM_COPY_THREADS
      in map (\<lambda>i. (i * chunk_size, min chunk_size (n - i * chunk_size)))
           (takeWhile (\<lambda>i. i * chunk_size < n) [0..<NUM_COPY_THREADS]))"

definition run_chunks :: "nat \<Rightarrow> nat \<Rightarrow> mem \<Rightarrow> (nat \<times> nat) list \<Rightarrow> mem \<Rightarrow> mem" where
  "run_chunks dst src from cs to =
     fold (\<lambda>(off, k). blit (dst + off) (src + off) k from) cs to"

definition memcpy_multi :: "nat \<Rightarrow> nat \<Rightarrow> nat \<Rightarrow> mem \<Rightarrow> mem \<Rightarrow> mem" where
  "memcpy_multi dst src n from to = run_chunks dst src from (memcpy_chunks n) to"

definition staging_buf :: "nat \<Rightarrow> nat" where
  "staging_buf i = i * STAGING_BUF_SIZE"

section \<open>The copy loops\<close>

record 'g cursor =
  current_buf :: nat
  buf_offset :: nat
  io_offset :: nat \<comment> \<open>\<open>des_offset\<close> of a checkpoint, \<open>src_offset\<close> of a restore\<close>
  mach :: "'g machine"

definition d2h_drain :: "'g driver \<Rightarrow> 'g cursor \<Rightarrow> exit_reason + 'g cursor" where
  "d2h_drain drv c = rbind (synchronizeEvent drv (mach c)) (\<lambda>(_, m).
     Inr (c\<lparr>mach := m\<lparr>shm := memcpy_multi (io_offset c) (staging_buf ((current_buf c - 1) mod 2))
              STAGING_BUF_SIZE (stg m) (shm m)\<rparr>,
            io_offset := io_offset c + STAGING_BUF_SIZE\<rparr>))"

definition d2h_rotate :: "'g driver \<Rightarrow> 'g cursor \<Rightarrow> exit_reason + 'g cursor" where
  "d2h_rotate drv c =
     (if STAGING_BUF_SIZE \<le> buf_offset c then
        if buf_offset c \<noteq> STAGING_BUF_SIZE then Inl AssertFailed
        else rbind (if 0 < current_buf c then d2h_drain drv c else Inr c) (\<lambda>c1.
             rbind (recordEvent drv (mach c1)) (\<lambda>(_, m).
             Inr (c1\<lparr>buf_offset := 0, current_buf := current_buf c1 + 1, mach := m\<rparr>)))
      else Inr c)"

function d2h_loop ::
    "'g driver \<Rightarrow> (nat \<Rightarrow> nat \<Rightarrow> nat) \<Rightarrow> nat \<Rightarrow> nat \<Rightarrow> 'g cursor \<Rightarrow> exit_reason + 'g cursor" where
  "d2h_loop drv clamp d sz c =
     (if sz = 0 then Inr c
      else let cur_size = clamp d (min sz (STAGING_BUF_SIZE - buf_offset c)) in
        if cur_size = 0 then Inl Diverges
        else rbind (memcpyAsync drv
                     (D2H (staging_buf (current_buf c mod 2) + buf_offset c) d cur_size) (mach c))
             (\<lambda>(r, m). if r \<noteq> 0 then Inl MemcpyFailed
               else rbind (d2h_rotate drv (c\<lparr>buf_offset := buf_offset c + cur_size, mach := m\<rparr>))
                 (\<lambda>c'. d2h_loop drv clamp (d + cur_size) (sz - cur_size) c')))"
  by pat_completeness auto
termination
  by (relation "measure (\<lambda>(drv, clamp, d, sz, c). sz)") auto

definition h2d_fill :: "nat \<Rightarrow> nat \<Rightarrow> 'g cursor \<Rightarrow> 'g machine \<Rightarrow> 'g machine" where
  \<comment> \<open>copy the next window of the checkpoint buffer into staging buffer \<open>b\<close>\<close>
  "h2d_fill b cur_off c m = m\<lparr>stg := memcpy_multi (staging_buf (b mod 2)) (io_offset c)
     (min (u64_sub cur_off (io_offset c)) STAGING_BUF_SIZE) (shm m) (stg m)\<rparr>"

definition h2d_rotate :: "'g driver \<Rightarrow> nat \<Rightarrow> 'g cursor \<Rightarrow> exit_reason + 'g cursor" where
  "h2d_rotate drv cur_off c =
     (if STAGING_BUF_SIZE \<le> buf_offset c then
        if buf_offset c \<noteq> STAGING_BUF_SIZE then Inl AssertFailed
        else let c1 = c\<lparr>io_offset := io_offset c + STAGING_BUF_SIZE\<rparr> in
             rbind (synchronizeEvent drv (mach c1)) (\<lambda>(_, m).
             let m1 = h2d_fill (current_buf c1 + 1) cur_off c1 m in
             rbind (recordEvent drv m1) (\<lambda>(_, m2).
             Inr (c1\<lparr>buf_offset := 0, current_buf := current_buf c1 + 1, mach := m2\<rparr>)))
      else Inr c)"

function h2d_loop ::
    "'g driver \<Rightarrow> (nat \<Rightarrow> nat \<Rightarrow> nat) \<Rightarrow> nat \<Rightarrow> nat \<Rightarrow> nat \<Rightarrow> nat \<Rightarrow> 'g cursor \<Rightarrow>
     exit_reason + 'g cursor" where
  "h2d_loop drv clamp cur_off req off sz c =
     (if sz = 0 then Inr c
      else let this_copy = clamp req (min sz (STAGING_BUF_SIZE - buf_offset c)) in
        if buf_offset c \<noteq> u64_sub off (io_offset c) then Inl AssertFailed
        else if this_copy = 0 then Inl Diverges
        else rbind (memcpyAsync drv
                     (H2D req (staging_buf (current_buf c mod 2) + u64_sub off (io_offset c)) this_copy)
                     (mach c))
             (\<lambda>(r, m). if r \<noteq> 0 then Inl MemcpyFailed
               else rbind (h2d_rotate drv cur_off (c\<lparr>buf_offset := buf_offset c + this_copy, mach := m\<rparr>))
                 (\<lambda>c'. h2d_loop drv clamp cur_off (req + this_copy) (off + this_copy) (sz - this_copy) c')))"
  by pat_completeness auto
termination
  by (relation "measure (\<lambda>(drv, clamp, cur_off, req, off, sz, c). sz)") auto

declare d2h_loop.simps [simp del] h2d_loop.simps [simp del]

section \<open>Host copies\<close>

lemma run_chunks_apply:
  "run_chunks dst src from cs to a =
     (if \<exists>(off, k) \<in> set cs. dst + off \<le> a \<and> a < dst + off + k then from (src + (a - dst)) else to a)"
proof (induction cs arbitrary: to)
  case Nil
  then show ?case by (simp add: run_chunks_def)
next
  case (Cons c cs)
  obtain off k where c: "c = (off, k)" by (cases c)
  have "run_chunks dst src from (c # cs) to = run_chunks dst src from cs (blit (dst + off) (src + off) k from to)"
    by (simp add: run_chunks_def c)
  then show ?case by (simp add: Cons.IH c) (auto simp: blit_def)
qed

lemma set_takeWhile_upt: "set (takeWhile P [0..<m]) = {i. i < m \<and> (\<forall>i' \<le> i. P i')}"
proof (induction m)
  case (Suc m)
  show ?case
  proof (cases "\<forall>x \<in> set [0..<m]. P x")
    case True
    then have "takeWhile P [0..<Suc m] = [0..<m] @ takeWhile P [m]"
      by (auto simp: takeWhile_append)
    with True show ?thesis by (auto simp: less_Suc_eq le_less)
  next
    case False
    then obtain x where "x < m" "\<not> P x" by auto
    then have "takeWhile P [0..<Suc m] = takeWhile P [0..<m]"
      by (simp add: takeWhile_append1 [of x])
    with Suc \<open>x < m\<close> \<open>\<not> P x\<close> show ?thesis by (auto simp: less_Suc_eq)
  qed
qed simp

lemma memcpy_chunks_cover:
  "(\<exists>(off, k) \<in> set (memcpy_chunks n). off \<le> j \<and> j < off + k) \<longleftrightarrow> j < n"
proof -
  define q where "q = (n + NUM_COPY_THREADS - 1) div NUM_COPY_THREADS"
  have q: "n \<le> NUM_COPY_THREADS * q"
    unfolding q_def NUM_COPY_THREADS_def by linarith
  have e: "set (memcpy_chunks n) = (\<lambda>i. (i * q, min q (n - i * q))) `
      {i. i < NUM_COPY_THREADS \<and> (\<forall>i' \<le> i. i' * q < n)}"
    by (simp add: memcpy_chunks_def q_def Let_def set_takeWhile_upt)
  show ?thesis
  proof
    assume "\<exists>(off, k) \<in> set (memcpy_chunks n). off \<le> j \<and> j < off + k"
    then show "j < n" unfolding e by (auto simp: min_def split: if_splits)
  next
    assume j: "j < n"
    with q have "0 < q" by (cases q) auto
    have "j div q * q \<le> j" by simp
    have "j < q + j div q * q"
      using \<open>0 < q\<close> by (simp add: dividend_less_div_times)
    moreover have "j div q < NUM_COPY_THREADS"
      using q j \<open>0 < q\<close> by (simp add: less_mult_imp_div_less)
    moreover have "\<forall>i' \<le> j div q. i' * q < n"
      using \<open>j div q * q \<le> j\<close> j by (meson le_less_trans mult_le_mono1)
    ultimately show "\<exists>(off, k) \<in> set (memcpy_chunks n). off \<le> j \<and> j < off + k"
      unfolding e using j \<open>j div q * q \<le> j\<close> by (intro rev_bexI [OF imageI [of "j div q"]]) auto
  qed
qed

lemma memcpy_chunks_perm:
  assumes "set cs = set (memcpy_chunks n)"
  shows "run_chunks dst src from cs to = blit dst src n from to"
proof
  fix a
  have "(\<exists>(off, k) \<in> set cs. dst + off \<le> a \<and> a < dst + off + k) \<longleftrightarrow> dst \<le> a \<and> a < dst + n"
  proof (cases "dst \<le> a")
    case True
    then have "(\<exists>(off, k) \<in> set cs. dst + off \<le> a \<and> a < dst + off + k) \<longleftrightarrow>
        (\<exists>(off, k) \<in> set (memcpy_chunks n). off \<le> a - dst \<and> a - dst < off + k)"
      unfolding assms by (intro bex_cong) auto
    also have "\<dots> \<longleftrightarrow> a - dst < n" by (rule memcpy_chunks_cover)
    finally show ?thesis using True by auto
  qed auto
  then show "run_chunks dst src from cs to a = blit dst src n from to a"
    unfolding run_chunks_apply by (simp add: blit_def)
qed

lemma memcpy_multi_eq [simp]: "memcpy_multi dst src n from to = blit dst src n from to"
  by (simp add: memcpy_multi_def memcpy_chunks_perm)

section \<open>Streams\<close>

definition settled :: "'g machine \<Rightarrow> mem \<times> mem" where
  \<comment> \<open>device and staging memory once everything issued has completed\<close>
  "settled m = fold exec_op (queue m) (dev m, stg m)"

lemma retire_fields [simp]:
  "shm (retire k m) = shm m" "gst (retire k m) = gst m"
  "queue (retire k m) = drop k (queue m)" "mark (retire k m) = mark m - k"
  by (simp_all add: retire_def split: prod.split)

lemma retire_mem:
  "(dev (retire k m), stg (retire k m)) = fold exec_op (take k (queue m)) (dev m, stg m)"
  by (simp add: retire_def split: prod.split)

lemma settled_retire [simp]: "settled (retire k m) = settled m"
  unfolding settled_def retire_mem retire_fields
  by (metis append_take_drop_id comp_apply fold_append)

lemma settled_done: "queue m = [] \<Longrightarrow> settled m = (dev m, stg m)"
  by (simp add: settled_def)

lemma settled_snoc:
  "settled (m\<lparr>queue := queue m @ [cop]\<rparr>) = exec_op cop (settled m)"
  by (simp add: settled_def)

lemma gpu_step_ok:
  assumes "stream_contract drv"
  shows "gpu_step drv c upd m = Inr (0, retire (progress drv c (upd m)) (upd m))"
  using assms
  by (simp add: gpu_step_def Let_def stream_contract_def check_ret_def nv_check_ret_def amd_check_ret_def
      split: GPUVendor.split)

lemmas gpu_ops_defs = createStream_def createEvent_def destroyStream_def destroyEvent_def
  recordEvent_def memcpyAsync_def synchronizeEvent_def synchronizeStream_def

fun is_d2h_into :: "nat \<Rightarrow> copy_op \<Rightarrow> bool" where
  \<comment> \<open>a download that writes only inside staging buffer \<open>b\<close>\<close>
  "is_d2h_into b (D2H d s n) \<longleftrightarrow> staging_buf b \<le> d \<and> d + n \<le> staging_buf b + STAGING_BUF_SIZE"
| "is_d2h_into b (H2D d s n) \<longleftrightarrow> False"

fun is_h2d_from :: "nat \<Rightarrow> copy_op \<Rightarrow> bool" where
  \<comment> \<open>an upload that reads only inside staging buffer \<open>b\<close>\<close>
  "is_h2d_from b (H2D d s n) \<longleftrightarrow> staging_buf b \<le> s \<and> s + n \<le> staging_buf b + STAGING_BUF_SIZE"
| "is_h2d_from b (D2H d s n) \<longleftrightarrow> False"

lemma d2h_only_dev:
  "\<forall>x \<in> set ops. \<exists>b. is_d2h_into b x \<Longrightarrow> fst (fold exec_op ops (dv, st)) = dv"
proof (induction ops arbitrary: st)
  case (Cons x ops)
  then show ?case by (cases x) auto
qed simp

lemma d2h_other_buffer:
  assumes "\<forall>x \<in> set ops. is_d2h_into b x" "a < staging_buf b \<or> staging_buf b + STAGING_BUF_SIZE \<le> a"
  shows "snd (fold exec_op ops (dv, st)) a = st a"
  using assms
proof (induction ops arbitrary: st)
  case (Cons x ops)
  then show ?case by (cases x) (auto simp: blit_def)
qed simp

lemma h2d_only_stg:
  "\<forall>x \<in> set ops. \<exists>b. is_h2d_from b x \<Longrightarrow> snd (fold exec_op ops (dv, st)) = st"
proof (induction ops arbitrary: dv)
  case (Cons x ops)
  then show ?case by (cases x) auto
qed simp

lemma h2d_reads_only:
  assumes "\<forall>x \<in> set ops. is_h2d_from b x"
    and "\<And>a. staging_buf b \<le> a \<Longrightarrow> a < staging_buf b + STAGING_BUF_SIZE \<Longrightarrow> st a = st' a"
  shows "fst (fold exec_op ops (dv, st)) = fst (fold exec_op ops (dv, st'))"
  using assms
proof (induction ops arbitrary: dv)
  case (Cons x ops)
  then obtain d s n where x: "x = H2D d s n" by (cases x) auto
  with Cons.prems have "blit d s n st dv = blit d s n st' dv"
    by (intro blit_cong) auto
  with Cons x show ?case by auto
qed simp

section \<open>Downloads\<close>

definition stream_pos :: "'g cursor \<Rightarrow> nat" where
  "stream_pos c = current_buf c * STAGING_BUF_SIZE + buf_offset c"

lemma settled_upd [simp]:
  "settled (m\<lparr>shm := M\<rparr>) = settled m" "settled (m\<lparr>mark := k\<rparr>) = settled m"
  by (simp_all add: settled_def)

definition d2h_inv :: "nat \<Rightarrow> nat \<Rightarrow> mem \<Rightarrow> mem \<Rightarrow> mem \<Rightarrow> 'g \<Rightarrow> 'g cursor \<Rightarrow> bool" where
  \<comment> \<open>\<open>L\<close> is the byte stream to be saved, \<open>H\<close> where it starts in the checkpoint buffer,
     \<open>j\<close> the number of staging buffers already written there\<close>
  "d2h_inv j H L D M0 g c \<longleftrightarrow>
     buf_offset c \<le> STAGING_BUF_SIZE \<and> j \<le> current_buf c \<and> current_buf c \<le> Suc j \<and>
     io_offset c = H + j * STAGING_BUF_SIZE \<and>
     dev (mach c) = D \<and> gst (mach c) = g \<and>
     (\<forall>x \<in> set (queue (mach c)). \<exists>b. is_d2h_into b x) \<and>
     (\<forall>x \<in> set (drop (mark (mach c)) (queue (mach c))). is_d2h_into (current_buf c mod 2) x) \<and>
     (\<forall>t. j * STAGING_BUF_SIZE \<le> t \<longrightarrow> t < stream_pos c \<longrightarrow>
        snd (settled (mach c)) (t mod (2 * STAGING_BUF_SIZE)) = L t) \<and>
     shm (mach c) = blit H 0 (j * STAGING_BUF_SIZE) L M0"

lemma staging_addr:
  assumes "i < STAGING_BUF_SIZE"
  shows "(q * STAGING_BUF_SIZE + i) mod (2 * STAGING_BUF_SIZE) = staging_buf (q mod 2) + i"
proof -
  let ?S = STAGING_BUF_SIZE
  have "q * ?S + i = (q div 2 * 2 + q mod 2) * ?S + i" by simp
  also have "\<dots> = (q mod 2 * ?S + i) + (q div 2) * (2 * ?S)" by (simp only: algebra_simps)
  finally have e: "q * ?S + i = (q mod 2 * ?S + i) + (q div 2) * (2 * ?S)" .
  have "(q * ?S + i) mod (2 * ?S) = (q mod 2 * ?S + i) mod (2 * ?S)"
    unfolding e by (rule mod_mult_self1)
  moreover have "q mod 2 * ?S + i < 2 * ?S"
    using assms by (cases "even q") (simp_all add: odd_iff_mod_2_eq_one even_iff_mod_2_eq_zero)
  ultimately show ?thesis by (simp add: staging_buf_def)
qed

lemma staging_apart:
  "q mod 2 \<noteq> r mod 2 \<Longrightarrow> i < STAGING_BUF_SIZE \<Longrightarrow>
     staging_buf (q mod 2) + i < staging_buf (r mod 2) \<or>
     staging_buf (r mod 2) + STAGING_BUF_SIZE \<le> staging_buf (q mod 2) + i"
  by (cases "even q"; cases "even r") (simp_all add: staging_buf_def mod2_eq_if)

lemma set_drop_retire: "set (drop (k - j) (drop j xs)) \<subseteq> set (drop k xs)"
  by (simp add: set_drop_subset_set_drop)

lemma d2h_inv_retire:
  assumes "d2h_inv j H L D M0 g c"
  shows "d2h_inv j H L D M0 g (c\<lparr>mach := retire k (mach c)\<rparr>)"
proof -
  let ?m = "mach c"
  from assms have q: "\<forall>x \<in> set (queue ?m). \<exists>b. is_d2h_into b x" and D: "dev ?m = D"
    by (auto simp: d2h_inv_def)
  then have "\<forall>x \<in> set (take k (queue ?m)). \<exists>b. is_d2h_into b x" by (meson in_set_takeD)
  then have "dev (retire k ?m) = D"
    using D retire_mem [of k ?m] by (metis d2h_only_dev fst_conv)
  with assms set_drop_retire [of "mark ?m" k "queue ?m"] show ?thesis
    by (auto simp: d2h_inv_def stream_pos_def dest: in_set_dropD)
qed

lemma d2h_inv_issue:
  assumes inv: "d2h_inv j H L D M0 g c" and n: "n \<le> STAGING_BUF_SIZE - buf_offset c"
    and src: "\<And>i. i < n \<Longrightarrow> D (d + i) = L (stream_pos c + i)"
  shows "d2h_inv j H L D M0 g (c\<lparr>buf_offset := buf_offset c + n,
           mach := (mach c)\<lparr>queue := queue (mach c) @
             [D2H (staging_buf (current_buf c mod 2) + buf_offset c) d n]\<rparr>\<rparr>)"
proof -
  let ?S = STAGING_BUF_SIZE and ?m = "mach c" and ?b = "current_buf c mod 2"
  let ?x = "D2H (staging_buf ?b + buf_offset c) d n"
  let ?m' = "?m\<lparr>queue := queue ?m @ [?x]\<rparr>"
  have bo: "buf_offset c \<le> ?S" using inv by (simp add: d2h_inv_def)
  have "fst (settled ?m) = D"
    using inv by (auto simp: d2h_inv_def settled_def d2h_only_dev)
  then have new: "snd (settled ?m') = blit (staging_buf ?b + buf_offset c) d n D (snd (settled ?m))"
    unfolding settled_snoc by (cases "settled ?m") simp
  have "snd (settled ?m') (t mod (2 * ?S)) = L t"
    if t: "j * ?S \<le> t" "t < stream_pos c + n" for t
  proof (cases "t < stream_pos c")
    case True
    have "t mod (2 * ?S) < staging_buf ?b + buf_offset c \<or>
        staging_buf ?b + buf_offset c + n \<le> t mod (2 * ?S)"
    proof (cases "current_buf c * ?S \<le> t")
      case True': True
      define i where "i = t - current_buf c * ?S"
      have "i < buf_offset c" "t = current_buf c * ?S + i"
        using True True' by (auto simp: i_def stream_pos_def)
      with bo show ?thesis by (simp add: staging_addr)
    next
      case False
      have p: "current_buf c = Suc j"
      proof (rule ccontr)
        assume "current_buf c \<noteq> Suc j"
        then have "current_buf c = j" using inv by (auto simp: d2h_inv_def)
        with False t(1) show False by simp
      qed
      define i where "i = t - j * ?S"
      have i: "i < ?S" "t = j * ?S + i"
        using False t(1) p by (auto simp: i_def)
      have "j mod 2 \<noteq> ?b" unfolding p by presburger
      from staging_apart [OF this i(1)] i n bo show ?thesis
        by (auto simp: staging_addr)
    qed
    then show ?thesis using inv t True by (simp add: new blit_out d2h_inv_def)
  next
    case False
    define i where "i = t - stream_pos c"
    have i: "i < n" "t = stream_pos c + i" using False t by (auto simp: i_def)
    then have "t mod (2 * ?S) = staging_buf ?b + (buf_offset c + i)"
      using n by (simp add: stream_pos_def add.assoc staging_addr)
    then show ?thesis using i src by (simp add: new blit_in)
  qed
  moreover have x: "is_d2h_into ?b ?x" using n bo by simp
  moreover have "\<forall>y \<in> set (queue ?m'). \<exists>b. is_d2h_into b y"
    using inv x by (auto simp: d2h_inv_def simp del: is_d2h_into.simps)
  moreover have "\<forall>y \<in> set (drop (mark ?m') (queue ?m')). is_d2h_into ?b y"
    using inv x by (auto simp: d2h_inv_def simp del: is_d2h_into.simps dest: in_set_dropD)
  ultimately show ?thesis
    using inv n bo by (simp add: d2h_inv_def stream_pos_def add.assoc)
qed

lemma d2h_inv_step:
  assumes drv: "stream_contract drv" and inv: "d2h_inv j H L D M0 g (c\<lparr>mach := upd (mach c)\<rparr>)"
  shows "\<exists>m. gpu_step drv k upd (mach c) = Inr (0, m) \<and> d2h_inv j H L D M0 g (c\<lparr>mach := m\<rparr>)"
  using d2h_inv_retire [OF inv, of "progress drv k (upd (mach c))"] by (simp add: gpu_step_ok [OF drv])

lemma d2h_inv_record:
  assumes inv: "d2h_inv j H L D M0 g c"
  shows "d2h_inv j H L D M0 g (c\<lparr>mach := (mach c)\<lparr>mark := length (queue (mach c))\<rparr>\<rparr>)"
  using inv by (simp add: d2h_inv_def stream_pos_def)

lemma d2h_drained:
  \<comment> \<open>once the event has completed, the buffer before the current one holds its final bytes\<close>
  assumes inv: "d2h_inv j H L D M0 g c" and cb: "current_buf c = Suc j" and k: "mark (mach c) \<le> k"
    and i: "i < STAGING_BUF_SIZE"
  shows "stg (retire k (mach c)) (staging_buf (j mod 2) + i) = L (j * STAGING_BUF_SIZE + i)"
proof -
  let ?S = STAGING_BUF_SIZE and ?m = "mach c" and ?m' = "retire k (mach c)"
  have "set (drop k (queue ?m)) \<subseteq> set (drop (mark ?m) (queue ?m))"
    by (rule set_drop_subset_set_drop [OF k])
  then have q: "\<forall>x \<in> set (queue ?m'). is_d2h_into (current_buf c mod 2) x"
    using inv by (auto simp: d2h_inv_def)
  have "j mod 2 \<noteq> current_buf c mod 2" unfolding cb by presburger
  note apart = staging_apart [OF this i]
  have "snd (settled ?m') (staging_buf (j mod 2) + i) = stg ?m' (staging_buf (j mod 2) + i)"
    unfolding settled_def by (rule d2h_other_buffer [OF q apart])
  moreover have "snd (settled ?m) ((j * ?S + i) mod (2 * ?S)) = L (j * ?S + i)"
    using inv cb i by (simp add: d2h_inv_def stream_pos_def)
  ultimately show ?thesis by (simp add: staging_addr i)
qed

lemma d2h_drain_ok:
  assumes drv: "stream_contract drv" and inv: "d2h_inv j H L D M0 g c" and cb: "current_buf c = Suc j"
  shows "\<exists>c'. d2h_drain drv c = Inr c' \<and> d2h_inv (Suc j) H L D M0 g c' \<and>
     current_buf c' = current_buf c \<and> buf_offset c' = buf_offset c"
proof -
  let ?S = STAGING_BUF_SIZE
  define k where "k = progress drv SynchronizeEvent (mach c)"
  define m where "m = retire k (mach c)"
  have k: "mark (mach c) \<le> k" using drv by (simp add: stream_contract_def k_def)
  have inv': "d2h_inv j H L D M0 g (c\<lparr>mach := m\<rparr>)"
    unfolding m_def by (rule d2h_inv_retire [OF inv])
  have sh: "shm m = blit H 0 (j * ?S) L M0" and io: "io_offset c = H + j * ?S"
    using inv' by (simp_all add: d2h_inv_def)
  have "blit (H + j * ?S) (staging_buf (j mod 2)) ?S (stg m) (shm m)
      = blit (H + j * ?S) (0 + j * ?S) ?S L (shm m)"
    unfolding m_def by (intro blit_cong) (simp add: d2h_drained [OF inv cb k])
  also have "\<dots> = blit H 0 (Suc j * ?S) L M0"
    unfolding sh by (subst blit_append) (simp add: add.commute)
  finally have e: "d2h_drain drv c = Inr (c\<lparr>io_offset := H + Suc j * ?S,
      mach := m\<lparr>shm := blit H 0 (Suc j * ?S) L M0\<rparr>\<rparr>)" (is "_ = Inr ?c")
    by (simp add: d2h_drain_def synchronizeEvent_def gpu_step_ok [OF drv] cb io m_def k_def
        algebra_simps)
  have "j * ?S \<le> t" if "Suc j * ?S \<le> t" for t using that by simp
  then have "d2h_inv (Suc j) H L D M0 g ?c"
    using inv' cb by (simp add: d2h_inv_def stream_pos_def)
  with e show ?thesis by auto
qed

lemma d2h_rotate_ok:
  assumes drv: "stream_contract drv" and inv: "d2h_inv (current_buf c - 1) H L D M0 g c"
  shows "\<exists>c'. d2h_rotate drv c = Inr c' \<and> d2h_inv (current_buf c' - 1) H L D M0 g c' \<and>
     buf_offset c' < STAGING_BUF_SIZE \<and> stream_pos c' = stream_pos c"
proof (cases "buf_offset c < STAGING_BUF_SIZE")
  case True
  with inv show ?thesis by (simp add: d2h_rotate_def)
next
  case False
  let ?S = STAGING_BUF_SIZE
  have bo: "buf_offset c = ?S" using False inv by (simp add: d2h_inv_def)
  have "\<exists>c1. (if 0 < current_buf c then d2h_drain drv c else Inr c) = Inr c1 \<and>
      d2h_inv (current_buf c) H L D M0 g c1 \<and> current_buf c1 = current_buf c \<and> buf_offset c1 = ?S"
    using d2h_drain_ok [OF drv inv] inv bo by (cases "current_buf c") auto
  then obtain c1 where c1: "(if 0 < current_buf c then d2h_drain drv c else Inr c) = Inr c1"
      "d2h_inv (current_buf c) H L D M0 g c1" "current_buf c1 = current_buf c" "buf_offset c1 = ?S"
    by blast
  obtain m where m: "recordEvent drv (mach c1) = Inr (0, m)" "mark m \<le> length (queue m)"
      "length (queue m) \<le> mark m"
      "d2h_inv (current_buf c) H L D M0 g (c1\<lparr>mach := m\<rparr>)"
    using d2h_inv_retire [OF d2h_inv_record [OF c1(2)]]
    by (simp add: recordEvent_def gpu_step_ok [OF drv])
  let ?c = "c1\<lparr>buf_offset := 0, current_buf := current_buf c1 + 1, mach := m\<rparr>"
  have "d2h_rotate drv c = Inr ?c"
    using bo c1(1) m(1) by (simp add: d2h_rotate_def)
  moreover have "d2h_inv (current_buf c) H L D M0 g ?c"
    using m c1(3,4) by (simp add: d2h_inv_def stream_pos_def add.commute)
  ultimately show ?thesis using c1 bo by (auto simp: stream_pos_def)
qed

section \<open>Chunk policies and the download loop\<close>

locale chunk_policy =
  fixes clamp :: "nat \<Rightarrow> nat \<Rightarrow> nat"
  assumes clamp_pos: "0 < n \<Longrightarrow> 0 < clamp p n"
    and clamp_le: "clamp p n \<le> n"
begin

lemma d2h_loop_ok:
  assumes drv: "stream_contract drv"
  shows "d2h_inv (current_buf c - 1) H L D M0 g c \<Longrightarrow> buf_offset c < STAGING_BUF_SIZE \<Longrightarrow>
     (\<And>i. i < sz \<Longrightarrow> D (d + i) = L (stream_pos c + i)) \<Longrightarrow>
     \<exists>c'. d2h_loop drv clamp d sz c = Inr c' \<and> d2h_inv (current_buf c' - 1) H L D M0 g c' \<and>
       buf_offset c' < STAGING_BUF_SIZE \<and> stream_pos c' = stream_pos c + sz"
proof (induction sz arbitrary: d c rule: less_induct)
  case (less sz)
  show ?case
  proof (cases "sz = 0")
    case True
    with less.prems show ?thesis by (simp add: d2h_loop.simps)
  next
    case False
    define n where "n = clamp d (min sz (STAGING_BUF_SIZE - buf_offset c))"
    have n: "0 < n" "n \<le> sz" "n \<le> STAGING_BUF_SIZE - buf_offset c"
      using clamp_pos clamp_le [of d "min sz (STAGING_BUF_SIZE - buf_offset c)"] False less.prems(2)
      by (auto simp: n_def)
    let ?x = "D2H (staging_buf (current_buf c mod 2) + buf_offset c) d n"
    have "d2h_inv (current_buf c - 1) H L D M0 g (c\<lparr>buf_offset := buf_offset c + n,
        mach := (mach c)\<lparr>queue := queue (mach c) @ [?x]\<rparr>\<rparr>)"
      using less.prems n by (intro d2h_inv_issue) auto
    from d2h_inv_retire [OF this, of "progress drv (MemcpyAsync ?x) ((mach c)\<lparr>queue := queue (mach c) @ [?x]\<rparr>)"]
    obtain m where m: "memcpyAsync drv ?x (mach c) = Inr (0, m)"
      and inv: "d2h_inv (current_buf c - 1) H L D M0 g (c\<lparr>buf_offset := buf_offset c + n, mach := m\<rparr>)"
      by (simp add: memcpyAsync_def gpu_step_ok [OF drv])
    from d2h_rotate_ok [OF drv, of "c\<lparr>buf_offset := buf_offset c + n, mach := m\<rparr>" H L D M0 g] inv
    obtain c1 where c1: "d2h_rotate drv (c\<lparr>buf_offset := buf_offset c + n, mach := m\<rparr>) = Inr c1"
        "d2h_inv (current_buf c1 - 1) H L D M0 g c1" "buf_offset c1 < STAGING_BUF_SIZE"
        "stream_pos c1 = stream_pos c + n"
      by (auto simp: stream_pos_def add.assoc)
    have "D (d + n + i) = L (stream_pos c1 + i)" if "i < sz - n" for i
      using less.prems(3) [of "n + i"] that n by (simp add: c1(4) add.assoc)
    from less.IH [OF _ c1(2,3) this, of "sz - n"] n
    obtain c2 where "d2h_loop drv clamp (d + n) (sz - n) c1 = Inr c2"
        "d2h_inv (current_buf c2 - 1) H L D M0 g c2" "buf_offset c2 < STAGING_BUF_SIZE"
        "stream_pos c2 = stream_pos c1 + (sz - n)"
      by auto
    then show ?thesis
      using False n m c1 by (subst d2h_loop.simps) (simp add: Let_def n_def [symmetric])
  qed
qed

end

interpretation whole: chunk_policy "\<lambda>_ n. n"
  by unfold_locales auto

interpretation granule: chunk_policy granule_clamp
  by unfold_locales (simp_all add: granule_clamp_le granule_clamp_pos)

section \<open>Uploads\<close>

definition h2d_inv :: "nat \<Rightarrow> mem \<Rightarrow> mem \<Rightarrow> 'g \<Rightarrow> 'g cursor \<Rightarrow> bool" where
  \<comment> \<open>\<open>M\<close> is the checkpoint buffer, in use up to \<open>E\<close>; \<open>X\<close> is device memory once every
     upload issued so far has completed\<close>
  "h2d_inv E M X g c \<longleftrightarrow>
     buf_offset c \<le> STAGING_BUF_SIZE \<and> io_offset c \<le> E \<and>
     shm (mach c) = M \<and> gst (mach c) = g \<and> fst (settled (mach c)) = X \<and>
     (\<forall>x \<in> set (queue (mach c)). \<exists>b. is_h2d_from b x) \<and>
     (\<forall>x \<in> set (drop (mark (mach c)) (queue (mach c))). is_h2d_from (current_buf c mod 2) x) \<and>
     (\<forall>i < min (E - io_offset c) STAGING_BUF_SIZE.
        stg (mach c) (staging_buf (current_buf c mod 2) + i) = M (io_offset c + i))"

lemma h2d_inv_retire:
  assumes "h2d_inv E M X g c"
  shows "h2d_inv E M X g (c\<lparr>mach := retire k (mach c)\<rparr>)"
proof -
  let ?m = "mach c"
  from assms have "\<forall>x \<in> set (take k (queue ?m)). \<exists>b. is_h2d_from b x"
    by (auto simp: h2d_inv_def dest: in_set_takeD)
  then have "stg (retire k ?m) = stg ?m"
    using retire_mem [of k ?m] by (metis h2d_only_stg snd_conv)
  with assms set_drop_retire [of "mark ?m" k "queue ?m"] show ?thesis
    by (auto simp: h2d_inv_def dest: in_set_dropD)
qed

lemma h2d_inv_issue:
  assumes inv: "h2d_inv E M X g c" and n: "n \<le> STAGING_BUF_SIZE - buf_offset c"
    and E: "io_offset c + buf_offset c + n \<le> E"
  shows "h2d_inv E M (blit req (io_offset c + buf_offset c) n M X) g (c\<lparr>buf_offset := buf_offset c + n,
           mach := (mach c)\<lparr>queue := queue (mach c) @
             [H2D req (staging_buf (current_buf c mod 2) + buf_offset c) n]\<rparr>\<rparr>)"
proof -
  let ?S = STAGING_BUF_SIZE and ?m = "mach c" and ?b = "current_buf c mod 2"
  let ?x = "H2D req (staging_buf ?b + buf_offset c) n"
  let ?m' = "?m\<lparr>queue := queue ?m @ [?x]\<rparr>"
  have bo: "buf_offset c \<le> ?S" using inv by (simp add: h2d_inv_def)
  have st: "snd (settled ?m) = stg ?m"
    using inv by (auto simp: h2d_inv_def settled_def h2d_only_stg)
  have "blit req (staging_buf ?b + buf_offset c) n (stg ?m) X = blit req (io_offset c + buf_offset c) n M X"
  proof (rule blit_cong)
    fix i assume "i < n"
    then have "buf_offset c + i < min (E - io_offset c) ?S" using n E bo by auto
    then show "stg ?m (staging_buf ?b + buf_offset c + i) = M (io_offset c + buf_offset c + i)"
      using inv by (simp add: h2d_inv_def add.assoc)
  qed
  moreover have "fst (settled ?m) = X" using inv by (simp add: h2d_inv_def)
  ultimately have "fst (settled ?m') = blit req (io_offset c + buf_offset c) n M X"
    using st unfolding settled_snoc by (cases "settled ?m") simp
  moreover have x: "is_h2d_from ?b ?x" using n bo by simp
  moreover have "\<forall>y \<in> set (queue ?m'). \<exists>b. is_h2d_from b y"
    using inv x by (auto simp: h2d_inv_def simp del: is_h2d_from.simps)
  moreover have "\<forall>y \<in> set (drop (mark ?m') (queue ?m')). is_h2d_from ?b y"
    using inv x by (auto simp: h2d_inv_def simp del: is_h2d_from.simps dest: in_set_dropD)
  ultimately show ?thesis
    using inv n bo by (simp add: h2d_inv_def)
qed

lemma h2d_refill:
  \<comment> \<open>writing the other staging buffer does not change what pending uploads deliver\<close>
  assumes q: "\<forall>x \<in> set (queue m). is_h2d_from (b mod 2) x"
    and same: "\<And>a. a < staging_buf (Suc b mod 2) \<or> staging_buf (Suc b mod 2) + STAGING_BUF_SIZE \<le> a \<Longrightarrow>
        st a = stg m a"
  shows "fst (settled (m\<lparr>stg := st\<rparr>)) = fst (settled m)"
proof -
  have "st a = stg m a" if a: "staging_buf (b mod 2) \<le> a" "a < staging_buf (b mod 2) + STAGING_BUF_SIZE" for a
  proof -
    define i where "i = a - staging_buf (b mod 2)"
    have i: "i < STAGING_BUF_SIZE" "a = staging_buf (b mod 2) + i" using a by (auto simp: i_def)
    have "b mod 2 \<noteq> Suc b mod 2" by presburger
    from staging_apart [OF this i(1)] show ?thesis unfolding i(2) by (intro same)
  qed
  then show ?thesis using h2d_reads_only [OF q, of st "stg m" "dev m"] by (simp add: settled_def)
qed

lemma h2d_rotate_ok:
  assumes drv: "stream_contract drv" and inv: "h2d_inv E M X g c" and E: "E < 2 ^ 64"
    and pos: "io_offset c + buf_offset c \<le> E"
  shows "\<exists>c'. h2d_rotate drv E c = Inr c' \<and> h2d_inv E M X g c' \<and>
     buf_offset c' < STAGING_BUF_SIZE \<and> io_offset c' + buf_offset c' = io_offset c + buf_offset c"
proof (cases "buf_offset c < STAGING_BUF_SIZE")
  case True
  with inv show ?thesis by (simp add: h2d_rotate_def)
next
  case False
  let ?S = STAGING_BUF_SIZE
  have bo: "buf_offset c = ?S" using False inv by (simp add: h2d_inv_def)
  define k where "k = progress drv SynchronizeEvent (mach c)"
  define m where "m = retire k (mach c)"
  have k: "mark (mach c) \<le> k" using drv by (simp add: stream_contract_def k_def)
  have inv1: "h2d_inv E M X g (c\<lparr>mach := m\<rparr>)"
    unfolding m_def by (rule h2d_inv_retire [OF inv])
  have "set (drop k (queue (mach c))) \<subseteq> set (drop (mark (mach c)) (queue (mach c)))"
    by (rule set_drop_subset_set_drop [OF k])
  then have q: "\<forall>x \<in> set (queue m). is_h2d_from (current_buf c mod 2) x"
    using inv by (auto simp: h2d_inv_def m_def)
  let ?o = "io_offset c + ?S"
  define st where "st = blit (staging_buf (Suc (current_buf c) mod 2)) ?o (min (E - ?o) ?S) M (stg m)"
  define m1 where "m1 = m\<lparr>stg := st\<rparr>"
  have X: "fst (settled m1) = X"
    unfolding m1_def
    by (rule trans [OF h2d_refill [OF q]]) (use inv1 in \<open>auto simp: st_def blit_out h2d_inv_def\<close>)
  let ?c = "c\<lparr>io_offset := ?o, buf_offset := 0, current_buf := current_buf c + 1,
      mach := m1\<lparr>mark := length (queue m1)\<rparr>\<rparr>"
  have "h2d_inv E M X g ?c"
    using inv1 X q pos bo by (auto simp: h2d_inv_def m1_def st_def blit_in)
  from h2d_inv_retire [OF this, of "progress drv RecordEvent (m1\<lparr>mark := length (queue m1)\<rparr>)"]
  obtain m2 where m2: "recordEvent drv m1 = Inr (0, m2)"
      "h2d_inv E M X g (c\<lparr>io_offset := ?o, buf_offset := 0, current_buf := current_buf c + 1, mach := m2\<rparr>)"
    by (simp add: recordEvent_def gpu_step_ok [OF drv])
  have "shm m = M" using inv1 by (simp add: h2d_inv_def)
  then have "h2d_fill (current_buf c + 1) E (c\<lparr>io_offset := ?o\<rparr>) m = m1"
    using E pos bo by (simp add: h2d_fill_def m1_def st_def u64_simps)
  then have "h2d_rotate drv E c =
      Inr (c\<lparr>io_offset := ?o, buf_offset := 0, current_buf := current_buf c + 1, mach := m2\<rparr>)"
    using bo m2(1) by (simp add: h2d_rotate_def Let_def synchronizeEvent_def gpu_step_ok [OF drv]
        k_def [symmetric] m_def [symmetric])
  with m2(2) bo show ?thesis by simp
qed

context chunk_policy
begin

lemma h2d_loop_ok:
  assumes drv: "stream_contract drv" and E: "E < 2 ^ 64"
  shows "h2d_inv E M X g c \<Longrightarrow> buf_offset c < STAGING_BUF_SIZE \<Longrightarrow>
     off = io_offset c + buf_offset c \<Longrightarrow> off + sz \<le> E \<Longrightarrow>
     \<exists>c'. h2d_loop drv clamp E req off sz c = Inr c' \<and> h2d_inv E M (blit req off sz M X) g c' \<and>
       buf_offset c' < STAGING_BUF_SIZE \<and> io_offset c' + buf_offset c' = off + sz"
proof (induction sz arbitrary: req off X c rule: less_induct)
  case (less sz)
  show ?case
  proof (cases "sz = 0")
    case True
    with less.prems show ?thesis by (simp add: h2d_loop.simps)
  next
    case False
    define n where "n = clamp req (min sz (STAGING_BUF_SIZE - buf_offset c))"
    have n: "0 < n" "n \<le> sz" "n \<le> STAGING_BUF_SIZE - buf_offset c"
      using clamp_pos clamp_le [of req "min sz (STAGING_BUF_SIZE - buf_offset c)"] False less.prems(2)
      by (auto simp: n_def)
    have sub: "u64_sub off (io_offset c) = buf_offset c"
      using less.prems(3,4) E by (simp add: u64_simps)
    let ?x = "H2D req (staging_buf (current_buf c mod 2) + buf_offset c) n"
    have "h2d_inv E M (blit req off n M X) g (c\<lparr>buf_offset := buf_offset c + n,
        mach := (mach c)\<lparr>queue := queue (mach c) @ [?x]\<rparr>\<rparr>)"
      unfolding less.prems(3) using less.prems n by (intro h2d_inv_issue) auto
    from h2d_inv_retire [OF this, of "progress drv (MemcpyAsync ?x) ((mach c)\<lparr>queue := queue (mach c) @ [?x]\<rparr>)"]
    obtain m where m: "memcpyAsync drv ?x (mach c) = Inr (0, m)"
      and inv: "h2d_inv E M (blit req off n M X) g (c\<lparr>buf_offset := buf_offset c + n, mach := m\<rparr>)"
      by (simp add: memcpyAsync_def gpu_step_ok [OF drv])
    from h2d_rotate_ok [OF drv inv E] less.prems n
    obtain c1 where c1: "h2d_rotate drv E (c\<lparr>buf_offset := buf_offset c + n, mach := m\<rparr>) = Inr c1"
        "h2d_inv E M (blit req off n M X) g c1" "buf_offset c1 < STAGING_BUF_SIZE"
        "io_offset c1 + buf_offset c1 = off + n"
      by (auto simp: add.assoc)
    from less.IH [OF _ c1(2,3), of "sz - n" "off + n" "req + n"] n c1(4) less.prems(4)
    obtain c2 where "h2d_loop drv clamp E (req + n) (off + n) (sz - n) c1 = Inr c2"
        "h2d_inv E M (blit (req + n) (off + n) (sz - n) M (blit req off n M X)) g c2"
        "buf_offset c2 < STAGING_BUF_SIZE" "io_offset c2 + buf_offset c2 = off + sz"
      by auto
    then show ?thesis
      using False n m c1 sub
      by (subst h2d_loop.simps) (simp add: Let_def n_def [symmetric] blit_append)
  qed
qed

end

section \<open>Properties\<close>

text \<open>C22: the multi-threaded copy writes exactly what one \<open>memcpy\<close> of the whole range would, whatever
  the order in which its threads run, and every thread copies a part of the range.\<close>

theorem memcpy_multi_any_order:
  assumes "mset cs = mset (memcpy_chunks n)"
  shows "run_chunks dst src from cs to = blit dst src n from to \<and> memcpy_multi dst src n from to = blit dst src n from to \<and>
    (\<forall>(off, k) \<in> set cs. 0 < k \<and> off + k \<le> n) \<and> length cs \<le> NUM_COPY_THREADS"
proof -
  have s: "set cs = set (memcpy_chunks n)" using assms by (metis set_mset_mset)
  have "0 < k \<and> off + k \<le> n" if "(off, k) \<in> set (memcpy_chunks n)" for off k
  proof -
    define q where "q = (n + NUM_COPY_THREADS - 1) div NUM_COPY_THREADS"
    from that obtain i where i: "i * q < n" "off = i * q" "k = min q (n - i * q)"
      by (auto simp: memcpy_chunks_def Let_def set_takeWhile_upt q_def)
    then have "0 < q" by (cases q) (auto simp: q_def NUM_COPY_THREADS_def div_eq_0_iff)
    with i show ?thesis by auto
  qed
  moreover have "length cs = length (memcpy_chunks n)" using assms by (metis size_mset)
  moreover have "length (memcpy_chunks n) \<le> NUM_COPY_THREADS"
    by (simp add: memcpy_chunks_def Let_def) (metis (no_types, lifting) length_takeWhile_le length_upt minus_nat.diff_0)
  ultimately show ?thesis using memcpy_chunks_perm [OF s] s by auto
qed

theorem memcpy_multi_any_order_witness:
  "run_chunks 100 0 word_of_nat [(6, 2), (0, 2), (4, 2), (2, 2)] (\<lambda>_. 0) = blit 100 0 8 word_of_nat (\<lambda>_. 0)"
proof -
  have "mset [(6, 2), (0, 2), (4, 2), (2, 2)] = mset (memcpy_chunks 8)"
    by (simp add: memcpy_chunks_def NUM_COPY_THREADS_def upt_rec)
  from memcpy_multi_any_order [OF this] show ?thesis by simp
qed

end
