(* ===== verification/Checkpoint.thy ===== *)
theory Checkpoint
  imports Data_Path
begin

text \<open>
  Checkpoint and restore of one worker (\<open>src/vGPU.cpp\<close>): \<open>ckpt\<close>, \<open>ckpt_selective\<close>,
  \<open>restore_ptr_and_content\<close> and \<open>restore_ptr_and_content_selective\<close>.  The GPU backend is a
  record of the virtual methods of \<open>GPUs/GPU.h\<close> the code calls on allocations; the locale
  \<open>gpu_backend\<close> states what they promise, and the backends interpret it.  Every \<open>exit(-1)\<close> and
  failing \<open>assert\<close> is an \<open>exit_reason\<close>.  The abstract contract is \<open>lay_out\<close> (where a checkpoint
  puts each allocation), \<open>stream_of\<close> (the bytes it writes) and \<open>write_back\<close> (what a restore
  writes to device memory).
\<close>

section \<open>The GPU interface\<close>

record 'g GPU =
  allocated_memory :: "'g \<Rightarrow> (nat \<times> nat) list" \<comment> \<open>\<open>std::map<void*, size_t>\<close>\<close>
  releasePhysicalMemory :: "nat \<Rightarrow> 'g machine \<Rightarrow> exit_reason + int \<times> 'g machine"
  remapPhysicalMemory :: "nat \<Rightarrow> nat \<Rightarrow> 'g machine \<Rightarrow> exit_reason + int \<times> 'g machine"

type_synonym 'g worker = "shared_mem_fs \<times> 'g machine"

section \<open>Checkpoint\<close>

definition record_file :: "nat \<Rightarrow> nat \<Rightarrow> shared_mem_fs \<Rightarrow> exit_reason + shared_mem_fs" where
  "record_file d sz fs =
     (let fs1 = fs\<lparr>files := (files fs)(file_num fs := \<lparr>ptr = d, start_offset = current_offset fs, size = sz\<rparr>),
                   current_offset := u64_add (current_offset fs) sz\<rparr>
      in if SHM_SIZE < current_offset fs1 then Inl NoSpace
         else let fs2 = fs1\<lparr>file_num := file_num fs1 + 1\<rparr>
              in if MAX_FILE_NUM \<le> file_num fs2 then Inl TooManyFiles else Inr fs2)"

definition open_stream :: "'g driver \<Rightarrow> 'g machine \<Rightarrow> exit_reason + 'g machine" where
  "open_stream drv m =
     rbind (createStream drv m) (\<lambda>(r, m1). if r \<noteq> 0 then Inl StreamCreateFailed
       else rbind (createEvent drv m1) (\<lambda>(r, m2). if r \<noteq> 0 then Inl EventCreateFailed
         else rbind (recordEvent drv m2) (\<lambda>(_, m3). Inr m3)))"

fun save_blocks ::
    "'g driver \<Rightarrow> (nat \<Rightarrow> nat \<Rightarrow> nat) \<Rightarrow> (nat \<times> nat) list \<Rightarrow> shared_mem_fs \<Rightarrow> 'g cursor \<Rightarrow>
     exit_reason + shared_mem_fs \<times> 'g cursor" where
  "save_blocks drv clamp [] fs c = Inr (fs, c)"
| "save_blocks drv clamp ((d, sz) # es) fs c =
     rbind (record_file d sz fs) (\<lambda>fs'.
     rbind (d2h_loop drv clamp d sz c) (\<lambda>c'. save_blocks drv clamp es fs' c'))"

definition save_tail :: "'g driver \<Rightarrow> shared_mem_fs \<Rightarrow> 'g cursor \<Rightarrow> exit_reason + 'g machine" where
  "save_tail drv fs c =
     rbind (if 0 < current_buf c then d2h_drain drv c else Inr c) (\<lambda>c1.
     rbind (synchronizeStream drv (mach c1)) (\<lambda>(_, m).
     let m1 = m\<lparr>shm := memcpy_multi (io_offset c1) (staging_buf (current_buf c1 mod 2))
                          (buf_offset c1) (stg m) (shm m)\<rparr>
     in if io_offset c1 + buf_offset c1 \<noteq> current_offset fs then Inl AssertFailed
        else rbind (destroyStream drv m1) (\<lambda>(_, m2).
             rbind (destroyEvent drv m2) (\<lambda>(_, m3). Inr m3))))"

fun release_all :: "'g GPU \<Rightarrow> nat list \<Rightarrow> 'g machine \<Rightarrow> exit_reason + 'g machine" where
  "release_all gpu [] m = Inr m"
| "release_all gpu (p # ps) m = rbind (releasePhysicalMemory gpu p m) (\<lambda>(r, m').
     if r \<noteq> 0 then Inl (ReleaseFailed p) else release_all gpu ps m')"

definition save_image ::
    "'g driver \<Rightarrow> (nat \<Rightarrow> nat \<Rightarrow> nat) \<Rightarrow> (nat \<times> nat) list \<Rightarrow> 'g worker \<Rightarrow> exit_reason + 'g worker" where
  \<comment> \<open>the common part of the two checkpoints, up to the destruction of the stream\<close>
  "save_image drv clamp es w =
     (case w of (fs, m) \<Rightarrow>
        rbind (open_stream drv m) (\<lambda>m1.
        rbind (save_blocks drv clamp es (fs_reset fs)
                 \<lparr>current_buf = 0, buf_offset = 0, io_offset = fs_data_start, mach = m1\<rparr>) (\<lambda>(fs', c).
        rbind (save_tail drv fs' c) (\<lambda>m2. Inr (fs', m2)))))"

definition rounded :: "(nat \<times> nat) list \<Rightarrow> (nat \<times> nat) list" where
  "rounded es = map (\<lambda>(p, sz). (p, round_up_2mb sz)) es"

definition ckpt :: "'g driver \<Rightarrow> 'g GPU \<Rightarrow> 'g worker \<Rightarrow> exit_reason + 'g worker \<times> nat" where
  "ckpt drv gpu w =
     (let es = rounded (allocated_memory gpu (gst (snd w)))
      in rbind (save_image drv (\<lambda>_ n. n) es w) (\<lambda>(fs', m).
         rbind (release_all gpu (map fst (allocated_memory gpu (gst m))) m) (\<lambda>m'.
         Inr ((fs', m'), sum_list (map snd es)))))"

fun find_containing_allocation :: "(nat \<times> nat) list \<Rightarrow> nat \<Rightarrow> (nat \<times> nat) option" where
  "find_containing_allocation [] p = None"
| "find_containing_allocation ((base, sz) # es) p =
     (if base \<le> p \<and> p < base + sz then Some (base, sz) else find_containing_allocation es p)"

fun blocks_to_snapshot :: "(nat \<times> nat) list \<Rightarrow> nat list \<Rightarrow> nat list \<Rightarrow> nat list" where
  "blocks_to_snapshot alloc [] bs = bs"
| "blocks_to_snapshot alloc (p # ps) bs =
     (case find_containing_allocation alloc p of
        Some (base, _) \<Rightarrow> blocks_to_snapshot alloc ps (oset_insert base bs)
      | None \<Rightarrow> blocks_to_snapshot alloc ps bs)"

fun block_sizes :: "(nat \<times> nat) list \<Rightarrow> nat list \<Rightarrow> exit_reason + (nat \<times> nat) list" where
  \<comment> \<open>\<open>allocated_memory.find(base_ptr)\<close> and its assert, for every block in order\<close>
  "block_sizes alloc [] = Inr []"
| "block_sizes alloc (b # bs) = (case map_of alloc b of None \<Rightarrow> Inl AssertFailed
     | Some sz \<Rightarrow> rbind (block_sizes alloc bs) (\<lambda>es. Inr ((b, sz) # es)))"

definition ckpt_selective ::
    "'g driver \<Rightarrow> 'g GPU \<Rightarrow> nat list \<Rightarrow> 'g worker \<Rightarrow> exit_reason + 'g worker \<times> nat" where
  "ckpt_selective drv gpu regions w =
     (let alloc = allocated_memory gpu (gst (snd w))
      in rbind (block_sizes alloc (blocks_to_snapshot alloc regions [])) (\<lambda>es.
         rbind (save_image drv granule_clamp es w) (\<lambda>(fs', m).
         rbind (release_all gpu (map ptr (file_list fs')) m) (\<lambda>m'.
         Inr ((fs', m'), sum_list (map snd es))))))"

section \<open>Restore\<close>

fun remap_all :: "'g GPU \<Rightarrow> shared_mem_file list \<Rightarrow> 'g machine \<Rightarrow> exit_reason + 'g machine" where
  "remap_all gpu [] m = Inr m"
| "remap_all gpu (f # fl) m = rbind (remapPhysicalMemory gpu (ptr f) (size f) m) (\<lambda>(r, m').
     if r \<noteq> 0 then Inl (RemapFailed (ptr f)) else remap_all gpu fl m')"

definition first_fill :: "nat \<Rightarrow> shared_mem_file \<Rightarrow> 'g cursor \<Rightarrow> 'g cursor" where
  "first_fill cur_off f c =
     (let c1 = c\<lparr>io_offset := start_offset f\<rparr>
      in c1\<lparr>buf_offset := 0, mach := h2d_fill (current_buf c1) cur_off c1 (mach c1)\<rparr>)"

fun load_files ::
    "'g driver \<Rightarrow> (nat \<Rightarrow> nat \<Rightarrow> nat) \<Rightarrow> nat \<Rightarrow> nat \<Rightarrow> shared_mem_file list \<Rightarrow> 'g cursor \<Rightarrow>
     exit_reason + 'g cursor" where
  "load_files drv clamp cur_off i [] c = Inr c"
| "load_files drv clamp cur_off i (f # fl) c =
     rbind (h2d_loop drv clamp cur_off (ptr f) (start_offset f) (size f)
              (if i = 0 then first_fill cur_off f c else c)) (\<lambda>c'.
     load_files drv clamp cur_off (i + 1) fl c')"

definition load_image ::
    "'g driver \<Rightarrow> 'g GPU \<Rightarrow> (nat \<Rightarrow> nat \<Rightarrow> nat) \<Rightarrow> 'g worker \<Rightarrow> exit_reason + 'g machine \<times> nat" where
  "load_image drv gpu clamp w =
     (case w of (fs, m) \<Rightarrow>
        rbind (remap_all gpu (file_list fs) m) (\<lambda>m1.
        rbind (open_stream drv m1) (\<lambda>m2.
        rbind (load_files drv clamp (current_offset fs) 0 (file_list fs)
                 \<lparr>current_buf = 0, buf_offset = 0, io_offset = 0, mach = m2\<rparr>) (\<lambda>c.
        rbind (synchronizeStream drv (mach c)) (\<lambda>(_, m3).
        rbind (destroyStream drv m3) (\<lambda>(_, m4).
        rbind (destroyEvent drv m4) (\<lambda>(_, m5).
        Inr (m5, sum_list (map size (file_list fs))))))))))"

definition restore_ptr_and_content ::
    "'g driver \<Rightarrow> 'g GPU \<Rightarrow> 'g worker \<Rightarrow> exit_reason + 'g machine \<times> nat" where
  "restore_ptr_and_content drv gpu w = load_image drv gpu (\<lambda>_ n. n) w"

definition restore_ptr_and_content_selective ::
    "'g driver \<Rightarrow> 'g GPU \<Rightarrow> 'g worker \<Rightarrow> exit_reason + 'g machine \<times> nat" where
  "restore_ptr_and_content_selective drv gpu w = load_image drv gpu granule_clamp w"

section \<open>The contract\<close>

abbreviation total :: "(nat \<times> nat) list \<Rightarrow> nat" where
  "total es \<equiv> sum_list (map snd es)"

fun stream_of :: "mem \<Rightarrow> (nat \<times> nat) list \<Rightarrow> mem" where
  \<comment> \<open>the contents of the blocks, one after the other\<close>
  "stream_of D [] t = 0"
| "stream_of D ((d, sz) # es) t = (if t < sz then D (d + t) else stream_of D es (t - sz))"

fun lay_out :: "nat \<Rightarrow> (nat \<times> nat) list \<Rightarrow> shared_mem_file list" where
  "lay_out off [] = []"
| "lay_out off ((d, sz) # es) = \<lparr>ptr = d, start_offset = off, size = sz\<rparr> # lay_out (off + sz) es"

definition fits :: "(nat \<times> nat) list \<Rightarrow> bool" where
  "fits es \<longleftrightarrow> fs_data_start + total es \<le> SHM_SIZE \<and> length es < MAX_FILE_NUM"

definition write_back :: "shared_mem_file list \<Rightarrow> mem \<Rightarrow> mem \<Rightarrow> mem" where
  "write_back fl M = fold (\<lambda>f. blit (ptr f) (start_offset f) (size f) M) fl"

definition covered :: "(nat \<times> nat) list \<Rightarrow> nat set" where
  "covered es = (\<Union>(p, sz) \<in> set es. {p..<p + sz})"

section \<open>Saving blocks\<close>

lemma file_list_record:
  assumes "current_offset fs + sz \<le> SHM_SIZE" "Suc (file_num fs) < MAX_FILE_NUM"
  shows "\<exists>fs'. record_file d sz fs = Inr fs' \<and> current_offset fs' = current_offset fs + sz \<and>
     file_num fs' = Suc (file_num fs) \<and>
     file_list fs' = file_list fs @ [\<lparr>ptr = d, start_offset = current_offset fs, size = sz\<rparr>]"
proof -
  have "current_offset fs + sz < 2 ^ 64" using assms(1) SHM_SIZE_lt by linarith
  then show ?thesis
    using assms by (simp add: record_file_def Let_def u64_simps file_list_def)
qed

lemma record_file_err:
  assumes "current_offset fs + sz < 2 ^ 64"
    "SHM_SIZE < current_offset fs + sz \<or> MAX_FILE_NUM \<le> Suc (file_num fs)"
  shows "record_file d sz fs = Inl NoSpace \<or> record_file d sz fs = Inl TooManyFiles"
  using assms by (auto simp: record_file_def Let_def u64_simps)

context chunk_policy
begin

lemma save_blocks_ok:
  assumes drv: "stream_contract drv"
  shows "d2h_inv (current_buf c - 1) H L D M0 g c \<Longrightarrow> buf_offset c < STAGING_BUF_SIZE \<Longrightarrow>
    current_offset fs = H + stream_pos c \<Longrightarrow>
    (\<And>t. t < total es \<Longrightarrow> L (stream_pos c + t) = stream_of D es t) \<Longrightarrow>
    H + stream_pos c + total es \<le> SHM_SIZE \<Longrightarrow> file_num fs + length es < MAX_FILE_NUM \<Longrightarrow>
    \<exists>fs' c'. save_blocks drv clamp es fs c = Inr (fs', c') \<and>
      d2h_inv (current_buf c' - 1) H L D M0 g c' \<and> stream_pos c' = stream_pos c + total es \<and>
      current_offset fs' = H + stream_pos c' \<and> file_num fs' = file_num fs + length es \<and>
      file_list fs' = file_list fs @ lay_out (H + stream_pos c) es"
proof (induction es arbitrary: fs c)
  case (Cons e es)
  obtain d sz where e: "e = (d, sz)" by fastforce
  obtain fs1 where fs1: "record_file d sz fs = Inr fs1" "current_offset fs1 = current_offset fs + sz"
      "file_num fs1 = Suc (file_num fs)"
      "file_list fs1 = file_list fs @ [\<lparr>ptr = d, start_offset = current_offset fs, size = sz\<rparr>]"
    using file_list_record [of fs sz d] Cons.prems by (auto simp: e)
  have "D (d + i) = L (stream_pos c + i)" if "i < sz" for i
    using Cons.prems(4) [of i] that by (simp add: e)
  from d2h_loop_ok [OF drv Cons.prems(1,2) this]
  obtain c1 where c1: "d2h_loop drv clamp d sz c = Inr c1" "d2h_inv (current_buf c1 - 1) H L D M0 g c1"
      "buf_offset c1 < STAGING_BUF_SIZE" "stream_pos c1 = stream_pos c + sz"
    by blast
  have "L (stream_pos c1 + t) = stream_of D es t" if "t < total es" for t
    using Cons.prems(4) [of "sz + t"] that by (simp add: e c1(4) add.assoc)
  from Cons.IH [OF c1(2,3) _ this, of fs1] fs1 c1 Cons.prems
  show ?case by (auto simp: e add.assoc)
qed simp

end

lemma d2h_inv_synced:
  \<comment> \<open>once the stream is idle, the current buffer holds the rest of the byte stream\<close>
  assumes inv: "d2h_inv (current_buf c) H L D M0 g c" and q: "queue (mach c) = []"
    and i: "i < buf_offset c"
  shows "stg (mach c) (staging_buf (current_buf c mod 2) + i) = L (current_buf c * STAGING_BUF_SIZE + i)"
proof -
  have "i < STAGING_BUF_SIZE" using inv i by (simp add: d2h_inv_def)
  note staging_addr [OF this, of "current_buf c"]
  moreover have "snd (settled (mach c)) ((current_buf c * STAGING_BUF_SIZE + i) mod (2 * STAGING_BUF_SIZE))
      = L (current_buf c * STAGING_BUF_SIZE + i)"
    using inv i by (simp add: d2h_inv_def stream_pos_def)
  ultimately show ?thesis by (simp add: settled_done [OF q])
qed

lemma destroy_ok:
  assumes "stream_contract drv" "queue m = []"
  shows "\<exists>m2 m3. destroyStream drv m = Inr (0, m2) \<and> destroyEvent drv m2 = Inr (0, m3) \<and>
     dev m3 = dev m \<and> stg m3 = stg m \<and> shm m3 = shm m \<and> gst m3 = gst m \<and> queue m3 = []"
proof -
  have r: "queue (retire k m') = [] \<and> dev (retire k m') = dev m' \<and> stg (retire k m') = stg m'"
    if "queue m' = []" for k and m' :: "'a machine"
    using that by (simp add: retire_def)
  show ?thesis
    using assms(2) by (simp add: gpu_ops_defs gpu_step_ok [OF assms(1)] r)
qed

lemma synchronizeStream_ok:
  assumes "stream_contract drv"
  shows "\<exists>m'. synchronizeStream drv m = Inr (0, m') \<and> m' = retire (progress drv SynchronizeStream m) m \<and>
    queue m' = []"
  using assms by (auto simp: synchronizeStream_def gpu_step_ok stream_contract_def)

lemma save_tail_ok:
  assumes drv: "stream_contract drv" and inv: "d2h_inv (current_buf c - 1) H L D M0 g c"
    and off: "current_offset fs = H + stream_pos c"
  shows "\<exists>m. save_tail drv fs c = Inr m \<and> dev m = D \<and> gst m = g \<and> queue m = [] \<and>
     shm m = blit H 0 (stream_pos c) L M0"
proof -
  let ?S = STAGING_BUF_SIZE
  have "\<exists>c1. (if 0 < current_buf c then d2h_drain drv c else Inr c) = Inr c1 \<and>
      d2h_inv (current_buf c) H L D M0 g c1 \<and> current_buf c1 = current_buf c \<and> buf_offset c1 = buf_offset c"
    using d2h_drain_ok [OF drv inv] inv by (cases "current_buf c") auto
  then obtain c1 where c1: "(if 0 < current_buf c then d2h_drain drv c else Inr c) = Inr c1"
      "d2h_inv (current_buf c) H L D M0 g c1" "current_buf c1 = current_buf c" "buf_offset c1 = buf_offset c"
    by blast
  obtain m where m: "synchronizeStream drv (mach c1) = Inr (0, m)"
      "m = retire (progress drv SynchronizeStream (mach c1)) (mach c1)" "queue m = []"
    using synchronizeStream_ok [OF drv] by blast
  have inv1: "d2h_inv (current_buf c) H L D M0 g (c1\<lparr>mach := m\<rparr>)"
    unfolding m(2) by (rule d2h_inv_retire [OF c1(2)])
  then have io: "io_offset c1 = H + current_buf c * ?S"
    and sh: "shm m = blit H 0 (current_buf c * ?S) L M0" and D: "dev m = D" "gst m = g"
    by (simp_all add: d2h_inv_def)
  have "blit (io_offset c1) (staging_buf (current_buf c mod 2)) (buf_offset c) (stg m) (shm m)
      = blit (H + current_buf c * ?S) (0 + current_buf c * ?S) (buf_offset c) L (shm m)"
    unfolding io
    by (intro blit_cong) (use d2h_inv_synced [of "c1\<lparr>mach := m\<rparr>"] inv1 m(3) c1(3,4) in simp)
  also have "\<dots> = blit H 0 (stream_pos c) L M0"
    unfolding sh stream_pos_def by (rule blit_append)
  finally have sh': "blit (io_offset c1) (staging_buf (current_buf c mod 2)) (buf_offset c) (stg m) (shm m)
      = blit H 0 (stream_pos c) L M0" .
  obtain m2 m3 where m23: "destroyStream drv (m\<lparr>shm := blit H 0 (stream_pos c) L M0\<rparr>) = Inr (0, m2)"
      "destroyEvent drv m2 = Inr (0, m3)" "dev m3 = D" "gst m3 = g" "queue m3 = []"
      "shm m3 = blit H 0 (stream_pos c) L M0"
    using destroy_ok [OF drv, of "m\<lparr>shm := blit H 0 (stream_pos c) L M0\<rparr>"] m(3) D by auto
  have "io_offset c1 + buf_offset c1 = current_offset fs"
    using off io c1 by (simp add: stream_pos_def)
  then have "save_tail drv fs c = Inr m3"
    unfolding save_tail_def c1(1) by (simp add: m(1) c1(3,4) sh' m23(1,2))
  with m23 show ?thesis by blast
qed

lemma open_stream_ok:
  assumes drv: "stream_contract drv"
  shows "\<exists>m'. open_stream drv m = Inr m' \<and> dev m' = dev m \<and> stg m' = stg m \<and> shm m' = shm m \<and>
     gst m' = gst m \<and> queue m' = [] \<and> mark m' = 0"
  by (simp add: open_stream_def gpu_ops_defs gpu_step_ok [OF drv] retire_def)

context chunk_policy
begin

lemma save_image_ok:
  assumes drv: "stream_contract drv" and "fits es"
  shows "\<exists>fs' m'. save_image drv clamp es (fs, m) = Inr (fs', m') \<and>
     file_list fs' = lay_out fs_data_start es \<and> current_offset fs' = fs_data_start + total es \<and>
     shm m' = blit fs_data_start 0 (total es) (stream_of (dev m) es) (shm m) \<and>
     dev m' = dev m \<and> gst m' = gst m \<and> queue m' = []"
proof -
  obtain m1 where m1: "open_stream drv m = Inr m1" "dev m1 = dev m" "shm m1 = shm m" "gst m1 = gst m"
      "queue m1 = []" "mark m1 = 0"
    using open_stream_ok [OF drv] by blast
  let ?c = "\<lparr>current_buf = 0, buf_offset = 0, io_offset = fs_data_start, mach = m1\<rparr>"
  let ?L = "stream_of (dev m) es"
  have inv: "d2h_inv (current_buf ?c - 1) fs_data_start ?L (dev m) (shm m) (gst m) ?c"
    using m1 by (simp add: d2h_inv_def stream_pos_def)
  obtain fs' c' where s: "save_blocks drv clamp es (fs_reset fs) ?c = Inr (fs', c')"
      "d2h_inv (current_buf c' - 1) fs_data_start ?L (dev m) (shm m) (gst m) c'"
      "stream_pos c' = total es" "current_offset fs' = fs_data_start + total es"
      "file_list fs' = lay_out fs_data_start es"
    using save_blocks_ok [OF drv inv, of "fs_reset fs" es] assms(2)
    by (auto simp: stream_pos_def fs_reset_def fits_def file_list_def)
  with save_tail_ok [OF drv s(2), of fs'] m1(1) show ?thesis
    by (auto simp: save_image_def)
qed

lemma save_blocks_err:
  assumes drv: "stream_contract drv"
  shows "d2h_inv (current_buf c - 1) H L D M0 g c \<Longrightarrow> buf_offset c < STAGING_BUF_SIZE \<Longrightarrow>
    current_offset fs = H + stream_pos c \<Longrightarrow>
    (\<And>t. t < total es \<Longrightarrow> L (stream_pos c + t) = stream_of D es t) \<Longrightarrow>
    SHM_SIZE < H + stream_pos c + total es \<or> MAX_FILE_NUM \<le> file_num fs + length es \<Longrightarrow>
    H + stream_pos c \<le> SHM_SIZE \<Longrightarrow> file_num fs < MAX_FILE_NUM \<Longrightarrow>
    H + stream_pos c + total es < 2 ^ 64 \<Longrightarrow>
    save_blocks drv clamp es fs c = Inl NoSpace \<or> save_blocks drv clamp es fs c = Inl TooManyFiles"
proof (induction es arbitrary: fs c)
  case (Cons e es)
  obtain d sz where e: "e = (d, sz)" by fastforce
  show ?case
  proof (cases "current_offset fs + sz \<le> SHM_SIZE \<and> Suc (file_num fs) < MAX_FILE_NUM")
    case True
    then obtain fs1 where fs1: "record_file d sz fs = Inr fs1" "current_offset fs1 = current_offset fs + sz"
        "file_num fs1 = Suc (file_num fs)"
      using file_list_record [of fs sz d] by auto
    have "D (d + i) = L (stream_pos c + i)" if "i < sz" for i
      using Cons.prems(4) [of i] that by (simp add: e)
    from d2h_loop_ok [OF drv Cons.prems(1,2) this]
    obtain c1 where c1: "d2h_loop drv clamp d sz c = Inr c1" "d2h_inv (current_buf c1 - 1) H L D M0 g c1"
        "buf_offset c1 < STAGING_BUF_SIZE" "stream_pos c1 = stream_pos c + sz"
      by blast
    have "L (stream_pos c1 + t) = stream_of D es t" if "t < total es" for t
      using Cons.prems(4) [of "sz + t"] that by (simp add: e c1(4) add.assoc)
    from Cons.IH [OF c1(2,3) _ this, of fs1] fs1 c1 Cons.prems True
    show ?thesis by (auto simp: e add.assoc)
  next
    case False
    then have "record_file d sz fs = Inl NoSpace \<or> record_file d sz fs = Inl TooManyFiles"
      using Cons.prems by (intro record_file_err) (auto simp: e)
    then show ?thesis by (auto simp: e)
  qed
qed simp

lemma save_image_err:
  assumes drv: "stream_contract drv" and "\<not> fits es" and "fs_data_start + total es < 2 ^ 64"
  shows "save_image drv clamp es (fs, m) = Inl NoSpace \<or> save_image drv clamp es (fs, m) = Inl TooManyFiles"
proof -
  obtain m1 where m1: "open_stream drv m = Inr m1" "dev m1 = dev m" "shm m1 = shm m" "gst m1 = gst m"
      "queue m1 = []" "mark m1 = 0"
    using open_stream_ok [OF drv] by blast
  let ?c = "\<lparr>current_buf = 0, buf_offset = 0, io_offset = fs_data_start, mach = m1\<rparr>"
  let ?L = "stream_of (dev m) es"
  have inv: "d2h_inv (current_buf ?c - 1) fs_data_start ?L (dev m) (shm m) (gst m) ?c"
    using m1 by (simp add: d2h_inv_def stream_pos_def)
  have "fs_data_start \<le> SHM_SIZE" "0 < MAX_FILE_NUM" by (simp_all add: SHM_SIZE_def MAX_FILE_NUM_def)
  then have "save_blocks drv clamp es (fs_reset fs) ?c = Inl NoSpace \<or>
      save_blocks drv clamp es (fs_reset fs) ?c = Inl TooManyFiles"
    using save_blocks_err [OF drv inv, of "fs_reset fs" es] assms(2,3)
    by (simp add: stream_pos_def fs_reset_def fits_def not_le not_less)
  then show ?thesis using m1(1) by (auto simp: save_image_def)
qed

end

section \<open>Loading blocks\<close>

lemma first_fill_inv:
  assumes "queue (mach c) = []" "E < 2 ^ 64" "start_offset f \<le> E"
  shows "h2d_inv E (shm (mach c)) (dev (mach c)) (gst (mach c)) (first_fill E f c)"
  using assms by (simp add: first_fill_def Let_def h2d_inv_def h2d_fill_def settled_def u64_simps blit_in)

context chunk_policy
begin

lemma load_files_ok:
  assumes drv: "stream_contract drv" and E: "E < 2 ^ 64"
  shows "h2d_inv E M X g c \<Longrightarrow> buf_offset c < STAGING_BUF_SIZE \<Longrightarrow>
    off = io_offset c + buf_offset c \<Longrightarrow> off + total es \<le> E \<Longrightarrow> 0 < i \<Longrightarrow>
    \<exists>c'. load_files drv clamp E i (lay_out off es) c = Inr c' \<and>
      h2d_inv E M (write_back (lay_out off es) M X) g c'"
proof (induction es arbitrary: off c X i)
  case (Cons e es)
  obtain d sz where e: "e = (d, sz)" by fastforce
  from h2d_loop_ok [OF drv E Cons.prems(1,2,3), of sz d] Cons.prems(4)
  obtain c1 where c1: "h2d_loop drv clamp E d off sz c = Inr c1" "h2d_inv E M (blit d off sz M X) g c1"
      "buf_offset c1 < STAGING_BUF_SIZE" "io_offset c1 + buf_offset c1 = off + sz"
    by (auto simp: e)
  from Cons.IH [OF c1(2,3), of "off + sz" "i + 1"] c1 Cons.prems(4,5)
  show ?case by (auto simp: e write_back_def add.assoc)
qed (simp add: write_back_def)

lemma load_image_ok:
  assumes drv: "stream_contract drv" and fl: "file_list fs = lay_out off es"
    and off: "current_offset fs = off + total es" "off + total es < 2 ^ 64"
    and remap: "remap_all gpu (file_list fs) m = Inr m1"
  shows "\<exists>m'. load_image drv gpu clamp (fs, m) = Inr (m', total es) \<and>
    dev m' = write_back (file_list fs) (shm m1) (dev m1) \<and> shm m' = shm m1 \<and> gst m' = gst m1 \<and> queue m' = []"
proof -
  let ?E = "off + total es"
  obtain m2 where m2: "open_stream drv m1 = Inr m2" "dev m2 = dev m1" "shm m2 = shm m1" "gst m2 = gst m1"
      "queue m2 = []" "mark m2 = 0"
    using open_stream_ok [OF drv] by blast
  let ?c = "\<lparr>current_buf = 0, buf_offset = 0, io_offset = 0, mach = m2\<rparr>"
  have "\<exists>c' E'. load_files drv clamp ?E 0 (lay_out off es) ?c = Inr c' \<and>
      h2d_inv E' (shm m1) (write_back (lay_out off es) (shm m1) (dev m1)) (gst m1) c'"
  proof (cases es)
    case Nil
    then show ?thesis using m2 by (auto simp: write_back_def h2d_inv_def settled_def intro!: exI [of _ 0])
  next
    case (Cons e es')
    obtain d sz where e: "e = (d, sz)" by fastforce
    let ?f = "\<lparr>ptr = d, start_offset = off, size = sz\<rparr>"
    have "h2d_inv ?E (shm m1) (dev m1) (gst m1) (first_fill ?E ?f ?c)"
      using first_fill_inv [of ?c ?E ?f] off(2) m2 by simp
    from h2d_loop_ok [OF drv off(2) this, of off sz d]
    obtain c1 where c1: "h2d_loop drv clamp ?E d off sz (first_fill ?E ?f ?c) = Inr c1"
        "h2d_inv ?E (shm m1) (blit d off sz (shm m1) (dev m1)) (gst m1) c1"
        "buf_offset c1 < STAGING_BUF_SIZE" "io_offset c1 + buf_offset c1 = off + sz"
      by (auto simp: first_fill_def Let_def Cons e)
    from load_files_ok [OF drv off(2) c1(2,3), of "off + sz" es' 1] c1
    obtain c' where "load_files drv clamp ?E 1 (lay_out (off + sz) es') c1 = Inr c'"
        "h2d_inv ?E (shm m1) (write_back (lay_out off es) (shm m1) (dev m1)) (gst m1) c'"
      by (auto simp: Cons e write_back_def add.assoc)
    then show ?thesis using c1(1) by (auto simp: Cons e)
  qed
  then obtain c' E' where c': "load_files drv clamp ?E 0 (lay_out off es) ?c = Inr c'"
      "h2d_inv E' (shm m1) (write_back (lay_out off es) (shm m1) (dev m1)) (gst m1) c'"
    by blast
  obtain m3 where m3: "synchronizeStream drv (mach c') = Inr (0, m3)"
      "m3 = retire (progress drv SynchronizeStream (mach c')) (mach c')" "queue m3 = []"
    using synchronizeStream_ok [OF drv] by blast
  have "h2d_inv E' (shm m1) (write_back (lay_out off es) (shm m1) (dev m1)) (gst m1) (c'\<lparr>mach := m3\<rparr>)"
    unfolding m3(2) by (rule h2d_inv_retire [OF c'(2)])
  then have "dev m3 = write_back (file_list fs) (shm m1) (dev m1)" "shm m3 = shm m1" "gst m3 = gst m1"
    using settled_done [OF m3(3)] by (simp_all add: h2d_inv_def fl)
  with destroy_ok [OF drv m3(3)] obtain m4 m5 where "destroyStream drv m3 = Inr (0, m4)"
      "destroyEvent drv m4 = Inr (0, m5)" "dev m5 = write_back (file_list fs) (shm m1) (dev m1)"
      "shm m5 = shm m1" "gst m5 = gst m1" "queue m5 = []"
    by auto
  moreover have "sum_list (map size (lay_out off' es')) = total es'" for off' es'
    by (induction off' es' rule: lay_out.induct) auto
  ultimately show ?thesis
    using remap m2(1) c'(1) m3(1) by (auto simp: load_image_def fl off(1))
qed

end

section \<open>Images\<close>

lemma write_back_Cons: "write_back (f # fl) M X = write_back fl M (blit (ptr f) (start_offset f) (size f) M X)"
  by (simp add: write_back_def)

lemma write_back_image:
  assumes "\<And>t. t < total es \<Longrightarrow> M (off + t) = stream_of D es t"
  shows "write_back (lay_out off es) M X a = (if a \<in> covered es then D a else X a)"
  using assms
proof (induction es arbitrary: off X)
  case Nil
  then show ?case by (simp add: write_back_def covered_def)
next
  case (Cons e es)
  obtain d sz where e: "e = (d, sz)" by fastforce
  have "M (off + sz + t) = stream_of D es t" if "t < total es" for t
    using Cons.prems [of "sz + t"] that by (simp add: e add.assoc)
  from Cons.IH [OF this] have
    "write_back (lay_out off (e # es)) M X a = (if a \<in> covered es then D a else blit d off sz M X a)"
    by (simp add: e write_back_Cons)
  moreover have "blit d off sz M X a = D a" if "d \<le> a" "a < d + sz"
  proof -
    have "a - d < sz" using that by linarith
    with Cons.prems [of "a - d"] that show ?thesis by (simp add: e blit_in)
  qed
  ultimately show ?case by (auto simp: e covered_def blit_out)
qed

lemma lay_out_blocks: "map (\<lambda>f. (ptr f, size f)) (lay_out off es) = es"
  by (induction off es rule: lay_out.induct) auto

lemma lay_out_bounds:
  "f \<in> set (lay_out off es) \<Longrightarrow> off \<le> start_offset f \<and> start_offset f + size f \<le> off + total es"
  by (induction off es rule: lay_out.induct) auto

lemma lay_out_content:
  assumes "f \<in> set (lay_out off es)" "i < size f"
  shows "stream_of D es (start_offset f - off + i) = D (ptr f + i)"
  using assms
proof (induction off es rule: lay_out.induct)
  case (2 off d sz es)
  show ?case
  proof (cases "f = \<lparr>ptr = d, start_offset = off, size = sz\<rparr>")
    case True
    with 2 show ?thesis by simp
  next
    case False
    with 2 have f: "f \<in> set (lay_out (off + sz) es)" by auto
    with lay_out_bounds [OF this] 2 show ?thesis by (auto simp: diff_diff_left)
  qed
qed simp

lemma lay_out_apart:
  "sorted_wrt (\<lambda>f f'. start_offset f + size f \<le> start_offset f') (lay_out off es)"
  by (induction off es rule: lay_out.induct) (auto dest: lay_out_bounds)

section \<open>Backends\<close>

definition same_host :: "'g machine \<Rightarrow> 'g machine \<Rightarrow> bool" where
  "same_host m m' \<longleftrightarrow> stg m' = stg m \<and> shm m' = shm m \<and> queue m' = queue m \<and> mark m' = mark m"

definition extent :: "nat \<Rightarrow> nat" where
  "extent sz = max sz (round_up_2mb sz)"

definition owned :: "(nat \<times> nat) list \<Rightarrow> nat \<Rightarrow> nat set" where
  "owned alloc p = (case map_of alloc p of None \<Rightarrow> {} | Some sz \<Rightarrow> {p..<p + extent sz})"

definition touched :: "(nat \<times> nat) list \<Rightarrow> shared_mem_file list \<Rightarrow> nat set" where
  "touched alloc fl = (\<Union>f \<in> set fl. owned alloc (ptr f) \<union> {ptr f..<ptr f + extent (size f)})"

locale gpu_backend =
  fixes gpu :: "'g GPU"
  assumes release_frame: "releasePhysicalMemory gpu p m = Inr (r, m') \<Longrightarrow>
      same_host m m' \<and> allocated_memory gpu (gst m') = allocated_memory gpu (gst m) \<and>
      (\<forall>a. a \<notin> owned (allocated_memory gpu (gst m)) p \<longrightarrow> dev m' a = dev m a)"
    and remap_frame: "remapPhysicalMemory gpu p sz m = Inr (r, m') \<Longrightarrow>
      same_host m m' \<and>
      (map_of (allocated_memory gpu (gst m')) = map_of (allocated_memory gpu (gst m)) \<or>
       map_of (allocated_memory gpu (gst m')) = (map_of (allocated_memory gpu (gst m)))(p \<mapsto> sz)) \<and>
      (\<forall>a. a \<notin> owned (allocated_memory gpu (gst m)) p \<union> {p..<p + extent sz} \<longrightarrow> dev m' a = dev m a)"
begin

lemma release_all_frame:
  "release_all gpu ps m = Inr m' \<Longrightarrow>
    same_host m m' \<and> allocated_memory gpu (gst m') = allocated_memory gpu (gst m) \<and>
    (\<forall>a. a \<notin> (\<Union>p \<in> set ps. owned (allocated_memory gpu (gst m)) p) \<longrightarrow> dev m' a = dev m a)"
proof (induction ps arbitrary: m)
  case (Cons p ps)
  from Cons.prems obtain m1 where 1: "releasePhysicalMemory gpu p m = Inr (0, m1)"
      "release_all gpu ps m1 = Inr m'"
    by (auto simp: rbind_Inr_iff split: if_splits)
  with release_frame [OF 1(1)] Cons.IH [OF 1(2)] show ?case by (auto simp: same_host_def)
qed (simp add: same_host_def)

lemma remap_all_frame:
  "remap_all gpu fl m = Inr m' \<Longrightarrow>
    same_host m m' \<and> (\<forall>a. a \<notin> touched (allocated_memory gpu (gst m)) fl \<longrightarrow> dev m' a = dev m a)"
proof (induction fl arbitrary: m)
  case (Cons f fl)
  from Cons.prems obtain m1 where 1: "remapPhysicalMemory gpu (ptr f) (size f) m = Inr (0, m1)"
      "remap_all gpu fl m1 = Inr m'"
    by (auto simp: rbind_Inr_iff split: if_splits)
  have "owned (allocated_memory gpu (gst m1)) q \<subseteq>
      owned (allocated_memory gpu (gst m)) q \<union> {ptr f..<ptr f + extent (size f)}" for q
    using remap_frame [OF 1(1)] by (auto simp: owned_def split: if_splits)
  then have "touched (allocated_memory gpu (gst m1)) fl \<subseteq> touched (allocated_memory gpu (gst m)) (f # fl)"
    by (fastforce simp: touched_def)
  moreover have "owned (allocated_memory gpu (gst m)) (ptr f) \<union> {ptr f..<ptr f + extent (size f)} \<subseteq>
      touched (allocated_memory gpu (gst m)) (f # fl)"
    by (auto simp: touched_def)
  ultimately show ?case
    using remap_frame [OF 1(1)] Cons.IH [OF 1(2)] unfolding same_host_def by (metis subsetD)
qed (simp add: same_host_def)

end

section \<open>Round trips\<close>

lemma extent_eq: "sz + 2097151 < 2 ^ 64 \<Longrightarrow> extent sz = round_up_2mb sz"
  by (simp add: extent_def round_up_2mb_ge)

definition sane_sizes :: "(nat \<times> nat) list \<Rightarrow> bool" where
  \<comment> \<open>no allocation is so large that its rounded size wraps around\<close>
  "sane_sizes es \<longleftrightarrow> (\<forall>(p, sz) \<in> set es. sz + 2097151 < 2 ^ 64)"

lemma covered_rounded_sub: "(p, sz) \<in> set es \<Longrightarrow> {p..<p + round_up_2mb sz} \<subseteq> covered (rounded es)"
  unfolding covered_def rounded_def by (force intro!: rev_bexI)

lemma owned_rounded:
  assumes "sane_sizes es" "set es \<subseteq> set alloc" "p \<in> fst ` set es" "distinct (map fst alloc)"
  shows "owned alloc p \<subseteq> covered (rounded es)"
proof -
  from assms(3) obtain sz where sz: "(p, sz) \<in> set es" by auto
  with assms(2,4) have "map_of alloc p = Some sz" by auto
  moreover have "extent sz = round_up_2mb sz" using assms(1) sz by (auto simp: sane_sizes_def extent_eq)
  ultimately show ?thesis using covered_rounded_sub [OF sz] by (simp add: owned_def)
qed

lemma fits_sane: "fits es \<Longrightarrow> sane_sizes es"
proof -
  assume "fits es"
  then have "total es \<le> SHM_SIZE" by (simp add: fits_def)
  moreover have "snd e \<le> total es" if "e \<in> set es" for e
    using that by (simp add: member_le_sum_list)
  moreover have "SHM_SIZE + 2097151 < 2 ^ 64" by (simp add: SHM_SIZE_def)
  ultimately show ?thesis unfolding sane_sizes_def by fastforce
qed

lemma touched_rounded:
  assumes "fits es" "\<And>p. p \<in> fst ` set es \<Longrightarrow> owned alloc p \<subseteq> covered (rounded es)"
  shows "touched alloc (lay_out off es) \<subseteq> covered (rounded es)"
proof -
  have "ptr f \<in> fst ` set es \<and> {ptr f..<ptr f + extent (size f)} \<subseteq> covered (rounded es)"
    if "f \<in> set (lay_out off es)" for f
  proof -
    have "(ptr f, size f) \<in> set es"
      using that lay_out_blocks [of off es] by (metis (mono_tags, lifting) image_eqI set_map)
    moreover from this have "extent (size f) = round_up_2mb (size f)"
      using fits_sane [OF assms(1)] by (auto simp: sane_sizes_def extent_eq)
    ultimately show ?thesis using covered_rounded_sub by force
  qed
  with assms(2) show ?thesis unfolding touched_def by blast
qed

locale image_transfer = gpu_backend gpu + chunk_policy clamp
  for gpu :: "'g GPU" and clamp :: "nat \<Rightarrow> nat \<Rightarrow> nat"
begin

lemma save_then_load:
  assumes drv: "stream_contract drv" and fits: "fits es"
    and fl: "file_list fs = lay_out fs_data_start es" "current_offset fs = fs_data_start + total es"
    and img: "\<And>t. t < total es \<Longrightarrow> shm m (fs_data_start + t) = stream_of D es t"
    and own: "\<And>p. p \<in> fst ` set es \<Longrightarrow> owned (allocated_memory gpu (gst m)) p \<subseteq> covered (rounded es)"
    and rest: "\<And>a. a \<notin> covered (rounded es) \<Longrightarrow> dev m a = D a"
    and load: "load_image drv gpu clamp (fs, m) = Inr (m', n)"
    and a: "a \<in> covered es \<or> a \<notin> covered (rounded es)"
  shows "dev m' a = D a \<and> n = total es"
proof -
  from load obtain m1 where m1: "remap_all gpu (file_list fs) m = Inr m1"
    by (auto simp: load_image_def rbind_Inr_iff)
  have frame: "shm m1 = shm m" "\<And>a. a \<notin> covered (rounded es) \<Longrightarrow> dev m1 a = dev m a"
    using remap_all_frame [OF m1] touched_rounded [OF fits own] fl(1)
    by (auto simp: same_host_def subset_iff)
  have "fs_data_start + total es < 2 ^ 64"
    using fits SHM_SIZE_lt unfolding fits_def by linarith
  from load_image_ok [OF drv fl this m1] load
  have "dev m' = write_back (lay_out fs_data_start es) (shm m) (dev m1)" "n = total es"
    using fl(1) frame(1) by auto
  moreover have "write_back (lay_out fs_data_start es) (shm m) (dev m1) a
      = (if a \<in> covered es then D a else dev m1 a)"
    by (rule write_back_image [OF img])
  ultimately show ?thesis using a frame(2) rest by auto
qed

end

section \<open>What a checkpoint holds\<close>

definition holds_image :: "(nat \<times> nat) list \<Rightarrow> mem \<Rightarrow> 'g worker \<Rightarrow> bool" where
  \<comment> \<open>the file table lists the blocks and the checkpoint buffer holds their bytes\<close>
  "holds_image es D w \<longleftrightarrow> (case w of (fs, m) \<Rightarrow>
     file_list fs = lay_out fs_data_start es \<and> current_offset fs = fs_data_start + total es \<and>
     (\<forall>t < total es. shm m (fs_data_start + t) = stream_of D es t))"

lemma holds_image_file:
  assumes "holds_image es D (fs, m)" "f \<in> set (file_list fs)" "i < size f"
  shows "shm m (start_offset f + i) = D (ptr f + i)"
proof -
  have f: "f \<in> set (lay_out fs_data_start es)" using assms by (simp add: holds_image_def)
  note b = lay_out_bounds [OF f]
  then have "start_offset f - fs_data_start + i < total es" using assms(3) by linarith
  then have "shm m (fs_data_start + (start_offset f - fs_data_start + i)) =
      stream_of D es (start_offset f - fs_data_start + i)"
    using assms(1) by (simp add: holds_image_def)
  then show ?thesis using b lay_out_content [OF f assms(3)] by (simp add: add.assoc [symmetric])
qed

context chunk_policy
begin

lemma save_image_cases:
  assumes drv: "stream_contract drv" and nowrap: "fs_data_start + total es < 2 ^ 64"
    and save: "save_image drv clamp es (fs, m) = Inr (fs', m')"
  shows "fits es \<and> holds_image es (dev m) (fs', m') \<and> dev m' = dev m \<and> gst m' = gst m \<and> queue m' = [] \<and>
    (\<forall>a. a < fs_data_start \<or> fs_data_start + total es \<le> a \<longrightarrow> shm m' a = shm m a)"
proof -
  have fits: "fits es" using save_image_err [OF drv _ nowrap, of fs m] save by auto
  from save_image_ok [OF drv this, of fs m] save fits show ?thesis
    by (auto simp: holds_image_def blit_in blit_out)
qed

end

lemma block_sizes_Inr:
  "block_sizes alloc bs = Inr es \<Longrightarrow> map fst es = bs \<and> (\<forall>(b, sz) \<in> set es. map_of alloc b = Some sz)"
proof (induction bs arbitrary: es)
  case (Cons b bs)
  then show ?case by (fastforce simp: rbind_Inr_iff split: option.splits)
qed simp

lemma block_sizes_total: "set bs \<subseteq> fst ` set alloc \<Longrightarrow> \<exists>es. block_sizes alloc bs = Inr es"
proof (induction bs)
  case (Cons b bs)
  then obtain sz where "map_of alloc b = Some sz"
    by (metis insert_subset list.simps(15) map_of_eq_None_iff option.exhaust)
  with Cons show ?case by auto
qed simp

lemma find_containing_Some:
  "find_containing_allocation alloc p = Some (b, sz) \<Longrightarrow> (b, sz) \<in> set alloc \<and> b \<le> p \<and> p < b + sz"
  by (induction alloc p rule: find_containing_allocation.induct) (auto split: if_splits)

lemma find_containing_None:
  "find_containing_allocation alloc p = None \<longleftrightarrow> (\<forall>(b, sz) \<in> set alloc. \<not> (b \<le> p \<and> p < b + sz))"
  by (induction alloc p rule: find_containing_allocation.induct) auto

lemma set_blocks_to_snapshot:
  "set (blocks_to_snapshot alloc ps bs) =
    set bs \<union> {b. \<exists>p \<in> set ps. \<exists>sz. find_containing_allocation alloc p = Some (b, sz)}"
  by (induction alloc ps bs rule: blocks_to_snapshot.induct) (auto split: option.splits)

lemma blocks_to_snapshot_sorted:
  "sorted_wrt (<) bs \<Longrightarrow> sorted_wrt (<) (blocks_to_snapshot alloc ps bs)"
  by (induction alloc ps bs rule: blocks_to_snapshot.induct)
     (simp_all add: oset_insert_sorted split: option.splits prod.splits)

lemma selected_blocks:
  "\<exists>es. block_sizes alloc (blocks_to_snapshot alloc ps []) = Inr es \<and>
     map fst es = blocks_to_snapshot alloc ps [] \<and> set (map fst es) \<subseteq> fst ` set alloc"
proof -
  have "set (blocks_to_snapshot alloc ps []) \<subseteq> fst ` set alloc"
    by (auto simp: set_blocks_to_snapshot dest!: find_containing_Some intro: rev_image_eqI)
  with block_sizes_total [OF this] block_sizes_Inr show ?thesis
    by (metis set_map)
qed

context gpu_backend
begin

lemma ckpt_sound:
  assumes drv: "stream_contract drv" and es: "es = rounded (allocated_memory gpu (gst m))"
    and nowrap: "fs_data_start + total es < 2 ^ 64"
    and run: "ckpt drv gpu (fs, m) = Inr ((fs', m'), n)"
  shows "fits es \<and> n = total es \<and> holds_image es (dev m) (fs', m') \<and>
    allocated_memory gpu (gst m') = allocated_memory gpu (gst m) \<and>
    (\<forall>a. a < fs_data_start \<or> fs_data_start + total es \<le> a \<longrightarrow> shm m' a = shm m a) \<and>
    (\<forall>a. a \<notin> (\<Union>p \<in> fst ` set (allocated_memory gpu (gst m)). owned (allocated_memory gpu (gst m)) p) \<longrightarrow>
       dev m' a = dev m a)"
proof -
  from run obtain m1 where 1: "save_image drv (\<lambda>_ n. n) es (fs, m) = Inr (fs', m1)"
      "release_all gpu (map fst (allocated_memory gpu (gst m1))) m1 = Inr m'" "n = total es"
    by (auto simp: ckpt_def es rbind_Inr_iff Let_def)
  from whole.save_image_cases [OF drv nowrap 1(1)] release_all_frame [OF 1(2)] 1(3)
  show ?thesis by (auto simp: same_host_def holds_image_def)
qed

lemma ckpt_selective_sound:
  assumes drv: "stream_contract drv"
    and es: "block_sizes (allocated_memory gpu (gst m))
        (blocks_to_snapshot (allocated_memory gpu (gst m)) regions []) = Inr es"
    and nowrap: "fs_data_start + total es < 2 ^ 64"
    and run: "ckpt_selective drv gpu regions (fs, m) = Inr ((fs', m'), n)"
  shows "fits es \<and> n = total es \<and> holds_image es (dev m) (fs', m') \<and>
    allocated_memory gpu (gst m') = allocated_memory gpu (gst m) \<and>
    (\<forall>a. a < fs_data_start \<or> fs_data_start + total es \<le> a \<longrightarrow> shm m' a = shm m a) \<and>
    (\<forall>a. a \<notin> (\<Union>p \<in> fst ` set es. owned (allocated_memory gpu (gst m)) p) \<longrightarrow> dev m' a = dev m a)"
proof -
  from run obtain m1 where 1: "save_image drv granule_clamp es (fs, m) = Inr (fs', m1)"
      "release_all gpu (map ptr (file_list fs')) m1 = Inr m'" "n = total es"
    by (auto simp: ckpt_selective_def es rbind_Inr_iff Let_def)
  note s = granule.save_image_cases [OF drv nowrap 1(1)]
  have "map ptr (file_list fs') = map fst (map (\<lambda>f. (ptr f, size f)) (file_list fs'))" by simp
  also have "\<dots> = map fst es" using s by (simp only: holds_image_def prod.case lay_out_blocks)
  finally have "set (map ptr (file_list fs')) = fst ` set es" by simp
  note frame = release_all_frame [OF 1(2), unfolded this]
  with s 1(3) show ?thesis
    by (simp add: same_host_def holds_image_def)
qed

end

sublocale gpu_backend \<subseteq> full: image_transfer gpu "\<lambda>_ n. n"
  by unfold_locales

sublocale gpu_backend \<subseteq> partial: image_transfer gpu granule_clamp
  by unfold_locales

lemma covered_owned:
  assumes "sane_sizes alloc" "distinct (map fst alloc)" "set es \<subseteq> set alloc" "p \<in> fst ` set es"
  shows "owned alloc p \<subseteq> covered (rounded es)"
  using assms by (intro owned_rounded) (auto simp: sane_sizes_def)

lemma fst_rounded [simp]: "fst ` set (rounded es) = fst ` set es"
  by (force simp: rounded_def)

lemma covered_rounded_twice:
  assumes "sane_sizes es" "fits (rounded es)"
  shows "covered (rounded (rounded es)) = covered (rounded es)"
proof -
  have "round_up_2mb (round_up_2mb sz) = round_up_2mb sz" if "(p, sz) \<in> set es" for p sz
  proof -
    have "(p, round_up_2mb sz) \<in> set (rounded es)" using that by (force simp: rounded_def)
    with fits_sane [OF assms(2)] show ?thesis
      by (intro round_up_2mb_idem round_up_2mb_dvd) (auto simp: sane_sizes_def)
  qed
  then have "rounded (rounded es) = rounded es" by (auto simp: rounded_def)
  then show ?thesis by simp
qed

context gpu_backend
begin

lemma full_round_trip:
  assumes drv: "stream_contract drv" "stream_contract drv'"
    and alloc: "sane_sizes (allocated_memory gpu (gst m))" "distinct (map fst (allocated_memory gpu (gst m)))"
    and nowrap: "fs_data_start + total (rounded (allocated_memory gpu (gst m))) < 2 ^ 64"
    and save: "ckpt drv gpu (fs, m) = Inr ((fs', m1), n1)"
    and kept: "shm m2 = shm m1" "allocated_memory gpu (gst m2) = allocated_memory gpu (gst m1)"
      "\<And>a. a \<notin> covered (rounded (allocated_memory gpu (gst m))) \<Longrightarrow> dev m2 a = dev m1 a"
    and load: "restore_ptr_and_content drv' gpu (fs', m2) = Inr (m3, n2)"
  shows "dev m3 = dev m \<and> n2 = n1"
proof -
  let ?A = "allocated_memory gpu (gst m)"
  note s = ckpt_sound [OF drv(1) refl nowrap save]
  have own: "owned ?A p \<subseteq> covered (rounded ?A)" if "p \<in> fst ` set ?A" for p
    using covered_owned [OF alloc _ that] by blast
  have twice: "covered (rounded (rounded ?A)) = covered (rounded ?A)"
    using covered_rounded_twice alloc(1) s by blast
  have rest: "dev m2 a = dev m a" if "a \<notin> covered (rounded ?A)" for a
    using kept(3) [OF that] s own that by (metis (no_types, lifting) UN_E subsetD)
  have "dev m3 a = dev m a \<and> n2 = total (rounded ?A)" for a
  proof (rule full.save_then_load [OF drv(2)])
    show "load_image drv' gpu (\<lambda>_ n. n) (fs', m2) = Inr (m3, n2)"
      using load by (simp add: restore_ptr_and_content_def)
  qed (use s kept own twice rest in \<open>auto simp: holds_image_def\<close>)
  with s show ?thesis by auto
qed

lemma selective_round_trip:
  assumes drv: "stream_contract drv" "stream_contract drv'"
    and alloc: "sane_sizes (allocated_memory gpu (gst m))" "distinct (map fst (allocated_memory gpu (gst m)))"
    and es: "block_sizes (allocated_memory gpu (gst m))
        (blocks_to_snapshot (allocated_memory gpu (gst m)) regions []) = Inr es"
    and nowrap: "fs_data_start + total es < 2 ^ 64"
    and save: "ckpt_selective drv gpu regions (fs, m) = Inr ((fs', m1), n1)"
    and kept: "shm m2 = shm m1" "allocated_memory gpu (gst m2) = allocated_memory gpu (gst m1)"
      "\<And>a. a \<notin> covered (rounded es) \<Longrightarrow> dev m2 a = dev m1 a"
    and load: "restore_ptr_and_content_selective drv' gpu (fs', m2) = Inr (m3, n2)"
    and a: "a \<in> covered es \<or> a \<notin> covered (rounded es)"
  shows "dev m3 a = dev m a \<and> n2 = n1"
proof -
  let ?A = "allocated_memory gpu (gst m)"
  note s = ckpt_selective_sound [OF drv(1) es nowrap save]
  have "set es \<subseteq> set ?A"
    using block_sizes_Inr [OF es] by (auto dest: map_of_SomeD)
  then have own: "owned ?A p \<subseteq> covered (rounded es)" if "p \<in> fst ` set es" for p
    using covered_owned [OF alloc _ that] by blast
  have rest: "dev m2 a = dev m a" if "a \<notin> covered (rounded es)" for a
    using kept(3) [OF that] s own that by (metis (no_types, lifting) UN_E subsetD)
  have "dev m3 a = dev m a \<and> n2 = total es"
  proof (rule partial.save_then_load [OF drv(2)])
    show "load_image drv' gpu granule_clamp (fs', m2) = Inr (m3, n2)"
      using load by (simp add: restore_ptr_and_content_selective_def)
  qed (use s kept own rest a in \<open>auto simp: holds_image_def\<close>)
  with s show ?thesis by auto
qed

end

section \<open>Backends whose calls succeed\<close>

definition keeps_ready :: "'g GPU \<Rightarrow> ('g \<Rightarrow> nat \<Rightarrow> bool) \<Rightarrow> 'g machine \<Rightarrow> 'g machine \<Rightarrow> bool" where
  \<comment> \<open>between a checkpoint and its restore the allocations stay and stay ready\<close>
  "keeps_ready gpu ready m1 m2 \<longleftrightarrow> allocated_memory gpu (gst m2) = allocated_memory gpu (gst m1) \<and>
     (\<forall>q. ready (gst m1) q \<longrightarrow> ready (gst m2) q)"

locale gpu_total = gpu_backend gpu for gpu :: "'g GPU" +
  fixes ready :: "'g \<Rightarrow> nat \<Rightarrow> bool"
  assumes release_total: "ready (gst m) p \<Longrightarrow> \<exists>m'. releasePhysicalMemory gpu p m = Inr (0, m') \<and>
      (\<forall>q. ready (gst m) q \<longrightarrow> ready (gst m') q)"
    and remap_total: "ready (gst m) p \<Longrightarrow> \<exists>m'. remapPhysicalMemory gpu p sz m = Inr (0, m') \<and>
      (\<forall>q. ready (gst m) q \<longrightarrow> ready (gst m') q)"
begin

lemma release_all_total:
  "\<forall>p \<in> set ps. ready (gst m) p \<Longrightarrow>
    \<exists>m'. release_all gpu ps m = Inr m' \<and> (\<forall>q. ready (gst m) q \<longrightarrow> ready (gst m') q)"
proof (induction ps arbitrary: m)
  case (Cons p ps)
  then obtain m1 where 1: "releasePhysicalMemory gpu p m = Inr (0, m1)"
      "\<forall>q. ready (gst m) q \<longrightarrow> ready (gst m1) q"
    using release_total [of m p] by auto
  with Cons.prems Cons.IH [of m1] show ?case by auto
qed simp

lemma remap_all_total:
  "\<forall>f \<in> set fl. ready (gst m) (ptr f) \<Longrightarrow> \<exists>m'. remap_all gpu fl m = Inr m'"
proof (induction fl arbitrary: m)
  case (Cons f fl)
  then obtain m1 where 1: "remapPhysicalMemory gpu (ptr f) (size f) m = Inr (0, m1)"
      "\<forall>q. ready (gst m) q \<longrightarrow> ready (gst m1) q"
    using remap_total [of m "ptr f" "size f"] by auto
  with Cons.prems Cons.IH [of m1] show ?case by auto
qed simp

lemma ckpt_total:
  assumes drv: "stream_contract drv" and fits: "fits (rounded (allocated_memory gpu (gst m)))"
    and ready: "\<forall>p \<in> fst ` set (allocated_memory gpu (gst m)). ready (gst m) p"
  shows "\<exists>fs' m'. ckpt drv gpu (fs, m) = Inr ((fs', m'), total (rounded (allocated_memory gpu (gst m)))) \<and>
    (\<forall>q. ready (gst m) q \<longrightarrow> ready (gst m') q)"
proof -
  obtain fs' m1 where 1: "save_image drv (\<lambda>_ n. n) (rounded (allocated_memory gpu (gst m))) (fs, m) = Inr (fs', m1)"
      "gst m1 = gst m"
    using whole.save_image_ok [OF drv fits] by blast
  with release_all_total [of "map fst (allocated_memory gpu (gst m))" m1] ready
  show ?thesis by (auto simp: ckpt_def Let_def)
qed

lemma ckpt_selective_total:
  assumes drv: "stream_contract drv" and fits: "fits es"
    and es: "block_sizes (allocated_memory gpu (gst m))
        (blocks_to_snapshot (allocated_memory gpu (gst m)) regions []) = Inr es"
    and ready: "\<forall>p \<in> fst ` set (allocated_memory gpu (gst m)). ready (gst m) p"
  shows "\<exists>fs' m'. ckpt_selective drv gpu regions (fs, m) = Inr ((fs', m'), total es) \<and>
    (\<forall>q. ready (gst m) q \<longrightarrow> ready (gst m') q)"
proof -
  obtain fs' m1 where 1: "save_image drv granule_clamp es (fs, m) = Inr (fs', m1)" "gst m1 = gst m"
      "file_list fs' = lay_out fs_data_start es"
    using granule.save_image_ok [OF drv fits] by blast
  have "map ptr (file_list fs') = map fst es"
    unfolding 1(3) by (metis (no_types, lifting) comp_apply fst_conv lay_out_blocks list.map_comp map_eq_conv)
  moreover have "fst ` set es \<subseteq> fst ` set (allocated_memory gpu (gst m))"
    using selected_blocks [of "allocated_memory gpu (gst m)" regions] es by simp
  ultimately have "\<forall>p \<in> set (map ptr (file_list fs')). ready (gst m1) p"
    using ready 1(2) by (metis set_map subsetD)
  with release_all_total [OF this] 1 es show ?thesis by (auto simp: ckpt_selective_def Let_def)
qed

lemma load_total:
  assumes pol: "chunk_policy clamp" and drv: "stream_contract drv" and img: "holds_image es D (fs, m)"
    and fits: "fits es" and ready: "\<forall>p \<in> fst ` set es. ready (gst m) p"
  shows "\<exists>m'. load_image drv gpu clamp (fs, m) = Inr (m', total es)"
proof -
  have fl: "file_list fs = lay_out fs_data_start es" "current_offset fs = fs_data_start + total es"
    using img by (auto simp: holds_image_def)
  have "map ptr (file_list fs) = map fst es"
    unfolding fl(1) by (metis (no_types, lifting) comp_apply fst_conv lay_out_blocks list.map_comp map_eq_conv)
  then have "\<forall>p \<in> ptr ` set (file_list fs). ready (gst m) p"
    using ready by (metis set_map)
  then obtain m1 where "remap_all gpu (file_list fs) m = Inr m1"
    using remap_all_total by blast
  moreover have "fs_data_start + total es < 2 ^ 64" using fits SHM_SIZE_lt unfolding fits_def by linarith
  ultimately show ?thesis
    using chunk_policy.load_image_ok [OF pol drv fl] by blast
qed

lemma full_round_trip_total:
  assumes drv: "stream_contract drv" "stream_contract drv'"
    and alloc: "sane_sizes (allocated_memory gpu (gst m))" "distinct (map fst (allocated_memory gpu (gst m)))"
    and fits: "fits (rounded (allocated_memory gpu (gst m)))"
    and ready: "\<forall>p \<in> fst ` set (allocated_memory gpu (gst m)). ready (gst m) p"
  shows "\<exists>fs' m1 n. ckpt drv gpu (fs, m) = Inr ((fs', m1), n) \<and>
    (\<forall>m2. shm m2 = shm m1 \<and> keeps_ready gpu ready m1 m2 \<and>
       (\<forall>a. a \<notin> covered (rounded (allocated_memory gpu (gst m))) \<longrightarrow> dev m2 a = dev m1 a) \<longrightarrow>
       (\<exists>m3. restore_ptr_and_content drv' gpu (fs', m2) = Inr (m3, n) \<and> dev m3 = dev m))"
proof -
  let ?es = "rounded (allocated_memory gpu (gst m))"
  obtain fs' m1 where 1: "ckpt drv gpu (fs, m) = Inr ((fs', m1), total ?es)"
      "\<forall>q. ready (gst m) q \<longrightarrow> ready (gst m1) q"
    using ckpt_total [OF drv(1) fits ready] by blast
  have nw: "fs_data_start + total ?es < 2 ^ 64" using fits SHM_SIZE_lt unfolding fits_def by linarith
  have "\<exists>m3. restore_ptr_and_content drv' gpu (fs', m2) = Inr (m3, total ?es) \<and> dev m3 = dev m"
    if m2: "shm m2 = shm m1 \<and> keeps_ready gpu ready m1 m2 \<and> (\<forall>a. a \<notin> covered ?es \<longrightarrow> dev m2 a = dev m1 a)" for m2
  proof -
    have "holds_image ?es (dev m) (fs', m2)"
      using ckpt_sound [OF drv(1) refl nw 1(1)] m2 by (simp add: holds_image_def)
    moreover have "\<forall>p \<in> fst ` set ?es. ready (gst m2) p"
      using ready 1(2) m2 by (simp add: keeps_ready_def)
    ultimately obtain m3 where 3: "restore_ptr_and_content drv' gpu (fs', m2) = Inr (m3, total ?es)"
      unfolding restore_ptr_and_content_def
      using load_total [OF whole.chunk_policy_axioms drv(2) _ fits] by blast
    with full_round_trip [OF drv alloc nw 1(1) _ _ _ 3] m2 show ?thesis by (simp add: keeps_ready_def)
  qed
  with 1 show ?thesis by blast
qed

lemma selective_round_trip_total:
  assumes drv: "stream_contract drv" "stream_contract drv'"
    and alloc: "sane_sizes (allocated_memory gpu (gst m))" "distinct (map fst (allocated_memory gpu (gst m)))"
    and es: "block_sizes (allocated_memory gpu (gst m))
        (blocks_to_snapshot (allocated_memory gpu (gst m)) regions []) = Inr es"
    and fits: "fits es"
    and ready: "\<forall>p \<in> fst ` set (allocated_memory gpu (gst m)). ready (gst m) p"
  shows "\<exists>fs' m1 n. ckpt_selective drv gpu regions (fs, m) = Inr ((fs', m1), n) \<and>
    (\<forall>m2. shm m2 = shm m1 \<and> keeps_ready gpu ready m1 m2 \<and>
       (\<forall>a. a \<notin> covered (rounded es) \<longrightarrow> dev m2 a = dev m1 a) \<longrightarrow>
       (\<exists>m3. restore_ptr_and_content_selective drv' gpu (fs', m2) = Inr (m3, n) \<and>
         (\<forall>a. a \<in> covered es \<or> a \<notin> covered (rounded es) \<longrightarrow> dev m3 a = dev m a)))"
proof -
  obtain fs' m1 where 1: "ckpt_selective drv gpu regions (fs, m) = Inr ((fs', m1), total es)"
      "\<forall>q. ready (gst m) q \<longrightarrow> ready (gst m1) q"
    using ckpt_selective_total [OF drv(1) fits es ready] by blast
  have nw: "fs_data_start + total es < 2 ^ 64" using fits SHM_SIZE_lt unfolding fits_def by linarith
  have sub: "fst ` set es \<subseteq> fst ` set (allocated_memory gpu (gst m))"
    using selected_blocks [of "allocated_memory gpu (gst m)" regions] es by simp
  have "\<exists>m3. restore_ptr_and_content_selective drv' gpu (fs', m2) = Inr (m3, total es) \<and>
      (\<forall>a. a \<in> covered es \<or> a \<notin> covered (rounded es) \<longrightarrow> dev m3 a = dev m a)"
    if m2: "shm m2 = shm m1 \<and> keeps_ready gpu ready m1 m2 \<and> (\<forall>a. a \<notin> covered (rounded es) \<longrightarrow> dev m2 a = dev m1 a)" for m2
  proof -
    have "holds_image es (dev m) (fs', m2)"
      using ckpt_selective_sound [OF drv(1) es nw 1(1)] m2 by (simp add: holds_image_def)
    moreover have "\<forall>p \<in> fst ` set es. ready (gst m2) p"
      using ready 1(2) m2 sub by (metis keeps_ready_def subsetD)
    ultimately obtain m3 where 3: "restore_ptr_and_content_selective drv' gpu (fs', m2) = Inr (m3, total es)"
      unfolding restore_ptr_and_content_selective_def
      using load_total [OF granule.chunk_policy_axioms drv(2) _ fits] by blast
    with selective_round_trip [OF drv alloc es nw 1(1) _ _ _ 3] m2 show ?thesis by (simp add: keeps_ready_def)
  qed
  with 1 show ?thesis by blast
qed

end

section \<open>The copies leave the backend alone\<close>

lemma retire_gst [simp]: "gst (retire k m) = gst m"
  by (simp add: retire_def split_beta Let_def)

lemma gpu_step_gst:
  "gpu_step drv c upd m = Inr (r, m') \<Longrightarrow> (\<And>m. gst (upd m) = gst m) \<Longrightarrow> gst m' = gst m"
  by (auto simp: gpu_step_def rbind_Inr_iff Let_def)

lemma stream_calls_gst:
  "createStream drv m = Inr (r, m') \<Longrightarrow> gst m' = gst m" "createEvent drv m = Inr (r, m') \<Longrightarrow> gst m' = gst m"
  "destroyStream drv m = Inr (r, m') \<Longrightarrow> gst m' = gst m" "destroyEvent drv m = Inr (r, m') \<Longrightarrow> gst m' = gst m"
  "recordEvent drv m = Inr (r, m') \<Longrightarrow> gst m' = gst m" "memcpyAsync drv x m = Inr (r, m') \<Longrightarrow> gst m' = gst m"
  "synchronizeEvent drv m = Inr (r, m') \<Longrightarrow> gst m' = gst m"
  "synchronizeStream drv m = Inr (r, m') \<Longrightarrow> gst m' = gst m"
  unfolding createStream_def createEvent_def destroyStream_def destroyEvent_def recordEvent_def
    memcpyAsync_def synchronizeEvent_def synchronizeStream_def
  by (erule gpu_step_gst, simp)+

lemma open_stream_gst: "open_stream drv m = Inr m' \<Longrightarrow> gst m' = gst m"
  by (auto simp: open_stream_def rbind_Inr_iff dest!: stream_calls_gst split: if_splits)

lemma d2h_rotate_gst: "d2h_rotate drv c = Inr c' \<Longrightarrow> gst (mach c') = gst (mach c)"
  by (auto simp: d2h_rotate_def d2h_drain_def rbind_Inr_iff dest!: stream_calls_gst split: if_splits)

lemma d2h_loop_gst: "d2h_loop drv clamp d sz c = Inr c' \<Longrightarrow> gst (mach c') = gst (mach c)"
proof (induction drv clamp d sz c rule: d2h_loop.induct)
  case (1 drv clamp d sz c)
  show ?case
  proof (cases "sz = 0")
    case True
    then show ?thesis using "1.prems" by (simp add: d2h_loop.simps)
  next
    case False
    let ?n = "clamp d (min sz (STAGING_BUF_SIZE - buf_offset c))"
    from "1.prems" False obtain r m c1 where n: "?n \<noteq> 0"
      and a: "memcpyAsync drv (D2H (staging_buf (current_buf c mod 2) + buf_offset c) d ?n) (mach c) = Inr (r, m)" "r = 0"
      and b: "d2h_rotate drv (c\<lparr>buf_offset := buf_offset c + ?n, mach := m\<rparr>) = Inr c1"
      and l: "d2h_loop drv clamp (d + ?n) (sz - ?n) c1 = Inr c'"
      by (subst (asm) d2h_loop.simps) (auto simp: rbind_Inr_iff Let_def split: if_splits)
    have "gst (mach c') = gst (mach c1)"
      using "1.IH" [OF False refl n] l a(2) by (auto split: prod.splits)
    then show ?thesis using stream_calls_gst(6) [OF a(1)] d2h_rotate_gst [OF b] by simp
  qed
qed

lemma save_blocks_gst: "save_blocks drv clamp es fs c = Inr (fs', c') \<Longrightarrow> gst (mach c') = gst (mach c)"
  by (induction drv clamp es fs c rule: save_blocks.induct)
    (auto simp: rbind_Inr_iff dest!: d2h_loop_gst)

lemma save_tail_gst: "save_tail drv fs c = Inr m' \<Longrightarrow> gst m' = gst (mach c)"
  by (auto simp: save_tail_def d2h_drain_def rbind_Inr_iff Let_def dest!: stream_calls_gst split: if_splits)

lemma save_image_gst: "save_image drv clamp es (fs, m) = Inr (fs', m') \<Longrightarrow> gst m' = gst m"
  by (auto simp: save_image_def rbind_Inr_iff dest!: open_stream_gst save_blocks_gst save_tail_gst)

lemma h2d_rotate_gst: "h2d_rotate drv off c = Inr c' \<Longrightarrow> gst (mach c') = gst (mach c)"
  by (auto simp: h2d_rotate_def h2d_fill_def rbind_Inr_iff Let_def dest!: stream_calls_gst split: if_splits)

lemma h2d_loop_gst: "h2d_loop drv clamp off req o' sz c = Inr c' \<Longrightarrow> gst (mach c') = gst (mach c)"
proof (induction drv clamp off req o' sz c rule: h2d_loop.induct)
  case (1 drv clamp off req o' sz c)
  show ?case
  proof (cases "sz = 0")
    case True
    then show ?thesis using "1.prems" by (simp add: h2d_loop.simps)
  next
    case False
    let ?n = "clamp req (min sz (STAGING_BUF_SIZE - buf_offset c))"
    from "1.prems" False obtain r m c1 where n: "?n \<noteq> 0" and e: "\<not> buf_offset c \<noteq> u64_sub o' (io_offset c)"
      and a: "memcpyAsync drv (H2D req (staging_buf (current_buf c mod 2) + u64_sub o' (io_offset c)) ?n) (mach c) = Inr (r, m)" "r = 0"
      and b: "h2d_rotate drv off (c\<lparr>buf_offset := buf_offset c + ?n, mach := m\<rparr>) = Inr c1"
      and l: "h2d_loop drv clamp off (req + ?n) (o' + ?n) (sz - ?n) c1 = Inr c'"
      by (subst (asm) h2d_loop.simps) (auto simp: rbind_Inr_iff Let_def split: if_splits)
    have "gst (mach c') = gst (mach c1)"
      using "1.IH" [OF False refl e n] l a(2) by (auto split: prod.splits)
    then show ?thesis using stream_calls_gst(6) [OF a(1)] h2d_rotate_gst [OF b] by simp
  qed
qed

lemma load_files_gst: "load_files drv clamp off i fl c = Inr c' \<Longrightarrow> gst (mach c') = gst (mach c)"
  by (induction drv clamp off i fl c rule: load_files.induct)
    (auto simp: rbind_Inr_iff first_fill_def h2d_fill_def Let_def dest!: h2d_loop_gst split: if_splits)

end
