(* ===== verification/Vmm.thy ===== *)
theory Vmm
  imports Checkpoint
begin

text \<open>
  Virtual memory management of device memory, as both backends use it: the driver calls, the tables
  of the hooked allocator (\<open>allocated_memory\<close>, \<open>allocated_memory_type\<close>,
  \<open>global_handle_map\<close>) and the sequence reserve, create, map, allow access with its clean-up.
  The driver is a \<open>native_lib\<close>: it chooses every return code, handle and address.  Device memory
  in a range that is mapped or unmapped holds arbitrary bytes afterwards (\<open>junk\<close>); no call changes
  other device memory.  From the history of calls one reads which physical allocations exist
  (\<open>live\<close>), which address ranges are reserved (\<open>reserved\<close>, with their sizes \<open>ranges\<close>), what is
  mapped there (\<open>mapped\<close>) and where access was granted (\<open>accessible\<close>).
\<close>

section \<open>The virtual memory management calls\<close>

datatype vmm_call =
    CuInit | CtxGetCurrent | CtxGetDevice | DeviceGet | PrimaryCtxRetain int
  | CtxPush nat | CtxPop | HostRegister nat nat | GetLastError
  | AddressReserve nat | AddressFree nat nat
  | MemCreate nat int | MemRelease nat
  | MemMap nat nat nat | MemUnmap nat nat | MemSetAccess nat nat int
  | RealFree nat

record vmm_driver =
  vmm :: "vmm_call native_lib"
  junk :: "vmm_call history \<Rightarrow> mem"
  has_real_free :: bool \<comment> \<open>\<open>dlsym(RTLD_NEXT, "cudaFree")\<close> finds a symbol\<close>

record vmm_state =
  allocated :: "(nat \<times> nat) list"
  allocated_memory_type :: "(nat \<times> int) list"
  global_handle_map :: "(nat \<times> nat) list"
  gpu_device :: int
  gpu_context :: nat
  gpu_initialized :: bool
  hook_inited :: bool
  hook_device :: int
  hook_context :: nat
  g_pytorch_context :: nat
  calls :: "vmm_call history"

fun touches :: "vmm_call \<Rightarrow> (nat \<times> nat) option" where
  "touches (MemMap p n h) = Some (p, n)"
| "touches (MemUnmap p n) = Some (p, n)"
| "touches _ = None"

definition vcall ::
    "vmm_driver \<Rightarrow> vmm_call \<Rightarrow> vmm_state machine \<Rightarrow> int \<times> nat \<times> vmm_state machine" where
  "vcall drv c m = (case native (vmm drv) c (calls (gst m)) of (r, v, h) \<Rightarrow>
     (r, v, m\<lparr>gst := (gst m)\<lparr>calls := h\<rparr>,
              dev := (case touches c of None \<Rightarrow> dev m
                      | Some (p, n) \<Rightarrow> blit p p n (junk drv h) (dev m))\<rparr>))"

definition vmm_upd :: "(vmm_state \<Rightarrow> vmm_state) \<Rightarrow> vmm_state machine \<Rightarrow> vmm_state machine" where
  "vmm_upd f m = m\<lparr>gst := f (gst m)\<rparr>"

section \<open>Allocating\<close>

definition vmm_alloc ::
    "vmm_driver \<Rightarrow> nat \<Rightarrow> int \<Rightarrow> vmm_state machine \<Rightarrow> (int + nat \<times> nat) \<times> vmm_state machine" where
  \<comment> \<open>reserve, create, map, allow access; on a failure undo what was done, in reverse order\<close>
  "vmm_alloc drv n d m =
     (let (r, va, m1) = vcall drv (AddressReserve n) m in
      if r \<noteq> 0 then (Inl r, m1)
      else let (r, h, m2) = vcall drv (MemCreate n d) m1 in
      if r \<noteq> 0 then
        let (_, _, m3) = vcall drv (AddressFree va n) m2 in (Inl r, m3)
      else let (r, _, m3) = vcall drv (MemMap va n h) m2 in
      if r \<noteq> 0 then
        let (_, _, m4) = vcall drv (MemRelease h) m3;
            (_, _, m5) = vcall drv (AddressFree va n) m4 in (Inl r, m5)
      else let (r, _, m4) = vcall drv (MemSetAccess va n d) m3 in
      if r \<noteq> 0 then
        let (_, _, m5) = vcall drv (MemUnmap va n) m4;
            (_, _, m6) = vcall drv (MemRelease h) m5;
            (_, _, m7) = vcall drv (AddressFree va n) m6 in (Inl r, m7)
      else (Inr (va, h), m4))"

definition vmm_start :: vmm_state where
  "vmm_start = \<lparr>allocated = [], allocated_memory_type = [], global_handle_map = [], gpu_device = -1,
     gpu_context = 0, gpu_initialized = False, hook_inited = False, hook_device = -1, hook_context = 0,
     g_pytorch_context = 0, calls = []\<rparr>"

section \<open>Calls\<close>

abbreviation after :: "vmm_driver \<Rightarrow> vmm_call \<Rightarrow> vmm_state machine \<Rightarrow> vmm_state machine" where
  "after drv c m \<equiv> snd (snd (vcall drv c m))"

abbreviation rc :: "vmm_driver \<Rightarrow> vmm_call \<Rightarrow> vmm_state machine \<Rightarrow> int" where
  "rc drv c m \<equiv> fst (vcall drv c m)"

abbreviation val :: "vmm_driver \<Rightarrow> vmm_call \<Rightarrow> vmm_state machine \<Rightarrow> nat" where
  "val drv c m \<equiv> fst (snd (vcall drv c m))"

lemma vcall_fields [simp]:
  "stg (after drv c m) = stg m" "shm (after drv c m) = shm m" "queue (after drv c m) = queue m"
  "mark (after drv c m) = mark m"
  "allocated (gst (after drv c m)) = allocated (gst m)"
  "allocated_memory_type (gst (after drv c m)) = allocated_memory_type (gst m)"
  "global_handle_map (gst (after drv c m)) = global_handle_map (gst m)"
  by (simp_all add: vcall_def native_def split_beta)

lemma vcall_calls: "calls (gst (after drv c m)) = calls (gst m) @ [(c, rc drv c m, val drv c m)]"
  by (simp add: vcall_def native_def split_beta)

lemma vcall_dev:
  "dev (after drv c m) = (case touches c of None \<Rightarrow> dev m
     | Some (p, n) \<Rightarrow> blit p p n (junk drv (calls (gst m) @ [(c, rc drv c m, val drv c m)])) (dev m))"
  by (cases "vmm drv c (calls (gst m))") (simp add: vcall_def native_def split: option.split)

lemma vcall_dev_same [simp]: "touches c = None \<Longrightarrow> dev (after drv c m) = dev m"
  by (simp add: vcall_dev)

lemma vcall_dev_out [simp]:
  "a < p \<Longrightarrow> dev (after drv (MemUnmap p n) m) a = dev m a"
  "a < p \<Longrightarrow> dev (after drv (MemMap p n h) m) a = dev m a"
  "\<not> a < p + extent sz \<Longrightarrow> dev (after drv (MemUnmap p (round_up_2mb sz)) m) a = dev m a"
  "\<not> a < p + extent sz \<Longrightarrow> dev (after drv (MemMap p (round_up_2mb sz) h) m) a = dev m a"
  by (simp_all add: vcall_dev blit_out extent_def)

lemma vmm_upd_fields [simp]:
  "stg (vmm_upd f m) = stg m" "shm (vmm_upd f m) = shm m" "queue (vmm_upd f m) = queue m"
  "mark (vmm_upd f m) = mark m" "dev (vmm_upd f m) = dev m" "gst (vmm_upd f m) = f (gst m)"
  by (simp_all add: vmm_upd_def)

lemmas vmm_split = option.splits if_splits prod.splits

section \<open>Handles and address ranges\<close>

fun live_step :: "vmm_call \<times> int \<times> nat \<Rightarrow> nat set \<Rightarrow> nat set" where
  "live_step (MemCreate n d, r, v) S = (if r = 0 then insert v S else S)"
| "live_step (MemRelease h, r, v) S = (if r = 0 then S - {h} else S)"
| "live_step _ S = S"

definition live :: "vmm_call history \<Rightarrow> nat set" where
  \<comment> \<open>physical allocations created and not released\<close>
  "live h = fold live_step h {}"

fun reserved_step :: "vmm_call \<times> int \<times> nat \<Rightarrow> nat set \<Rightarrow> nat set" where
  "reserved_step (AddressReserve n, r, v) S = (if r = 0 then insert v S else S)"
| "reserved_step (AddressFree p n, r, v) S = (if r = 0 then S - {p} else S)"
| "reserved_step _ S = S"

definition reserved :: "vmm_call history \<Rightarrow> nat set" where
  \<comment> \<open>virtual ranges reserved and not freed\<close>
  "reserved h = fold reserved_step h {}"

fun range_step :: "vmm_call \<times> int \<times> nat \<Rightarrow> (nat \<rightharpoonup> nat) \<Rightarrow> (nat \<rightharpoonup> nat)" where
  "range_step (AddressReserve n, r, v) R = (if r = 0 then R(v \<mapsto> n) else R)"
| "range_step (AddressFree p n, r, v) R = (if r = 0 then R(p := None) else R)"
| "range_step _ R = R"

definition ranges :: "vmm_call history \<Rightarrow> (nat \<rightharpoonup> nat)" where
  \<comment> \<open>the reserved ranges with their sizes\<close>
  "ranges h = fold range_step h Map.empty"

fun map_step :: "vmm_call \<times> int \<times> nat \<Rightarrow> (nat \<rightharpoonup> nat \<times> nat) \<Rightarrow> (nat \<rightharpoonup> nat \<times> nat)" where
  "map_step (MemMap p n x, r, v) M = (if r = 0 then M(p \<mapsto> (n, x)) else M)"
| "map_step (MemUnmap p n, r, v) M = (if r = 0 then M(p := None) else M)"
| "map_step _ M = M"

definition mapped :: "vmm_call history \<Rightarrow> (nat \<rightharpoonup> nat \<times> nat)" where
  \<comment> \<open>what is mapped: by address, the size and the handle\<close>
  "mapped h = fold map_step h Map.empty"

fun access_step :: "vmm_call \<times> int \<times> nat \<Rightarrow> (nat \<rightharpoonup> nat \<times> int) \<Rightarrow> (nat \<rightharpoonup> nat \<times> int)" where
  "access_step (MemSetAccess p n d, r, v) A = (if r = 0 then A(p \<mapsto> (n, d)) else A)"
| "access_step (MemUnmap p n, r, v) A = (if r = 0 then A(p := None) else A)"
| "access_step _ A = A"

definition accessible :: "vmm_call history \<Rightarrow> (nat \<rightharpoonup> nat \<times> int)" where
  \<comment> \<open>where access is granted: by address, the size and the device\<close>
  "accessible h = fold access_step h Map.empty"

lemma reserved_ranges: "reserved h = dom (ranges h)"
proof (induction h rule: rev_induct)
  case (snoc e h)
  obtain c r v where "e = (c, r, v)" by (cases e)
  with snoc show ?case by (cases c) (auto simp: reserved_def ranges_def dom_def split: if_splits)
qed (simp add: reserved_def ranges_def)

lemma live_after [simp]:
  "live (calls (gst (after drv c m))) = live_step (c, rc drv c m, val drv c m) (live (calls (gst m)))"
  by (simp add: live_def vcall_calls)

lemma reserved_after [simp]:
  "reserved (calls (gst (after drv c m))) =
     reserved_step (c, rc drv c m, val drv c m) (reserved (calls (gst m)))"
  by (simp add: reserved_def vcall_calls)

lemma regions_after [simp]:
  "ranges (calls (gst (after drv c m))) = range_step (c, rc drv c m, val drv c m) (ranges (calls (gst m)))"
  "mapped (calls (gst (after drv c m))) = map_step (c, rc drv c m, val drv c m) (mapped (calls (gst m)))"
  "accessible (calls (gst (after drv c m))) = access_step (c, rc drv c m, val drv c m) (accessible (calls (gst m)))"
  by (simp_all add: ranges_def mapped_def accessible_def vcall_calls)

definition vmm_contract :: "vmm_driver \<Rightarrow> bool" where
  \<comment> \<open>new handles and new ranges are not in use; what one holds can be given back: a physical
      allocation, a mapping of exactly its size, a reservation of exactly its size where nothing is
      mapped any more\<close>
  "vmm_contract drv \<longleftrightarrow>
     (\<forall>n d h. fst (vmm drv (MemCreate n d) h) = 0 \<longrightarrow> snd (vmm drv (MemCreate n d) h) \<notin> live h) \<and>
     (\<forall>n h. fst (vmm drv (AddressReserve n) h) = 0 \<longrightarrow>
        (let p = snd (vmm drv (AddressReserve n) h) in p \<notin> reserved h \<and> mapped h p = None \<and> accessible h p = None)) \<and>
     (\<forall>x h. x \<in> live h \<longrightarrow> fst (vmm drv (MemRelease x) h) = 0) \<and>
     (\<forall>p n x h. mapped h p = Some (n, x) \<longrightarrow> fst (vmm drv (MemUnmap p n) h) = 0) \<and>
     (\<forall>p n h. ranges h p = Some n \<and> mapped h p = None \<longrightarrow> fst (vmm drv (AddressFree p n) h) = 0)"

lemma rc_val: "rc drv c m = fst (vmm drv c (calls (gst m)))" "val drv c m = snd (vmm drv c (calls (gst m)))"
  by (simp_all add: vcall_def native_def split_beta)

lemma vmm_contractD:
  assumes "vmm_contract drv"
  shows "rc drv (MemCreate n d) m = 0 \<Longrightarrow> val drv (MemCreate n d) m \<notin> live (calls (gst m))"
    "rc drv (AddressReserve n) m = 0 \<Longrightarrow> val drv (AddressReserve n) m \<notin> reserved (calls (gst m))"
    "x \<in> live (calls (gst m)) \<Longrightarrow> rc drv (MemRelease x) m = 0"
    "rc drv (AddressReserve n) m = 0 \<Longrightarrow> mapped (calls (gst m)) (val drv (AddressReserve n) m) = None"
    "rc drv (AddressReserve n) m = 0 \<Longrightarrow> accessible (calls (gst m)) (val drv (AddressReserve n) m) = None"
    "mapped (calls (gst m)) p = Some (n, x) \<Longrightarrow> rc drv (MemUnmap p n) m = 0"
    "ranges (calls (gst m)) p = Some n \<Longrightarrow> mapped (calls (gst m)) p = None \<Longrightarrow> rc drv (AddressFree p n) m = 0"
  using assms by (auto simp: vmm_contract_def rc_val Let_def)

definition tables :: "vmm_state \<Rightarrow> (nat \<times> nat) list \<times> (nat \<times> int) list \<times> (nat \<times> nat) list" where
  "tables s = (allocated s, allocated_memory_type s, global_handle_map s)"

definition device_view :: "vmm_state \<Rightarrow>
    nat set \<times> (nat \<rightharpoonup> nat) \<times> (nat \<rightharpoonup> nat \<times> nat) \<times> (nat \<rightharpoonup> nat \<times> int)" where
  \<comment> \<open>what the process holds on the device\<close>
  "device_view s = (live (calls s), ranges (calls s), mapped (calls s), accessible (calls s))"

lemma device_view_after [simp]:
  "device_view (gst (after drv c m)) = (case device_view (gst m) of (L, R, M, A) \<Rightarrow>
     (live_step (c, rc drv c m, val drv c m) L, range_step (c, rc drv c m, val drv c m) R,
      map_step (c, rc drv c m, val drv c m) M, access_step (c, rc drv c m, val drv c m) A))"
  by (simp add: device_view_def)

lemma device_view_live: "device_view s' = device_view s \<Longrightarrow> live (calls s') = live (calls s)"
  "device_view s' = device_view s \<Longrightarrow> reserved (calls s') = reserved (calls s)"
  by (simp_all add: device_view_def reserved_ranges)

lemma fun_upd_back: "f x = None \<Longrightarrow> f(x := None) = f" "x \<notin> dom f \<Longrightarrow> f(x := None) = f"
  by (auto simp: fun_eq_iff)

lemma vmm_alloc_Inl:
  assumes "vmm_contract drv" "vmm_alloc drv n d m = (Inl e, m')"
  shows "device_view (gst m') = device_view (gst m) \<and> tables (gst m') = tables (gst m)"
proof -
  note D = vmm_contractD [OF assms(1)]
  note fresh = D(1) [of n d "after drv (AddressReserve n) m", simplified]
  note range = D(2) [of n m] D(4) [of n m] D(5) [of n m]
  show ?thesis
    using assms(2) fresh range unfolding vmm_alloc_def device_view_def
    by (auto simp: split_beta Let_def tables_def D(3) D(6) D(7) fun_upd_back reserved_ranges split: if_splits)
qed

lemma vmm_alloc_Inr:
  assumes "vmm_contract drv" "vmm_alloc drv n d m = (Inr (p, h), m')"
  shows "h \<notin> live (calls (gst m)) \<and> p \<notin> reserved (calls (gst m)) \<and>
    mapped (calls (gst m)) p = None \<and> accessible (calls (gst m)) p = None \<and>
    device_view (gst m') = (insert h (live (calls (gst m))), (ranges (calls (gst m)))(p \<mapsto> n),
      (mapped (calls (gst m)))(p \<mapsto> (n, h)), (accessible (calls (gst m)))(p \<mapsto> (n, d))) \<and>
    tables (gst m') = tables (gst m)"
proof -
  from assms(2) have "rc drv (AddressReserve n) m = 0" "p = val drv (AddressReserve n) m"
      "rc drv (MemCreate n d) (after drv (AddressReserve n) m) = 0"
      "h = val drv (MemCreate n d) (after drv (AddressReserve n) m)"
    by (auto simp: vmm_alloc_def split_beta Let_def split: if_splits)
  note 1 = this
  note D = vmm_contractD [OF assms(1)]
  have 2: "h \<notin> live (calls (gst m))" "p \<notin> reserved (calls (gst m))" "mapped (calls (gst m)) p = None"
    "accessible (calls (gst m)) p = None"
    using D(1) [OF 1(3)] D(2) [OF 1(1)] D(4) [OF 1(1)] D(5) [OF 1(1)] by (simp_all add: 1(2,4))
  then show ?thesis using assms(2)
    by (auto simp: vmm_alloc_def split_beta Let_def tables_def device_view_def split: if_splits)
qed

section \<open>Drivers whose calls succeed\<close>

definition all_ok :: "vmm_driver \<Rightarrow> vmm_driver" where
  "all_ok drv = drv\<lparr>vmm := \<lambda>c h. (0, snd (vmm drv c h))\<rparr>"

definition vmm_ok :: "vmm_driver \<Rightarrow> bool" where
  "vmm_ok drv \<longleftrightarrow> (\<forall>c h. fst (vmm drv c h) = 0)"

lemma vmm_ok_all_ok: "vmm_ok drv \<Longrightarrow> all_ok drv = drv"
proof -
  assume "vmm_ok drv"
  then have "(\<lambda>c h. (0, snd (vmm drv c h))) = vmm drv"
    by (simp add: vmm_ok_def fun_eq_iff prod_eq_iff)
  then show ?thesis by (simp add: all_ok_def)
qed

lemma rc_all_ok [simp]: "rc (all_ok drv) c m = 0"
  by (simp add: rc_val all_ok_def)

section \<open>A concrete device\<close>

definition prompt_driver :: "'g driver" where
  \<comment> \<open>every copy has completed when the call that waits for it returns\<close>
  "prompt_driver = \<lparr>vendor = NVIDIA, api_rc = \<lambda>_ _. 0, progress = \<lambda>_ m. mark m + length (queue m)\<rparr>"

definition counting_vmm :: vmm_driver where
  \<comment> \<open>handles and address ranges are numbered upwards\<close>
  "counting_vmm = \<lparr>vmm = \<lambda>c h. (0, case c of
       MemCreate _ _ \<Rightarrow> Suc (Max (insert 0 (live h)))
     | AddressReserve _ \<Rightarrow> Suc (Max (insert 0 (reserved h \<union> dom (mapped h) \<union> dom (accessible h)))) * 2 ^ 21
     | _ \<Rightarrow> 1), junk = \<lambda>_ _. 0, has_real_free = False\<rparr>"

definition sample_machine :: "vmm_state machine" where
  "sample_machine = \<lparr>dev = \<lambda>a. word_of_nat a, stg = \<lambda>_. 0, shm = \<lambda>_. 0, queue = [], mark = 0,
     gst = vmm_start\<lparr>allocated := [(4194304, 5000), (8388608, 2097152)],
       allocated_memory_type := [(4194304, 1), (8388608, 1)],
       global_handle_map := [(4194304, 1), (8388608, 2)]\<rparr>\<rparr>"

lemma prompt_driver_contract: "stream_contract prompt_driver"
  by (simp add: stream_contract_def prompt_driver_def)

lemma live_finite: "finite (fold live_step h S) \<longleftrightarrow> finite S"
proof (induction h arbitrary: S)
  case (Cons e h)
  obtain c r v where "e = (c, r, v)" by (cases e)
  then show ?case using Cons by (cases c) auto
qed simp

lemma reserved_finite: "finite (fold reserved_step h S) \<longleftrightarrow> finite S"
proof (induction h arbitrary: S)
  case (Cons e h)
  obtain c r v where "e = (c, r, v)" by (cases e)
  then show ?case using Cons by (cases c) auto
qed simp

lemma mapped_finite: "finite (dom (fold map_step h M)) \<longleftrightarrow> finite (dom M)"
proof (induction h arbitrary: M)
  case (Cons e h)
  obtain c r v where "e = (c, r, v)" by (cases e)
  then show ?case using Cons by (cases c) auto
qed simp

lemma accessible_finite: "finite (dom (fold access_step h A)) \<longleftrightarrow> finite (dom A)"
proof (induction h arbitrary: A)
  case (Cons e h)
  obtain c r v where "e = (c, r, v)" by (cases e)
  then show ?case using Cons by (cases c) auto
qed simp

lemma counting_vmm_contract: "vmm_contract counting_vmm" "vmm_ok counting_vmm"
proof -
  have "Suc (Max (insert 0 S)) \<notin> S" "Suc (Max (insert 0 S)) * 2 ^ 21 \<notin> S" if "finite S" for S :: "nat set"
  proof -
    have le: "x \<le> Max (insert 0 S)" if "x \<in> S" for x using that \<open>finite S\<close> by simp
    show "Suc (Max (insert 0 S)) \<notin> S" using le [of "Suc (Max (insert 0 S))"] by auto
    show "Suc (Max (insert 0 S)) * 2 ^ 21 \<notin> S" using le [of "Suc (Max (insert 0 S)) * 2 ^ 21"] by auto
  qed
  note out = this
  have "finite (live h)" "finite (reserved h \<union> dom (mapped h) \<union> dom (accessible h))" for h
    by (simp_all add: live_def reserved_def mapped_def accessible_def live_finite reserved_finite mapped_finite accessible_finite)
  note fin = out(1) [OF this(1)] out(2) [OF this(2)]
  have "p \<notin> reserved h \<and> mapped h p = None \<and> accessible h p = None"
    if "p = Suc (Max (insert 0 (reserved h \<union> dom (mapped h) \<union> dom (accessible h)))) * 2 ^ 21" for p h
    using fin(2) [of h] unfolding that [symmetric] by (metis UnCI domIff)
  with fin(1) show "vmm_contract counting_vmm"
    unfolding vmm_contract_def counting_vmm_def Let_def by simp
  show "vmm_ok counting_vmm" by (simp add: vmm_ok_def counting_vmm_def)
qed

lemma sample_facts:
  "omap_ok (allocated (gst sample_machine))" "sane_sizes (allocated (gst sample_machine))"
  "fits (rounded (allocated (gst sample_machine)))"
  by (simp_all add: sample_machine_def sane_sizes_def fits_def rounded_def round_up_2mb_eq
      SHM_SIZE_def MAX_FILE_NUM_def)

end
