(* ===== verification/AMD_Backend.thy ===== *)
theory AMD_Backend
  imports Vmm
begin

text \<open>
  The AMD backend (\<open>src/GPUs/AMD/amd.cpp\<close>): the hooked \<open>hipMalloc\<close> and \<open>hipFree\<close>, and
  release and remapping of physical memory.  It keeps the tables of \<open>Vmm\<close>, records rounded sizes,
  and differs from the NVIDIA backend in that a release keeps the handle in the table and a remap
  overwrites the recorded size.  The theory interprets \<open>gpu_backend\<close> and \<open>gpu_total\<close>, so that
  the round trips of \<open>Checkpoint\<close> hold for this backend too.
\<close>

section \<open>Release and remap\<close>

definition amd_releasePhysicalMemory ::
    "vmm_driver \<Rightarrow> nat \<Rightarrow> vmm_state machine \<Rightarrow> exit_reason + int \<times> vmm_state machine" where
  "amd_releasePhysicalMemory drv p m =
     (case map_of (allocated (gst m)) p of
        None \<Rightarrow> Inr (0, m)
      | Some sz \<Rightarrow>
          (case map_of (global_handle_map (gst m)) p of
             None \<Rightarrow> Inr (-1, m)
           | Some h \<Rightarrow>
               (let (r, _, m1) = vcall drv (MemUnmap p sz) m in
                if r \<noteq> 0 then Inr (-1, m1)
                else let (r, _, m2) = vcall drv (MemRelease h) m1 in
                if r \<noteq> 0 then Inr (-1, m2)
                else Inr (0, m2))))"

definition amd_remapPhysicalMemory ::
    "vmm_driver \<Rightarrow> nat \<Rightarrow> nat \<Rightarrow> vmm_state machine \<Rightarrow> exit_reason + int \<times> vmm_state machine" where
  "amd_remapPhysicalMemory drv p sz m =
     (let (r, h, m1) = vcall drv (MemCreate sz (gpu_device (gst m))) m in
      if r \<noteq> 0 then Inr (-1, m1)
      else let (r, _, m2) = vcall drv (MemMap p sz h) m1 in
      if r \<noteq> 0 then
        let (_, _, m3) = vcall drv (MemRelease h) m2 in Inr (-1, m3)
      else let (r, _, m3) = vcall drv (MemSetAccess p sz (gpu_device (gst m2))) m2 in
      if r \<noteq> 0 then
        let (_, _, m4) = vcall drv (MemUnmap p sz) m3;
            (_, _, m5) = vcall drv (MemRelease h) m4 in Inr (-1, m5)
      else Inr (0, vmm_upd (\<lambda>s. s\<lparr>
          global_handle_map := omap_put p h (global_handle_map s),
          allocated := omap_put p sz (allocated s),
          allocated_memory_type := omap_put p 1 (allocated_memory_type s)\<rparr>) m3))"

definition amd_gpu :: "vmm_driver \<Rightarrow> vmm_state GPU" where
  "amd_gpu drv = \<lparr>allocated_memory = allocated,
     releasePhysicalMemory = amd_releasePhysicalMemory drv,
     remapPhysicalMemory = amd_remapPhysicalMemory drv\<rparr>"

section \<open>Allocation\<close>

definition hipMalloc ::
    "vmm_driver \<Rightarrow> nat \<Rightarrow> vmm_state machine \<Rightarrow> int \<times> nat option \<times> vmm_state machine" where
  \<comment> \<open>\<open>hipGetDevice\<close> leaves device 0 when it fails\<close>
  "hipMalloc drv sz m =
     (if sz = 0 then (0, Some 0, m)
      else let (r, d, m1) = vcall drv CtxGetDevice m;
               device = (if r = 0 then int d else 0);
               n = round_up_2mb sz in
      case vmm_alloc drv n device m1 of
        (Inl e, m2) \<Rightarrow> (e, None, m2)
      | (Inr (p, h), m2) \<Rightarrow> (0, Some p, vmm_upd (\<lambda>s. s\<lparr>
            allocated := omap_put p n (allocated s),
            allocated_memory_type := omap_put p 1 (allocated_memory_type s),
            global_handle_map := omap_put p h (global_handle_map s)\<rparr>) m2))"

definition real_free :: "vmm_driver \<Rightarrow> nat \<Rightarrow> vmm_state machine \<Rightarrow> int \<times> vmm_state machine" where
  "real_free drv p m =
     (if has_real_free drv then let (r, _, m1) = vcall drv (RealFree p) m in (r, m1) else (0, m))"

definition hipFree :: "vmm_driver \<Rightarrow> nat \<Rightarrow> vmm_state machine \<Rightarrow> int \<times> vmm_state machine" where
  "hipFree drv p m =
     (if p = 0 then (0, m)
      else case map_of (allocated (gst m)) p of
        Some sz \<Rightarrow>
          let m1 = (case map_of (global_handle_map (gst m)) p of
              Some h \<Rightarrow>
                let (_, _, ma) = vcall drv (MemUnmap p sz) m;
                    (_, _, mb) = vcall drv (MemRelease h) ma;
                    (_, _, mc) = vcall drv (AddressFree p sz) mb
                in vmm_upd (\<lambda>s. s\<lparr>global_handle_map := omap_erase p (global_handle_map s)\<rparr>) mc
            | None \<Rightarrow> snd (real_free drv p m))
          in (0, vmm_upd (\<lambda>s. s\<lparr>allocated := omap_erase p (allocated s),
                 allocated_memory_type := omap_erase p (allocated_memory_type s)\<rparr>) m1)
      | None \<Rightarrow> real_free drv p m)"

section \<open>The backend keeps to its contract\<close>

lemma vcall_dev_size [simp]:
  "\<not> a < p + extent sz \<Longrightarrow> dev (after drv (MemUnmap p sz) m) a = dev m a"
  "\<not> a < p + extent sz \<Longrightarrow> dev (after drv (MemMap p sz h) m) a = dev m a"
  by (simp_all add: vcall_dev blit_out extent_def)

lemma amd_release_frame:
  assumes "amd_releasePhysicalMemory drv p m = Inr (r, m')"
  shows "same_host m m' \<and> allocated (gst m') = allocated (gst m) \<and>
    (\<forall>a. a \<notin> owned (allocated (gst m)) p \<longrightarrow> dev m' a = dev m a)"
  using assms unfolding amd_releasePhysicalMemory_def
  by (auto simp: split_beta Let_def same_host_def owned_def split: option.splits if_splits)

lemma amd_remap_frame:
  assumes "amd_remapPhysicalMemory drv p sz m = Inr (r, m')"
  shows "same_host m m' \<and>
    (map_of (allocated (gst m')) = map_of (allocated (gst m)) \<or>
     map_of (allocated (gst m')) = (map_of (allocated (gst m)))(p \<mapsto> sz)) \<and>
    (\<forall>a. a \<notin> owned (allocated (gst m)) p \<union> {p..<p + extent sz} \<longrightarrow> dev m' a = dev m a)"
  using assms unfolding amd_remapPhysicalMemory_def
  by (auto simp: split_beta Let_def same_host_def split: if_splits)

interpretation amd: gpu_backend "amd_gpu drv" for drv
  by unfold_locales (auto simp: amd_gpu_def dest: amd_release_frame amd_remap_frame)

lemma amd_gpu_allocated [simp]: "allocated_memory (amd_gpu v) = allocated"
  by (simp add: amd_gpu_def)

interpretation amd_total: gpu_total "amd_gpu (all_ok drv)"
  "\<lambda>s p. p \<in> dom (map_of (allocated s)) \<and> p \<in> dom (map_of (global_handle_map s))" for drv
  by unfold_locales
    (auto simp: amd_gpu_def amd_releasePhysicalMemory_def amd_remapPhysicalMemory_def split_beta Let_def)

section \<open>Properties\<close>

text \<open>A full checkpoint on the AMD backend returns, and a later restore returns and gives back the
  whole device memory, under the same conditions as on the NVIDIA backend and with every allocation
  having a handle, as \<open>hipMalloc\<close> leaves it.\<close>

theorem amd_full_round_trip:
  assumes "stream_contract drv" "stream_contract drv'" "vmm_ok v"
    and "omap_ok (allocated (gst m))" "sane_sizes (allocated (gst m))" "fits (rounded (allocated (gst m)))"
    and "dom (map_of (allocated (gst m))) \<subseteq> dom (map_of (global_handle_map (gst m)))"
  shows "\<exists>fs' m1 n. ckpt drv (amd_gpu v) (fs, m) = Inr ((fs', m1), n) \<and>
    (\<forall>m2. shm m2 = shm m1 \<and> gst m2 = gst m1 \<and>
       (\<forall>a. a \<notin> covered (rounded (allocated (gst m))) \<longrightarrow> dev m2 a = dev m1 a) \<longrightarrow>
       (\<exists>m3. restore_ptr_and_content drv' (amd_gpu v) (fs', m2) = Inr (m3, n) \<and> dev m3 = dev m))"
proof -
  have "keeps_ready (amd_gpu v) ready m1 m2" if "gst m2 = gst m1" for ready m1 m2
    using that by (simp add: keeps_ready_def)
  then show ?thesis
    using amd_total.full_round_trip_total [OF assms(1,2), of v m fs] assms(4-)
    by (simp add: vmm_ok_all_ok [OF assms(3)] omap.distinct_keys dom_map_of_conv_image_fst subset_iff) blast
qed

theorem amd_full_round_trip_witness:
  "\<exists>fs' m1 m3 n. ckpt prompt_driver (amd_gpu counting_vmm) (fs_reset undefined, sample_machine) = Inr ((fs', m1), n) \<and>
     restore_ptr_and_content prompt_driver (amd_gpu counting_vmm) (fs', m1) = Inr (m3, n) \<and> dev m3 = dev sample_machine"
proof -
  have "dom (map_of (allocated (gst sample_machine))) \<subseteq> dom (map_of (global_handle_map (gst sample_machine)))"
    by (simp add: sample_machine_def)
  from amd_full_round_trip [OF prompt_driver_contract prompt_driver_contract counting_vmm_contract(2)
      sample_facts this, of "fs_reset undefined"]
  show ?thesis by blast
qed

text \<open>On the AMD backend a release leaves the handle in the table, so that freeing the pointer
  before it is remapped asks the driver to unmap the range and release the handle a second time,
  although that physical allocation no longer exists.\<close>

theorem hipFree_after_release_releases_twice:
  assumes "p \<noteq> 0" "map_of (allocated (gst m)) p = Some sz" "map_of (global_handle_map (gst m)) p = Some h"
    and "amd_releasePhysicalMemory v p m = Inr (0, m1)" "hipFree v p m1 = (e, m2)"
  shows "h \<notin> live (calls (gst m1)) \<and>
    (\<exists>ru vu rr vr rf vf. calls (gst m2) = calls (gst m1) @
       [(MemUnmap p sz, ru, vu), (MemRelease h, rr, vr), (AddressFree p sz, rf, vf)])"
proof -
  let ?ma = "after v (MemUnmap p sz) m"
  have m1: "m1 = after v (MemRelease h) ?ma" "rc v (MemRelease h) ?ma = 0"
    using assms(2-4) by (auto simp: amd_releasePhysicalMemory_def split_beta Let_def split: if_splits)
  have "h \<notin> live (calls (gst m1))" unfolding m1(1) by (simp add: m1(2))
  moreover have "map_of (allocated (gst m1)) p = Some sz" "map_of (global_handle_map (gst m1)) p = Some h"
    using assms(2,3) by (simp_all add: m1(1))
  ultimately show ?thesis
    using assms(1,5) by (auto simp: hipFree_def split_beta Let_def vcall_calls)
qed

theorem hipFree_after_release_releases_twice_witness:
  "\<exists>m1 e m2 ru vu rr vr rf vf.
     amd_releasePhysicalMemory counting_vmm 4194304 sample_machine = Inr (0, m1) \<and>
     hipFree counting_vmm 4194304 m1 = (e, m2) \<and>
     calls (gst m2) = calls (gst m1) @ [(MemUnmap 4194304 5000, ru, vu), (MemRelease 1, rr, vr), (AddressFree 4194304 5000, rf, vf)]"
proof -
  have ok: "rc counting_vmm c m = 0" for c m by (simp add: rc_val counting_vmm_def)
  have t: "map_of (allocated (gst sample_machine)) 4194304 = Some 5000"
      "map_of (global_handle_map (gst sample_machine)) 4194304 = Some 1"
    by (simp_all add: sample_machine_def)
  then obtain m1 where 1: "amd_releasePhysicalMemory counting_vmm 4194304 sample_machine = Inr (0, m1)"
    by (simp add: amd_releasePhysicalMemory_def split_beta Let_def ok)
  obtain e m2 where 2: "hipFree counting_vmm 4194304 m1 = (e, m2)" by fastforce
  have "(4194304 :: nat) \<noteq> 0" by simp
  from hipFree_after_release_releases_twice [OF this t 1 2] 1 2 show ?thesis by blast
qed

end
