(* ===== verification/NV_Backend.thy ===== *)
theory NV_Backend
  imports Vmm
begin

text \<open>
  The NVIDIA backend (\<open>src/GPUs/NVIDIA/nv.cpp\<close>): the hooked \<open>cudaMalloc\<close> and \<open>cudaFree\<close>
  with their tables, and release and remapping of the physical memory behind a device pointer.
  The theory interprets \<open>gpu_backend\<close> for every driver and \<open>gpu_total\<close> for every driver whose
  calls succeed, and shows by rule induction that the allocator's tables always describe exactly the
  physical allocations that exist.
\<close>

section \<open>Release and remap\<close>

definition nv_releasePhysicalMemory ::
    "vmm_driver \<Rightarrow> nat \<Rightarrow> vmm_state machine \<Rightarrow> exit_reason + int \<times> vmm_state machine" where
  "nv_releasePhysicalMemory drv p m =
     (case map_of (allocated (gst m)) p of
        None \<Rightarrow> Inr (-1, m)
      | Some sz \<Rightarrow>
          (let (r, _, m1) = vcall drv (MemUnmap p (round_up_2mb sz)) m in
           if r \<noteq> 0 then Inr (-1, m1)
           else case map_of (global_handle_map (gst m1)) p of
                  None \<Rightarrow> Inr (0, m1)
                | Some h \<Rightarrow>
                    (let (r, _, m2) = vcall drv (MemRelease h) m1 in
                     if r \<noteq> 0 then Inr (-1, m2)
                     else Inr (0, vmm_upd (\<lambda>s. s\<lparr>global_handle_map := omap_erase p (global_handle_map s)\<rparr>) m2))))"

definition nv_drop_old ::
    "vmm_driver \<Rightarrow> nat \<Rightarrow> nat \<Rightarrow> vmm_state machine \<Rightarrow> int \<times> vmm_state machine" where
  \<comment> \<open>the pointer is still mapped: release its physical memory first\<close>
  "nv_drop_old drv p old_size m =
     (case map_of (global_handle_map (gst m)) p of
        None \<Rightarrow> (0, m)
      | Some h \<Rightarrow>
          (let (r, _, m1) = vcall drv (MemUnmap p (round_up_2mb old_size)) m in
           if r \<noteq> 0 then (-1, m1)
           else let (r, _, m2) = vcall drv (MemRelease h) m1 in
                if r \<noteq> 0 then (-1, m2)
                else (0, vmm_upd (\<lambda>s. s\<lparr>global_handle_map := omap_erase p (global_handle_map s)\<rparr>) m2)))"

definition nv_remapPhysicalMemory ::
    "vmm_driver \<Rightarrow> nat \<Rightarrow> nat \<Rightarrow> vmm_state machine \<Rightarrow> exit_reason + int \<times> vmm_state machine" where
  "nv_remapPhysicalMemory drv p sz m =
     (case map_of (allocated (gst m)) p of
        None \<Rightarrow> Inr (-1, m)
      | Some old_size \<Rightarrow>
          (let (r, m1) = nv_drop_old drv p old_size m in
           if r \<noteq> 0 then Inr (-1, m1)
           else let n = round_up_2mb sz;
                    (r, h, m2) = vcall drv (MemCreate n (gpu_device (gst m1))) m1 in
                if r \<noteq> 0 then Inl BackendExit
                else let (r, _, m3) = vcall drv (MemMap p n h) m2 in
                if r \<noteq> 0 then Inl BackendExit
                else let (r, _, m4) = vcall drv (MemSetAccess p n (gpu_device (gst m3))) m3 in
                if r \<noteq> 0 then Inl BackendExit
                else Inr (0, vmm_upd (\<lambda>s. s\<lparr>global_handle_map := omap_put p h (global_handle_map s)\<rparr>) m4)))"

definition nv_gpu :: "vmm_driver \<Rightarrow> vmm_state GPU" where
  "nv_gpu drv = \<lparr>allocated_memory = allocated,
     releasePhysicalMemory = nv_releasePhysicalMemory drv,
     remapPhysicalMemory = nv_remapPhysicalMemory drv\<rparr>"

section \<open>Allocation\<close>

datatype cuda_error = cudaSuccess | cudaErrorInitializationError | cudaErrorMemoryAllocation | cudaError int

definition capture_context :: "vmm_driver \<Rightarrow> vmm_state machine \<Rightarrow> vmm_state machine" where
  \<comment> \<open>\<open>curr_ctx\<close> stays null when the call fails\<close>
  "capture_context drv m =
     (let (r, ctx, m1) = vcall drv CtxGetCurrent m in
      if g_pytorch_context (gst m1) = 0 \<and> r = 0 \<and> ctx \<noteq> 0
      then vmm_upd (\<lambda>s. s\<lparr>g_pytorch_context := ctx\<rparr>) m1 else m1)"

definition hook_init :: "vmm_driver \<Rightarrow> vmm_state machine \<Rightarrow> bool \<times> vmm_state machine" where
  \<comment> \<open>the static variables \<open>cuda_inited\<close>, \<open>device\<close>, \<open>context\<close>; a call that fails stores nothing\<close>
  "hook_init drv m =
     (let (ok, m1) = (if hook_inited (gst m) then (True, m)
                      else let (r, _, m') = vcall drv CuInit m in
                           if r \<noteq> 0 then (False, m') else (True, vmm_upd (\<lambda>s. s\<lparr>hook_inited := True\<rparr>) m'))
      in if \<not> ok then (False, m1)
         else if hook_device (gst m1) \<noteq> -1 then (True, m1)
         else let (r, ctx, m2) = vcall drv CtxGetCurrent m1;
                  m3 = (if r = 0 then vmm_upd (\<lambda>s. s\<lparr>hook_context := ctx\<rparr>) m2 else m2) in
           if r = 0 \<and> hook_context (gst m3) \<noteq> 0 then
             let (r, d, m4) = vcall drv CtxGetDevice m3 in
             if r \<noteq> 0 then (False, m4)
             else (True, vmm_upd (\<lambda>s. s\<lparr>hook_device := int d, g_pytorch_context := hook_context s\<rparr>) m4)
           else
             let (r, d, m4) = vcall drv DeviceGet m3 in
             if r \<noteq> 0 then (False, m4)
             else let m5 = vmm_upd (\<lambda>s. s\<lparr>hook_device := int d\<rparr>) m4;
                      (r, ctx, m6) = vcall drv (PrimaryCtxRetain (int d)) m5 in
             if r \<noteq> 0 then (False, m6)
             else (True, vmm_upd (\<lambda>s. s\<lparr>hook_context := ctx, g_pytorch_context := ctx\<rparr>) m6))"

definition cudaMalloc ::
    "vmm_driver \<Rightarrow> nat \<Rightarrow> vmm_state machine \<Rightarrow> cuda_error \<times> nat option \<times> vmm_state machine" where
  \<comment> \<open>the second component is what is stored through \<open>devPtr\<close>, if anything\<close>
  "cudaMalloc drv sz m =
     (let m1 = capture_context drv m in
      if sz = 0 then (cudaSuccess, Some 0, m1)
      else let (ok, m2) = hook_init drv m1 in
      if \<not> ok then (cudaErrorInitializationError, None, m2)
      else case vmm_alloc drv (round_up_2mb sz) (hook_device (gst m2)) m2 of
        (Inl _, m3) \<Rightarrow> (cudaErrorMemoryAllocation, None, m3)
      | (Inr (p, h), m3) \<Rightarrow> (cudaSuccess, Some p, vmm_upd (\<lambda>s. s\<lparr>
            global_handle_map := omap_put p h (global_handle_map s),
            allocated := omap_put p sz (allocated s),
            allocated_memory_type := omap_put p 1 (allocated_memory_type s)\<rparr>) m3))"

definition cudaFree ::
    "vmm_driver \<Rightarrow> nat \<Rightarrow> vmm_state machine \<Rightarrow> cuda_error \<times> vmm_state machine" where
  "cudaFree drv p m =
     (case map_of (allocated (gst m)) p of
        None \<Rightarrow>
          if has_real_free drv then
            let (r, _, m1) = vcall drv (RealFree p) m
            in (if r = 0 then cudaSuccess else cudaError r, m1)
          else (cudaSuccess, m)
      | Some sz \<Rightarrow>
          let m2 =
            (if map_of (allocated_memory_type (gst m)) p = Some 1 then
               let m1 = (case map_of (global_handle_map (gst m)) p of
                   None \<Rightarrow> m
                 | Some h \<Rightarrow>
                     let (_, _, ma) = vcall drv (MemUnmap p (round_up_2mb sz)) m;
                         (_, _, mb) = vcall drv (MemRelease h) ma;
                         (_, _, mc) = vcall drv (AddressFree p (round_up_2mb sz)) mb
                     in vmm_upd (\<lambda>s. s\<lparr>global_handle_map := omap_erase p (global_handle_map s)\<rparr>) mc)
               in vmm_upd (\<lambda>s. s\<lparr>allocated_memory_type := omap_erase p (allocated_memory_type s)\<rparr>) m1
             else m)
          in (cudaSuccess, vmm_upd (\<lambda>s. s\<lparr>allocated := omap_erase p (allocated s)\<rparr>) m2))"

section \<open>The backend keeps to its contract\<close>

lemma nv_release_frame:
  assumes "nv_releasePhysicalMemory drv p m = Inr (r, m')"
  shows "same_host m m' \<and> allocated (gst m') = allocated (gst m) \<and>
    (\<forall>a. a \<notin> owned (allocated (gst m)) p \<longrightarrow> dev m' a = dev m a)"
  using assms unfolding nv_releasePhysicalMemory_def
    by (auto simp: split_beta Let_def same_host_def owned_def split: option.splits if_splits)

lemma nv_drop_old_frame:
  assumes "nv_drop_old drv p sz m = (r, m')"
  shows "same_host m m' \<and> allocated (gst m') = allocated (gst m) \<and>
    (\<forall>a. a \<notin> {p..<p + extent sz} \<longrightarrow> dev m' a = dev m a)"
  using assms unfolding nv_drop_old_def
    by (auto simp: split_beta Let_def same_host_def split: option.splits if_splits)

lemma nv_remap_frame:
  assumes "nv_remapPhysicalMemory drv p sz m = Inr (r, m')"
  shows "same_host m m' \<and> allocated (gst m') = allocated (gst m) \<and>
    (\<forall>a. a \<notin> owned (allocated (gst m)) p \<union> {p..<p + extent sz} \<longrightarrow> dev m' a = dev m a)"
proof (cases "map_of (allocated (gst m)) p")
  case None
  with assms show ?thesis by (simp add: nv_remapPhysicalMemory_def same_host_def)
next
  case (Some old)
  obtain r1 m1 where 1: "nv_drop_old drv p old m = (r1, m1)" by fastforce
  from nv_drop_old_frame [OF 1] assms Some show ?thesis
    unfolding nv_remapPhysicalMemory_def
    by (auto simp: 1 split_beta Let_def same_host_def owned_def split: option.splits if_splits)
qed

interpretation nv: gpu_backend "nv_gpu drv" for drv
  by unfold_locales (auto simp: nv_gpu_def dest: nv_release_frame nv_remap_frame)

definition nv_inv :: "vmm_state \<Rightarrow> bool" where
  "nv_inv s \<longleftrightarrow> omap_ok (allocated s) \<and> omap_ok (allocated_memory_type s) \<and> omap_ok (global_handle_map s) \<and>
     map_of (allocated_memory_type s) = (\<lambda>p. if p \<in> dom (map_of (allocated s)) then Some 1 else None) \<and>
     dom (map_of (global_handle_map s)) \<subseteq> dom (map_of (allocated s)) \<and>
     inj_map (map_of (global_handle_map s)) \<and>
     ran (map_of (global_handle_map s)) = live (calls s) \<and>
     dom (map_of (allocated s)) \<subseteq> reserved (calls s)"

lemma hook_init_keeps:
  assumes "hook_init drv m = (ok, m')"
  shows "device_view (gst m') = device_view (gst m) \<and> tables (gst m') = tables (gst m) \<and> shm m' = shm m \<and> dev m' = dev m"
  using assms unfolding hook_init_def device_view_def
  by (auto simp: split_beta Let_def tables_def split: if_splits)

lemma capture_context_keeps:
  "device_view (gst (capture_context drv m)) = device_view (gst m) \<and>
   tables (gst (capture_context drv m)) = tables (gst m) \<and>
   shm (capture_context drv m) = shm m \<and> dev (capture_context drv m) = dev m"
  by (auto simp: capture_context_def device_view_def split_beta Let_def tables_def)

definition nv_view :: "vmm_state \<Rightarrow>
    (nat \<times> nat) list \<times> (nat \<times> int) list \<times> (nat \<times> nat) list \<times> nat set \<times> nat set" where
  "nv_view s = (allocated s, allocated_memory_type s, global_handle_map s, live (calls s), reserved (calls s))"

lemma nv_inv_cong: "nv_view s' = nv_view s \<Longrightarrow> nv_inv s' = nv_inv s"
  by (simp add: nv_view_def nv_inv_def)

lemma nv_view_cong: "device_view s' = device_view s \<Longrightarrow> tables s' = tables s \<Longrightarrow> nv_view s' = nv_view s"
  using device_view_live [of s' s] by (simp add: nv_view_def tables_def)

lemma nv_inv_add:
  assumes inv: "nv_inv s" and new: "h \<notin> live (calls s)" "map_of (global_handle_map s) p = None"
    and view: "nv_view s' = (omap_put p sz (allocated s), omap_put p 1 (allocated_memory_type s),
        omap_put p h (global_handle_map s), insert h (live (calls s)), insert p (reserved (calls s)))"
  shows "nv_inv s'"
proof -
  let ?H = "map_of (global_handle_map s)"
  have "inj_map (?H(p \<mapsto> h))" "ran (?H(p \<mapsto> h)) = insert h (live (calls s))"
    using inv new by (simp_all add: nv_inv_def inj_map_put)
  then show ?thesis
    using inv view by (auto simp: nv_inv_def nv_view_def fun_eq_iff)
qed

lemma nv_inv_remap:
  assumes inv: "nv_inv s" and new: "h \<notin> live (calls s)" "map_of (global_handle_map s) p = None"
    and p: "p \<in> dom (map_of (allocated s))"
    and view: "nv_view s' = (allocated s, allocated_memory_type s,
        omap_put p h (global_handle_map s), insert h (live (calls s)), reserved (calls s))"
  shows "nv_inv s'"
proof -
  let ?H = "map_of (global_handle_map s)"
  have "inj_map (?H(p \<mapsto> h))" "ran (?H(p \<mapsto> h)) = insert h (live (calls s))"
    using inv new by (simp_all add: nv_inv_def inj_map_put)
  then show ?thesis
    using inv view p by (auto simp: nv_inv_def nv_view_def)
qed

lemma nv_inv_drop:
  assumes inv: "nv_inv s" and h: "map_of (global_handle_map s) p = Some h"
    and view: "nv_view s' = (allocated s, allocated_memory_type s, omap_erase p (global_handle_map s),
        live (calls s) - {h}, reserved (calls s))"
  shows "nv_inv s'"
proof -
  let ?H = "map_of (global_handle_map s)"
  have "ran (?H(p := None)) = ran ?H - {h}" "inj_map (?H(p := None))"
    using inv h by (simp_all add: nv_inv_def ran_erase_inj inj_map_erase)
  then show ?thesis
    using inv view by (auto simp: nv_inv_def nv_view_def)
qed

lemma nv_inv_forget:
  assumes inv: "nv_inv s" and h: "map_of (global_handle_map s) p = None"
    and view: "nv_view s' = (omap_erase p (allocated s), omap_erase p (allocated_memory_type s),
        global_handle_map s, live (calls s), R)"
    and R: "reserved (calls s) - {p} \<subseteq> R"
  shows "nv_inv s'"
  using inv h view R by (auto simp: nv_inv_def nv_view_def fun_eq_iff)

lemma nv_inv_neutral [simp]:
  assumes "\<And>S r v. live_step (c, r, v) S = S" "\<And>S r v. reserved_step (c, r, v) S = S"
  shows "nv_inv (gst (after drv c m)) = nv_inv (gst m)"
  by (rule nv_inv_cong) (simp add: nv_view_def assms)

lemma nv_inv_release_handle:
  assumes drv: "vmm_contract drv" and inv: "nv_inv (gst m)"
    and T: "global_handle_map (gst m) = T" and h: "map_of T p = Some h"
  shows "rc drv (MemRelease h) m = 0"
    "nv_inv ((gst (after drv (MemRelease h) m))\<lparr>global_handle_map :=
       omap_erase p T\<rparr>)"
proof -
  have "h \<in> live (calls (gst m))" using inv T h by (auto simp: nv_inv_def intro: ranI)
  then show r: "rc drv (MemRelease h) m = 0" by (rule vmm_contractD(3) [OF drv])
  show "nv_inv ((gst (after drv (MemRelease h) m))\<lparr>global_handle_map :=
       omap_erase p T\<rparr>)"
    by (rule nv_inv_drop [OF inv h [folded T]]) (simp add: nv_view_def r T)
qed

lemma nv_release_inv:
  assumes "vmm_contract drv" "nv_inv (gst m)" "nv_releasePhysicalMemory drv p m = Inr (r, m')"
  shows "nv_inv (gst m')"
  using assms(2,3) unfolding nv_releasePhysicalMemory_def
  by (auto simp: split_beta Let_def nv_inv_release_handle [OF assms(1)] split: option.splits if_splits)

lemma nv_drop_old_inv:
  assumes "vmm_contract drv" "nv_inv (gst m)" "nv_drop_old drv p sz m = (r, m')"
  shows "nv_inv (gst m')" "allocated (gst m') = allocated (gst m)"
    "r = 0 \<Longrightarrow> map_of (global_handle_map (gst m')) p = None"
proof -
  have ok: "omap_ok (global_handle_map (gst m))" using assms(2) by (simp add: nv_inv_def)
  show "nv_inv (gst m')" "allocated (gst m') = allocated (gst m)"
    "r = 0 \<Longrightarrow> map_of (global_handle_map (gst m')) p = None"
    using assms(2,3) ok unfolding nv_drop_old_def
    by (auto simp: split_beta Let_def nv_inv_release_handle [OF assms(1)] split: option.splits if_splits)
qed

lemma nv_remap_inv:
  assumes drv: "vmm_contract drv" and inv: "nv_inv (gst m)"
    and run: "nv_remapPhysicalMemory drv p sz m = Inr (r, m')"
  shows "nv_inv (gst m')"
proof (cases "map_of (allocated (gst m)) p")
  case None
  with run inv show ?thesis by (simp add: nv_remapPhysicalMemory_def)
next
  case (Some old)
  obtain r1 m1 where 1: "nv_drop_old drv p old m = (r1, m1)" by fastforce
  note i1 = nv_drop_old_inv [OF drv inv 1]
  show ?thesis
  proof (cases "r1 = 0")
    case False
    with run 1 i1 Some show ?thesis by (simp add: nv_remapPhysicalMemory_def)
  next
    case True
    let ?c = "MemCreate (round_up_2mb sz) (gpu_device (gst m1))"
    have "rc drv ?c m1 = 0" and view: "nv_view (gst m') = (allocated (gst m1), allocated_memory_type (gst m1),
        omap_put p (val drv ?c m1) (global_handle_map (gst m1)), insert (val drv ?c m1) (live (calls (gst m1))),
        reserved (calls (gst m1)))"
      using run Some 1 True
      by (auto simp: nv_remapPhysicalMemory_def split_beta Let_def nv_view_def split: if_splits)
    from vmm_contractD(1) [OF drv this(1)] show ?thesis
      by (rule nv_inv_remap [OF i1(1) _ i1(3) [OF True] _ view]) (simp add: i1 Some domI)
  qed
qed

lemma cudaMalloc_inv:
  assumes drv: "vmm_contract drv" and inv: "nv_inv (gst m)" and run: "cudaMalloc drv sz m = (e, q, m')"
  shows "nv_inv (gst m')"
proof -
  obtain ok m2 where 2: "hook_init drv (capture_context drv m) = (ok, m2)" by fastforce
  have "nv_view (gst (capture_context drv m)) = nv_view (gst m)"
    using capture_context_keeps [of drv m] by (blast intro: nv_view_cong)
  then have cc: "nv_inv (gst (capture_context drv m))" using inv nv_inv_cong by blast
  have "nv_view (gst m2) = nv_view (gst (capture_context drv m))"
    using hook_init_keeps [OF 2] by (blast intro: nv_view_cong)
  then have i2: "nv_inv (gst m2)" using cc nv_inv_cong by blast
  obtain o3 m3 where 3: "vmm_alloc drv (round_up_2mb sz) (hook_device (gst m2)) m2 = (o3, m3)" by fastforce
  show ?thesis
  proof (cases o3)
    case (Inl e3)
    then have "nv_view (gst m3) = nv_view (gst m2)"
      using vmm_alloc_Inl [OF drv] 3 by (blast intro: nv_view_cong)
    with i2 cc nv_inv_cong have "nv_inv (gst m3)" by blast
    with run i2 cc 2 3 Inl show ?thesis by (auto simp: cudaMalloc_def Let_def split: if_splits)
  next
    case (Inr ph)
    obtain p h where ph: "ph = (p, h)" by fastforce
    note al = vmm_alloc_Inr [OF drv 3 [unfolded Inr ph]]
    then have "map_of (global_handle_map (gst m2)) p = None"
      using i2 by (metis domIff nv_inv_def subsetD)
    from nv_inv_add [OF i2 _ this, of h] al
    have "nv_inv ((gst m3)\<lparr>global_handle_map := omap_put p h (global_handle_map (gst m3)),
            allocated := omap_put p sz (allocated (gst m3)),
            allocated_memory_type := omap_put p 1 (allocated_memory_type (gst m3))\<rparr>)"
      by (auto simp: nv_view_def tables_def device_view_def reserved_ranges)
    with run i2 cc 2 3 Inr ph show ?thesis by (auto simp: cudaMalloc_def Let_def split: if_splits)
  qed
qed

lemma cudaFree_inv:
  assumes drv: "vmm_contract drv" and inv: "nv_inv (gst m)" and run: "cudaFree drv p m = (e, m')"
  shows "nv_inv (gst m')"
proof (cases "map_of (allocated (gst m)) p")
  case None
  with run inv show ?thesis by (auto simp: cudaFree_def Let_def split_beta split: if_splits)
next
  case (Some sz)
  have ok: "omap_ok (global_handle_map (gst m))" and ty: "map_of (allocated_memory_type (gst m)) p = Some 1"
    using inv Some by (auto simp: nv_inv_def)
  show ?thesis
  proof (cases "map_of (global_handle_map (gst m)) p")
    case None
    then have "m' = vmm_upd (\<lambda>s. s\<lparr>allocated := omap_erase p (allocated s)\<rparr>)
        (vmm_upd (\<lambda>s. s\<lparr>allocated_memory_type := omap_erase p (allocated_memory_type s)\<rparr>) m)"
      using run Some ty by (simp add: cudaFree_def)
    then show ?thesis
      by (intro nv_inv_forget [OF inv None, of _ "reserved (calls (gst m))"]) (auto simp: nv_view_def)
  next
    case h: (Some h)
    let ?ma = "after drv (MemUnmap p (round_up_2mb sz)) m"
    let ?mb = "after drv (MemRelease h) ?ma"
    let ?s = "(gst ?mb)\<lparr>global_handle_map := omap_erase p (global_handle_map (gst m))\<rparr>"
    have r: "rc drv (MemRelease h) ?ma = 0" and i: "nv_inv ?s"
      using nv_inv_release_handle [OF drv, of ?ma "global_handle_map (gst m)" p h] inv h by simp_all
    have "nv_view (gst m') = (omap_erase p (allocated ?s), omap_erase p (allocated_memory_type ?s),
        global_handle_map ?s, live (calls ?s),
        reserved_step (AddressFree p (round_up_2mb sz), rc drv (AddressFree p (round_up_2mb sz)) ?mb,
          val drv (AddressFree p (round_up_2mb sz)) ?mb) (reserved (calls ?s)))"
      using run Some h ty r by (auto simp: cudaFree_def Let_def split_beta nv_view_def)
    from nv_inv_forget [OF i _ this] ok show ?thesis by auto
  qed
qed

section \<open>Reachable states\<close>

inductive nv_step :: "vmm_driver \<Rightarrow> vmm_state machine \<Rightarrow> vmm_state machine \<Rightarrow> bool" for drv where
  malloc: "cudaMalloc drv sz m = (e, q, m') \<Longrightarrow> nv_step drv m m'"
| free: "cudaFree drv p m = (e, m') \<Longrightarrow> nv_step drv m m'"
| release: "nv_releasePhysicalMemory drv p m = Inr (r, m') \<Longrightarrow> nv_step drv m m'"
| remap: "nv_remapPhysicalMemory drv p sz m = Inr (r, m') \<Longrightarrow> nv_step drv m m'"
| compute: "gst m' = gst m \<Longrightarrow> nv_step drv m m'" \<comment> \<open>kernels, copies, the host program\<close>

inductive_cases nv_stepE: "nv_step drv m m'"

lemma nv_start_inv: "nv_inv vmm_start"
  by (simp add: nv_inv_def vmm_start_def live_def reserved_def inj_map_def)

lemma nv_step_inv: "vmm_contract drv \<Longrightarrow> nv_inv (gst m) \<Longrightarrow> nv_step drv m m' \<Longrightarrow> nv_inv (gst m')"
  by (elim nv_stepE) (auto intro: cudaMalloc_inv cudaFree_inv nv_release_inv nv_remap_inv)

lemma nv_reach_inv:
  assumes "vmm_contract drv" "gst m = vmm_start" "(nv_step drv)\<^sup>*\<^sup>* m m'"
  shows "nv_inv (gst m')"
  using assms(3)
  by (induction rule: rtranclp_induct) (auto simp: assms(2) nv_start_inv intro: nv_step_inv [OF assms(1)])

lemma nv_gpu_allocated [simp]: "allocated_memory (nv_gpu v) = allocated"
  by (simp add: nv_gpu_def)

interpretation nv_total: gpu_total "nv_gpu (all_ok drv)" "\<lambda>s p. p \<in> dom (map_of (allocated s))" for drv
proof unfold_locales
  fix m :: "vmm_state machine" and p sz
  assume p: "p \<in> dom (map_of (allocated (gst m)))"
  then show "\<exists>m'. releasePhysicalMemory (nv_gpu (all_ok drv)) p m = Inr (0, m') \<and>
      (\<forall>q. q \<in> dom (map_of (allocated (gst m))) \<longrightarrow> q \<in> dom (map_of (allocated (gst m'))))"
    by (auto simp: nv_gpu_def nv_releasePhysicalMemory_def split_beta Let_def split: option.split)
  obtain old where old: "map_of (allocated (gst m)) p = Some old" using p by auto
  have "\<exists>m1. nv_drop_old (all_ok drv) p old m = (0, m1) \<and> allocated (gst m1) = allocated (gst m)"
    by (cases "map_of (global_handle_map (gst m)) p") (simp_all add: nv_drop_old_def split_beta Let_def)
  then show "\<exists>m'. remapPhysicalMemory (nv_gpu (all_ok drv)) p sz m = Inr (0, m') \<and>
      (\<forall>q. q \<in> dom (map_of (allocated (gst m))) \<longrightarrow> q \<in> dom (map_of (allocated (gst m'))))"
    by (auto simp: nv_gpu_def nv_remapPhysicalMemory_def old split_beta Let_def)
qed

lemma nv_keeps_ready:
  "keeps_ready (nv_gpu v) (\<lambda>s p. p \<in> fst ` set (allocated s)) m1 m2 \<longleftrightarrow> allocated (gst m2) = allocated (gst m1)"
  by (auto simp: keeps_ready_def)

lemma nv_saved_and_loaded:
  assumes "stream_contract drv" "stream_contract drv'" "vmm_ok v"
    and "omap_ok (allocated (gst m))" "sane_sizes (allocated (gst m))" "fits (rounded (allocated (gst m)))"
  shows "\<exists>fs' m1 n. ckpt drv (nv_gpu v) (fs, m) = Inr ((fs', m1), n) \<and>
    (\<forall>m2. shm m2 = shm m1 \<and> allocated (gst m2) = allocated (gst m1) \<and>
       (\<forall>a. a \<notin> covered (rounded (allocated (gst m))) \<longrightarrow> dev m2 a = dev m1 a) \<longrightarrow>
       (\<exists>m3. restore_ptr_and_content drv' (nv_gpu v) (fs', m2) = Inr (m3, n) \<and> dev m3 = dev m))"
  using nv_total.full_round_trip_total [OF assms(1,2), of v m fs] assms(4-)
  by (simp add: vmm_ok_all_ok [OF assms(3)] omap.distinct_keys dom_map_of_conv_image_fst nv_keeps_ready)

lemma nv_ckpt_allocated:
  assumes "stream_contract drv" "fits (rounded (allocated (gst m)))" "ckpt drv (nv_gpu v) (fs, m) = Inr ((fs', m1), n)"
  shows "allocated (gst m1) = allocated (gst m)"
proof -
  have "fs_data_start + total (rounded (allocated (gst m))) < 2 ^ 64"
    using assms(2) SHM_SIZE_lt unfolding fits_def by linarith
  then show ?thesis using nv.ckpt_sound [OF assms(1) refl _ assms(3)] by simp
qed

section \<open>Properties\<close>

text \<open>C1: a full checkpoint on the NVIDIA backend returns, and restoring it later returns and gives
  back the contents of the whole device memory, for every schedule of the asynchronous copies and
  whatever happened in between to the device memory that was released, to the staging buffers and
  to the stream, provided the checkpoint buffer is kept and the allocations fit it.\<close>

theorem nv_full_round_trip:
  assumes "stream_contract drv" "stream_contract drv'" "vmm_ok v"
    and "omap_ok (allocated (gst m))" "sane_sizes (allocated (gst m))" "fits (rounded (allocated (gst m)))"
  shows "\<exists>fs' m1 n. ckpt drv (nv_gpu v) (fs, m) = Inr ((fs', m1), n) \<and>
    (\<forall>m2. shm m2 = shm m1 \<and> allocated (gst m2) = allocated (gst m1) \<and>
       (\<forall>a. a \<notin> covered (rounded (allocated (gst m))) \<longrightarrow> dev m2 a = dev m1 a) \<longrightarrow>
       (\<exists>m3. restore_ptr_and_content drv' (nv_gpu v) (fs', m2) = Inr (m3, n) \<and> dev m3 = dev m))"
  by (rule nv_saved_and_loaded [OF assms])

theorem nv_full_round_trip_witness:
  "\<exists>fs' m1 m3 n. ckpt prompt_driver (nv_gpu counting_vmm) (fs_reset undefined, sample_machine) = Inr ((fs', m1), n) \<and>
     restore_ptr_and_content prompt_driver (nv_gpu counting_vmm) (fs', m1) = Inr (m3, n) \<and> dev m3 = dev sample_machine"
  using nv_full_round_trip [OF prompt_driver_contract prompt_driver_contract counting_vmm_contract(2)
      sample_facts, of "fs_reset undefined"]
  by blast

text \<open>C3: a selective checkpoint saves the allocations that contain the requested pointers and
  restoring it gives back every byte the application was given (the padding up to the 2 MB granule is
  not saved), and leaves all other device memory as it was.\<close>

theorem nv_selective_round_trip:
  assumes "stream_contract drv" "stream_contract drv'" "vmm_ok v"
    and "omap_ok (allocated (gst m))" "sane_sizes (allocated (gst m))"
    and "block_sizes (allocated (gst m)) (blocks_to_snapshot (allocated (gst m)) regions []) = Inr es" "fits es"
  shows "\<exists>fs' m1 n. ckpt_selective drv (nv_gpu v) regions (fs, m) = Inr ((fs', m1), n) \<and>
    (\<forall>m2. shm m2 = shm m1 \<and> allocated (gst m2) = allocated (gst m1) \<and>
       (\<forall>a. a \<notin> covered (rounded es) \<longrightarrow> dev m2 a = dev m1 a) \<longrightarrow>
       (\<exists>m3. restore_ptr_and_content_selective drv' (nv_gpu v) (fs', m2) = Inr (m3, n) \<and>
         (\<forall>a. a \<in> covered es \<or> a \<notin> covered (rounded es) \<longrightarrow> dev m3 a = dev m a)))"
  using nv_total.selective_round_trip_total [OF assms(1,2), of v m regions es fs] assms(4-)
  by (simp add: vmm_ok_all_ok [OF assms(3)] omap.distinct_keys dom_map_of_conv_image_fst nv_keeps_ready)

theorem nv_selective_round_trip_witness:
  "\<exists>fs' m1 m3 n. ckpt_selective prompt_driver (nv_gpu counting_vmm) [4194305, 17] (fs_reset undefined, sample_machine)
       = Inr ((fs', m1), n) \<and>
     restore_ptr_and_content_selective prompt_driver (nv_gpu counting_vmm) (fs', m1) = Inr (m3, n) \<and>
     dev m3 4199303 = dev sample_machine 4199303 \<and> dev m3 8388608 = dev sample_machine 8388608"
proof -
  have b: "block_sizes (allocated (gst sample_machine)) (blocks_to_snapshot (allocated (gst sample_machine)) [4194305, 17] [])
      = Inr [(4194304, 5000)]" and f: "fits [(4194304, 5000)]"
    by (simp_all add: sample_machine_def fits_def SHM_SIZE_def MAX_FILE_NUM_def)
  have c: "4199303 \<in> covered [(4194304, 5000)]" "8388608 \<notin> covered (rounded [(4194304, 5000)])"
    by (simp_all add: covered_def rounded_def round_up_2mb_eq)
  show ?thesis
    using nv_selective_round_trip [OF prompt_driver_contract prompt_driver_contract counting_vmm_contract(2)
        sample_facts(1,2) b f, of "fs_reset undefined"] c
    by blast
qed

text \<open>C11: whatever the driver answers to the calls that release memory, if a full checkpoint returns
  then the file table lists every allocation with its rounded size, the files follow each other in the
  data area without overlap, every file holds the bytes of its allocation, and nothing else in the
  checkpoint buffer, in particular its first huge page, was written.\<close>

theorem nv_ckpt_image:
  assumes "stream_contract drv" "fs_data_start + total (rounded (allocated (gst m))) < 2 ^ 64"
    and "ckpt drv (nv_gpu v) (fs, m) = Inr ((fs', m'), n)"
  shows "map (\<lambda>f. (ptr f, size f)) (file_list fs') = rounded (allocated (gst m)) \<and>
    n = total (rounded (allocated (gst m))) \<and>
    sorted_wrt (\<lambda>f f'. start_offset f + size f \<le> start_offset f') (file_list fs') \<and>
    (\<forall>f \<in> set (file_list fs'). fs_data_start \<le> start_offset f \<and> start_offset f + size f \<le> SHM_SIZE \<and>
       (\<forall>i < size f. shm m' (start_offset f + i) = dev m (ptr f + i))) \<and>
    (\<forall>a. a < fs_data_start \<or> fs_data_start + n \<le> a \<longrightarrow> shm m' a = shm m a)"
proof -
  note s = nv.ckpt_sound [OF assms(1) refl, of v m fs fs' m' n, simplified, OF assms(2) [simplified] assms(3)]
  let ?es = "rounded (allocated (gst m))"
  have fl: "file_list fs' = lay_out fs_data_start ?es" and img: "holds_image ?es (dev m) (fs', m')"
    using s by (simp_all add: holds_image_def)
  have "fs_data_start \<le> start_offset f \<and> start_offset f + size f \<le> SHM_SIZE" if "f \<in> set (file_list fs')" for f
    using lay_out_bounds [of f fs_data_start ?es] that s unfolding fl by (auto simp: fits_def)
  with holds_image_file [OF img] s show ?thesis
    unfolding fl by (auto simp: lay_out_blocks lay_out_apart)
qed

theorem nv_ckpt_image_witness:
  "\<exists>fs' m'. ckpt prompt_driver (nv_gpu counting_vmm) (fs_reset undefined, sample_machine) = Inr ((fs', m'), 4194304) \<and>
     map (\<lambda>f. (ptr f, size f)) (file_list fs') = [(4194304, 2097152), (8388608, 2097152)]"
proof -
  have e: "rounded (allocated (gst sample_machine)) = [(4194304, 2097152), (8388608, 2097152)]"
    by (simp add: sample_machine_def rounded_def round_up_2mb_eq)
  obtain fs' m' where 1: "ckpt prompt_driver (nv_gpu counting_vmm) (fs_reset undefined, sample_machine)
      = Inr ((fs', m'), total (rounded (allocated (gst sample_machine))))"
    using nv_total.ckpt_total [OF prompt_driver_contract, of counting_vmm sample_machine "fs_reset undefined"] sample_facts
    by (auto simp: vmm_ok_all_ok [OF counting_vmm_contract(2)] dom_map_of_conv_image_fst)
  with nv_ckpt_image [OF prompt_driver_contract _ 1] show ?thesis by (simp add: e)
qed

lemma nv_release_all_err: "release_all (nv_gpu v) ps m = Inl e \<Longrightarrow> \<exists>p. e = ReleaseFailed p"
proof (induction ps arbitrary: m)
  case (Cons p ps)
  have "\<exists>r m'. nv_releasePhysicalMemory v p m = Inr (r, m')"
    by (auto simp: nv_releasePhysicalMemory_def split_beta Let_def split: option.split)
  with Cons show ?case by (auto simp: nv_gpu_def split: if_splits)
qed simp

text \<open>C23: the checkpoint gives up for lack of room exactly when the rounded allocations do not fit the
  data area of the checkpoint buffer or there are more of them than the file table admits (4095).\<close>

theorem nv_ckpt_no_room:
  assumes "stream_contract drv" "fs_data_start + total (rounded (allocated (gst m))) < 2 ^ 64"
  shows "ckpt drv (nv_gpu v) (fs, m) \<in> {Inl NoSpace, Inl TooManyFiles} \<longleftrightarrow>
    SHM_SIZE < fs_data_start + total (rounded (allocated (gst m))) \<or> 4095 < length (allocated (gst m))"
proof (cases "fits (rounded (allocated (gst m)))")
  case True
  then have "\<not> (SHM_SIZE < fs_data_start + total (rounded (allocated (gst m))) \<or> 4095 < length (allocated (gst m)))"
    by (auto simp: fits_def rounded_def MAX_FILE_NUM_def)
  moreover obtain fs' m1 where "save_image drv (\<lambda>_ n. n) (rounded (allocated (gst m))) (fs, m) = Inr (fs', m1)"
    using whole.save_image_ok [OF assms(1) True] by blast
  ultimately show ?thesis
    by (auto simp: ckpt_def Let_def rbind_Inl_iff dest!: nv_release_all_err)
next
  case False
  then have "SHM_SIZE < fs_data_start + total (rounded (allocated (gst m))) \<or> 4095 < length (allocated (gst m))"
    by (auto simp: fits_def rounded_def MAX_FILE_NUM_def)
  with whole.save_image_err [OF assms(1) False assms(2), of fs m] show ?thesis
    by (auto simp: ckpt_def Let_def)
qed

definition crowded_machine :: "vmm_state machine" where
  "crowded_machine = sample_machine\<lparr>gst := vmm_start\<lparr>allocated := [(4194304, 26 * 2 ^ 30)]\<rparr>\<rparr>"

theorem nv_ckpt_no_room_witness:
  "ckpt prompt_driver (nv_gpu counting_vmm) (fs_reset undefined, crowded_machine) \<in> {Inl NoSpace, Inl TooManyFiles}"
proof -
  have e: "rounded (allocated (gst crowded_machine)) = [(4194304, 27917287424)]"
    by (simp add: crowded_machine_def rounded_def round_up_2mb_eq)
  show ?thesis
    using nv_ckpt_no_room [OF prompt_driver_contract, of crowded_machine counting_vmm "fs_reset undefined"]
    by (simp add: e SHM_SIZE_def)
qed

text \<open>C12: in every state the hooked allocator, the checkpoint and the restore can reach, the handle
  table is injective and holds exactly the physical allocations that exist (none is lost, none is
  released twice), every mapped pointer is an allocated one, every allocated pointer has its address
  range reserved, and the type table agrees with the allocation table.\<close>

theorem nv_reachable_tables:
  assumes "vmm_contract v" "gst m = vmm_start" "(nv_step v)\<^sup>*\<^sup>* m m'"
  shows "inj_map (map_of (global_handle_map (gst m'))) \<and>
    ran (map_of (global_handle_map (gst m'))) = live (calls (gst m')) \<and>
    dom (map_of (global_handle_map (gst m'))) \<subseteq> dom (map_of (allocated (gst m'))) \<and>
    dom (map_of (allocated (gst m'))) \<subseteq> reserved (calls (gst m')) \<and>
    dom (map_of (allocated_memory_type (gst m'))) = dom (map_of (allocated (gst m')))"
  using nv_reach_inv [OF assms] by (auto simp: nv_inv_def dom_def)

theorem nv_reachable_tables_witness:
  "\<exists>m'. cudaMalloc counting_vmm 5000 (sample_machine\<lparr>gst := vmm_start\<rparr>) = (cudaSuccess, Some 2097152, m') \<and>
     ran (map_of (global_handle_map (gst m'))) = live (calls (gst m')) \<and> live (calls (gst m')) = {1}"
proof -
  let ?m = "sample_machine\<lparr>gst := vmm_start\<rparr>"
  obtain e q m' where 1: "cudaMalloc counting_vmm 5000 ?m = (e, q, m')" by (metis prod_cases3)
  have 2: "e = cudaSuccess" "q = Some 2097152" "map_of (global_handle_map (gst m')) = [2097152 \<mapsto> 1]"
    using 1 by (auto simp: cudaMalloc_def capture_context_def hook_init_def vmm_alloc_def vcall_def native_def
        counting_vmm_def vmm_start_def Let_def vmm_upd_def live_def reserved_def mapped_def accessible_def)
  have "nv_step counting_vmm ?m m'" using 1 by (rule nv_step.malloc)
  with nv_reachable_tables [OF counting_vmm_contract(1), of ?m m'] 1 2 show ?thesis by auto
qed

lemma omap_erase_put: "p \<notin> fst ` set xs \<Longrightarrow> omap_erase p (omap_put p v xs) = xs"
  by (induction p v xs rule: omap_put.induct) auto

lemma cudaFree_undoes:
  assumes v: "vmm_contract v" and p: "p \<notin> fst ` set (allocated s)" "p \<notin> fst ` set (global_handle_map s)"
      "p \<notin> fst ` set (allocated_memory_type s)"
    and d: "h \<notin> live (calls s)" "p \<notin> reserved (calls s)" "mapped (calls s) p = None" "accessible (calls s) p = None"
    and t: "allocated (gst m) = omap_put p sz (allocated s)" "global_handle_map (gst m) = omap_put p h (global_handle_map s)"
      "allocated_memory_type (gst m) = omap_put p 1 (allocated_memory_type s)"
    and view: "device_view (gst m) = (insert h (live (calls s)), (ranges (calls s))(p \<mapsto> round_up_2mb sz),
      (mapped (calls s))(p \<mapsto> (round_up_2mb sz, h)), (accessible (calls s))(p \<mapsto> (round_up_2mb sz, dv)))"
  shows "\<exists>m'. cudaFree v p m = (cudaSuccess, m') \<and> tables (gst m') = tables s \<and> device_view (gst m') = device_view s"
proof -
  let ?n = "round_up_2mb sz"
  let ?ma = "after v (MemUnmap p ?n) m"
  let ?mb = "after v (MemRelease h) ?ma"
  have w: "live (calls (gst m)) = insert h (live (calls s))" "ranges (calls (gst m)) = (ranges (calls s))(p \<mapsto> ?n)"
    "mapped (calls (gst m)) = (mapped (calls s))(p \<mapsto> (?n, h))" "accessible (calls (gst m)) = (accessible (calls s))(p \<mapsto> (?n, dv))"
    using view by (simp_all add: device_view_def)
  note D = vmm_contractD [OF v]
  have a: "rc v (MemUnmap p ?n) m = 0" by (rule D(6)) (simp add: w)
  have b: "rc v (MemRelease h) ?ma = 0" by (rule D(3)) (simp add: w)
  have c: "rc v (AddressFree p ?n) ?mb = 0" by (rule D(7)) (simp_all add: w a)
  have lk: "map_of (omap_put p x xs) p = Some x" for x and xs :: "(nat \<times> 'a) list"
    by (induction p x xs rule: omap_put.induct) auto
  have "p \<notin> dom (ranges (calls s))" using d(2) by (simp add: reserved_ranges)
  then show ?thesis
    using p d by (simp add: cudaFree_def t lk split_beta Let_def tables_def device_view_def omap_erase_put w a b c fun_upd_back)
qed

text \<open>C24: the hooked \<open>cudaMalloc\<close> takes everything or nothing.  In every consistent state of the
  allocator it either records the new allocation under a pointer and a handle that were not in use,
  having reserved and mapped exactly the rounded size there and granted the device access to it, and
  \<open>cudaFree\<close> of the pointer then gives all of it back; or it fails, and the tables, the physical
  allocations, the reservations, the mappings and the access rights are as they were: every error
  path undoes what was acquired.\<close>

theorem cudaMalloc_all_or_nothing:
  assumes "vmm_contract v" "nv_inv (gst m)" "0 < sz" "cudaMalloc v sz m = (e, q, m')"
  shows "(\<exists>p h d. e = cudaSuccess \<and> q = Some p \<and> h \<notin> live (calls (gst m)) \<and> p \<notin> reserved (calls (gst m)) \<and>
      allocated (gst m') = omap_put p sz (allocated (gst m)) \<and>
      global_handle_map (gst m') = omap_put p h (global_handle_map (gst m)) \<and>
      live (calls (gst m')) = insert h (live (calls (gst m))) \<and>
      ranges (calls (gst m')) = (ranges (calls (gst m)))(p \<mapsto> round_up_2mb sz) \<and>
      mapped (calls (gst m')) = (mapped (calls (gst m)))(p \<mapsto> (round_up_2mb sz, h)) \<and>
      accessible (calls (gst m')) = (accessible (calls (gst m)))(p \<mapsto> (round_up_2mb sz, d)) \<and>
      (\<exists>m''. cudaFree v p m' = (cudaSuccess, m'') \<and> tables (gst m'') = tables (gst m) \<and>
         device_view (gst m'') = device_view (gst m))) \<or>
    (e \<noteq> cudaSuccess \<and> q = None \<and> tables (gst m') = tables (gst m) \<and> device_view (gst m') = device_view (gst m))"
proof -
  note cc = capture_context_keeps [of v m]
  obtain ok m2 where 2: "hook_init v (capture_context v m) = (ok, m2)" by fastforce
  note hi = hook_init_keeps [OF 2]
  have same: "tables (gst m2) = tables (gst m)" "device_view (gst m2) = device_view (gst m)" using cc hi by simp_all
  obtain o3 m3 where 3: "vmm_alloc v (round_up_2mb sz) (hook_device (gst m2)) m2 = (o3, m3)" by fastforce
  show ?thesis
  proof (cases "ok \<and> (\<exists>ph. o3 = Inr ph)")
    case False
    then have "(\<not> ok \<or> (\<exists>e3. o3 = Inl e3))" by (cases o3) auto
    with vmm_alloc_Inl [OF assms(1)] assms(3,4) 2 3 same show ?thesis by (auto simp: cudaMalloc_def split: if_splits)
  next
    case True
    then obtain p h where ph: "ok" "o3 = Inr (p, h)" by auto
    note al = vmm_alloc_Inr [OF assms(1) 3 [unfolded ph(2)]]
    have m2: "live (calls (gst m2)) = live (calls (gst m))" "ranges (calls (gst m2)) = ranges (calls (gst m))"
      "mapped (calls (gst m2)) = mapped (calls (gst m))" "accessible (calls (gst m2)) = accessible (calls (gst m))"
      "reserved (calls (gst m2)) = reserved (calls (gst m))"
      using same(2) by (simp_all add: device_view_def reserved_ranges)
    have t2: "allocated (gst m3) = allocated (gst m)" "global_handle_map (gst m3) = global_handle_map (gst m)"
      "allocated_memory_type (gst m3) = allocated_memory_type (gst m)"
      using same(1) al by (simp_all add: tables_def)
    have r: "e = cudaSuccess" "q = Some p" "m' = vmm_upd (\<lambda>s. s\<lparr>
            global_handle_map := omap_put p h (global_handle_map s),
            allocated := omap_put p sz (allocated s),
            allocated_memory_type := omap_put p 1 (allocated_memory_type s)\<rparr>) m3"
      using assms(3,4) 2 3 ph by (simp_all add: cudaMalloc_def)
    have view: "device_view (gst m') = (insert h (live (calls (gst m))), (ranges (calls (gst m)))(p \<mapsto> round_up_2mb sz),
      (mapped (calls (gst m)))(p \<mapsto> (round_up_2mb sz, h)), (accessible (calls (gst m)))(p \<mapsto> (round_up_2mb sz, hook_device (gst m2))))"
      using al by (simp add: r(3) m2 device_view_def)
    have "p \<notin> dom (map_of (allocated (gst m)))" using assms(2) al m2(5) by (auto simp: nv_inv_def)
    then have out: "p \<notin> fst ` set (allocated (gst m))" "p \<notin> fst ` set (global_handle_map (gst m))"
      "p \<notin> fst ` set (allocated_memory_type (gst m))"
      using assms(2) by (auto simp: nv_inv_def dom_map_of_conv_image_fst [symmetric] domIff)
    have "\<exists>m''. cudaFree v p m' = (cudaSuccess, m'') \<and> tables (gst m'') = tables (gst m) \<and>
         device_view (gst m'') = device_view (gst m)"
      by (rule cudaFree_undoes [OF assms(1) out _ _ _ _ _ _ _ view]) (use al in \<open>simp_all add: m2 r(3) t2\<close>)
    with al view r t2 m2 show ?thesis by (auto simp: device_view_def)
  qed
qed

definition failing_vmm :: vmm_driver where
  \<comment> \<open>grants no access to memory\<close>
  "failing_vmm = counting_vmm\<lparr>vmm := \<lambda>c h. (case c of MemSetAccess _ _ _ \<Rightarrow> (2, 0) | _ \<Rightarrow> vmm counting_vmm c h)\<rparr>"

theorem cudaMalloc_all_or_nothing_witness:
  "\<exists>m'. cudaMalloc failing_vmm 5000 (sample_machine\<lparr>gst := vmm_start\<rparr>) = (cudaErrorMemoryAllocation, None, m') \<and>
     live (calls (gst m')) = {} \<and> ranges (calls (gst m')) = Map.empty \<and> mapped (calls (gst m')) = Map.empty"
proof -
  let ?m = "sample_machine\<lparr>gst := vmm_start\<rparr>"
  have c: "vmm_contract failing_vmm"
    using counting_vmm_contract(1) by (simp add: vmm_contract_def failing_vmm_def)
  have i: "nv_inv (gst ?m)" using nv_start_inv by simp
  obtain e q m' where 1: "cudaMalloc failing_vmm 5000 ?m = (e, q, m')" by (metis prod_cases3)
  have "e = cudaErrorMemoryAllocation" "q = None"
    using 1 by (auto simp: cudaMalloc_def capture_context_def hook_init_def vmm_alloc_def vcall_def native_def
        failing_vmm_def counting_vmm_def vmm_start_def Let_def vmm_upd_def)
  with cudaMalloc_all_or_nothing [OF c i _ 1] 1 show ?thesis
    by (auto simp: device_view_def vmm_start_def live_def ranges_def mapped_def)
qed

text \<open>Once the physical memory of an allocation has been released and not remapped (the state between
  checkpoint and restore), \<open>cudaFree\<close> forgets the pointer without any driver call, so that its
  address range stays reserved for the life of the process.\<close>

theorem cudaFree_released_keeps_reservation:
  assumes "nv_inv (gst m)" "p \<in> dom (map_of (allocated (gst m)))" "p \<notin> dom (map_of (global_handle_map (gst m)))"
    and "cudaFree v p m = (e, m')"
  shows "e = cudaSuccess \<and> calls (gst m') = calls (gst m) \<and> p \<notin> dom (map_of (allocated (gst m'))) \<and>
    p \<in> reserved (calls (gst m'))"
proof -
  have "p \<in> reserved (calls (gst m))" using assms(1,2) by (auto simp: nv_inv_def)
  with assms show ?thesis by (auto simp: cudaFree_def Let_def nv_inv_def domIff)
qed

definition released_state :: vmm_state where
  \<comment> \<open>one allocation of 5000 bytes whose physical memory was released by a checkpoint\<close>
  "released_state = vmm_start\<lparr>allocated := [(2097152, 5000)], allocated_memory_type := [(2097152, 1)],
     calls := [(AddressReserve 2097152, 0, 2097152), (MemCreate 2097152 0, 0, 1), (MemMap 2097152 2097152 1, 0, 0),
       (MemSetAccess 2097152 2097152 0, 0, 0), (MemUnmap 2097152 2097152, 0, 0), (MemRelease 1, 0, 0)]\<rparr>"

theorem cudaFree_released_keeps_reservation_witness:
  "\<exists>m'. cudaFree counting_vmm 2097152 (sample_machine\<lparr>gst := released_state\<rparr>) = (cudaSuccess, m') \<and>
     2097152 \<in> reserved (calls (gst m'))"
proof -
  let ?m = "sample_machine\<lparr>gst := released_state\<rparr>"
  obtain e m' where 1: "cudaFree counting_vmm 2097152 ?m = (e, m')" by fastforce
  have "nv_inv (gst ?m)"
    by (auto simp: nv_inv_def released_state_def vmm_start_def live_def reserved_def inj_map_def)
  from cudaFree_released_keeps_reservation [OF this _ _ 1] 1 show ?thesis
    by (simp add: released_state_def vmm_start_def reserved_def)
qed

end
