(* ===== verification/Peer_Access.thy ===== *)
theory Peer_Access
  imports Prelude
begin

text \<open>
  Peer-to-peer access between devices and IPC events (\<open>src/ipc_hooks.cpp\<close>): the hooks that record
  which peers a process has access to and which events it shares, and the functions that switch both
  off before a checkpoint and peer access on again after it.  The CUDA runtime is a \<open>native_lib\<close>.
\<close>

section \<open>Peer access\<close>

datatype rt_call =
    EnablePeer int | DisablePeer int | GetLastError
  | IpcGetEventHandle nat | IpcOpenEventHandle nat | EventDestroy nat

record cuda_rt =
  rt :: "rt_call native_lib"
  has_enable :: bool
  has_disable :: bool
  has_events :: bool

record peer_state =
  g_peer_access_devices :: "int list" \<comment> \<open>\<open>std::set<int>\<close>\<close>
  g_saved_peer_access_devices :: "int list"
  rt_calls :: "rt_call history"

abbreviation cudaErrorNotSupported :: int where "cudaErrorNotSupported \<equiv> 801"
abbreviation cudaErrorPeerAccessAlreadyEnabled :: int where "cudaErrorPeerAccessAlreadyEnabled \<equiv> 704"
abbreviation cudaErrorPeerAccessNotEnabled :: int where "cudaErrorPeerAccessNotEnabled \<equiv> 705"

definition rcall :: "cuda_rt \<Rightarrow> rt_call \<Rightarrow> peer_state \<Rightarrow> int \<times> nat \<times> peer_state" where
  "rcall r c s = (case native (rt r) c (rt_calls s) of (e, v, h) \<Rightarrow> (e, v, s\<lparr>rt_calls := h\<rparr>))"

definition rdo :: "cuda_rt \<Rightarrow> rt_call \<Rightarrow> peer_state \<Rightarrow> peer_state" where
  "rdo r c s = (case rcall r c s of (_, _, s') \<Rightarrow> s')"

definition cudaDeviceEnablePeerAccess :: "cuda_rt \<Rightarrow> int \<Rightarrow> peer_state \<Rightarrow> int \<times> peer_state" where
  "cudaDeviceEnablePeerAccess r d s =
     (if \<not> has_enable r then (0, s)
      else case rcall r (EnablePeer d) s of (e, _, s1) \<Rightarrow>
        if e = 0 then (0, s1\<lparr>g_peer_access_devices := oset_insert d (g_peer_access_devices s1)\<rparr>)
        else if e = cudaErrorPeerAccessAlreadyEnabled then
          (0, rdo r GetLastError (s1\<lparr>g_peer_access_devices := oset_insert d (g_peer_access_devices s1)\<rparr>))
        else (e, s1))"

definition cudaDeviceDisablePeerAccess :: "cuda_rt \<Rightarrow> int \<Rightarrow> peer_state \<Rightarrow> int \<times> peer_state" where
  "cudaDeviceDisablePeerAccess r d s =
     (if \<not> has_disable r then (0, s)
      else case rcall r (DisablePeer d) s of (e, _, s1) \<Rightarrow>
        (e, if e = 0 then s1\<lparr>g_peer_access_devices := oset_erase d (g_peer_access_devices s1)\<rparr> else s1))"

fun disable_peers :: "cuda_rt \<Rightarrow> int list \<Rightarrow> nat \<Rightarrow> peer_state \<Rightarrow> nat \<times> peer_state" where
  "disable_peers r [] n s = (n, s)"
| "disable_peers r (d # ds) n s =
     (case rcall r (DisablePeer d) s of (e, _, s1) \<Rightarrow>
        disable_peers r ds (if e = 0 \<or> e = cudaErrorPeerAccessNotEnabled then n + 1 else n) (rdo r GetLastError s1))"

definition ipc_disable_all_peer_access :: "cuda_rt \<Rightarrow> peer_state \<Rightarrow> int \<times> peer_state" where
  "ipc_disable_all_peer_access r s =
     (if \<not> has_disable r then (0, s)
      else let s1 = s\<lparr>g_saved_peer_access_devices := g_peer_access_devices s\<rparr> in
        case disable_peers r (g_peer_access_devices s1) 0 s1 of (n, s2) \<Rightarrow>
          (int n, s2\<lparr>g_peer_access_devices := []\<rparr>))"

fun enable_peers :: "cuda_rt \<Rightarrow> int list \<Rightarrow> nat \<Rightarrow> peer_state \<Rightarrow> nat \<times> peer_state" where
  "enable_peers r [] n s = (n, s)"
| "enable_peers r (d # ds) n s =
     (case rcall r (EnablePeer d) s of (e, _, s1) \<Rightarrow>
        if e = 0 \<or> e = cudaErrorPeerAccessAlreadyEnabled then
          enable_peers r ds (n + 1)
            (rdo r GetLastError (s1\<lparr>g_peer_access_devices := oset_insert d (g_peer_access_devices s1)\<rparr>))
        else enable_peers r ds n (rdo r GetLastError s1))"

definition ipc_reenable_all_peer_access :: "cuda_rt \<Rightarrow> peer_state \<Rightarrow> int \<times> peer_state" where
  "ipc_reenable_all_peer_access r s =
     (if \<not> has_enable r then (0, s)
      else case enable_peers r (g_saved_peer_access_devices s) 0 s of (n, s1) \<Rightarrow>
        (int n, s1\<lparr>g_saved_peer_access_devices := []\<rparr>))"

section \<open>IPC events\<close>

record IpcEventRecord =
  event :: nat
  is_opened :: bool
  ev_torn_down :: bool

type_synonym event_state = "IpcEventRecord list \<times> peer_state"

definition cudaIpcGetEventHandle :: "cuda_rt \<Rightarrow> nat \<Rightarrow> event_state \<Rightarrow> int \<times> event_state" where
  "cudaIpcGetEventHandle r ev es = (case es of (evs, s) \<Rightarrow>
     if \<not> has_events r then (cudaErrorNotSupported, es)
     else case rcall r (IpcGetEventHandle ev) s of (e, _, s1) \<Rightarrow>
       (e, if e = 0 then evs @ [\<lparr>event = ev, is_opened = False, ev_torn_down = False\<rparr>] else evs, s1))"

definition cudaIpcOpenEventHandle :: "cuda_rt \<Rightarrow> nat \<Rightarrow> event_state \<Rightarrow> int \<times> event_state" where
  "cudaIpcOpenEventHandle r handle es = (case es of (evs, s) \<Rightarrow>
     if \<not> has_events r then (cudaErrorNotSupported, es)
     else case rcall r (IpcOpenEventHandle handle) s of (e, ev, s1) \<Rightarrow>
       (e, if e = 0 \<and> ev \<noteq> 0 then evs @ [\<lparr>event = ev, is_opened = True, ev_torn_down = False\<rparr>] else evs, s1))"

fun teardown_events :: "cuda_rt \<Rightarrow> IpcEventRecord list \<Rightarrow> peer_state \<Rightarrow> IpcEventRecord list \<times> nat \<times> peer_state" where
  "teardown_events r [] s = ([], 0, s)"
| "teardown_events r (ev # evs) s =
     (if ev_torn_down ev then case teardown_events r evs s of (evs', n, s') \<Rightarrow> (ev # evs', n, s')
      else let s1 = (if is_opened ev then rdo r (EventDestroy (event ev)) s else s) in
           case teardown_events r evs s1 of (evs', n, s') \<Rightarrow> (ev\<lparr>ev_torn_down := True\<rparr> # evs', n + 1, s'))"

definition ipc_teardown_all_events :: "cuda_rt \<Rightarrow> event_state \<Rightarrow> int \<times> event_state" where
  "ipc_teardown_all_events r es = (case es of (evs, s) \<Rightarrow>
     if evs = [] then (0, es)
     else if \<not> has_events r then (-1, es)
     else case teardown_events r evs s of (evs', n, s') \<Rightarrow> (int n, evs', s'))"

definition ipc_get_event_count :: "event_state \<Rightarrow> int" where
  "ipc_get_event_count es = int (length (filter (\<lambda>ev. \<not> ev_torn_down ev) (fst es)))"

section \<open>Lemmas\<close>

lemma rcall_sets: "rcall r c s = (e, v, s') \<Longrightarrow> g_peer_access_devices s' = g_peer_access_devices s \<and>
    g_saved_peer_access_devices s' = g_saved_peer_access_devices s \<and> rt_calls s' = rt_calls s @ [(c, e, v)]"
  by (auto simp: rcall_def native_def split: prod.splits)

lemma rdo_sets [simp]: "g_peer_access_devices (rdo r c s) = g_peer_access_devices s"
    "g_saved_peer_access_devices (rdo r c s) = g_saved_peer_access_devices s"
  by (auto simp: rdo_def dest: rcall_sets split: prod.splits)

lemma rdo_calls: "map fst (rt_calls (rdo r c s)) = map fst (rt_calls s) @ [c]"
  by (auto simp: rdo_def dest: rcall_sets split: prod.splits)

lemma disable_peers_sets:
  "disable_peers r ds n s = (k, s') \<Longrightarrow> g_peer_access_devices s' = g_peer_access_devices s \<and>
    g_saved_peer_access_devices s' = g_saved_peer_access_devices s \<and>
    map fst (rt_calls s') = map fst (rt_calls s) @ concat (map (\<lambda>d. [DisablePeer d, GetLastError]) ds)"
proof (induction ds arbitrary: n s)
  case (Cons d ds)
  obtain e v s1 where 1: "rcall r (DisablePeer d) s = (e, v, s1)" by (metis prod_cases3)
  from Cons.IH [of "if e = 0 \<or> e = cudaErrorPeerAccessNotEnabled then n + 1 else n" "rdo r GetLastError s1"]
  show ?case using Cons.prems 1 rcall_sets [OF 1] by (simp add: rdo_calls)
qed simp

definition enables :: "cuda_rt \<Rightarrow> bool" where
  \<comment> \<open>every attempt to enable access succeeds, or finds it enabled\<close>
  "enables r \<longleftrightarrow> has_enable r \<and> has_disable r \<and>
     (\<forall>d h. fst (rt r (EnablePeer d) h) \<in> {0, cudaErrorPeerAccessAlreadyEnabled})"

lemma enable_peers_all:
  assumes "enables r"
  shows "\<exists>s'. enable_peers r ds n s = (n + length ds, s') \<and>
    g_peer_access_devices s' = fold oset_insert ds (g_peer_access_devices s) \<and>
    g_saved_peer_access_devices s' = g_saved_peer_access_devices s \<and>
    map fst (rt_calls s') = map fst (rt_calls s) @ concat (map (\<lambda>d. [EnablePeer d, GetLastError]) ds)"
proof (induction ds arbitrary: n s)
  case (Cons d ds)
  obtain e v s1 where 1: "rcall r (EnablePeer d) s = (e, v, s1)" by (metis prod_cases3)
  have "e = fst (rt r (EnablePeer d) (rt_calls s))" using 1 by (auto simp: rcall_def native_def split: prod.splits)
  then have e: "e = 0 \<or> e = cudaErrorPeerAccessAlreadyEnabled" using assms by (auto simp: enables_def)
  let ?s = "rdo r GetLastError (s1\<lparr>g_peer_access_devices := oset_insert d (g_peer_access_devices s1)\<rparr>)"
  from Cons.IH [of "n + 1" ?s] show ?case using 1 e rcall_sets [OF 1] by (auto simp: rdo_calls)
qed simp

lemma oset_insert_last: "\<forall>x \<in> set xs. x < k \<Longrightarrow> oset_insert k xs = xs @ [k]"
  by (induction xs) auto

lemma fold_oset_insert: "sorted_wrt (<) (xs @ ds) \<Longrightarrow> fold oset_insert ds xs = xs @ ds"
proof (induction ds arbitrary: xs)
  case (Cons d ds)
  have "\<forall>x \<in> set xs. x < d" using Cons.prems by (auto simp: sorted_wrt_append)
  with Cons.IH [of "xs @ [d]"] Cons.prems show ?case by (simp add: oset_insert_last)
qed simp

section \<open>Theorems\<close>

lemma peer_access_restored:
  assumes "enables r" "sorted_wrt (<) (g_peer_access_devices s)"
    and "ipc_disable_all_peer_access r s = (k, s1)" "ipc_reenable_all_peer_access r s1 = (n, s2)"
  shows "g_peer_access_devices s1 = [] \<and> n = int (length (g_peer_access_devices s)) \<and>
    g_peer_access_devices s2 = g_peer_access_devices s \<and> g_saved_peer_access_devices s2 = [] \<and>
    map fst (rt_calls s2) = map fst (rt_calls s) @
      concat (map (\<lambda>d. [DisablePeer d, GetLastError]) (g_peer_access_devices s)) @
      concat (map (\<lambda>d. [EnablePeer d, GetLastError]) (g_peer_access_devices s))"
proof -
  let ?s = "s\<lparr>g_saved_peer_access_devices := g_peer_access_devices s\<rparr>"
  obtain k0 s0 where 0: "disable_peers r (g_peer_access_devices s) 0 ?s = (k0, s0)" by fastforce
  note d = disable_peers_sets [OF 0]
  have s1: "s1 = s0\<lparr>g_peer_access_devices := []\<rparr>"
    using assms(1,3) 0 by (simp add: ipc_disable_all_peer_access_def enables_def Let_def)
  from enable_peers_all [OF assms(1), of "g_saved_peer_access_devices s1" 0 s1] obtain s' where
    e: "enable_peers r (g_saved_peer_access_devices s1) 0 s1 = (length (g_saved_peer_access_devices s1), s')"
      "g_peer_access_devices s' = fold oset_insert (g_saved_peer_access_devices s1) (g_peer_access_devices s1)"
      "map fst (rt_calls s') = map fst (rt_calls s1) @ concat (map (\<lambda>d. [EnablePeer d, GetLastError]) (g_saved_peer_access_devices s1))"
    by auto
  have s2: "n = int (length (g_saved_peer_access_devices s1))" "s2 = s'\<lparr>g_saved_peer_access_devices := []\<rparr>"
    using assms(1,4) e(1) by (simp_all add: ipc_reenable_all_peer_access_def enables_def)
  have "fold oset_insert (g_peer_access_devices s) [] = g_peer_access_devices s"
    using fold_oset_insert [of "[]"] assms(2) by simp
  then show ?thesis using d e s1 s2 by simp
qed

text \<open>Switching peer access off before a checkpoint and on again afterwards gives the process access
  to exactly the peers it had, whatever the runtime answers to the calls that switch it off: each peer
  is disabled and enabled once, in ascending order.\<close>

theorem peer_access_round_trip:
  assumes "enables r" "sorted_wrt (<) (g_peer_access_devices s)"
    and "ipc_disable_all_peer_access r s = (k, s1)" "ipc_reenable_all_peer_access r s1 = (n, s2)"
  shows "g_peer_access_devices s1 = [] \<and> n = int (length (g_peer_access_devices s)) \<and>
    g_peer_access_devices s2 = g_peer_access_devices s \<and> g_saved_peer_access_devices s2 = [] \<and>
    map fst (rt_calls s2) = map fst (rt_calls s) @
      concat (map (\<lambda>d. [DisablePeer d, GetLastError]) (g_peer_access_devices s)) @
      concat (map (\<lambda>d. [EnablePeer d, GetLastError]) (g_peer_access_devices s))"
  using peer_access_restored [OF assms] .

definition obliging_rt :: cuda_rt where
  "obliging_rt = \<lparr>rt = \<lambda>_ _. (0, 0), has_enable = True, has_disable = True, has_events = True\<rparr>"

definition two_peers :: peer_state where
  "two_peers = \<lparr>g_peer_access_devices = [1, 3], g_saved_peer_access_devices = [], rt_calls = []\<rparr>"

lemma enables_obliging [simp]: "enables obliging_rt"
  by (simp add: enables_def obliging_rt_def)

theorem peer_access_round_trip_witness:
  "\<exists>k s1 n s2. ipc_disable_all_peer_access obliging_rt two_peers = (k, s1) \<and>
     ipc_reenable_all_peer_access obliging_rt s1 = (n, s2) \<and> n = 2 \<and> g_peer_access_devices s2 = [1, 3]"
proof -
  obtain k s1 where 1: "ipc_disable_all_peer_access obliging_rt two_peers = (k, s1)" by fastforce
  obtain n s2 where 2: "ipc_reenable_all_peer_access obliging_rt s1 = (n, s2)" by fastforce
  from peer_access_round_trip [OF enables_obliging _ 1 2] 1 2 show ?thesis by (auto simp: two_peers_def)
qed

text \<open>Switching peer access off twice before it is switched on again, which is what a multi-GPU
  checkpoint does (once in the IPC teardown and once more after the data dump), forgets the peers: the
  second call replaces the saved set by the set the first one has emptied, and no peer is enabled
  again.\<close>

theorem peers_lost_after_two_disables:
  assumes "enables r"
    and "ipc_disable_all_peer_access r s = (k, s1)" "ipc_disable_all_peer_access r s1 = (k', s2)"
    and "ipc_reenable_all_peer_access r s2 = (n, s3)"
  shows "k' = 0 \<and> n = 0 \<and> g_peer_access_devices s3 = [] \<and> g_saved_peer_access_devices s3 = []"
proof -
  let ?s = "s\<lparr>g_saved_peer_access_devices := g_peer_access_devices s\<rparr>"
  obtain k0 s0 where 0: "disable_peers r (g_peer_access_devices s) 0 ?s = (k0, s0)" by fastforce
  have "s1 = s0\<lparr>g_peer_access_devices := []\<rparr>"
    using assms(1,2) 0 by (simp add: ipc_disable_all_peer_access_def enables_def Let_def)
  then have "k' = 0 \<and> g_peer_access_devices s2 = [] \<and> g_saved_peer_access_devices s2 = []"
    using assms(1,3) by (auto simp: ipc_disable_all_peer_access_def enables_def Let_def)
  with assms(1,4) show ?thesis by (auto simp: ipc_reenable_all_peer_access_def enables_def)
qed

theorem peers_lost_after_two_disables_witness:
  "\<exists>s1 s2 s3. snd (ipc_disable_all_peer_access obliging_rt two_peers) = s1 \<and>
     snd (ipc_disable_all_peer_access obliging_rt s1) = s2 \<and> snd (ipc_reenable_all_peer_access obliging_rt s2) = s3 \<and>
     g_peer_access_devices two_peers = [1, 3] \<and> g_peer_access_devices s3 = []"
proof -
  obtain k s1 where 1: "ipc_disable_all_peer_access obliging_rt two_peers = (k, s1)" by fastforce
  obtain k' s2 where 2: "ipc_disable_all_peer_access obliging_rt s1 = (k', s2)" by fastforce
  obtain n s3 where 3: "ipc_reenable_all_peer_access obliging_rt s2 = (n, s3)" by fastforce
  from peers_lost_after_two_disables [OF enables_obliging 1 2 3] 1 2 3 show ?thesis by (simp add: two_peers_def)
qed

section \<open>Events\<close>

definition destroys :: "IpcEventRecord \<Rightarrow> rt_call list" where
  "destroys ev = (if \<not> ev_torn_down ev \<and> is_opened ev then [EventDestroy (event ev)] else [])"

lemma teardown_events_spec:
  "teardown_events r evs s = (evs', n, s') \<Longrightarrow> evs' = map (\<lambda>ev. ev\<lparr>ev_torn_down := True\<rparr>) evs \<and>
    n = length (filter (\<lambda>ev. \<not> ev_torn_down ev) evs) \<and>
    map fst (rt_calls s') = map fst (rt_calls s) @ concat (map destroys evs)"
proof (induction evs arbitrary: s evs' n)
  case (Cons ev evs)
  have id: "ev_torn_down ev \<Longrightarrow> ev\<lparr>ev_torn_down := True\<rparr> = ev" by (cases ev) simp
  from Cons show ?case
    by (auto simp: Let_def destroys_def rdo_calls id split: if_splits prod.splits)
qed simp

lemma event_teardown:
  assumes "has_events r" "ipc_teardown_all_events r (evs, s) = (n, evs', s')"
  shows "n = ipc_get_event_count (evs, s)" "ipc_get_event_count (evs', s') = 0"
    "map fst (rt_calls s') = map fst (rt_calls s) @ concat (map destroys evs)"
proof -
  have "evs' = map (\<lambda>ev. ev\<lparr>ev_torn_down := True\<rparr>) evs \<and> n = int (length (filter (\<lambda>ev. \<not> ev_torn_down ev) evs)) \<and>
      map fst (rt_calls s') = map fst (rt_calls s) @ concat (map destroys evs)"
    using assms teardown_events_spec [of r evs s] by (auto simp: ipc_teardown_all_events_def split: if_splits prod.splits)
  then show "n = ipc_get_event_count (evs, s)" "ipc_get_event_count (evs', s') = 0"
    "map fst (rt_calls s') = map fst (rt_calls s) @ concat (map destroys evs)"
    by (simp_all add: ipc_get_event_count_def filter_empty_conv)
qed

end
