(* ===== verification/Comm_Protocol.thy ===== *)
theory Comm_Protocol
  imports Prelude
begin

text \<open>
  The message protocol between a coordinator and its workers: the control word of
  \<open>src/comm/share_mem.cpp\<close>, and \<open>broadcast_and_wait\<close> of \<open>coordinator/multi_cr_client.cpp\<close> against
  the signal handlers of the workers, as a step relation.  A handler is a function of the message and
  the state of its process; \<open>None\<close> means that the process exits.  The abstract specification of a
  broadcast is one application of the handler to every worker.
\<close>

section \<open>The control word\<close>

definition FINISH_MSG :: nat where "FINISH_MSG = 0"
definition INIT_MSG :: nat where "INIT_MSG = 10"
definition CKPT_MSG :: nat where "CKPT_MSG = 11"
definition RESTORE_MSG :: nat where "RESTORE_MSG = 12"
definition IPC_TEARDOWN_MSG :: nat where "IPC_TEARDOWN_MSG = 15"
definition IPC_EXPORT_MSG :: nat where "IPC_EXPORT_MSG = 16"
definition IPC_IMPORT_MSG :: nat where "IPC_IMPORT_MSG = 17"
definition SELECTIVE_CKPT_MSG :: nat where "SELECTIVE_CKPT_MSG = 20"
definition SELECTIVE_RESTORE_MSG :: nat where "SELECTIVE_RESTORE_MSG = 21"

lemmas msg_defs = FINISH_MSG_def INIT_MSG_def CKPT_MSG_def RESTORE_MSG_def IPC_TEARDOWN_MSG_def
  IPC_EXPORT_MSG_def IPC_IMPORT_MSG_def SELECTIVE_CKPT_MSG_def SELECTIVE_RESTORE_MSG_def

datatype phase = Idle | Signalled | Handling nat | Dead

record 'w proc =
  control :: nat \<comment> \<open>\<open>control->signal\<close>\<close>
  phase :: phase
  wst :: 'w

definition send_msg :: "nat \<Rightarrow> 'w proc \<Rightarrow> 'w proc" where
  "send_msg msg p = p\<lparr>control := msg\<rparr>"

definition recv_msg :: "'w proc \<Rightarrow> nat" where
  "recv_msg p = control p"

definition is_finished :: "'w proc \<Rightarrow> bool" where
  "is_finished p \<longleftrightarrow> recv_msg p = FINISH_MSG"

section \<open>The step relation\<close>

datatype coord = Sending nat | Waiting nat | Finished | Failed

type_synonym 'w system = "coord \<times> 'w proc list"

inductive step :: "(nat \<Rightarrow> 'w \<Rightarrow> 'w option) \<Rightarrow> nat \<Rightarrow> 'w system \<Rightarrow> 'w system \<Rightarrow> bool" for handler msg where
  send: "i < length ps \<Longrightarrow> phase (ps ! i) \<noteq> Dead \<Longrightarrow>
     step handler msg (Sending i, ps) (Sending (Suc i), ps[i := (send_msg msg (ps ! i))\<lparr>phase := Signalled\<rparr>])"
| kill_failed: "i < length ps \<Longrightarrow> phase (ps ! i) = Dead \<Longrightarrow> step handler msg (Sending i, ps) (Failed, ps)"
| sent: "step handler msg (Sending (length ps), ps) (Waiting 0, ps)"
| see_finish: "i < length ps \<Longrightarrow> is_finished (ps ! i) \<Longrightarrow> step handler msg (Waiting i, ps) (Waiting (Suc i), ps)"
| all_finished: "step handler msg (Waiting (length ps), ps) (Finished, ps)"
| enter: "i < length ps \<Longrightarrow> phase (ps ! i) = Signalled \<Longrightarrow>
     step handler msg (c, ps) (c, ps[i := (ps ! i)\<lparr>phase := Handling (recv_msg (ps ! i))\<rparr>])"
| leave: "i < length ps \<Longrightarrow> phase (ps ! i) = Handling m \<Longrightarrow> handler m (wst (ps ! i)) = Some w \<Longrightarrow>
     step handler msg (c, ps) (c, ps[i := (send_msg FINISH_MSG (ps ! i))\<lparr>phase := Idle, wst := w\<rparr>])"
| die: "i < length ps \<Longrightarrow> phase (ps ! i) = Handling m \<Longrightarrow> handler m (wst (ps ! i)) = None \<Longrightarrow>
     step handler msg (c, ps) (c, ps[i := (ps ! i)\<lparr>phase := Dead\<rparr>])"

definition broadcast_start :: "'w proc list \<Rightarrow> 'w system" where
  \<comment> \<open>\<open>broadcast_and_wait\<close> is called\<close>
  "broadcast_start ps = (Sending 0, ps)"

definition quiet :: "'w proc list \<Rightarrow> bool" where
  \<comment> \<open>no worker is in a handler\<close>
  "quiet ps \<longleftrightarrow> (\<forall>p \<in> set ps. phase p = Idle)"

section \<open>The invariant\<close>

definition handled :: "(nat \<Rightarrow> 'w \<Rightarrow> 'w option) \<Rightarrow> nat \<Rightarrow> 'w \<Rightarrow> 'w proc \<Rightarrow> bool" where
  "handled handler msg w p \<longleftrightarrow> phase p = Idle \<and> control p = FINISH_MSG \<and> handler msg w = Some (wst p)"

definition busy :: "(nat \<Rightarrow> 'w \<Rightarrow> 'w option) \<Rightarrow> nat \<Rightarrow> 'w \<Rightarrow> 'w proc \<Rightarrow> bool" where
  "busy handler msg w p \<longleftrightarrow> control p = msg \<and> wst p = w \<and>
     (phase p = Signalled \<or> phase p = Handling msg \<or> phase p = Dead \<and> handler msg w = None)"

fun coord_inv :: "(nat \<Rightarrow> 'w \<Rightarrow> 'w option) \<Rightarrow> nat \<Rightarrow> 'w proc list \<Rightarrow> coord \<Rightarrow> 'w proc list \<Rightarrow> bool" where
  "coord_inv h msg ps0 (Sending k) ps = (k \<le> length ps0 \<and>
     (\<forall>i < length ps0. if i < k then handled h msg (wst (ps0 ! i)) (ps ! i) \<or> busy h msg (wst (ps0 ! i)) (ps ! i)
                       else ps ! i = ps0 ! i))"
| "coord_inv h msg ps0 (Waiting k) ps = (k \<le> length ps0 \<and>
     (\<forall>i < length ps0. handled h msg (wst (ps0 ! i)) (ps ! i) \<or> k \<le> i \<and> busy h msg (wst (ps0 ! i)) (ps ! i)))"
| "coord_inv h msg ps0 Finished ps = (\<forall>i < length ps0. handled h msg (wst (ps0 ! i)) (ps ! i))"
| "coord_inv h msg ps0 Failed ps = False"

definition bc_inv :: "(nat \<Rightarrow> 'w \<Rightarrow> 'w option) \<Rightarrow> nat \<Rightarrow> 'w proc list \<Rightarrow> 'w system \<Rightarrow> bool" where
  "bc_inv h msg ps0 s \<longleftrightarrow> length (snd s) = length ps0 \<and> coord_inv h msg ps0 (fst s) (snd s)"

lemma handled_or_busy_step:
  assumes "handled h msg w p \<or> busy h msg w p"
  shows "phase p = Signalled \<Longrightarrow> handled h msg w (p\<lparr>phase := Handling (recv_msg p)\<rparr>) \<or> busy h msg w (p\<lparr>phase := Handling (recv_msg p)\<rparr>)"
    "phase p = Handling m \<Longrightarrow> h m (wst p) = Some w' \<Longrightarrow>
      handled h msg w ((send_msg FINISH_MSG p)\<lparr>phase := Idle, wst := w'\<rparr>) \<or> busy h msg w ((send_msg FINISH_MSG p)\<lparr>phase := Idle, wst := w'\<rparr>)"
    "phase p = Handling m \<Longrightarrow> h m (wst p) = None \<Longrightarrow> handled h msg w (p\<lparr>phase := Dead\<rparr>) \<or> busy h msg w (p\<lparr>phase := Dead\<rparr>)"
  using assms by (auto simp: handled_def busy_def recv_msg_def send_msg_def)

lemma handled_idle: "handled h msg w p \<Longrightarrow> phase p = Idle"
  by (simp add: handled_def)

lemma worker_step_inv:
  assumes bc_inv: "bc_inv h msg ps0 (c, ps)" and i: "i < length ps" "phase (ps ! i) \<noteq> Idle" and q: "quiet ps0"
    and upd: "\<And>w. handled h msg w (ps ! i) \<or> busy h msg w (ps ! i) \<Longrightarrow> handled h msg w p \<or> busy h msg w p"
  shows "bc_inv h msg ps0 (c, ps[i := p])"
proof -
  have q: "phase (ps0 ! j) = Idle" if "j < length ps0" for j using q that by (simp add: quiet_def)
  have len: "length ps = length ps0" using bc_inv by (simp add: bc_inv_def)
  have "coord_inv h msg ps0 c (ps[i := p])"
  proof (cases c)
    case (Sending k)
    have k: "k \<le> length ps0" and a: "\<forall>j < length ps0. if j < k then handled h msg (wst (ps0 ! j)) (ps ! j) \<or>
        busy h msg (wst (ps0 ! j)) (ps ! j) else ps ! j = ps0 ! j"
      using bc_inv Sending by (simp_all add: bc_inv_def)
    have "i < k" using a i q len by (metis)
    with a k upd len i show ?thesis by (auto simp: Sending nth_list_update)
  next
    case (Waiting k)
    have a: "\<forall>j < length ps0. handled h msg (wst (ps0 ! j)) (ps ! j) \<or> k \<le> j \<and> busy h msg (wst (ps0 ! j)) (ps ! j)"
      and k: "k \<le> length ps0" using bc_inv Waiting by (simp_all add: bc_inv_def)
    have "\<not> handled h msg (wst (ps0 ! i)) (ps ! i)" using i(2) by (auto simp: handled_def)
    then have "k \<le> i" using a i len by auto
    with a k upd len i show ?thesis by (auto simp: Waiting nth_list_update)
  next
    case Finished
    then show ?thesis using bc_inv i len by (auto simp: bc_inv_def handled_def)
  next
    case Failed
    then show ?thesis using bc_inv by (simp add: bc_inv_def)
  qed
  then show ?thesis using len by (simp add: bc_inv_def)
qed

lemma signalled_busy: "busy h msg (wst p) ((send_msg msg p)\<lparr>phase := Signalled\<rparr>)"
  by (simp add: busy_def send_msg_def)

lemma step_inv:
  assumes "step h msg s s'" "bc_inv h msg ps0 s" "quiet ps0" "msg \<noteq> FINISH_MSG"
  shows "bc_inv h msg ps0 s'"
  using assms
proof (induction rule: step.induct)
  case (send i ps)
  then show ?case
    unfolding bc_inv_def coord_inv.simps fst_conv snd_conv
    using signalled_busy [of h msg "ps ! i"] by (auto simp: nth_list_update less_Suc_eq)
next
  case (kill_failed i ps)
  then have "phase (ps0 ! i) = Dead" by (auto simp: bc_inv_def)
  then show ?case using kill_failed by (auto simp: bc_inv_def quiet_def)
next
  case (sent ps)
  then show ?case by (auto simp: bc_inv_def)
next
  case (see_finish i ps)
  have a: "\<forall>j < length ps0. handled h msg (wst (ps0 ! j)) (ps ! j) \<or> i \<le> j \<and> busy h msg (wst (ps0 ! j)) (ps ! j)"
    using see_finish(3) by (simp add: bc_inv_def)
  have "\<not> busy h msg w (ps ! i)" for w using see_finish(2,5) by (auto simp: busy_def is_finished_def recv_msg_def)
  with a see_finish show ?case by (force simp: bc_inv_def Suc_le_eq le_less)
next
  case (all_finished ps)
  then show ?case by (auto simp: bc_inv_def)
next
  case (enter i ps c)
  then show ?case by (intro worker_step_inv) (simp_all add: handled_or_busy_step(1))
next
  case (leave i ps m w c)
  then show ?case by (intro worker_step_inv) (simp_all add: handled_or_busy_step(2))
next
  case (die i ps m c)
  then show ?case by (intro worker_step_inv) (simp_all add: handled_or_busy_step(3))
qed

lemma bc_inv_start: "quiet ps \<Longrightarrow> bc_inv h msg ps (broadcast_start ps)"
  by (simp add: bc_inv_def broadcast_start_def)

lemma steps_inv:
  assumes "(step h msg)\<^sup>*\<^sup>* (broadcast_start ps) s" "quiet ps" "msg \<noteq> FINISH_MSG"
  shows "bc_inv h msg ps s"
  using assms(1)
proof induction
  case base
  show ?case by (rule bc_inv_start [OF assms(2)])
next
  case (step s s')
  from step_inv [OF step(2,3) assms(2,3)] show ?case .
qed

section \<open>Termination\<close>

fun phase_weight :: "phase \<Rightarrow> nat" where
  "phase_weight Signalled = 2"
| "phase_weight (Handling _) = 1"
| "phase_weight _ = 0"

fun coord_weight :: "nat \<Rightarrow> coord \<Rightarrow> nat" where
  "coord_weight n (Sending k) = 3 * (n - k) + n + 2"
| "coord_weight n (Waiting k) = (n - k) + 1"
| "coord_weight n _ = 0"

definition weight :: "'w system \<Rightarrow> nat" where
  "weight s = coord_weight (length (snd s)) (fst s) + sum_list (map (\<lambda>p. phase_weight (phase p)) (snd s))"

lemma sum_list_update_nat:
  fixes f :: "'a \<Rightarrow> nat"
  shows "i < length xs \<Longrightarrow> sum_list (map f (xs[i := x])) + f (xs ! i) = sum_list (map f xs) + f x"
  by (induction xs arbitrary: i) (auto split: nat.splits)

lemma step_weight: "step h msg s s' \<Longrightarrow> weight s' < weight s"
proof (induction rule: step.induct)
  case (send i ps)
  let ?p = "(send_msg msg (ps ! i))\<lparr>phase := Signalled\<rparr>"
  have "sum_list (map (\<lambda>p. phase_weight (phase p)) (ps[i := ?p])) \<le> sum_list (map (\<lambda>p. phase_weight (phase p)) ps) + 2"
    using sum_list_update_nat [OF send(1), of "\<lambda>p. phase_weight (phase p)" ?p] by simp
  then show ?case using send by (simp add: weight_def)
next
  case (enter i ps c)
  then show ?case
    using sum_list_update_nat [of i ps "\<lambda>p. phase_weight (phase p)" "(ps ! i)\<lparr>phase := Handling (recv_msg (ps ! i))\<rparr>"]
    by (simp add: weight_def)
next
  case (leave i ps m w c)
  then show ?case
    using sum_list_update_nat [of i ps "\<lambda>p. phase_weight (phase p)" "(send_msg FINISH_MSG (ps ! i))\<lparr>phase := Idle, wst := w\<rparr>"]
    by (simp add: weight_def)
next
  case (die i ps m c)
  then show ?case
    using sum_list_update_nat [of i ps "\<lambda>p. phase_weight (phase p)" "(ps ! i)\<lparr>phase := Dead\<rparr>"]
    by (simp add: weight_def)
qed (simp_all add: weight_def)

lemma steps_weight: "((step h msg) ^^ k) s s' \<Longrightarrow> weight s' + k \<le> weight s"
proof (induction k arbitrary: s')
  case (Suc k)
  then obtain s1 where "((step h msg) ^^ k) s s1" "step h msg s1 s'" by auto
  with Suc.IH [of s1] step_weight [of h msg s1 s'] show ?case by simp
qed simp

lemma weight_start: "quiet ps \<Longrightarrow> weight (broadcast_start ps) = 4 * length ps + 2"
proof -
  assume "quiet ps"
  then have "map (\<lambda>p. phase_weight (phase p)) ps = map (\<lambda>_. 0) ps" by (simp add: quiet_def)
  then show ?thesis by (simp add: weight_def broadcast_start_def)
qed

lemma no_step_finished:
  assumes inv: "bc_inv h msg ps0 s" and stuck: "\<nexists>s'. step h msg s s'" and msg: "msg \<noteq> FINISH_MSG" and q: "quiet ps0"
    and ret: "\<forall>p \<in> set ps0. h msg (wst p) \<noteq> None"
  shows "fst s = Finished"
proof -
  obtain c ps where s: "s = (c, ps)" by fastforce
  have len: "length ps = length ps0" using inv by (simp add: bc_inv_def s)
  have ret: "h msg (wst (ps0 ! i)) \<noteq> None" if "i < length ps0" for i using ret that by simp
  have idle: "handled h msg (wst (ps0 ! i)) (ps ! i)"
    if "handled h msg (wst (ps0 ! i)) (ps ! i) \<or> busy h msg (wst (ps0 ! i)) (ps ! i)" and i: "i < length ps0" for i
  proof (rule ccontr)
    assume "\<not> handled h msg (wst (ps0 ! i)) (ps ! i)"
    then have b: "busy h msg (wst (ps0 ! i)) (ps ! i)" using that by blast
    then consider "phase (ps ! i) = Signalled" | "phase (ps ! i) = Handling msg" "wst (ps ! i) = wst (ps0 ! i)"
      using ret [OF i] by (auto simp: busy_def)
    then show False
    proof cases
      case 1
      with stuck s i len show False by (metis step.enter)
    next
      case 2
      with stuck s i len ret [OF i] show False by (metis step.leave option.exhaust)
    qed
  qed
  show ?thesis
  proof (cases c)
    case (Sending k)
    have "k \<le> length ps0" and k: "k < length ps0 \<Longrightarrow> ps ! k = ps0 ! k" using inv Sending s by (auto simp: bc_inv_def)
    moreover have "k < length ps0 \<Longrightarrow> phase (ps ! k) \<noteq> Dead" using k q by (simp add: quiet_def)
    ultimately show ?thesis using stuck s Sending len by (metis le_neq_implies_less step.send step.sent)
  next
    case (Waiting k)
    have k: "k \<le> length ps0" using inv Waiting s by (simp add: bc_inv_def)
    have "k < length ps0 \<Longrightarrow> handled h msg (wst (ps0 ! k)) (ps ! k)"
      using idle [of k] inv Waiting s by (auto simp: bc_inv_def)
    then have "k < length ps0 \<Longrightarrow> is_finished (ps ! k)" by (simp add: handled_def is_finished_def recv_msg_def)
    then show ?thesis using stuck s Waiting len k by (metis le_neq_implies_less step.see_finish step.all_finished)
  next
    case Failed
    then show ?thesis using inv s by (simp add: bc_inv_def)
  qed (simp add: s)
qed

section \<open>Theorems\<close>

text \<open>C9: a broadcast implements the atomic step that applies the handler of the message once to every
  worker: whenever \<open>broadcast_and_wait\<close> returns, in whatever order the workers ran, every worker is in
  the state its handler gives from the state it had, its control word is \<open>FINISH\<close> and no handler is
  running.\<close>

theorem broadcast_refines_atomic:
  assumes "quiet ps" "msg \<noteq> FINISH_MSG" "(step h msg)\<^sup>*\<^sup>* (broadcast_start ps) (Finished, ps')"
  shows "map (\<lambda>p. h msg (wst p)) ps = map (\<lambda>p. Some (wst p)) ps' \<and> quiet ps' \<and> (\<forall>p \<in> set ps'. is_finished p)"
proof -
  have i: "length ps' = length ps" "\<forall>i < length ps. handled h msg (wst (ps ! i)) (ps' ! i)"
    using steps_inv [OF assms(3,1,2)] by (simp_all add: bc_inv_def)
  have "map (\<lambda>p. h msg (wst p)) ps = map (\<lambda>p. Some (wst p)) ps'"
    using i by (intro nth_equalityI) (auto simp: handled_def)
  with i show ?thesis by (auto simp: quiet_def all_set_conv_all_nth handled_def is_finished_def recv_msg_def)
qed

definition two_workers :: "nat proc list" where
  "two_workers = [\<lparr>control = 0, phase = Idle, wst = 5\<rparr>, \<lparr>control = 0, phase = Idle, wst = 6\<rparr>]"

lemma runs_to_end:
  assumes "quiet ps" "msg \<noteq> FINISH_MSG" "\<forall>p \<in> set ps. h msg (wst p) \<noteq> None"
  shows "\<exists>ps'. (step h msg)\<^sup>*\<^sup>* (broadcast_start ps) (Finished, ps')"
proof -
  have "\<exists>s'. (step h msg)\<^sup>*\<^sup>* s s' \<and> (\<nexists>s''. step h msg s' s'')" for s
  proof (induction s rule: measure_induct_rule [of weight])
    case (less s)
    show ?case
    proof (cases "\<exists>s1. step h msg s s1")
      case True
      then obtain s1 where "step h msg s s1" by blast
      with less [of s1] step_weight show ?thesis by (meson converse_rtranclp_into_rtranclp)
    qed blast
  qed
  then obtain s' where s': "(step h msg)\<^sup>*\<^sup>* (broadcast_start ps) s'" "\<nexists>s''. step h msg s' s''" by blast
  have "fst s' = Finished"
    by (rule no_step_finished [OF steps_inv [OF s'(1) assms(1,2)] s'(2) assms(2,1,3)])
  with s'(1) show ?thesis by (cases s') auto
qed

theorem broadcast_refines_atomic_witness:
  "\<exists>ps'. (step (\<lambda>m w. Some (w + m)) CKPT_MSG)\<^sup>*\<^sup>* (broadcast_start two_workers) (Finished, ps') \<and> map wst ps' = [16, 17]"
proof -
  have q: "quiet two_workers" "CKPT_MSG \<noteq> FINISH_MSG" by (simp_all add: quiet_def two_workers_def msg_defs)
  obtain ps' where r: "(step (\<lambda>m w. Some (w + m)) CKPT_MSG)\<^sup>*\<^sup>* (broadcast_start two_workers) (Finished, ps')"
    using runs_to_end [OF q] by fastforce
  have "map Some (map wst ps') = map Some [16, 17]"
    using broadcast_refines_atomic [OF q r] by (simp add: two_workers_def msg_defs comp_def)
  then have "map wst ps' = [16, 17]" by (metis inj_Some inj_map_eq_map)
  with r show ?thesis by (intro exI [of _ ps'] conjI)
qed

text \<open>C20: a broadcast to \<open>n\<close> workers takes at most \<open>4 * n + 2\<close> steps (polling apart), in every order of
  the steps, and if the handlers return it cannot stop before the coordinator has seen every worker
  finish.\<close>

theorem broadcast_terminates:
  assumes "quiet ps" "msg \<noteq> FINISH_MSG" "((step h msg) ^^ k) (broadcast_start ps) s"
  shows "k \<le> 4 * length ps + 2 \<and>
    ((\<forall>p \<in> set ps. h msg (wst p) \<noteq> None) \<longrightarrow> (\<nexists>s'. step h msg s s') \<longrightarrow> fst s = Finished)"
proof -
  have "(step h msg)\<^sup>*\<^sup>* (broadcast_start ps) s" using assms(3) by (rule relpowp_imp_rtranclp)
  with no_step_finished [OF steps_inv [OF this assms(1,2)] _ assms(2,1)] steps_weight [OF assms(3)] weight_start [OF assms(1)]
  show ?thesis by auto
qed

theorem broadcast_terminates_witness:
  "\<exists>k s. ((step (\<lambda>m w. Some (w + m)) CKPT_MSG) ^^ k) (broadcast_start two_workers) s \<and> k \<le> 10 \<and> fst s = Finished"
proof -
  have q: "quiet two_workers" "CKPT_MSG \<noteq> FINISH_MSG" by (simp_all add: quiet_def two_workers_def msg_defs)
  obtain ps' where r: "(step (\<lambda>m w. Some (w + m)) CKPT_MSG)\<^sup>*\<^sup>* (broadcast_start two_workers) (Finished, ps')"
    using runs_to_end [OF q] by fastforce
  then obtain k where k: "((step (\<lambda>m w. Some (w + m)) CKPT_MSG) ^^ k) (broadcast_start two_workers) (Finished, ps')"
    by (meson rtranclp_imp_relpowp)
  from broadcast_terminates [OF q k] k show ?thesis by (auto simp: two_workers_def)
qed

text \<open>C30: if the handler of one worker ends its process, as every \<open>exit\<close> in the checkpoint code does, the
  coordinator never returns from the broadcast: there is no timeout.\<close>

theorem broadcast_waits_for_dead_worker:
  assumes "quiet ps" "msg \<noteq> FINISH_MSG" "p \<in> set ps" "h msg (wst p) = None"
    and "(step h msg)\<^sup>*\<^sup>* (broadcast_start ps) s"
  shows "fst s \<noteq> Finished"
proof
  assume "fst s = Finished"
  with steps_inv [OF assms(5,1,2)] have "\<forall>i < length ps. handled h msg (wst (ps ! i)) (snd s ! i)"
    by (simp add: bc_inv_def)
  with assms(3,4) show False by (auto simp: in_set_conv_nth handled_def)
qed

theorem broadcast_waits_for_dead_worker_witness:
  "\<forall>ps'. \<not> (step (\<lambda>m w. if w = 6 then None else Some w) CKPT_MSG)\<^sup>*\<^sup>* (broadcast_start two_workers) (Finished, ps')"
proof (intro allI notI)
  fix ps'
  assume r: "(step (\<lambda>m w. if w = 6 then None else Some w) CKPT_MSG)\<^sup>*\<^sup>* (broadcast_start two_workers) (Finished, ps')"
  have "fst (Finished, ps') \<noteq> Finished"
    by (rule broadcast_waits_for_dead_worker [OF _ _ _ _ r, of "\<lparr>control = 0, phase = Idle, wst = 6\<rparr>"])
      (simp_all add: quiet_def two_workers_def msg_defs)
  then show False by simp
qed

end
