(* ===== verification/Text_Util.thy ===== *)
theory Text_Util
  imports Prelude
begin

text \<open>
  The parts of the C library the clients and the naming of files rest on: decimal printing
  (\<open>"%d"\<close>), \<open>atoi\<close> as the GNU library has it (\<open>strtol\<close> clamped to 64 bits, then truncated to 32),
  \<open>strtok\<close> with one delimiter, and \<open>strcasecmp\<close>.  Printing and reading a number are inverse, and so
  are joining and splitting a list.
\<close>

section \<open>Decimal numbers\<close>

definition digit_char :: "nat \<Rightarrow> char" where
  "digit_char d = char_of (48 + d)"

fun digits :: "nat \<Rightarrow> string" where
  "digits n = (if n < 10 then [digit_char n] else digits (n div 10) @ [digit_char (n mod 10)])"

declare digits.simps [simp del]

definition is_digit :: "char \<Rightarrow> bool" where
  "is_digit c \<longleftrightarrow> 48 \<le> (of_char c :: nat) \<and> (of_char c :: nat) \<le> 57"

definition is_space :: "char \<Rightarrow> bool" where
  "is_space c \<longleftrightarrow> (of_char c :: nat) = 32 \<or> 9 \<le> (of_char c :: nat) \<and> (of_char c :: nat) \<le> 13"

definition digit_val :: "char \<Rightarrow> nat" where
  "digit_val c = of_char c - 48"

definition read_digits :: "string \<Rightarrow> nat" where
  \<comment> \<open>the value of the leading digits\<close>
  "read_digits s = foldl (\<lambda>a c. 10 * a + digit_val c) 0 (takeWhile is_digit s)"

definition strtol10 :: "string \<Rightarrow> int" where
  "strtol10 s =
     (let t = dropWhile is_space s;
          v = (case t of
                 c # r \<Rightarrow> if c = CHR ''-'' then - int (read_digits r)
                          else if c = CHR ''+'' then int (read_digits r) else int (read_digits t)
               | [] \<Rightarrow> 0)
      in max (- (2 ^ 63)) (min (2 ^ 63 - 1) v))"

definition atoi :: "string \<Rightarrow> int" where
  "atoi s = signed_take_bit 31 (strtol10 s)"

lemma digit_char_facts:
  assumes "d < 10"
  shows "is_digit (digit_char d)" "digit_val (digit_char d) = d" "\<not> is_space (digit_char d)"
    "digit_char d \<noteq> CHR ''-''" "digit_char d \<noteq> CHR ''+''" "digit_char d \<noteq> CHR '',''"
proof -
  have *: "(of_char (digit_char d) :: nat) = 48 + d" using assms by (simp add: digit_char_def)
  show "is_digit (digit_char d)" "digit_val (digit_char d) = d" "\<not> is_space (digit_char d)"
    using * assms by (simp_all add: is_digit_def digit_val_def is_space_def)
  show "digit_char d \<noteq> CHR ''-''" "digit_char d \<noteq> CHR ''+''" "digit_char d \<noteq> CHR '',''"
    using * by auto
qed

lemma digits_chars: "set (digits n) \<subseteq> digit_char ` {..<10}"
proof (induction n rule: digits.induct)
  case (1 n)
  then show ?case by (subst digits.simps) auto
qed

lemma digits_not_empty [simp]: "digits n \<noteq> []"
  by (subst digits.simps) simp

lemma digits_hd: "\<exists>d < 10. hd (digits n) = digit_char d"
  using subsetD [OF digits_chars hd_in_set [OF digits_not_empty]] by auto

lemma digits_is_digit: "c \<in> set (digits n) \<Longrightarrow> is_digit c"
  using digits_chars [of n] digit_char_facts(1) by auto

lemma digits_no_comma: "CHR '','' \<notin> set (digits n)"
  using subsetD [OF digits_chars, of "CHR '',''" n] digit_char_facts(6) by force

lemma digits_value: "foldl (\<lambda>a c. 10 * a + digit_val c) 0 (digits n) = n"
proof (induction n rule: digits.induct)
  case (1 n)
  then show ?case by (subst digits.simps) (simp add: digit_char_facts)
qed

lemma digits_inject [simp]: "digits m = digits n \<longleftrightarrow> m = n"
  by (metis digits_value)

lemma read_digits_digits: "\<forall>c \<in> set (take 1 r). \<not> is_digit c \<Longrightarrow> read_digits (digits n @ r) = n"
proof -
  assume r: "\<forall>c \<in> set (take 1 r). \<not> is_digit c"
  have "takeWhile is_digit (digits n @ r) = digits n @ takeWhile is_digit r"
    by (rule takeWhile_append2) (rule digits_is_digit)
  also have "takeWhile is_digit r = []" using r by (cases r) auto
  finally show ?thesis by (simp add: read_digits_def digits_value)
qed

lemma atoi_digits:
  assumes "n < 2 ^ 31"
  shows "atoi (digits n) = int n"
proof -
  obtain d r where d: "digits n = digit_char d # r" "d < 10"
    using digits_hd [of n] digits_not_empty [of n] by (metis list.collapse)
  have "read_digits (digits n) = n" using read_digits_digits [of "[]" n] by simp
  then have "strtol10 (digits n) = int n"
    using digit_char_facts [OF d(2)] assms by (simp add: strtol10_def d(1) Let_def)
  moreover have "signed_take_bit 31 (int n) = int n"
    using assms by (intro signed_take_bit_int_eq_self) auto
  ultimately show ?thesis by (simp add: atoi_def)
qed

section \<open>Splitting\<close>

fun strtok :: "char \<Rightarrow> string \<Rightarrow> string \<Rightarrow> string list" where
  \<comment> \<open>the non-empty pieces between delimiters; the second argument is the piece read so far\<close>
  "strtok d tok [] = (if tok = [] then [] else [tok])"
| "strtok d tok (c # cs) =
     (if c = d then (if tok = [] then strtok d [] cs else tok # strtok d [] cs)
      else strtok d (tok @ [c]) cs)"

fun join :: "char \<Rightarrow> string list \<Rightarrow> string" where
  "join d [] = []"
| "join d [t] = t"
| "join d (t # u # ts) = t @ [d] @ join d (u # ts)"

lemma strtok_token: "d \<notin> set t \<Longrightarrow> strtok d tok (t @ r) = strtok d (tok @ t) r"
  by (induction t arbitrary: tok) auto

lemma strtok_join:
  "\<forall>t \<in> set ts. t \<noteq> [] \<and> d \<notin> set t \<Longrightarrow> strtok d [] (join d ts) = ts"
proof (induction d ts rule: join.induct)
  case (2 d t)
  then show ?case using strtok_token [of d t "[]" "[]"] by simp
next
  case (3 d t u ts)
  then show ?case using strtok_token [of d t "[]" "[d] @ join d (u # ts)"] by simp
qed simp

lemma strtok_tokens: "d \<notin> set tok \<Longrightarrow> t \<in> set (strtok d tok s) \<Longrightarrow> t \<noteq> [] \<and> d \<notin> set t"
  by (induction d tok s rule: strtok.induct) (auto split: if_splits)

section \<open>Comparing without case\<close>

definition lower :: "char \<Rightarrow> char" where
  "lower c = (if 65 \<le> (of_char c :: nat) \<and> (of_char c :: nat) \<le> 90 then char_of (of_char c + 32 :: nat) else c)"

definition strcaseeq :: "string \<Rightarrow> string \<Rightarrow> bool" where
  \<comment> \<open>\<open>strcasecmp(s, t) == 0\<close>\<close>
  "strcaseeq s t \<longleftrightarrow> map lower s = map lower t"

end
