(* ===== verification/Signal_Handler.thy ===== *)
theory Signal_Handler
  imports NV_Backend Peer_Access Comm_Protocol Text_Util
begin

text \<open>
  The worker side of the checkpoint/restore library (\<open>src/vGPU.cpp\<close>): initialisation (\<open>get_id\<close>,
  \<open>init_CR\<close>, the shared files of \<open>src/backend/mmap_backend.cpp\<close> and \<open>src/comm/share_mem.cpp\<close>, the
  choice of the backend in \<open>src/GPUs/gpu_factory.cpp\<close>), the context handling of the NVIDIA backend
  and the signal handler that dispatches the messages.  System calls succeed or fail as the
  environment says; a failure that ends the process is \<open>Inl\<close>.
\<close>

section \<open>The context of the NVIDIA backend\<close>

definition ensureCudaInitialized :: "vmm_driver \<Rightarrow> vmm_state machine \<Rightarrow> exit_reason + vmm_state machine" where
  "ensureCudaInitialized drv m =
     (if gpu_initialized (gst m) then Inr m
      else let (r, _, m1) = vcall drv CuInit m in
      if r \<noteq> 0 then Inl BackendExit
      else let (r, ctx, m2) = vcall drv CtxGetCurrent m1 in
      if r \<noteq> 0 then Inl BackendExit
      else if ctx = 0 then
        let (r, d, m3) = vcall drv DeviceGet m2 in
        if r \<noteq> 0 then Inl BackendExit
        else let (r, ctx', m4) = vcall drv (PrimaryCtxRetain (int d)) m3 in
        if r \<noteq> 0 then Inl BackendExit
        else Inr (vmm_upd (\<lambda>s. s\<lparr>gpu_device := int d, gpu_context := ctx', gpu_initialized := True\<rparr>) m4)
      else
        let (r, d, m3) = vcall drv CtxGetDevice m2 in
        if r \<noteq> 0 then Inl BackendExit
        else Inr (vmm_upd (\<lambda>s. s\<lparr>gpu_device := int d, gpu_context := ctx, gpu_initialized := True\<rparr>) m3))"

definition registerHostMemory ::
    "vmm_driver \<Rightarrow> nat \<Rightarrow> nat \<Rightarrow> vmm_state machine \<Rightarrow> exit_reason + int \<times> vmm_state machine" where
  "registerHostMemory drv p n m = rbind (ensureCudaInitialized drv m) (\<lambda>m1.
     let (r, _, m2) = vcall drv (HostRegister p n) m1 in
     if r \<noteq> 0 then let (_, _, m3) = vcall drv Vmm.vmm_call.GetLastError m2 in Inr (-1, m3) else Inr (0, m2))"

definition syncAllKernels :: "int \<Rightarrow> vmm_state machine \<Rightarrow> exit_reason + int \<times> vmm_state machine" where
  \<comment> \<open>\<open>e\<close> is what \<open>cudaDeviceSynchronize\<close> returns; device memory is as the kernels leave it\<close>
  "syncAllKernels e m = rbind (nv_check_ret e) (\<lambda>_. Inr (0, m))"

definition pushContext :: "vmm_driver \<Rightarrow> vmm_state machine \<Rightarrow> exit_reason + int \<times> vmm_state machine" where
  "pushContext drv m = rbind (ensureCudaInitialized drv m) (\<lambda>m1.
     let target = (if g_pytorch_context (gst m1) \<noteq> 0 then g_pytorch_context (gst m1) else gpu_context (gst m1));
         (r, _, m2) = vcall drv (CtxPush target) m1
     in Inr (if r \<noteq> 0 then -1 else 0, m2))"

definition popContext :: "vmm_driver \<Rightarrow> vmm_state machine \<Rightarrow> int \<times> vmm_state machine" where
  "popContext drv m = (let (r, _, m1) = vcall drv CtxPop m in (if r \<noteq> 0 then -1 else 0, m1))"

section \<open>Initialisation\<close>

datatype sys_call = Open string | Ftruncate string nat | Mmap string nat \<comment> \<open>\<open>fopen\<close> counts as \<open>Open\<close>\<close>

record cr_env =
  sys :: "sys_call \<Rightarrow> bool"          \<comment> \<open>whether the call succeeds\<close>
  EXPORT_FILE_PATH :: "string option" \<comment> \<open>environment variables\<close>
  GPU_VENDOR :: "string option"
  ce_pid :: nat
  ce_drv :: "vmm_state driver"
  ce_vmm :: vmm_driver
  ce_rt :: cuda_rt
  ce_sync :: int
  ce_host :: nat                      \<comment> \<open>where the host buffer is mapped: \<open>get_host_buffer()\<close>\<close>

definition map_file :: "cr_env \<Rightarrow> string \<Rightarrow> nat \<Rightarrow> exit_reason + unit" where
  "map_file env name n =
     (if sys env (Open name) \<and> sys env (Ftruncate name n) \<and> sys env (Mmap name n) then Inr () else Inl BackendExit)"

definition ctl_dir :: "cr_env \<Rightarrow> string" where
  "ctl_dir env = (case EXPORT_FILE_PATH env of None \<Rightarrow> ''/mnt/huge-ckpt'' | Some d \<Rightarrow> d)"

definition control_name :: "cr_env \<Rightarrow> nat \<Rightarrow> string" where
  "control_name env pid = ctl_dir env @ ''/control-'' @ digits pid"

definition shm_name :: "cr_env \<Rightarrow> nat \<Rightarrow> string" where
  "shm_name env cid = (case EXPORT_FILE_PATH env of
     Some d \<Rightarrow> d @ ''/ckpt-'' @ digits cid @ ''.data'' | None \<Rightarrow> ''/mnt/huge-ckpt/'' @ digits cid)"

definition host_name :: "cr_env \<Rightarrow> nat \<Rightarrow> string" where
  "host_name env cid = (case EXPORT_FILE_PATH env of
     Some d \<Rightarrow> d @ ''/ckpt-'' @ digits cid @ ''-host.data'' | None \<Rightarrow> ''/mnt/huge-ckpt/'' @ digits cid @ ''-host'')"

definition ShareMemComm_setup :: "cr_env \<Rightarrow> nat \<Rightarrow> exit_reason + unit" where
  "ShareMemComm_setup env pid = map_file env (control_name env pid) HUGE_PAGE_SIZE"

definition ShareMem_setup :: "cr_env \<Rightarrow> nat \<Rightarrow> shared_mem_fs \<Rightarrow> exit_reason + shared_mem_fs" where
  "ShareMem_setup env cid fs =
     rbind (map_file env (shm_name env cid) SHM_SIZE) (\<lambda>_.
     let fs1 = fs_reset fs in
     rbind (map_file env (host_name env cid) (STAGING_BUF_SIZE * STAGING_BUF_NUM)) (\<lambda>_. Inr fs1))"

definition createGPU :: "bool \<Rightarrow> string option \<Rightarrow> exit_reason + GPUVendor" where
  \<comment> \<open>\<open>amd_build\<close>: compiled with \<open>__HIP_PLATFORM_AMD__\<close>\<close>
  "createGPU amd_build name = (case name of
     None \<Rightarrow> Inl BackendExit
   | Some v \<Rightarrow>
       if amd_build then
         if strcaseeq v ''AMD'' \<or> strcaseeq v ''ROCM'' \<or> strcaseeq v ''HIP'' then Inr AMD else Inl BackendExit
       else
         if strcaseeq v ''NVIDIA'' \<or> strcaseeq v ''CUDA'' then Inr NVIDIA else Inl BackendExit)"

definition get_id :: "cr_env \<Rightarrow> nat \<Rightarrow> exit_reason + nat \<times> nat" where
  \<comment> \<open>the counter is in a file all workers share; the result is the identifier and the new counter\<close>
  "get_id env counter = rbind (map_file env (ctl_dir env @ ''/control'') HUGE_PAGE_SIZE) (\<lambda>_. Inr (counter, counter + 1))"

record process = \<comment> \<open>a worker of the NVIDIA build\<close>
  CR_initialized :: bool
  cr_id :: nat
  control_word :: nat       \<comment> \<open>\<open>control->signal\<close>\<close>
  selective_req :: "nat list" \<comment> \<open>\<open>control->selective_req\<close>: the pointers\<close>
  fsys :: shared_mem_fs
  mch :: "vmm_state machine"
  peer :: peer_state
  pid_map :: "(string \<times> string) option" \<comment> \<open>the file that tells the identifier of the process: name and contents\<close>

definition pid_map_name :: "cr_env \<Rightarrow> string" where
  "pid_map_name env = ctl_dir env @ ''/pid_map_'' @ digits (ce_pid env)"

definition write_pid_map :: "cr_env \<Rightarrow> nat \<Rightarrow> process \<Rightarrow> process" where
  \<comment> \<open>a file that cannot be opened is only reported\<close>
  "write_pid_map env cid p =
     (if sys env (Open (pid_map_name env)) then p\<lparr>pid_map := Some (pid_map_name env, digits cid @ [CHR 0x0A])\<rparr> else p)"

definition init_CR :: "cr_env \<Rightarrow> nat \<Rightarrow> process \<Rightarrow> exit_reason + nat \<times> process" where
  "init_CR env counter p =
     (if CR_initialized p then Inr (counter, p)
      else rbind (get_id env counter) (\<lambda>(cid, counter').
        let p1 = write_pid_map env cid p in
        rbind (ShareMemComm_setup env (ce_pid env)) (\<lambda>_.
        rbind (ShareMem_setup env cid (fsys p1)) (\<lambda>fs'.
        rbind (createGPU False (GPU_VENDOR env)) (\<lambda>_.
        if ce_host env = 0 then Inl BackendExit
        else rbind (registerHostMemory (ce_vmm env) (ce_host env) (STAGING_BUF_SIZE * STAGING_BUF_NUM) (mch p1)) (\<lambda>(_, m').
        Inr (counter', p1\<lparr>CR_initialized := True, cr_id := cid, fsys := fs', mch := m'\<rparr>)))))))"

section \<open>The signal handler\<close>

definition SIGUSR1 :: nat where "SIGUSR1 = 10"
definition SIGUSR2 :: nat where "SIGUSR2 = 12"
definition SIGRTMAX :: nat where "SIGRTMAX = 64"
definition CR_INIT_SIGNAL :: nat where "CR_INIT_SIGNAL = SIGRTMAX"
definition CR_CKPT_SIGNAL :: nat where "CR_CKPT_SIGNAL = SIGUSR1"
definition CR_RESTORE_SIGNAL :: nat where "CR_RESTORE_SIGNAL = SIGUSR2"

lemmas signal_defs = CR_INIT_SIGNAL_def CR_CKPT_SIGNAL_def CR_RESTORE_SIGNAL_def SIGUSR1_def SIGUSR2_def SIGRTMAX_def

definition dispatch :: "cr_env \<Rightarrow> process \<Rightarrow> exit_reason + process" where
  \<comment> \<open>the branches on the message, between \<open>pushContext\<close> and \<open>popContext\<close>\<close>
  "dispatch env p =
     (let gpu = nv_gpu (ce_vmm env); drv = ce_drv env; msg = control_word p in
      if msg = SELECTIVE_CKPT_MSG then
        rbind (syncAllKernels (ce_sync env) (mch p)) (\<lambda>(_, m).
        rbind (ckpt_selective drv gpu (selective_req p) (fsys p, m)) (\<lambda>((fs', m'), _).
        Inr (p\<lparr>fsys := fs', mch := m'\<rparr>)))
      else if msg = SELECTIVE_RESTORE_MSG then
        rbind (restore_ptr_and_content_selective drv gpu (fsys p, mch p)) (\<lambda>(m', _).
        Inr (p\<lparr>mch := m'\<rparr>))
      else if msg = CKPT_MSG then
        rbind (syncAllKernels (ce_sync env) (mch p)) (\<lambda>(_, m).
        rbind (ckpt drv gpu (fsys p, m)) (\<lambda>((fs', m'), _).
        Inr (p\<lparr>fsys := fs', mch := m', peer := snd (ipc_disable_all_peer_access (ce_rt env) (peer p))\<rparr>)))
      else if msg = RESTORE_MSG then
        rbind (restore_ptr_and_content drv gpu (fsys p, mch p)) (\<lambda>(m', _).
        Inr (p\<lparr>mch := m', peer := snd (ipc_reenable_all_peer_access (ce_rt env) (peer p))\<rparr>))
      else Inr p)"

definition cr_signal_handler :: "cr_env \<Rightarrow> nat \<Rightarrow> nat \<Rightarrow> process \<Rightarrow> exit_reason + nat \<times> process" where
  "cr_signal_handler env signum counter p =
     (if signum \<noteq> CR_INIT_SIGNAL \<and> signum \<noteq> CR_CKPT_SIGNAL \<and> signum \<noteq> CR_RESTORE_SIGNAL then Inr (counter, p)
      else if signum = CR_INIT_SIGNAL then
        rbind (init_CR env counter p) (\<lambda>(counter', p'). Inr (counter', p'\<lparr>control_word := FINISH_MSG\<rparr>))
      else rbind (init_CR env counter p) (\<lambda>(counter', p1).
        rbind (pushContext (ce_vmm env) (mch p1)) (\<lambda>(_, m).
        rbind (dispatch env (p1\<lparr>mch := m\<rparr>)) (\<lambda>p2.
        Inr (counter', p2\<lparr>mch := snd (popContext (ce_vmm env) (mch p2)), control_word := FINISH_MSG\<rparr>)))))"

section \<open>What the context handling leaves alone\<close>

definition kept :: "vmm_state machine \<Rightarrow> vmm_state machine \<Rightarrow> bool" where
  "kept m m' \<longleftrightarrow> dev m' = dev m \<and> shm m' = shm m \<and> tables (gst m') = tables (gst m)"

lemma kept_trans: "kept m m1 \<Longrightarrow> kept m1 m2 \<Longrightarrow> kept m m2"
  by (simp add: kept_def)

lemma ensureCudaInitialized_keeps: "ensureCudaInitialized drv m = Inr m' \<Longrightarrow> kept m m'"
  by (auto simp: ensureCudaInitialized_def Let_def split_beta kept_def tables_def split: if_splits)

lemma pushContext_keeps: "pushContext drv m = Inr (r, m') \<Longrightarrow> kept m m'"
  by (auto simp: pushContext_def rbind_Inr_iff Let_def split_beta kept_def tables_def
      dest!: ensureCudaInitialized_keeps split: if_splits)

lemma vcall_keeps: "touches c = None \<Longrightarrow> kept m (after drv c m)"
  by (simp add: kept_def tables_def)

lemma registerHostMemory_keeps:
  assumes "registerHostMemory drv q n m = Inr (r, m')"
  shows "kept m m'"
proof (cases "ensureCudaInitialized drv m")
  case (Inl e)
  with assms show ?thesis by (simp add: registerHostMemory_def)
next
  case (Inr m1)
  let ?h = "after drv (HostRegister q n) m1"
  have "m' = ?h \<or> m' = after drv Vmm.vmm_call.GetLastError ?h"
    using assms Inr by (simp add: registerHostMemory_def Let_def split_beta split: if_splits)
  moreover have "kept m1 ?h" "kept ?h (after drv Vmm.vmm_call.GetLastError ?h)"
    by (rule vcall_keeps, simp)+
  ultimately show ?thesis using ensureCudaInitialized_keeps [OF Inr] kept_trans by blast
qed

lemma popContext_keeps: "kept m (snd (popContext drv m))"
  by (simp add: popContext_def Let_def split_beta kept_def tables_def)

lemma ensureCudaInitialized_total: "vmm_ok drv \<Longrightarrow> \<exists>m'. ensureCudaInitialized drv m = Inr m'"
  by (auto simp: ensureCudaInitialized_def vmm_ok_def vcall_def native_def Let_def split_beta)

lemma pushContext_total: "vmm_ok drv \<Longrightarrow> \<exists>r m'. pushContext drv m = Inr (r, m')"
  using ensureCudaInitialized_total [of drv m] by (auto simp: pushContext_def Let_def split_beta)

definition gpu_ready :: "cr_env \<Rightarrow> process \<Rightarrow> bool" where
  \<comment> \<open>the calls to the driver succeed and the allocations of the process fit the checkpoint file\<close>
  "gpu_ready env p \<longleftrightarrow> stream_contract (ce_drv env) \<and> vmm_ok (ce_vmm env) \<and> ce_sync env = 0 \<and>
     enables (ce_rt env) \<and> CR_initialized p \<and> omap_ok (allocated (gst (mch p))) \<and>
     sane_sizes (allocated (gst (mch p))) \<and> fits (rounded (allocated (gst (mch p)))) \<and>
     sorted_wrt (<) (g_peer_access_devices (peer p))"

definition frozen_copy :: "process \<Rightarrow> process \<Rightarrow> process \<Rightarrow> bool" where
  \<comment> \<open>\<open>q\<close> is a later state of the checkpointed process \<open>p1\<close>: what the checkpoint of \<open>p\<close> left behind is still
      there, only the device memory of the released allocations may hold anything\<close>
  "frozen_copy p p1 q \<longleftrightarrow> CR_initialized q \<and> fsys q = fsys p1 \<and> peer q = peer p1 \<and> shm (mch q) = shm (mch p1) \<and>
     allocated (gst (mch q)) = allocated (gst (mch p1)) \<and>
     (\<forall>a. a \<notin> covered (rounded (allocated (gst (mch p)))) \<longrightarrow> dev (mch q) a = dev (mch p1) a)"

lemma handler_restores:
  assumes ready: "gpu_ready env p" and msg: "control_word p = CKPT_MSG"
  shows "\<exists>p1. cr_signal_handler env CR_CKPT_SIGNAL counter p = Inr (counter, p1) \<and> control_word p1 = FINISH_MSG \<and>
    g_peer_access_devices (peer p1) = [] \<and> CR_initialized p1 \<and>
    allocated (gst (mch p1)) = allocated (gst (mch p)) \<and>
    (\<forall>q. frozen_copy p p1 q \<and> control_word q = RESTORE_MSG \<longrightarrow>
       (\<exists>p3. cr_signal_handler env CR_RESTORE_SIGNAL counter q = Inr (counter, p3) \<and> control_word p3 = FINISH_MSG \<and>
          dev (mch p3) = dev (mch p) \<and> g_peer_access_devices (peer p3) = g_peer_access_devices (peer p) \<and>
          g_saved_peer_access_devices (peer p3) = []))"
proof -
  let ?v = "ce_vmm env" and ?drv = "ce_drv env" and ?rt = "ce_rt env"
  have r: "stream_contract ?drv" "vmm_ok ?v" "omap_ok (allocated (gst (mch p)))" "sane_sizes (allocated (gst (mch p)))"
    "fits (rounded (allocated (gst (mch p))))" "ce_sync env = 0" "enables ?rt" "CR_initialized p"
    "sorted_wrt (<) (g_peer_access_devices (peer p))"
    using ready by (simp_all add: gpu_ready_def)
  have init: "init_CR env counter q = Inr (counter, q)" if "CR_initialized q" for q
    using that by (simp add: init_CR_def)
  obtain e m0 where m0: "pushContext ?v (mch p) = Inr (e, m0)" using pushContext_total [OF r(2)] by blast
  have k0: "dev m0 = dev (mch p)" "allocated (gst m0) = allocated (gst (mch p))"
    using pushContext_keeps [OF m0] by (simp_all add: kept_def tables_def)
  obtain fs' m1 n where m1: "ckpt ?drv (nv_gpu ?v) (fsys p, m0) = Inr ((fs', m1), n)"
    "\<And>m2. shm m2 = shm m1 \<Longrightarrow> allocated (gst m2) = allocated (gst m1) \<Longrightarrow>
       (\<And>a. a \<notin> covered (rounded (allocated (gst (mch p)))) \<Longrightarrow> dev m2 a = dev m1 a) \<Longrightarrow>
       \<exists>m3. restore_ptr_and_content ?drv (nv_gpu ?v) (fs', m2) = Inr (m3, n) \<and> dev m3 = dev (mch p)"
    using nv_saved_and_loaded [OF r(1,1,2), of m0 "fsys p"] r k0 by auto
  obtain i s1 where s1: "ipc_disable_all_peer_access ?rt (peer p) = (i, s1)" by fastforce
  define p1 where "p1 = p\<lparr>fsys := fs', mch := snd (popContext ?v m1), peer := s1, control_word := FINISH_MSG\<rparr>"
  note k1 = popContext_keeps [of m1 ?v, unfolded kept_def tables_def]
  have "cr_signal_handler env CR_CKPT_SIGNAL counter p = Inr (counter, p1)"
    using msg r by (simp add: cr_signal_handler_def dispatch_def signal_defs msg_defs init m0 m1(1) syncAllKernels_def
        nv_check_ret_def s1 p1_def)
  moreover have "\<exists>p3. cr_signal_handler env CR_RESTORE_SIGNAL counter q = Inr (counter, p3) \<and> control_word p3 = FINISH_MSG \<and>
          dev (mch p3) = dev (mch p) \<and> g_peer_access_devices (peer p3) = g_peer_access_devices (peer p) \<and>
          g_saved_peer_access_devices (peer p3) = []"
    if q: "frozen_copy p p1 q" "control_word q = RESTORE_MSG" for q
  proof -
    obtain e m2 where m2: "pushContext ?v (mch q) = Inr (e, m2)" using pushContext_total [OF r(2)] by blast
    have "shm m2 = shm m1" "allocated (gst m2) = allocated (gst m1)"
      "\<And>a. a \<notin> covered (rounded (allocated (gst (mch p)))) \<Longrightarrow> dev m2 a = dev m1 a"
      using pushContext_keeps [OF m2] q(1) k1 by (simp_all add: kept_def tables_def frozen_copy_def p1_def)
    from m1(2) [OF this] obtain m3 where m3: "restore_ptr_and_content ?drv (nv_gpu ?v) (fs', m2) = Inr (m3, n)"
      "dev m3 = dev (mch p)" by blast
    obtain j s2 where s2: "ipc_reenable_all_peer_access ?rt s1 = (j, s2)" by fastforce
    have "g_peer_access_devices s2 = g_peer_access_devices (peer p) \<and> g_saved_peer_access_devices s2 = []"
      using peer_access_restored [OF r(7,9) s1 s2] by simp
    then show ?thesis
      using q m3 s2 popContext_keeps [of m3 ?v]
      by (simp add: cr_signal_handler_def dispatch_def signal_defs msg_defs init m2 frozen_copy_def p1_def kept_def)
  qed
  moreover have "g_peer_access_devices (peer p1) = []"
    using s1 r(7) by (auto simp: p1_def ipc_disable_all_peer_access_def enables_def Let_def split_beta)
  moreover have "allocated (gst (mch p1)) = allocated (gst (mch p))"
    using nv_ckpt_allocated [OF r(1) _ m1(1)] k0 k1 r(5) by (simp add: p1_def)
  moreover have "CR_initialized p1" using r(8) by (simp add: p1_def)
  ultimately show ?thesis by (intro exI [of _ p1]) (simp add: p1_def)
qed

text \<open>C10: the two signals a coordinator sends around a freeze make the worker whole again.  The handler of the
  checkpoint message saves the allocations, switches peer access off and answers \<open>FINISH\<close>; in any later
  state that keeps what it left behind, the handler of the restore message gives back the whole device
  memory and exactly the peers the process had, and answers \<open>FINISH\<close>.\<close>

theorem handler_round_trip:
  assumes ready: "gpu_ready env p" and msg: "control_word p = CKPT_MSG"
  shows "\<exists>p1. cr_signal_handler env CR_CKPT_SIGNAL counter p = Inr (counter, p1) \<and> control_word p1 = FINISH_MSG \<and>
    g_peer_access_devices (peer p1) = [] \<and> CR_initialized p1 \<and>
    allocated (gst (mch p1)) = allocated (gst (mch p)) \<and>
    (\<forall>q. frozen_copy p p1 q \<and> control_word q = RESTORE_MSG \<longrightarrow>
       (\<exists>p3. cr_signal_handler env CR_RESTORE_SIGNAL counter q = Inr (counter, p3) \<and> control_word p3 = FINISH_MSG \<and>
          dev (mch p3) = dev (mch p) \<and> g_peer_access_devices (peer p3) = g_peer_access_devices (peer p) \<and>
          g_saved_peer_access_devices (peer p3) = []))"
  by (rule handler_restores [OF assms])

definition sample_cr_env :: cr_env where
  "sample_cr_env = \<lparr>sys = \<lambda>_. True, EXPORT_FILE_PATH = None, GPU_VENDOR = Some ''cuda'', ce_pid = 7, ce_drv = prompt_driver,
     ce_vmm = counting_vmm, ce_rt = obliging_rt, ce_sync = 0, ce_host = 65536\<rparr>"

definition sample_process :: process where
  "sample_process = \<lparr>CR_initialized = True, cr_id = 0, control_word = CKPT_MSG, selective_req = [], fsys = fs_reset undefined,
     mch = sample_machine, peer = two_peers, pid_map = None\<rparr>"

lemma gpu_ready_sample: "gpu_ready sample_cr_env sample_process"
  using prompt_driver_contract counting_vmm_contract(2) sample_facts
  by (simp add: gpu_ready_def sample_cr_env_def sample_process_def two_peers_def)

theorem handler_round_trip_witness:
  "\<exists>p1 p3. cr_signal_handler sample_cr_env CR_CKPT_SIGNAL 1 sample_process = Inr (1, p1) \<and>
     cr_signal_handler sample_cr_env CR_RESTORE_SIGNAL 1 (p1\<lparr>control_word := RESTORE_MSG\<rparr>) = Inr (1, p3) \<and>
     dev (mch p3) = dev (mch sample_process) \<and> g_peer_access_devices (peer p3) = [1, 3]"
proof -
  have "gpu_ready sample_cr_env sample_process" by (rule gpu_ready_sample)
  moreover have "control_word sample_process = CKPT_MSG" by (simp add: sample_process_def)
  ultimately obtain p1 where 1: "cr_signal_handler sample_cr_env CR_CKPT_SIGNAL 1 sample_process = Inr (1, p1)" "CR_initialized p1"
    "\<forall>q. frozen_copy sample_process p1 q \<and> control_word q = RESTORE_MSG \<longrightarrow>
       (\<exists>p3. cr_signal_handler sample_cr_env CR_RESTORE_SIGNAL 1 q = Inr (1, p3) \<and> control_word p3 = FINISH_MSG \<and>
          dev (mch p3) = dev (mch sample_process) \<and>
          g_peer_access_devices (peer p3) = g_peer_access_devices (peer sample_process) \<and>
          g_saved_peer_access_devices (peer p3) = [])"
    using handler_round_trip [of sample_cr_env sample_process 1] by blast
  have "frozen_copy sample_process p1 (p1\<lparr>control_word := RESTORE_MSG\<rparr>)" using 1(2) by (simp add: frozen_copy_def)
  with 1 show ?thesis by (force simp: sample_process_def two_peers_def)
qed

section \<open>Initialising the workers\<close>

fun init_all :: "(cr_env \<times> process) list \<Rightarrow> nat \<Rightarrow> exit_reason + nat \<times> process list" where
  \<comment> \<open>the workers get the initialisation signal; the order is that of their \<open>fetch_add\<close> on the counter\<close>
  "init_all [] counter = Inr (counter, [])"
| "init_all ((env, p) # ws) counter =
     rbind (cr_signal_handler env CR_INIT_SIGNAL counter p) (\<lambda>(counter1, p1).
     rbind (init_all ws counter1) (\<lambda>(counter2, ps). Inr (counter2, p1 # ps)))"

lemma shm_name_inject [simp]: "EXPORT_FILE_PATH env = EXPORT_FILE_PATH env' \<Longrightarrow> shm_name env i = shm_name env' j \<longleftrightarrow> i = j"
  by (simp add: shm_name_def split: option.split)

lemma host_name_inject [simp]: "EXPORT_FILE_PATH env = EXPORT_FILE_PATH env' \<Longrightarrow> host_name env i = host_name env' j \<longleftrightarrow> i = j"
  by (simp add: host_name_def split: option.split)

lemma digits_no_dash: "digits i \<noteq> digits j @ CHR ''-'' # r"
proof
  assume "digits i = digits j @ CHR ''-'' # r"
  then have "CHR ''-'' \<in> set (digits i)" by simp
  then have "is_digit (CHR ''-'')" by (rule digits_is_digit)
  then show False by (simp add: is_digit_def)
qed

lemma shm_host_names: "EXPORT_FILE_PATH env = EXPORT_FILE_PATH env' \<Longrightarrow> shm_name env i \<noteq> host_name env' j"
proof
  assume "EXPORT_FILE_PATH env = EXPORT_FILE_PATH env'" "shm_name env i = host_name env' j"
  then have "digits i = digits j @ ''-host'' \<or> digits i @ ''.data'' = (digits j @ ''-host'') @ ''.data''"
    by (auto simp: shm_name_def host_name_def split: option.splits)
  then have "digits i = digits j @ ''-host''" unfolding append_same_eq by blast
  then show False using digits_no_dash [of i j "''host''"] by simp
qed

lemma write_pid_map_fields [simp]:
  "CR_initialized (write_pid_map env cid p) = CR_initialized p" "cr_id (write_pid_map env cid p) = cr_id p"
  "control_word (write_pid_map env cid p) = control_word p" "selective_req (write_pid_map env cid p) = selective_req p"
  "fsys (write_pid_map env cid p) = fsys p" "mch (write_pid_map env cid p) = mch p" "peer (write_pid_map env cid p) = peer p"
  by (simp_all add: write_pid_map_def)

lemma init_CR_effect:
  assumes "init_CR env counter p = Inr (counter1, p1)" "\<not> CR_initialized p"
  shows "counter1 = Suc counter \<and> cr_id p1 = counter \<and> CR_initialized p1 \<and> control_word p1 = control_word p \<and>
    fsys p1 = fs_reset (fsys p) \<and> kept (mch p) (mch p1) \<and> peer p1 = peer p \<and> ce_host env \<noteq> 0 \<and>
    pid_map p1 = (if sys env (Open (pid_map_name env)) then Some (pid_map_name env, digits counter @ [CHR 0x0A]) else pid_map p)"
proof -
  obtain fs' r m' where 1: "ShareMem_setup env counter (fsys p) = Inr fs'" "ce_host env \<noteq> 0"
    "registerHostMemory (ce_vmm env) (ce_host env) (STAGING_BUF_SIZE * STAGING_BUF_NUM) (mch p) = Inr (r, m')"
    "counter1 = counter + 1" "p1 = (write_pid_map env counter p)\<lparr>CR_initialized := True, cr_id := counter, fsys := fs', mch := m'\<rparr>"
    using assms by (auto simp: init_CR_def rbind_Inr_iff get_id_def Let_def split: if_splits)
  have "fs' = fs_reset (fsys p)" using 1(1) by (auto simp: ShareMem_setup_def rbind_Inr_iff Let_def)
  with 1 registerHostMemory_keeps [OF 1(3)] show ?thesis by (simp add: write_pid_map_def)
qed

lemma init_handler:
  assumes "cr_signal_handler env CR_INIT_SIGNAL counter p = Inr (counter1, p1)" "\<not> CR_initialized p"
  shows "counter1 = Suc counter \<and> cr_id p1 = counter \<and> CR_initialized p1 \<and> control_word p1 = FINISH_MSG \<and>
    file_num (fsys p1) = 0 \<and> current_offset (fsys p1) = fs_data_start \<and> dev (mch p1) = dev (mch p) \<and>
    allocated (gst (mch p1)) = allocated (gst (mch p)) \<and>
    (sys env (Open (pid_map_name env)) \<longrightarrow> pid_map p1 = Some (pid_map_name env, digits counter @ [CHR 0x0A]))"
proof -
  obtain p0 where 1: "init_CR env counter p = Inr (counter1, p0)" "p1 = p0\<lparr>control_word := FINISH_MSG\<rparr>"
    using assms(1) by (auto simp: cr_signal_handler_def rbind_Inr_iff)
  from init_CR_effect [OF 1(1) assms(2)] show ?thesis by (simp add: 1(2) fs_reset_def kept_def tables_def)
qed

lemma init_all_workers:
  assumes "init_all ws counter = Inr (counter', ps)" "\<forall>(env, p) \<in> set ws. \<not> CR_initialized p"
  shows "counter' = counter + length ws \<and> map cr_id ps = [counter..<counter + length ws] \<and>
    (\<forall>p \<in> set ps. CR_initialized p \<and> control_word p = FINISH_MSG \<and> file_num (fsys p) = 0) \<and>
    map (dev \<circ> mch) ps = map (dev \<circ> mch \<circ> snd) ws \<and>
    list_all2 (\<lambda>(env, _) p. sys env (Open (pid_map_name env)) \<longrightarrow>
      pid_map p = Some (pid_map_name env, digits (cr_id p) @ [CHR 0x0A])) ws ps"
  using assms
proof (induction ws counter arbitrary: ps rule: init_all.induct)
  case (2 env p ws counter)
  then obtain c1 p1 ps1 where 1: "cr_signal_handler env CR_INIT_SIGNAL counter p = Inr (c1, p1)"
    "init_all ws c1 = Inr (counter', ps1)" "ps = p1 # ps1"
    by (auto simp: rbind_Inr_iff)
  with "2.IH" [OF 1(2)] "2.prems" init_handler [OF 1(1)] show ?case
    by (simp add: upt_conv_Cons del: upt_Suc)
qed simp

text \<open>C19: initialising \<open>n\<close> workers, in the order of their increments of the shared counter, gives them
  the identifiers from the value of the counter upwards, one each, so that no two of them use the same
  checkpoint or host file and no checkpoint file is a host file; every file table starts out empty,
  device memory is untouched, every worker answers \<open>FINISH\<close>, and the file named after its process,
  if it can be opened, holds its identifier.  (A worker whose host buffer is null, or that a system
  call fails, ends instead.)\<close>

theorem init_separates_workers:
  assumes "init_all ws counter = Inr (counter', ps)" "\<forall>(env, p) \<in> set ws. \<not> CR_initialized p \<and> EXPORT_FILE_PATH env = path"
  shows "counter' = counter + length ws \<and> map cr_id ps = [counter..<counter + length ws] \<and>
    (\<forall>e. EXPORT_FILE_PATH e = path \<longrightarrow>
       distinct (map (shm_name e \<circ> cr_id) ps @ map (host_name e \<circ> cr_id) ps)) \<and>
    (\<forall>p \<in> set ps. CR_initialized p \<and> control_word p = FINISH_MSG \<and> file_num (fsys p) = 0) \<and>
    map (dev \<circ> mch) ps = map (dev \<circ> mch \<circ> snd) ws \<and>
    list_all2 (\<lambda>(env, _) p. sys env (Open (pid_map_name env)) \<longrightarrow>
      pid_map p = Some (pid_map_name env, digits (cr_id p) @ [CHR 0x0A])) ws ps"
proof -
  have ws: "\<forall>(env, p) \<in> set ws. \<not> CR_initialized p" using assms(2) by auto
  note * = init_all_workers [OF assms(1) ws]
  have "distinct (map (shm_name e \<circ> cr_id) ps @ map (host_name e \<circ> cr_id) ps)" for e
  proof -
    have d: "distinct (map cr_id ps)" using * by simp
    then have "distinct (map (shm_name e) (map cr_id ps))" "distinct (map (host_name e) (map cr_id ps))"
      by (simp_all only: distinct_map inj_on_def) simp_all
    then show ?thesis using shm_host_names [of e e] by auto
  qed
  with * show ?thesis by blast
qed

lemma registerHostMemory_total: "vmm_ok drv \<Longrightarrow> \<exists>r m'. registerHostMemory drv q n m = Inr (r, m')"
  using ensureCudaInitialized_total [of drv m] by (auto simp: registerHostMemory_def Let_def split_beta)

lemma init_total:
  assumes "\<forall>c. sys env c" "vmm_ok (ce_vmm env)" "createGPU False (GPU_VENDOR env) = Inr g" "ce_host env \<noteq> 0" "\<not> CR_initialized p"
  shows "\<exists>p1. cr_signal_handler env CR_INIT_SIGNAL counter p = Inr (Suc counter, p1)"
proof -
  obtain r m' where "registerHostMemory (ce_vmm env) (ce_host env) (STAGING_BUF_SIZE * STAGING_BUF_NUM) (mch p) = Inr (r, m')"
    using registerHostMemory_total [OF assms(2)] by blast
  then show ?thesis
    using assms by (simp add: cr_signal_handler_def init_CR_def get_id_def map_file_def ShareMemComm_setup_def ShareMem_setup_def
        Let_def)
qed

theorem init_separates_workers_witness:
  "\<exists>ps. init_all [(sample_cr_env, sample_process\<lparr>CR_initialized := False\<rparr>),
        (sample_cr_env\<lparr>ce_pid := 8\<rparr>, sample_process\<lparr>CR_initialized := False\<rparr>)] 0 = Inr (2, ps) \<and>
     map cr_id ps = [0, 1] \<and> map (shm_name sample_cr_env \<circ> cr_id) ps = [''/mnt/huge-ckpt/0'', ''/mnt/huge-ckpt/1''] \<and>
     pid_map (ps ! 1) = Some (''/mnt/huge-ckpt/pid_map_8'', [CHR ''1'', CHR 0x0A])"
    (is "\<exists>ps. init_all ?ws 0 = _ \<and> _")
proof -
  let ?p = "sample_process\<lparr>CR_initialized := False\<rparr>"
  have g: "createGPU False (Some ''cuda'') = Inr NVIDIA" by code_simp
  have t: "\<exists>p1. cr_signal_handler (sample_cr_env\<lparr>ce_pid := i\<rparr>) CR_INIT_SIGNAL counter ?p = Inr (Suc counter, p1)" for i counter
    using counting_vmm_contract(2) g by (intro init_total) (simp_all add: sample_cr_env_def)
  have e: "sample_cr_env\<lparr>ce_pid := 7\<rparr> = sample_cr_env" by (simp add: sample_cr_env_def)
  obtain p1 p2 where "cr_signal_handler sample_cr_env CR_INIT_SIGNAL 0 ?p = Inr (Suc 0, p1)"
    "cr_signal_handler (sample_cr_env\<lparr>ce_pid := 8\<rparr>) CR_INIT_SIGNAL (Suc 0) ?p = Inr (Suc (Suc 0), p2)"
    using t [of 7 0] t [of 8 "Suc 0"] e by auto
  then have r: "init_all ?ws 0 = Inr (2, [p1, p2])" by simp
  have "\<forall>(env, p) \<in> set ?ws. \<not> CR_initialized p \<and> EXPORT_FILE_PATH env = None" by (simp add: sample_cr_env_def)
  from init_separates_workers [OF r this] have i: "map cr_id [p1, p2] = [0, 1]"
    and m: "pid_map p2 = Some (pid_map_name (sample_cr_env\<lparr>ce_pid := 8\<rparr>), digits (cr_id p2) @ [CHR 0x0A])"
    by (simp_all add: upt_rec sample_cr_env_def)
  have "digits 0 = ''0''" "digits 1 = ''1''" "digits 8 = ''8''" by code_simp+
  then show ?thesis using r i m
    by (intro exI [of _ "[p1, p2]"]) (simp add: shm_name_def sample_cr_env_def pid_map_name_def ctl_dir_def)
qed

lemma dispatch_fields: "dispatch env p = Inr p' \<Longrightarrow> CR_initialized p' = CR_initialized p \<and> cr_id p' = cr_id p"
  by (auto simp: dispatch_def Let_def rbind_Inr_iff split: if_splits prod.splits)

lemma init_CR_done: "init_CR env counter p = Inr (counter', p') \<Longrightarrow> CR_initialized p'"
  by (auto simp: init_CR_def rbind_Inr_iff Let_def split: if_splits prod.splits)

lemma handler_initialises:
  assumes "cr_signal_handler env signum counter p = Inr (counter', p')" "signum \<in> {CR_INIT_SIGNAL, CR_CKPT_SIGNAL, CR_RESTORE_SIGNAL}"
  shows "CR_initialized p'"
  using assms init_CR_done [of env counter p]
  by (auto simp: cr_signal_handler_def rbind_Inr_iff dest!: dispatch_fields split: if_splits)

lemma unknown_message:
  assumes init: "init_CR env counter p = Inr (counter', p1)" and ok: "vmm_ok (ce_vmm env)"
    and sig: "signum \<in> {CR_CKPT_SIGNAL, CR_RESTORE_SIGNAL}"
    and msg: "control_word p1 \<notin> {CKPT_MSG, RESTORE_MSG, SELECTIVE_CKPT_MSG, SELECTIVE_RESTORE_MSG}"
  shows "\<exists>m'. cr_signal_handler env signum counter p = Inr (counter', p1\<lparr>mch := m', control_word := FINISH_MSG\<rparr>) \<and>
    kept (mch p1) m'"
proof -
  obtain r m where m: "pushContext (ce_vmm env) (mch p1) = Inr (r, m)" using pushContext_total [OF ok] by blast
  have "dispatch env (p1\<lparr>mch := m\<rparr>) = Inr (p1\<lparr>mch := m\<rparr>)" using msg by (simp add: dispatch_def)
  moreover have "signum \<noteq> CR_INIT_SIGNAL" using sig by (auto simp: signal_defs)
  ultimately have "cr_signal_handler env signum counter p =
      Inr (counter', p1\<lparr>mch := snd (popContext (ce_vmm env) m), control_word := FINISH_MSG\<rparr>)"
    using sig init m by (auto simp: cr_signal_handler_def)
  then show ?thesis using kept_trans [OF pushContext_keeps [OF m] popContext_keeps] by blast
qed

lemma init_CR_again: "CR_initialized p \<Longrightarrow> init_CR env counter p = Inr (counter, p)"
  by (simp add: init_CR_def)

lemma init_CR_word:
  assumes "init_CR env counter p = Inr (counter', p')"
  shows "control_word p' = control_word p"
proof (cases "CR_initialized p")
  case True
  from init_CR_again [OF this] assms show ?thesis by simp
next
  case False
  from init_CR_effect [OF assms this] show ?thesis by blast
qed

text \<open>C31: the worker always answers.  When the handler returns from one of its three signals the worker
  is initialised and its control word is \<open>FINISH\<close>, so a coordinator that waits for it goes on.  A signal
  it does not know changes nothing at all.  A message it does not know, sent with the checkpoint or the
  restore signal, has no effect beyond the initialisation that a first signal brings and the answer: if
  the driver calls succeed the handler returns, and the worker is the initialised one with the control
  word set, its device memory, its checkpoint buffer and the tables of its allocator unchanged.\<close>

theorem handler_answers:
  "(\<forall>signum p' counter'. cr_signal_handler env signum counter p = Inr (counter', p') \<and>
      signum \<in> {CR_INIT_SIGNAL, CR_CKPT_SIGNAL, CR_RESTORE_SIGNAL} \<longrightarrow> CR_initialized p' \<and> control_word p' = FINISH_MSG) \<and>
   (\<forall>signum. signum \<notin> {CR_INIT_SIGNAL, CR_CKPT_SIGNAL, CR_RESTORE_SIGNAL} \<longrightarrow>
      cr_signal_handler env signum counter p = Inr (counter, p)) \<and>
   (\<forall>signum \<in> {CR_CKPT_SIGNAL, CR_RESTORE_SIGNAL}. \<forall>counter' p1.
      init_CR env counter p = Inr (counter', p1) \<and> vmm_ok (ce_vmm env) \<and>
      control_word p \<notin> {CKPT_MSG, RESTORE_MSG, SELECTIVE_CKPT_MSG, SELECTIVE_RESTORE_MSG} \<longrightarrow>
      (\<exists>m'. cr_signal_handler env signum counter p = Inr (counter', p1\<lparr>mch := m', control_word := FINISH_MSG\<rparr>) \<and>
         dev m' = dev (mch p1) \<and> shm m' = shm (mch p1) \<and> tables (gst m') = tables (gst (mch p1))))"
proof (intro conjI allI ballI impI)
  fix signum p' counter'
  assume "cr_signal_handler env signum counter p = Inr (counter', p') \<and>
      signum \<in> {CR_INIT_SIGNAL, CR_CKPT_SIGNAL, CR_RESTORE_SIGNAL}"
  note h = conjunct1 [OF this] conjunct2 [OF this]
  show "CR_initialized p'" by (rule handler_initialises [OF h])
  show "control_word p' = FINISH_MSG" using h by (auto simp: cr_signal_handler_def rbind_Inr_iff split: if_splits)
next
  fix signum assume "signum \<notin> {CR_INIT_SIGNAL, CR_CKPT_SIGNAL, CR_RESTORE_SIGNAL}"
  then show "cr_signal_handler env signum counter p = Inr (counter, p)" by (simp add: cr_signal_handler_def)
next
  fix signum counter' p1
  assume sig: "signum \<in> {CR_CKPT_SIGNAL, CR_RESTORE_SIGNAL}" and
    h: "init_CR env counter p = Inr (counter', p1) \<and> vmm_ok (ce_vmm env) \<and>
      control_word p \<notin> {CKPT_MSG, RESTORE_MSG, SELECTIVE_CKPT_MSG, SELECTIVE_RESTORE_MSG}"
  have "control_word p1 = control_word p" using h init_CR_word by blast
  with unknown_message [OF conjunct1 [OF h] _ sig] h
  show "\<exists>m'. cr_signal_handler env signum counter p = Inr (counter', p1\<lparr>mch := m', control_word := FINISH_MSG\<rparr>) \<and>
         dev m' = dev (mch p1) \<and> shm m' = shm (mch p1) \<and> tables (gst m') = tables (gst (mch p1))"
    by (simp add: kept_def)
qed

theorem handler_answers_witness:
  "\<exists>m'. cr_signal_handler sample_cr_env CR_CKPT_SIGNAL 5 (sample_process\<lparr>control_word := 99\<rparr>) =
       Inr (5, sample_process\<lparr>mch := m', control_word := FINISH_MSG\<rparr>) \<and> dev m' = dev sample_machine"
proof -
  let ?p = "sample_process\<lparr>control_word := 99\<rparr>"
  have i: "init_CR sample_cr_env 5 ?p = Inr (5, ?p)" by (simp add: init_CR_def sample_process_def)
  have ok: "vmm_ok (ce_vmm sample_cr_env)" using counting_vmm_contract(2) by (simp add: sample_cr_env_def)
  have w: "control_word ?p \<notin> {CKPT_MSG, RESTORE_MSG, SELECTIVE_CKPT_MSG, SELECTIVE_RESTORE_MSG}" by (simp add: msg_defs)
  from handler_answers [of sample_cr_env 5 ?p] i ok w
  have "\<exists>m'. cr_signal_handler sample_cr_env CR_CKPT_SIGNAL 5 ?p = Inr (5, ?p\<lparr>mch := m', control_word := FINISH_MSG\<rparr>) \<and>
      dev m' = dev (mch ?p)" by blast
  then show ?thesis by (simp add: sample_process_def)
qed

end
