(* ===== verification/Client.thy ===== *)
theory Client
  imports Signal_Handler
begin

text \<open>
  The command lines of the two clients: \<open>coordinator/multi_cr_client.cpp\<close> (options, list of process
  identifiers, choice of the \<open>cuda-checkpoint\<close> mode) and \<open>coordinator/cr_client.cpp\<close> (options, list of
  memory regions, and the order in which it signals the worker and runs the external tool).
\<close>

section \<open>The multi-GPU client\<close>

definition parse_pids :: "string \<Rightarrow> int list" where
  "parse_pids arg = filter (\<lambda>p. 0 < p) (map atoi (strtok (CHR '','') [] arg))"

datatype opt = Opt_i | Opt_c | Opt_r | Opt_n | Opt_b | Opt_a | Opt_p string | Opt_h | Opt_other

record multi_flags =
  do_init_flag :: bool
  do_ckpt_flag :: bool
  do_restore_flag :: bool
  buffer_only :: bool
  skip_nccl :: bool
  use_action_mode :: bool
  pid_str :: "string option"

definition no_flags :: multi_flags where
  "no_flags = \<lparr>do_init_flag = False, do_ckpt_flag = False, do_restore_flag = False, buffer_only = False, skip_nccl = False,
     use_action_mode = False, pid_str = None\<rparr>"

datatype cli_error = Help | Usage | NotOneAction | NoPids | NoValidPids | TooManyPids

fun get_flags :: "opt list \<Rightarrow> multi_flags \<Rightarrow> cli_error + multi_flags" where
  "get_flags [] f = Inr f"
| "get_flags (Opt_i # os) f = get_flags os (f\<lparr>do_init_flag := True\<rparr>)"
| "get_flags (Opt_c # os) f = get_flags os (f\<lparr>do_ckpt_flag := True\<rparr>)"
| "get_flags (Opt_r # os) f = get_flags os (f\<lparr>do_restore_flag := True\<rparr>)"
| "get_flags (Opt_n # os) f = get_flags os (f\<lparr>skip_nccl := True\<rparr>)"
| "get_flags (Opt_b # os) f = get_flags os (f\<lparr>buffer_only := True\<rparr>)"
| "get_flags (Opt_a # os) f = get_flags os (f\<lparr>use_action_mode := True\<rparr>)"
| "get_flags (Opt_p s # os) f = get_flags os (f\<lparr>pid_str := Some s\<rparr>)"
| "get_flags (Opt_h # os) f = Inl Help"
| "get_flags (Opt_other # os) f = Inl Usage"

datatype plan = Plan_init | Plan_checkpoint bool bool | Plan_restore bool bool \<comment> \<open>\<open>buffer_only\<close>, \<open>skip_nccl\<close>\<close>

definition multi_main :: "bool \<Rightarrow> opt list \<Rightarrow> cli_error + plan \<times> int list \<times> bool" where
  \<comment> \<open>\<open>detected\<close>: \<open>detect_action_mode_support()\<close>; the result is what is done, to whom, and whether in action mode\<close>
  "multi_main detected os = rbind (get_flags os no_flags) (\<lambda>f.
     if of_bool (do_init_flag f) + of_bool (do_ckpt_flag f) + of_bool (do_restore_flag f) \<noteq> (1 :: nat) then Inl NotOneAction
     else case pid_str f of None \<Rightarrow> Inl NoPids
     | Some s \<Rightarrow>
         let pids = parse_pids s in
         if pids = [] then Inl NoValidPids
         else if MAX_MULTI_GPU_PROCS < length pids then Inl TooManyPids
         else Inr (if do_init_flag f then Plan_init
                   else if do_ckpt_flag f then Plan_checkpoint (buffer_only f) (skip_nccl f)
                   else Plan_restore (buffer_only f) (skip_nccl f),
                   pids, use_action_mode f \<or> detected))"

lemma parse_pids_join:
  assumes "\<forall>p \<in> set ps. 0 < p \<and> p < 2 ^ 31"
  shows "parse_pids (join (CHR '','') (map digits ps)) = map int ps"
proof -
  have "strtok (CHR '','') [] (join (CHR '','') (map digits ps)) = map digits ps"
    by (rule strtok_join) (use digits_no_comma in auto)
  moreover have "map atoi (map digits ps) = map int ps" using assms by (simp add: atoi_digits)
  moreover have "filter (\<lambda>p. 0 < p) (map int ps) = map int ps" using assms by (intro filter_True) auto
  ultimately show ?thesis by (simp add: parse_pids_def del: map_map)
qed

text \<open>A command line with one action and a comma-separated list of one to 32 process identifiers is
  accepted and addresses exactly those processes, in their order; whatever the options, a plan has
  exactly one action and between one and 32 positive identifiers.\<close>

theorem multi_main_plans:
  "(\<forall>ps. ps \<noteq> [] \<and> length ps \<le> 32 \<and> (\<forall>p \<in> set ps. 0 < p \<and> p < 2 ^ 31) \<longrightarrow>
     multi_main detected [Opt_c, Opt_p (join (CHR '','') (map digits ps)), Opt_n] =
       Inr (Plan_checkpoint False True, map int ps, detected)) \<and>
   (\<forall>os pl pids mode. multi_main detected os = Inr (pl, pids, mode) \<longrightarrow>
     pids \<noteq> [] \<and> length pids \<le> 32 \<and> (\<forall>p \<in> set pids. 0 < p) \<and> (detected \<longrightarrow> mode))"
proof (intro conjI allI impI)
  fix ps :: "nat list"
  assume "ps \<noteq> [] \<and> length ps \<le> 32 \<and> (\<forall>p \<in> set ps. 0 < p \<and> p < 2 ^ 31)"
  then show "multi_main detected [Opt_c, Opt_p (join (CHR '','') (map digits ps)), Opt_n] =
      Inr (Plan_checkpoint False True, map int ps, detected)"
    by (simp add: multi_main_def no_flags_def Let_def parse_pids_join MAX_MULTI_GPU_PROCS_def)
next
  fix os pl pids mode
  assume "multi_main detected os = Inr (pl, pids, mode)"
  then have "\<exists>s. pids = parse_pids s \<and> pids \<noteq> [] \<and> length pids \<le> 32 \<and> (detected \<longrightarrow> mode)"
    by (auto simp: multi_main_def Let_def MAX_MULTI_GPU_PROCS_def rbind_Inr_iff not_less split: if_splits option.splits)
  then obtain s where "pids = parse_pids s" "pids \<noteq> []" "length pids \<le> 32" "detected \<longrightarrow> mode" by blast
  then show "pids \<noteq> []" "length pids \<le> 32" "\<forall>p \<in> set pids. 0 < p" "detected \<Longrightarrow> mode"
    by (simp_all add: parse_pids_def)
qed

theorem multi_main_plans_witness:
  "multi_main True [Opt_c, Opt_p ''12,345'', Opt_n] = Inr (Plan_checkpoint False True, [12, 345], True)"
proof -
  have "join (CHR '','') (map digits [12, 345]) = ''12,345''" by code_simp
  with multi_main_plans [of True] show ?thesis by (auto dest!: spec [of _ "[12, 345]"])
qed

section \<open>Regions for a selective checkpoint\<close>

definition digit_of :: "char \<Rightarrow> nat" where
  \<comment> \<open>the value of a digit in a base up to 36; 36 if the character is none\<close>
  "digit_of c = (let n = of_char c in
     if 48 \<le> n \<and> n \<le> 57 then n - 48
     else if 97 \<le> n \<and> n \<le> 122 then n - 87
     else if 65 \<le> n \<and> n \<le> 90 then n - 55 else 36)"

definition read_base :: "nat \<Rightarrow> string \<Rightarrow> nat" where
  "read_base b s = foldl (\<lambda>a c. b * a + digit_of c) 0 (takeWhile (\<lambda>c. digit_of c < b) s)"

definition read_any_base :: "string \<Rightarrow> nat" where
  "read_any_base s = (case s of
     c # x # d # r \<Rightarrow> if c = CHR ''0'' \<and> (x = CHR ''x'' \<or> x = CHR ''X'') \<and> digit_of d < 16 then read_base 16 (d # r)
                      else if c = CHR ''0'' then read_base 8 s else read_base 10 s
   | c # r \<Rightarrow> if c = CHR ''0'' then read_base 8 s else read_base 10 s
   | [] \<Rightarrow> 0)"

definition strtoull0 :: "string \<Rightarrow> nat" where
  \<comment> \<open>\<open>strtoull(s, nullptr, 0)\<close>\<close>
  "strtoull0 s =
     (let t = dropWhile is_space s;
          neg = (t \<noteq> [] \<and> hd t = CHR ''-'');
          u = (if t \<noteq> [] \<and> (hd t = CHR ''-'' \<or> hd t = CHR ''+'') then tl t else t);
          v = read_any_base u
      in if 2 ^ 64 \<le> v then 2 ^ 64 - 1 else if neg then (2 ^ 64 - v) mod 2 ^ 64 else v)"

fun parse_tokens :: "string list \<Rightarrow> (nat \<times> nat) list \<Rightarrow> (nat \<times> nat) list option" where
  "parse_tokens [] regions = Some regions"
| "parse_tokens (t # ts) regions =
     (if MAX_SELECTIVE_REGIONS \<le> length regions then None
      else if CHR '':'' \<notin> set t then None
      else let p = strtoull0 (takeWhile (\<lambda>c. c \<noteq> CHR '':'') t);
               n = strtoull0 (tl (dropWhile (\<lambda>c. c \<noteq> CHR '':'') t))
           in if n = 0 then None else parse_tokens ts (regions @ [(p, n)]))"

definition parse_selective_regions :: "string \<Rightarrow> (nat \<times> nat) list option" where
  "parse_selective_regions spec = (case parse_tokens (strtok (CHR '','') [] spec) [] of
     None \<Rightarrow> None | Some regions \<Rightarrow> if regions = [] then None else Some regions)"

definition show_region :: "nat \<times> nat \<Rightarrow> string" where
  "show_region r = digits (fst r) @ CHR '':'' # digits (snd r)"

lemma digit_of_digit: "d < 10 \<Longrightarrow> digit_of (digit_char d) = d"
  by (simp add: digit_of_def digit_char_def)

lemma digits_lt_10: "c \<in> set (digits n) \<Longrightarrow> digit_of c < 10 \<and> digit_of c = digit_val c"
  using subsetD [OF digits_chars, of c n] digit_of_digit digit_char_facts(2) by auto

lemma digits_hd_zero: "0 < n \<Longrightarrow> hd (digits n) \<noteq> CHR ''0''"
proof (induction n rule: digits.induct)
  case (1 n)
  have z: "digit_char d \<noteq> CHR ''0''" if "0 < d" "d < 10" for d
    using digit_char_facts(2) [OF that(2)] that by (auto simp: digit_val_def)
  show ?case
  proof (cases "n < 10")
    case True
    then show ?thesis using z 1(2) by (subst digits.simps) simp
  next
    case False
    then have "hd (digits (n div 10)) \<noteq> CHR ''0''" using 1 by simp
    with False show ?thesis by (subst digits.simps) simp
  qed
qed

lemma read_base_digits: "read_base 10 (digits n) = n"
proof -
  have t: "takeWhile (\<lambda>c. digit_of c < 10) (digits n) = digits n" unfolding takeWhile_eq_all_conv using digits_lt_10 by blast
  have "foldl (\<lambda>a c. 10 * a + digit_of c) 0 (digits n) = foldl (\<lambda>a c. 10 * a + digit_val c) 0 (digits n)"
    by (rule foldl_cong) (use digits_lt_10 in auto)
  then show ?thesis unfolding read_base_def t by (simp add: digits_value)
qed

lemma strtoull0_digits:
  assumes "n < 2 ^ 64"
  shows "strtoull0 (digits n) = n"
proof (cases "n = 0")
  case True
  moreover have "digits 0 = ''0''" by code_simp
  then have "strtoull0 (digits 0) = 0"
    by (simp add: strtoull0_def Let_def is_space_def read_any_base_def read_base_def digit_of_def)
  ultimately show ?thesis by simp
next
  case False
  obtain d r where d: "digits n = digit_char d # r" "d < 10"
    using digits_hd [of n] digits_not_empty [of n] by (metis list.collapse)
  have "digit_char d \<noteq> CHR ''0''" using digits_hd_zero [of n] False d(1) by simp
  then have "read_any_base (digits n) = read_base 10 (digits n)"
    by (auto simp: read_any_base_def d(1) split: list.splits)
  then show ?thesis
    using digit_char_facts [OF d(2)] assms read_base_digits [of n] by (simp add: strtoull0_def d(1) Let_def)
qed

lemma digits_no_colon: "CHR '':'' \<notin> set (digits n)"
proof
  assume "CHR '':'' \<in> set (digits n)"
  then have "is_digit (CHR '':'')" by (rule digits_is_digit)
  then show False by (simp add: is_digit_def)
qed

lemma split_region:
  "takeWhile (\<lambda>c. c \<noteq> CHR '':'') (show_region r) = digits (fst r)" "tl (dropWhile (\<lambda>c. c \<noteq> CHR '':'') (show_region r)) = digits (snd r)"
  using digits_no_colon [of "fst r"] by (auto simp: show_region_def takeWhile_append dropWhile_append)

lemma parse_shown:
  "\<forall>r \<in> set rs. fst r < 2 ^ 64 \<and> 0 < snd r \<and> snd r < 2 ^ 64 \<Longrightarrow> length acc + length rs \<le> 4096 \<Longrightarrow>
    parse_tokens (map show_region rs) acc = Some (acc @ rs)"
proof (induction rs arbitrary: acc)
  case (Cons r rs)
  have "CHR '':'' \<in> set (show_region r)" by (simp add: show_region_def)
  with Cons show ?case by (simp add: split_region strtoull0_digits MAX_SELECTIVE_REGIONS_def Let_def)
qed simp

text \<open>\<open>parse_selective_regions\<close> reads back every list of one to 4096 regions written as
  \<open>pointer:size\<close> in decimal and joined by commas; and whatever it is given, it never returns an empty
  list, more regions than the request has room for, a size of zero or a number over 64 bits.\<close>

theorem selective_regions_round_trip:
  "(\<forall>rs. rs \<noteq> [] \<and> length rs \<le> 4096 \<and> (\<forall>r \<in> set rs. fst r < 2 ^ 64 \<and> 0 < snd r \<and> snd r < 2 ^ 64) \<longrightarrow>
     parse_selective_regions (join (CHR '','') (map show_region rs)) = Some rs) \<and>
   (\<forall>spec rs. parse_selective_regions spec = Some rs \<longrightarrow>
     rs \<noteq> [] \<and> length rs \<le> 4096 \<and> (\<forall>r \<in> set rs. fst r < 2 ^ 64 \<and> 0 < snd r \<and> snd r < 2 ^ 64))"
proof (intro conjI allI impI)
  fix rs :: "(nat \<times> nat) list"
  assume rs: "rs \<noteq> [] \<and> length rs \<le> 4096 \<and> (\<forall>r \<in> set rs. fst r < 2 ^ 64 \<and> 0 < snd r \<and> snd r < 2 ^ 64)"
  have "strtok (CHR '','') [] (join (CHR '','') (map show_region rs)) = map show_region rs"
    by (rule strtok_join) (use digits_no_comma in \<open>auto simp: show_region_def\<close>)
  then show "parse_selective_regions (join (CHR '','') (map show_region rs)) = Some rs"
    using rs parse_shown [of rs "[]"] by (simp add: parse_selective_regions_def)
next
  have lt: "strtoull0 s < 2 ^ 64" for s by (simp add: strtoull0_def Let_def)
  have *: "parse_tokens ts acc = Some rs \<Longrightarrow> length acc \<le> 4096 \<Longrightarrow> \<forall>r \<in> set acc. fst r < 2 ^ 64 \<and> 0 < snd r \<and> snd r < 2 ^ 64 \<Longrightarrow>
      length rs \<le> 4096 \<and> (\<forall>r \<in> set rs. fst r < 2 ^ 64 \<and> 0 < snd r \<and> snd r < 2 ^ 64)" for ts acc rs
  proof (induction ts arbitrary: acc)
    case (Cons t ts)
    let ?p = "strtoull0 (takeWhile (\<lambda>c. c \<noteq> CHR '':'') t)" and ?n = "strtoull0 (tl (dropWhile (\<lambda>c. c \<noteq> CHR '':'') t))"
    have a: "parse_tokens ts (acc @ [(?p, ?n)]) = Some rs" "length acc < 4096" "0 < ?n"
      using Cons.prems(1) by (auto simp: Let_def MAX_SELECTIVE_REGIONS_def split: if_splits)
    have "\<forall>r \<in> set (acc @ [(?p, ?n)]). fst r < 2 ^ 64 \<and> 0 < snd r \<and> snd r < 2 ^ 64"
      using Cons.prems(3) lt [of "takeWhile (\<lambda>c. c \<noteq> CHR '':'') t"] lt [of "tl (dropWhile (\<lambda>c. c \<noteq> CHR '':'') t)"] a(3)
      by simp
    from Cons.IH [OF a(1) _ this] a(2) show ?case by simp
  qed simp
  fix spec rs
  assume "parse_selective_regions spec = Some rs"
  then have "parse_tokens (strtok (CHR '','') [] spec) [] = Some rs" and ne: "rs \<noteq> []"
    by (auto simp: parse_selective_regions_def split: option.splits if_splits)
  from * [OF this(1)] ne show "rs \<noteq> []" "length rs \<le> 4096" "\<forall>r \<in> set rs. fst r < 2 ^ 64 \<and> 0 < snd r \<and> snd r < 2 ^ 64"
    by simp_all
qed

theorem selective_regions_round_trip_witness:
  "parse_selective_regions ''100:5,17:1'' = Some [(100, 5), (17, 1)]"
proof -
  have "join (CHR '','') (map show_region [(100, 5), (17, 1)]) = ''100:5,17:1''" by code_simp
  with selective_regions_round_trip show ?thesis by (auto dest!: spec [of _ "[(100, 5), (17, 1)]"])
qed

section \<open>The single-GPU client\<close>

definition show_int :: "int \<Rightarrow> string" where
  "show_int i = (if i < 0 then CHR ''-'' # digits (nat (- i)) else digits (nat i))"

definition dirname :: "string \<Rightarrow> string" where
  "dirname s = (let r = dropWhile (\<lambda>c. c \<noteq> CHR ''/'') (rev s) in
     if r = [] then ''.''
     else let r' = dropWhile (\<lambda>c. c = CHR ''/'') r in if r' = [] then ''/'' else rev r')"

definition get_cuda_checkpoint_path :: "string option \<Rightarrow> (string \<Rightarrow> bool) \<Rightarrow> string" where
  \<comment> \<open>\<open>exe\<close>: what \<open>readlink\<close> gives; \<open>executable\<close>: \<open>access(path, X_OK) == 0\<close>\<close>
  "get_cuda_checkpoint_path exe executable = (case exe of
     None \<Rightarrow> ''cuda-checkpoint''
   | Some e \<Rightarrow> let full_path = dirname e @ ''/../cuda-checkpoint/bin/x86_64_Linux/cuda-checkpoint''
               in if executable full_path then full_path else ''cuda-checkpoint'')"

datatype cr_opt = CR_i | CR_c | CR_r | CR_p string | CR_m string | CR_b | CR_s string | CR_other

record cr_flags =
  f_init :: bool
  f_ckpt :: bool
  f_restore :: bool
  f_pid :: int
  f_criu_pid :: int
  f_buffer_only :: bool
  selective_spec :: "string option"

fun cr_get_flags :: "cr_opt list \<Rightarrow> cr_flags \<Rightarrow> cr_flags option" where
  "cr_get_flags [] f = Some f"
| "cr_get_flags (CR_i # os) f = cr_get_flags os (f\<lparr>f_init := True\<rparr>)"
| "cr_get_flags (CR_c # os) f = cr_get_flags os (f\<lparr>f_ckpt := True\<rparr>)"
| "cr_get_flags (CR_r # os) f = cr_get_flags os (f\<lparr>f_restore := True\<rparr>)"
| "cr_get_flags (CR_p s # os) f = cr_get_flags os (f\<lparr>f_pid := atoi s\<rparr>)"
| "cr_get_flags (CR_m s # os) f = cr_get_flags os (f\<lparr>f_criu_pid := atoi s\<rparr>)"
| "cr_get_flags (CR_b # os) f = cr_get_flags os (f\<lparr>f_buffer_only := True\<rparr>)"
| "cr_get_flags (CR_s s # os) f = cr_get_flags os (f\<lparr>selective_spec := Some s\<rparr>)"
| "cr_get_flags (CR_other # os) f = None"

datatype client_event =
    Signal int nat nat            \<comment> \<open>process, message, signal; then wait for \<open>FINISH\<close>\<close>
  | Request "(nat \<times> nat) list" \<comment> \<open>\<open>control->selective_req = req\<close>\<close>
  | Run string                    \<comment> \<open>\<open>system(cmd)\<close>\<close>

datatype outcome = Exit_ok | Exit_failure | Aborted

record client_env =
  hip_build :: bool
  AMD_CKPT_DIR :: "string option"
  bin_path :: string
  system_rc :: "string \<Rightarrow> int"
  comm_ok :: bool
  ret_initial :: int \<comment> \<open>the indeterminate value of the variable \<open>ret\<close>\<close>

definition run_tool :: "client_env \<Rightarrow> cr_flags \<Rightarrow> string \<Rightarrow> client_event list \<times> outcome" where
  "run_tool ce f cmd =
     (let ret = (if f_buffer_only f then ret_initial ce else system_rc ce cmd)
      in (if f_buffer_only f then [] else [Run cmd], if ret < 0 then Exit_failure else Exit_ok))"

definition criu_dump_cmd :: "string \<Rightarrow> int \<Rightarrow> string" where
  "criu_dump_cmd d p = take 1023 (''sudo env LD_LIBRARY_PATH=/opt/amdgpu/lib/x86_64-linux-gnu criu dump --link-remap --tcp-established -t ''
     @ show_int p @ '' -D '' @ d @ '' -j -v4 -o '' @ d @ ''/dump.log --ghost-limit 50M --ext-unix-sk -L /usr/local/lib/criu'')"

definition criu_restore_cmd :: "string \<Rightarrow> string" where
  "criu_restore_cmd d = take 2047 (''sudo env  LD_LIBRARY_PATH=/opt/amdgpu/lib/x86_64-linux-gnu criu restore --tcp-established -D ''
     @ d @ '' -j -v4 -o '' @ d @ ''/restore.log -L /usr/local/lib/criu --pidfile '' @ d
     @ ''/restored.pid --ghost-limit 50M --ext-unix-sk --restore-detached '')"

definition toggle_cmd :: "client_env \<Rightarrow> int \<Rightarrow> string" where
  "toggle_cmd ce p = bin_path ce @ '' --toggle --pid '' @ show_int p"

definition selective :: "client_env \<Rightarrow> cr_flags \<Rightarrow> string \<Rightarrow> nat \<Rightarrow> nat \<Rightarrow> client_event list \<times> outcome" where
  "selective ce f spec msg signum = (case parse_selective_regions spec of
     None \<Rightarrow> ([], Exit_failure)
   | Some req \<Rightarrow> ([Request req, Signal (f_pid f) msg signum], Exit_ok))"

definition client_ckpt :: "client_env \<Rightarrow> cr_flags \<Rightarrow> client_event list \<times> outcome" where
  "client_ckpt ce f =
     (let sig = Signal (f_pid f) CKPT_MSG CR_CKPT_SIGNAL in
      if hip_build ce then (case AMD_CKPT_DIR ce of
          None \<Rightarrow> ([sig], Exit_failure)
        | Some d \<Rightarrow> case run_tool ce f (criu_dump_cmd d (if f_criu_pid f = 0 then f_pid f else f_criu_pid f)) of (es, r) \<Rightarrow> (sig # es, r))
      else case run_tool ce f (toggle_cmd ce (f_pid f)) of (es, r) \<Rightarrow> (sig # es, r))"

definition client_restore :: "client_env \<Rightarrow> cr_flags \<Rightarrow> client_event list \<times> outcome" where
  "client_restore ce f =
     (let sig = Signal (f_pid f) RESTORE_MSG CR_RESTORE_SIGNAL in
      if hip_build ce then (case AMD_CKPT_DIR ce of
          None \<Rightarrow> ([], Exit_failure)
        | Some d \<Rightarrow> case run_tool ce f (criu_restore_cmd d) of (es, r) \<Rightarrow>
            if r = Exit_ok then (es @ [sig], Exit_ok) else (es, r))
      else case run_tool ce f (toggle_cmd ce (f_pid f)) of (es, r) \<Rightarrow> (sig # es, r))"

definition cr_client_main :: "client_env \<Rightarrow> cr_opt list \<Rightarrow> client_event list \<times> outcome" where
  "cr_client_main ce os =
     (case cr_get_flags os \<lparr>f_init = False, f_ckpt = False, f_restore = False, f_pid = 0, f_criu_pid = 0,
             f_buffer_only = False, selective_spec = None\<rparr> of
        None \<Rightarrow> ([], Exit_failure)
      | Some f \<Rightarrow>
          if of_bool (f_init f) + of_bool (f_ckpt f) + of_bool (f_restore f) \<noteq> (1 :: nat) then ([], Exit_failure)
          else if f_pid f = 0 then ([], Aborted)
          else if \<not> comm_ok ce then ([], Exit_failure)
          else if f_init f then ([Signal (f_pid f) INIT_MSG CR_INIT_SIGNAL], Exit_ok)
          else case selective_spec f of
            Some spec \<Rightarrow> if f_ckpt f then selective ce f spec SELECTIVE_CKPT_MSG CR_CKPT_SIGNAL
                         else selective ce f spec SELECTIVE_RESTORE_MSG CR_RESTORE_SIGNAL
          | None \<Rightarrow> if f_ckpt f then client_ckpt ce f else client_restore ce f)"

text \<open>The order of signal and external tool in \<open>cr_client\<close>.  On NVIDIA a checkpoint asks the worker to
  save its data and then freezes it; a restore also asks the worker first, and runs
  \<open>cuda-checkpoint\<close> only after the worker has answered.  On AMD the process is restored first.  With
  \<open>-b\<close> no tool runs and whether the client fails depends on a variable it never sets.\<close>

lemma client_events:
  assumes "0 < p" "p < 2 ^ 31" "comm_ok ce"
  shows "\<not> hip_build ce \<Longrightarrow>
      cr_client_main ce [CR_c, CR_p (digits p)] =
        ([Signal (int p) CKPT_MSG CR_CKPT_SIGNAL, Run (toggle_cmd ce (int p))],
         if system_rc ce (toggle_cmd ce (int p)) < 0 then Exit_failure else Exit_ok)"
    "\<not> hip_build ce \<Longrightarrow>
      cr_client_main ce [CR_r, CR_p (digits p)] =
        ([Signal (int p) RESTORE_MSG CR_RESTORE_SIGNAL, Run (toggle_cmd ce (int p))],
         if system_rc ce (toggle_cmd ce (int p)) < 0 then Exit_failure else Exit_ok)"
    "\<not> hip_build ce \<Longrightarrow>
      snd (cr_client_main ce [CR_c, CR_b, CR_p (digits p)]) = Exit_failure \<longleftrightarrow> ret_initial ce < 0"
    "hip_build ce \<Longrightarrow> AMD_CKPT_DIR ce = Some d \<Longrightarrow> 0 \<le> system_rc ce (criu_restore_cmd d) \<Longrightarrow>
      cr_client_main ce [CR_r, CR_p (digits p)] =
        ([Run (criu_restore_cmd d), Signal (int p) RESTORE_MSG CR_RESTORE_SIGNAL], Exit_ok)"
  using assms
  by (simp_all add: cr_client_main_def atoi_digits client_ckpt_def client_restore_def run_tool_def Let_def)

end
