(* ===== verification/Amd_Interface.thy ===== *)
theory Amd_Interface
  imports AMD_Backend Client
begin

text \<open>
  The rest of the AMD backend (\<open>src/GPUs/AMD/amd.cpp\<close>) and of the interface \<open>GPU\<close> both backends have: the
  calls on streams and events, whose results the AMD code returns where the NVIDIA code exits, the
  calls on host memory, the methods that only throw, and the commands that run CRIU and
  \<open>cuda-checkpoint\<close>.  The stream calls are shown to be those of \<open>Data_Path\<close> at vendor AMD, and the theorem
  states what the difference in error handling means for a checkpoint.
\<close>

section \<open>Streams and events\<close>

datatype GPUMemcpyKind = HostToDevice | DeviceToHost | DeviceToDevice | OtherKind

datatype hipMemcpyKind = hipMemcpyHostToDevice | hipMemcpyDeviceToHost | hipMemcpyDeviceToDevice | hipMemcpyDefault

fun hip_kind :: "GPUMemcpyKind \<Rightarrow> hipMemcpyKind" where
  "hip_kind HostToDevice = hipMemcpyHostToDevice"
| "hip_kind DeviceToHost = hipMemcpyDeviceToHost"
| "hip_kind DeviceToDevice = hipMemcpyDeviceToDevice"
| "hip_kind OtherKind = hipMemcpyDefault"

definition hip_call :: "'g driver \<Rightarrow> gpu_call \<Rightarrow> ('g machine \<Rightarrow> 'g machine) \<Rightarrow> 'g machine \<Rightarrow> int \<times> 'g machine" where
  \<comment> \<open>\<open>-1\<close> where the HIP call fails, without its effect\<close>
  "hip_call drv c upd m =
     (if api_rc drv c m \<noteq> 0 then (-1, retire (progress drv c m) m)
      else (0, retire (progress drv c (upd m)) (upd m)))"

definition amd_createStream :: "'g driver \<Rightarrow> 'g machine \<Rightarrow> int \<times> 'g machine" where
  "amd_createStream drv = hip_call drv CreateStream (\<lambda>m. m\<lparr>queue := [], mark := 0\<rparr>)"

definition amd_destroyStream :: "'g driver \<Rightarrow> 'g machine \<Rightarrow> int \<times> 'g machine" where
  "amd_destroyStream drv = hip_call drv DestroyStream (\<lambda>m. m)"

definition amd_createEvent :: "'g driver \<Rightarrow> 'g machine \<Rightarrow> int \<times> 'g machine" where
  "amd_createEvent drv = hip_call drv CreateEvent (\<lambda>m. m)"

definition amd_destroyEvent :: "'g driver \<Rightarrow> 'g machine \<Rightarrow> int \<times> 'g machine" where
  "amd_destroyEvent drv = hip_call drv DestroyEvent (\<lambda>m. m)"

definition amd_recordEvent :: "'g driver \<Rightarrow> 'g machine \<Rightarrow> int \<times> 'g machine" where
  "amd_recordEvent drv = hip_call drv RecordEvent (\<lambda>m. m\<lparr>mark := length (queue m)\<rparr>)"

definition amd_synchronizeEvent :: "'g driver \<Rightarrow> 'g machine \<Rightarrow> int \<times> 'g machine" where
  "amd_synchronizeEvent drv = hip_call drv SynchronizeEvent (\<lambda>m. m)"

definition amd_memcpyAsync :: "'g driver \<Rightarrow> nat \<Rightarrow> nat \<Rightarrow> nat \<Rightarrow> GPUMemcpyKind \<Rightarrow> 'g machine \<Rightarrow> (int \<times> 'g machine) option" where
  \<comment> \<open>the two kinds of copies the program makes; \<open>None\<close> for the others, which no caller uses\<close>
  "amd_memcpyAsync drv dst src n kind m =
     (case hip_kind kind of
        hipMemcpyDeviceToHost \<Rightarrow> Some (hip_call drv (MemcpyAsync (D2H dst src n)) (\<lambda>m. m\<lparr>queue := queue m @ [D2H dst src n]\<rparr>) m)
      | hipMemcpyHostToDevice \<Rightarrow> Some (hip_call drv (MemcpyAsync (H2D dst src n)) (\<lambda>m. m\<lparr>queue := queue m @ [H2D dst src n]\<rparr>) m)
      | _ \<Rightarrow> None)"

definition amd_synchronizeStream :: "'g driver \<Rightarrow> 'g machine \<Rightarrow> int \<times> 'g machine" where
  "amd_synchronizeStream drv = hip_call drv SynchronizeStream (\<lambda>m. m)"

section \<open>Initialisation, host memory, tables\<close>

record amd_state =
  hip_device :: int
  hip_initialized :: bool
  memory_map :: "(nat \<times> nat) list"

definition amd_initial :: amd_state where
  \<comment> \<open>a failing \<open>hipSetDevice(0)\<close> is only reported\<close>
  "amd_initial = \<lparr>hip_device = 0, hip_initialized = False, memory_map = []\<rparr>"

definition ensureHipInitialized :: "amd_state \<Rightarrow> amd_state" where
  \<comment> \<open>a failing \<open>hipInit\<close> is only reported\<close>
  "ensureHipInitialized s = (if hip_initialized s then s else s\<lparr>hip_initialized := True\<rparr>)"

definition amd_syncAllKernels :: "int \<Rightarrow> int" where
  "amd_syncAllKernels err = (if err \<noteq> 0 then -1 else 0)"

definition amd_registerHostMemory :: "int \<Rightarrow> int" where
  \<comment> \<open>\<open>err\<close>: what \<open>hipHostRegister\<close> returns\<close>
  "amd_registerHostMemory err = (if err \<noteq> 0 then -1 else 0)"

datatype 'a thrown = Throws string | Returns 'a

definition amd_allocate :: "nat \<Rightarrow> int thrown" where
  "amd_allocate n = Throws ''amd::allocate: This subclass does nothing. Use hooked hipMalloc instead.''"

definition amd_deallocate :: "nat \<Rightarrow> int thrown" where
  "amd_deallocate p = Throws ''amd::deallocate: This subclass does nothing. Use hooked hipFree instead.''"

definition nv_allocate :: "nat \<Rightarrow> int thrown" where
  "nv_allocate n = Throws ''nv::allocate: This subclass does nothing. Use hooked cudaMalloc instead.''"

definition nv_deallocate :: "nat \<Rightarrow> int thrown" where
  "nv_deallocate p = Throws ''nv::deallocate: This subclass does nothing. Use hooked cudaFree instead.''"

definition amd_getMemoryMap :: "amd_state \<Rightarrow> (nat \<times> nat) list" where
  "amd_getMemoryMap s = memory_map s"

definition nv_getMemoryMap :: "vmm_state \<Rightarrow> (nat \<times> nat) list" where
  "nv_getMemoryMap s = allocated s"

section \<open>External tools\<close>

definition amd_dump_cmd :: "string \<Rightarrow> int \<Rightarrow> string" where
  "amd_dump_cmd dir pid =
     ''sudo env LD_LIBRARY_PATH=/opt/amdgpu/lib/x86_64-linux-gnu criu dump --link-remap --tcp-established -t '' @ show_int pid @
     '' -D '' @ dir @ '' -j -v4 -o '' @ dir @ ''/dump.log -L /usr/local/lib/criu''"

definition amd_restore_cmd :: "string \<Rightarrow> string" where
  "amd_restore_cmd dir =
     ''sudo env LD_LIBRARY_PATH=/opt/amdgpu/lib/x86_64-linux-gnu criu restore -D '' @ dir @
     '' -j -v4 -o '' @ dir @ ''/restore.log -L /usr/local/lib/criu''"

definition amd_externalCheckpoint :: "string option \<Rightarrow> (string \<Rightarrow> int) \<Rightarrow> int \<Rightarrow> exit_reason + int" where
  \<comment> \<open>\<open>snprintf\<close> into 1024 bytes, then \<open>system\<close>\<close>
  "amd_externalCheckpoint ckpt_dir system pid =
     (case ckpt_dir of None \<Rightarrow> Inl BackendExit | Some dir \<Rightarrow> Inr (system (take 1023 (amd_dump_cmd dir pid))))"

definition amd_externalRestore :: "string option \<Rightarrow> (string \<Rightarrow> int) \<Rightarrow> int \<Rightarrow> exit_reason + int" where
  "amd_externalRestore ckpt_dir system pid =
     (case ckpt_dir of None \<Rightarrow> Inl BackendExit | Some dir \<Rightarrow> Inr (system (take 1023 (amd_restore_cmd dir))))"

definition nv_externalCheckpoint :: "(string \<Rightarrow> int) \<Rightarrow> int \<Rightarrow> int" where
  "nv_externalCheckpoint system pid =
     (if system (take 255 (''cuda-checkpoint --toggle --pid '' @ show_int pid)) \<noteq> 0 then -1 else 0)"

definition nv_externalRestore :: "(string \<Rightarrow> int) \<Rightarrow> int \<Rightarrow> int" where
  "nv_externalRestore system pid = nv_externalCheckpoint system pid"

section \<open>The interface at vendor AMD\<close>

lemma hip_call_step: "vendor drv = AMD \<Longrightarrow> gpu_step drv c upd m = Inr (hip_call drv c upd m)"
  by (simp add: gpu_step_def check_ret_def amd_check_ret_def hip_call_def Let_def)

text \<open>The calls of \<open>Data_Path\<close> at vendor AMD are those of the AMD backend.\<close>

lemma amd_streams:
  assumes "vendor drv = AMD"
  shows "createStream drv m = Inr (amd_createStream drv m)" "destroyStream drv m = Inr (amd_destroyStream drv m)"
    "createEvent drv m = Inr (amd_createEvent drv m)" "destroyEvent drv m = Inr (amd_destroyEvent drv m)"
    "recordEvent drv m = Inr (amd_recordEvent drv m)" "synchronizeEvent drv m = Inr (amd_synchronizeEvent drv m)"
    "synchronizeStream drv m = Inr (amd_synchronizeStream drv m)"
    "memcpyAsync drv (D2H d s n) m = Inr (the (amd_memcpyAsync drv d s n DeviceToHost m))"
    "memcpyAsync drv (H2D d s n) m = Inr (the (amd_memcpyAsync drv d s n HostToDevice m))"
  using assms
  by (simp_all add: createStream_def destroyStream_def createEvent_def destroyEvent_def recordEvent_def synchronizeEvent_def
      synchronizeStream_def memcpyAsync_def amd_createStream_def amd_destroyStream_def amd_createEvent_def amd_destroyEvent_def
      amd_recordEvent_def amd_synchronizeEvent_def amd_synchronizeStream_def amd_memcpyAsync_def hip_call_step)

lemma retire_0 [simp]: "retire 0 m = m"
  by (simp add: retire_def)

section \<open>A failing synchronisation\<close>

definition lazy_failing :: "'g driver \<Rightarrow> bool" where
  \<comment> \<open>no copy has completed by the time a call returns, and waiting for the stream fails\<close>
  "lazy_failing drv \<longleftrightarrow> (\<forall>c m. progress drv c m = 0) \<and> (\<forall>c m. api_rc drv c m = 0 \<longleftrightarrow> c \<noteq> SynchronizeStream)"

lemma lazy_calls:
  assumes "lazy_failing drv" "c \<noteq> SynchronizeStream"
  shows "gpu_step drv c upd m = Inr (0, upd m)"
  using assms by (simp add: gpu_step_def lazy_failing_def check_ret_def nv_check_ret_def amd_check_ret_def split: GPUVendor.split)

lemmas lazy_ops = createStream_def destroyStream_def createEvent_def destroyEvent_def recordEvent_def memcpyAsync_def

lemma lazy_block:
  assumes "lazy_failing drv" "0 < n" "n < STAGING_BUF_SIZE"
  shows "d2h_loop drv (\<lambda>_ n. n) p n \<lparr>current_buf = 0, buf_offset = 0, io_offset = off, mach = m\<rparr> =
    Inr \<lparr>current_buf = 0, buf_offset = n, io_offset = off, mach = m\<lparr>queue := queue m @ [D2H 0 p n]\<rparr>\<rparr>"
proof -
  have 0: "d2h_loop drv (\<lambda>_ n. n) x 0 c = Inr c" for x c by (subst d2h_loop.simps) simp
  show ?thesis
    by (subst d2h_loop.simps)
      (use assms in \<open>simp add: memcpyAsync_def lazy_calls d2h_rotate_def staging_buf_def Let_def 0\<close>)
qed

lemma lazy_image:
  assumes "lazy_failing drv" "0 < n" "n < STAGING_BUF_SIZE"
  shows "vendor drv = AMD \<Longrightarrow> \<exists>fs' m'. save_image drv (\<lambda>_ n. n) [(p, n)] (fs, m) = Inr (fs', m') \<and>
      file_list fs' = [\<lparr>ptr = p, start_offset = fs_data_start, size = n\<rparr>] \<and> gst m' = gst m \<and> dev m' = dev m \<and> shm m' = blit fs_data_start 0 n (stg m) (shm m)"
    and "vendor drv = NVIDIA \<Longrightarrow> save_image drv (\<lambda>_ n. n) [(p, n)] (fs, m) = Inl BackendExit"
proof -
  have s: "record_file p n (fs_reset fs) = Inr ((fs_reset fs)\<lparr>files := (files fs)(0 := \<lparr>ptr = p, start_offset = fs_data_start, size = n\<rparr>),
      current_offset := fs_data_start + n, file_num := 1\<rparr>)"
    using assms(3) by (simp add: record_file_def fs_reset_def Let_def SHM_SIZE_def STAGING_BUF_SIZE_def u64_add_def MAX_FILE_NUM_def)
  note l = lazy_calls [OF assms(1)] lazy_block [OF assms] s
  have w: "synchronizeStream drv m = (if vendor drv = AMD then Inr (-1, m) else Inl BackendExit)" for m
    using assms(1) by (simp add: synchronizeStream_def gpu_step_def lazy_failing_def check_ret_def amd_check_ret_def nv_check_ret_def split: GPUVendor.split)
  show "\<exists>fs' m'. save_image drv (\<lambda>_ n. n) [(p, n)] (fs, m) = Inr (fs', m') \<and>
      file_list fs' = [\<lparr>ptr = p, start_offset = fs_data_start, size = n\<rparr>] \<and> gst m' = gst m \<and> dev m' = dev m \<and> shm m' = blit fs_data_start 0 n (stg m) (shm m)"
    if "vendor drv = AMD"
    using that by (simp add: save_image_def open_stream_def lazy_ops l save_tail_def w staging_buf_def Let_def file_list_def)
  show "save_image drv (\<lambda>_ n. n) [(p, n)] (fs, m) = Inl BackendExit" if "vendor drv = NVIDIA"
    using that by (simp add: save_image_def open_stream_def lazy_ops l save_tail_def w staging_buf_def Let_def)
qed

section \<open>Theorem\<close>

text \<open>The AMD backend returns an error where the NVIDIA backend exits, and the checkpoint does not look at
  it.  If waiting for the stream fails before a copy has completed, a full checkpoint of one allocation
  smaller than a staging buffer returns as if it had worked: the file table lists the allocation, the
  data area holds whatever the staging buffer held before, and the handle has been given back.  The
  same failure on the NVIDIA backend ends the process.\<close>

theorem amd_sync_failure_saves_stale_bytes:
  assumes "lazy_failing drv" "0 < sz" "sz + 2097151 < 2 ^ 64" "round_up_2mb sz < STAGING_BUF_SIZE"
    and "allocated (gst m) = [(p, sz)]" "map_of (global_handle_map (gst m)) p = Some h" "vmm_ok v"
  shows "(vendor drv = AMD \<longrightarrow> (\<exists>fs' m'. ckpt drv (amd_gpu v) (fs, m) = Inr ((fs', m'), round_up_2mb sz) \<and>
      file_list fs' = [\<lparr>ptr = p, start_offset = fs_data_start, size = round_up_2mb sz\<rparr>] \<and>
      (\<forall>i < round_up_2mb sz. shm m' (fs_data_start + i) = stg m i) \<and> h \<notin> live (calls (gst m')))) \<and>
    (vendor drv = NVIDIA \<longrightarrow> ckpt drv (nv_gpu v) (fs, m) = Inl BackendExit)"
proof -
  have n: "0 < round_up_2mb sz" using round_up_2mb_ge [OF assms(3)] assms(2) by simp
  note i = lazy_image [OF assms(1) n assms(4), of p fs m]
  have "\<exists>fs' m'. ckpt drv (amd_gpu v) (fs, m) = Inr ((fs', m'), round_up_2mb sz) \<and>
      file_list fs' = [\<lparr>ptr = p, start_offset = fs_data_start, size = round_up_2mb sz\<rparr>] \<and>
      (\<forall>i < round_up_2mb sz. shm m' (fs_data_start + i) = stg m i) \<and> h \<notin> live (calls (gst m'))" if v: "vendor drv = AMD"
  proof -
    obtain fs' m1 where 1: "save_image drv (\<lambda>_ n. n) [(p, round_up_2mb sz)] (fs, m) = Inr (fs', m1)"
      "file_list fs' = [\<lparr>ptr = p, start_offset = fs_data_start, size = round_up_2mb sz\<rparr>]" "gst m1 = gst m"
      "shm m1 = blit fs_data_start 0 (round_up_2mb sz) (stg m) (shm m)" using i(1) [OF v] by blast
    let ?m2 = "after v (MemRelease h) (after v (MemUnmap p sz) m1)"
    have ok: "rc v c x = 0" for c x using rc_all_ok [of v c x] by (simp add: vmm_ok_all_ok [OF assms(7)])
    have r: "amd_releasePhysicalMemory v p m1 = Inr (0, ?m2)"
      using assms(5,6) 1(3) by (simp add: amd_releasePhysicalMemory_def split_beta Let_def ok)
    have "ckpt drv (amd_gpu v) (fs, m) = Inr ((fs', ?m2), round_up_2mb sz)"
      using 1(1,3) r assms(5) by (simp add: ckpt_def rounded_def) (simp add: amd_gpu_def)
    moreover have "shm ?m2 = shm m1" using amd_release_frame [OF r] by (simp add: same_host_def)
    moreover have "h \<notin> live (calls (gst ?m2))" by (simp add: ok)
    ultimately show ?thesis using 1(2,4) by (auto simp: blit_def)
  qed
  moreover have "ckpt drv (nv_gpu v) (fs, m) = Inl BackendExit" if "vendor drv = NVIDIA"
    using i(2) [OF that] assms(5) by (simp add: ckpt_def rounded_def)
  ultimately show ?thesis by blast
qed

definition lazy_driver :: "vmm_state driver" where
  "lazy_driver = \<lparr>vendor = AMD, api_rc = \<lambda>c _. if c = SynchronizeStream then 1 else 0, progress = \<lambda>_ _. 0\<rparr>"

definition single_machine :: "vmm_state machine" where
  "single_machine = sample_machine\<lparr>gst := (gst sample_machine)\<lparr>allocated := [(4194304, 5000)]\<rparr>\<rparr>"

theorem amd_sync_failure_saves_stale_bytes_witness:
  "\<exists>fs' m'. ckpt lazy_driver (amd_gpu counting_vmm) (fs_reset undefined, single_machine) = Inr ((fs', m'), 2097152) \<and>
     shm m' fs_data_start = stg single_machine 0"
proof -
  have n: "round_up_2mb 5000 = 2097152" by (simp add: round_up_2mb_eq)
  have "lazy_failing lazy_driver" by (simp add: lazy_failing_def lazy_driver_def)
  moreover have "allocated (gst single_machine) = [(4194304, 5000)]" "map_of (global_handle_map (gst single_machine)) 4194304 = Some 1"
    by (simp_all add: single_machine_def sample_machine_def)
  ultimately have "\<exists>fs' m'. ckpt lazy_driver (amd_gpu counting_vmm) (fs_reset undefined, single_machine) = Inr ((fs', m'), round_up_2mb 5000) \<and>
      (\<forall>i < round_up_2mb 5000. shm m' (fs_data_start + i) = stg single_machine i)"
    using amd_sync_failure_saves_stale_bytes [of lazy_driver 5000 single_machine 4194304 1 counting_vmm "fs_reset undefined"] counting_vmm_contract(2)
    by (auto simp: n STAGING_BUF_SIZE_def lazy_driver_def)
  then show ?thesis unfolding n by (metis add_0_right zero_less_numeral)
qed

end
