(* ===== verification/Amd_Handler.thy ===== *)
theory Amd_Handler
  imports Amd_Interface AMD_Backend Signal_Handler
begin

text \<open>
  The worker of the AMD build: \<open>src/vGPU.cpp\<close> compiled with \<open>__HIP_PLATFORM_AMD__\<close>.  The
  preprocessor drops the calls that switch peer access off and on, \<open>pushContext\<close> and
  \<open>popContext\<close> are those of the base class and do nothing, and a failing \<open>syncAllKernels\<close>
  returns -1, which the handler ignores.  Initialisation and the branches on the message are
  otherwise those of \<open>Signal_Handler\<close>, on the AMD backend; the field for peer access of
  \<open>process\<close> is unused.
\<close>

definition amd_init_CR :: "cr_env \<Rightarrow> int \<Rightarrow> nat \<Rightarrow> process \<Rightarrow> exit_reason + nat \<times> process" where
  \<comment> \<open>\<open>err\<close>: what \<open>hipHostRegister\<close> returns; unpinned memory is used when it fails\<close>
  "amd_init_CR env err counter p =
     (if CR_initialized p then Inr (counter, p)
      else rbind (get_id env counter) (\<lambda>(cid, counter').
        let p1 = write_pid_map env cid p in
        rbind (ShareMemComm_setup env (ce_pid env)) (\<lambda>_.
        rbind (ShareMem_setup env cid (fsys p1)) (\<lambda>fs'.
        rbind (createGPU True (GPU_VENDOR env)) (\<lambda>_.
        if ce_host env = 0 then Inl BackendExit
        else let _ = amd_registerHostMemory err in
        Inr (counter', p1\<lparr>CR_initialized := True, cr_id := cid, fsys := fs'\<rparr>))))))"

definition amd_dispatch :: "cr_env \<Rightarrow> process \<Rightarrow> exit_reason + process" where
  "amd_dispatch env p =
     (let gpu = amd_gpu (ce_vmm env); drv = ce_drv env; msg = control_word p in
      if msg = SELECTIVE_CKPT_MSG then
        let _ = amd_syncAllKernels (ce_sync env) in
        rbind (ckpt_selective drv gpu (selective_req p) (fsys p, mch p)) (\<lambda>((fs', m'), _).
        Inr (p\<lparr>fsys := fs', mch := m'\<rparr>))
      else if msg = SELECTIVE_RESTORE_MSG then
        rbind (restore_ptr_and_content_selective drv gpu (fsys p, mch p)) (\<lambda>(m', _).
        Inr (p\<lparr>mch := m'\<rparr>))
      else if msg = CKPT_MSG then
        let _ = amd_syncAllKernels (ce_sync env) in
        rbind (ckpt drv gpu (fsys p, mch p)) (\<lambda>((fs', m'), _).
        Inr (p\<lparr>fsys := fs', mch := m'\<rparr>))
      else if msg = RESTORE_MSG then
        rbind (restore_ptr_and_content drv gpu (fsys p, mch p)) (\<lambda>(m', _).
        Inr (p\<lparr>mch := m'\<rparr>))
      else Inr p)"

definition amd_cr_signal_handler :: "cr_env \<Rightarrow> int \<Rightarrow> nat \<Rightarrow> nat \<Rightarrow> process \<Rightarrow> exit_reason + nat \<times> process" where
  "amd_cr_signal_handler env err signum counter p =
     (if signum \<noteq> CR_INIT_SIGNAL \<and> signum \<noteq> CR_CKPT_SIGNAL \<and> signum \<noteq> CR_RESTORE_SIGNAL then Inr (counter, p)
      else if signum = CR_INIT_SIGNAL then
        rbind (amd_init_CR env err counter p) (\<lambda>(counter', p'). Inr (counter', p'\<lparr>control_word := FINISH_MSG\<rparr>))
      else rbind (amd_init_CR env err counter p) (\<lambda>(counter', p1).
        rbind (amd_dispatch env p1) (\<lambda>p2.
        Inr (counter', p2\<lparr>control_word := FINISH_MSG\<rparr>))))"

section \<open>Properties\<close>

definition amd_ready :: "cr_env \<Rightarrow> process \<Rightarrow> bool" where
  \<comment> \<open>the calls to the driver succeed, every allocation has a handle, as \<open>hipMalloc\<close> leaves it, and the
      allocations fit the checkpoint file\<close>
  "amd_ready env p \<longleftrightarrow> stream_contract (ce_drv env) \<and> vmm_ok (ce_vmm env) \<and> CR_initialized p \<and>
     omap_ok (allocated (gst (mch p))) \<and> sane_sizes (allocated (gst (mch p))) \<and>
     fits (rounded (allocated (gst (mch p)))) \<and>
     dom (map_of (allocated (gst (mch p)))) \<subseteq> dom (map_of (global_handle_map (gst (mch p))))"

definition amd_frozen_copy :: "process \<Rightarrow> process \<Rightarrow> process \<Rightarrow> bool" where
  \<comment> \<open>\<open>q\<close> is a later state of the checkpointed process \<open>p1\<close>: only the device memory of the released
      allocations may hold anything\<close>
  "amd_frozen_copy p p1 q \<longleftrightarrow> CR_initialized q \<and> fsys q = fsys p1 \<and> shm (mch q) = shm (mch p1) \<and>
     gst (mch q) = gst (mch p1) \<and>
     (\<forall>a. a \<notin> covered (rounded (allocated (gst (mch p)))) \<longrightarrow> dev (mch q) a = dev (mch p1) a)"

text \<open>C39: The worker of the AMD build over a checkpoint and a restore.  The handler of the checkpoint
  message returns and answers \<open>FINISH\<close>, whatever \<open>hipDeviceSynchronize\<close> returned; in any later
  state that keeps what it left behind the handler of the restore message returns, gives back the
  whole device memory and answers \<open>FINISH\<close>.\<close>

theorem amd_handler_round_trip:
  assumes ready: "amd_ready env p" and msg: "control_word p = CKPT_MSG"
  shows "\<exists>p1. amd_cr_signal_handler env err CR_CKPT_SIGNAL counter p = Inr (counter, p1) \<and>
    control_word p1 = FINISH_MSG \<and> CR_initialized p1 \<and>
    (\<forall>q. amd_frozen_copy p p1 q \<and> control_word q = RESTORE_MSG \<longrightarrow>
       (\<exists>p3. amd_cr_signal_handler env err CR_RESTORE_SIGNAL counter q = Inr (counter, p3) \<and>
          control_word p3 = FINISH_MSG \<and> dev (mch p3) = dev (mch p)))"
proof -
  have r: "stream_contract (ce_drv env)" "vmm_ok (ce_vmm env)" "omap_ok (allocated (gst (mch p)))"
    "sane_sizes (allocated (gst (mch p)))" "fits (rounded (allocated (gst (mch p))))"
    "dom (map_of (allocated (gst (mch p)))) \<subseteq> dom (map_of (global_handle_map (gst (mch p))))"
    "CR_initialized p"
    using ready by (simp_all add: amd_ready_def)
  have init: "amd_init_CR env err counter q = Inr (counter, q)" if "CR_initialized q" for q
    using that by (simp add: amd_init_CR_def)
  from amd_full_round_trip [OF r(1,1,2-6), of "fsys p"] obtain fs' m1 n
    where c: "ckpt (ce_drv env) (amd_gpu (ce_vmm env)) (fsys p, mch p) = Inr ((fs', m1), n)"
    and later: "\<And>m2. shm m2 = shm m1 \<Longrightarrow> gst m2 = gst m1 \<Longrightarrow>
       (\<And>a. a \<notin> covered (rounded (allocated (gst (mch p)))) \<Longrightarrow> dev m2 a = dev m1 a) \<Longrightarrow>
       \<exists>m3. restore_ptr_and_content (ce_drv env) (amd_gpu (ce_vmm env)) (fs', m2) = Inr (m3, n) \<and> dev m3 = dev (mch p)"
    by blast
  let ?p1 = "p\<lparr>fsys := fs', mch := m1, control_word := FINISH_MSG\<rparr>"
  have "amd_cr_signal_handler env err CR_CKPT_SIGNAL counter p = Inr (counter, ?p1)"
    using msg r by (simp add: amd_cr_signal_handler_def amd_dispatch_def signal_defs msg_defs init c)
  moreover have "\<exists>p3. amd_cr_signal_handler env err CR_RESTORE_SIGNAL counter q = Inr (counter, p3) \<and>
      control_word p3 = FINISH_MSG \<and> dev (mch p3) = dev (mch p)"
    if "amd_frozen_copy p ?p1 q" and "control_word q = RESTORE_MSG" for q
    using later [of "mch q"] that
    by (auto simp: amd_frozen_copy_def amd_cr_signal_handler_def amd_dispatch_def signal_defs msg_defs init)
  ultimately show ?thesis using r(7) by (intro exI [of _ ?p1]) simp
qed

theorem amd_handler_round_trip_witness:
  "\<exists>p1 p3. amd_cr_signal_handler sample_cr_env 0 CR_CKPT_SIGNAL 1 sample_process = Inr (1, p1) \<and>
     amd_cr_signal_handler sample_cr_env 0 CR_RESTORE_SIGNAL 1 (p1\<lparr>control_word := RESTORE_MSG\<rparr>) = Inr (1, p3) \<and>
     dev (mch p3) = dev (mch sample_process)"
proof -
  have ready: "amd_ready sample_cr_env sample_process"
    using prompt_driver_contract counting_vmm_contract(2) sample_facts
    by (simp add: amd_ready_def sample_cr_env_def sample_process_def sample_machine_def)
  have "control_word sample_process = CKPT_MSG" by (simp add: sample_process_def)
  from amd_handler_round_trip [OF ready this, of 0 1] obtain p1
    where 1: "amd_cr_signal_handler sample_cr_env 0 CR_CKPT_SIGNAL 1 sample_process = Inr (1, p1)" "CR_initialized p1"
    and 2: "\<forall>q. amd_frozen_copy sample_process p1 q \<and> control_word q = RESTORE_MSG \<longrightarrow>
       (\<exists>p3. amd_cr_signal_handler sample_cr_env 0 CR_RESTORE_SIGNAL 1 q = Inr (1, p3) \<and>
          control_word p3 = FINISH_MSG \<and> dev (mch p3) = dev (mch sample_process))" by blast
  have "amd_frozen_copy sample_process p1 (p1\<lparr>control_word := RESTORE_MSG\<rparr>)"
    using 1(2) by (simp add: amd_frozen_copy_def)
  with 1 2 show ?thesis by (metis process.select_convs(3) process.update_convs(3) process.surjective)
qed

end
