(* ===== verification/Ipc_State.thy ===== *)
theory Ipc_State
  imports Layout "HOL-Library.Multiset"
begin

text \<open>
  The tables of \<open>src/ipc_hooks.cpp\<close>, the interface to the CUDA driver behind the hooks, and the
  steps the checkpoint functions of that file share: grouping by device, entering the context of a
  device, pinning the host buffer.  The driver is a \<open>native_lib\<close>; which of its functions could be
  resolved with \<open>dlsym\<close> is a parameter.  A call that maps or unmaps a range leaves arbitrary bytes
  there, a copy that fails leaves arbitrary bytes in its destination.  Copies on a stream are
  applied when they are issued: the code synchronises the stream before it reads the destination.
\<close>

section \<open>Records\<close>

record CUmemAllocationProp =
  requestedHandleTypes :: int
  location_type :: int
  location_id :: int

record CUmemAccessDesc =
  desc_type :: int
  desc_id :: int
  desc_flags :: int

record IpcImportRecord =
  imp_vaddr :: nat
  imp_size :: nat
  imp_handle :: nat
  imp_access_dev :: int
  imp_access_desc :: CUmemAccessDesc
  all_access :: "CUmemAccessDesc list"
  imp_torn_down :: bool

record IpcExportRecord =
  app_local_handle :: nat
  local_handle :: nat
  exported_fd :: int
  handle_type :: int
  exp_size :: nat
  mapped_vaddr :: nat
  mapped_size :: nat
  has_mapping :: bool
  access_dev :: int
  access_desc :: CUmemAccessDesc
  has_access :: bool
  exp_torn_down :: bool
  saved_prop :: CUmemAllocationProp
  has_saved_prop :: bool
  saved_data_offset :: nat
  has_saved_data_offset :: bool

record CuMemCreateRecord =
  cr_size :: nat
  cr_prop :: CUmemAllocationProp

record CuMemLocalAllocRecord =
  loc_handle :: nat
  loc_vaddr :: nat
  loc_size :: nat
  loc_prop :: CUmemAllocationProp
  loc_torn_down :: bool

datatype cu_call =
    CuMemCreate nat CUmemAllocationProp | CuMemExport nat int | CuMemImport int
  | CuMemMap nat nat nat | CuMemUnmap nat nat | CuMemRelease nat
  | CuMemSetAccess nat nat "CUmemAccessDesc list"
  | CuMemcpyDtoH nat nat nat | CuMemcpyDtoHAsync nat nat nat \<comment> \<open>host offset, device address, bytes\<close>
  | CuMemcpyHtoD nat nat nat | CuMemcpyHtoDAsync nat nat nat \<comment> \<open>device address, host offset, bytes\<close>
  | CuMemProbe nat
  | CuStreamCreate | CuStreamSynchronize | CuStreamDestroy
  | CuMemHostRegister nat | CuMemHostUnregister
  | CuDevicePrimaryCtxRetain int | CuDevicePrimaryCtxRelease int
  | CuCtxPushCurrent nat | CuCtxPopCurrent
  | CloseFd int

datatype cu_fn =
    F_MemCreate | F_MemExport | F_MemImport | F_MemMap | F_MemUnmap | F_MemRelease | F_MemSetAccess
  | F_MemcpyDtoH | F_MemcpyHtoD | F_MemcpyDtoHAsync | F_MemcpyHtoDAsync | F_MemAddressReserve
  | F_StreamCreate | F_StreamSynchronize | F_StreamDestroy | F_MemHostRegister | F_MemHostUnregister
  | F_PrimaryCtxRetain | F_PrimaryCtxRelease | F_CtxPushCurrent | F_CtxPopCurrent

record cu_lib =
  cu :: "cu_call native_lib"
  avail :: "cu_fn \<Rightarrow> bool"
  cu_junk :: "cu_call history \<Rightarrow> mem"

record ipc_state =
  g_ipc_imports :: "IpcImportRecord list"
  g_ipc_exports :: "IpcExportRecord list"
  g_imported_handles :: "nat list"
  g_vaddr_to_import_idx :: "(nat \<times> nat) list"
  g_created_allocs :: "(nat \<times> CuMemCreateRecord) list"
  g_handle_to_va :: "(nat \<times> nat) list"
  g_vaddr_to_export_idx :: "(nat \<times> nat) list"
  g_rebuilt_handle_alias :: "(nat \<times> nat) list"
  g_local_allocs :: "CuMemLocalAllocRecord list"
  g_va_access_descs :: "(nat \<times> CUmemAccessDesc list) list"
  gmem :: mem \<comment> \<open>device memory, by virtual address\<close>
  hbuf :: mem \<comment> \<open>the host buffer of the checkpoint\<close>
  cu_calls :: "cu_call history"

abbreviation CUDA_SUCCESS :: int where "CUDA_SUCCESS \<equiv> 0"
abbreviation CUDA_ERROR_NOT_INITIALIZED :: int where "CUDA_ERROR_NOT_INITIALIZED \<equiv> 3"
abbreviation CU_MEM_HANDLE_TYPE_POSIX_FILE_DESCRIPTOR :: int where
  "CU_MEM_HANDLE_TYPE_POSIX_FILE_DESCRIPTOR \<equiv> 1"
abbreviation CU_MEM_LOCATION_TYPE_DEVICE :: int where "CU_MEM_LOCATION_TYPE_DEVICE \<equiv> 1"
abbreviation CU_MEM_ACCESS_FLAGS_PROT_READWRITE :: int where "CU_MEM_ACCESS_FLAGS_PROT_READWRITE \<equiv> 3"

definition no_desc :: CUmemAccessDesc where
  "no_desc = \<lparr>desc_type = 0, desc_id = 0, desc_flags = 0\<rparr>"

definition no_prop :: CUmemAllocationProp where
  "no_prop = \<lparr>requestedHandleTypes = 0, location_type = 0, location_id = 0\<rparr>"

section \<open>Driver calls\<close>

fun gmem_effect :: "cu_call \<Rightarrow> int \<Rightarrow> mem \<Rightarrow> mem \<Rightarrow> mem \<Rightarrow> mem" where
  "gmem_effect (CuMemMap p n h) r J H G = blit p p n J G"
| "gmem_effect (CuMemUnmap p n) r J H G = blit p p n J G"
| "gmem_effect (CuMemcpyHtoD p off n) r J H G = (if r = 0 then blit p off n H G else blit p p n J G)"
| "gmem_effect (CuMemcpyHtoDAsync p off n) r J H G = (if r = 0 then blit p off n H G else blit p p n J G)"
| "gmem_effect _ r J H G = G"

fun hbuf_effect :: "cu_call \<Rightarrow> int \<Rightarrow> mem \<Rightarrow> mem \<Rightarrow> mem \<Rightarrow> mem" where
  "hbuf_effect (CuMemcpyDtoH off p n) r J G H = (if r = 0 then blit off p n G H else blit off off n J H)"
| "hbuf_effect (CuMemcpyDtoHAsync off p n) r J G H = (if r = 0 then blit off p n G H else blit off off n J H)"
| "hbuf_effect _ r J G H = H"

definition ccall :: "cu_lib \<Rightarrow> cu_call \<Rightarrow> ipc_state \<Rightarrow> int \<times> nat \<times> ipc_state" where
  "ccall lib c s = (case native (cu lib) c (cu_calls s) of (r, v, h) \<Rightarrow>
     (r, v, s\<lparr>gmem := gmem_effect c r (cu_junk lib h) (hbuf s) (gmem s),
              hbuf := hbuf_effect c r (cu_junk lib h) (gmem s) (hbuf s), cu_calls := h\<rparr>))"

definition cdo :: "cu_lib \<Rightarrow> cu_call \<Rightarrow> ipc_state \<Rightarrow> ipc_state" where
  \<comment> \<open>a call whose results are ignored\<close>
  "cdo lib c s = (case ccall lib c s of (_, _, s') \<Rightarrow> s')"

definition cdo_if :: "bool \<Rightarrow> cu_lib \<Rightarrow> cu_call \<Rightarrow> ipc_state \<Rightarrow> ipc_state" where
  "cdo_if b lib c s = (if b then cdo lib c s else s)"

section \<open>Steps the checkpoint functions share\<close>

definition group_step :: "('a \<Rightarrow> int) \<Rightarrow> 'a \<Rightarrow> (int \<times> 'a list) list \<Rightarrow> (int \<times> 'a list) list" where
  \<comment> \<open>\<open>std::map<int, std::vector<T>> m; m[key(x)].push_back(x)\<close>\<close>
  "group_step key x g = omap_put (key x) (case map_of g (key x) of None \<Rightarrow> [x] | Some xs \<Rightarrow> xs @ [x]) g"

definition group :: "('a \<Rightarrow> int) \<Rightarrow> 'a list \<Rightarrow> (int \<times> 'a list) list" where
  "group key xs = fold (group_step key) xs []"

definition push_context :: "cu_lib \<Rightarrow> bool \<Rightarrow> int \<Rightarrow> ipc_state \<Rightarrow> bool \<times> ipc_state" where
  "push_context lib want dev s =
     (if want \<and> avail lib F_PrimaryCtxRetain \<and> avail lib F_CtxPushCurrent \<and> avail lib F_CtxPopCurrent then
        case ccall lib (CuDevicePrimaryCtxRetain dev) s of (r, ctx, s1) \<Rightarrow>
          if r = 0 \<and> ctx \<noteq> 0 then (True, cdo lib (CuCtxPushCurrent ctx) s1) else (False, s1)
      else (False, s))"

definition pop_context :: "cu_lib \<Rightarrow> bool \<Rightarrow> int \<Rightarrow> ipc_state \<Rightarrow> ipc_state" where
  "pop_context lib pushed dev s =
     (if pushed then
        cdo_if (avail lib F_PrimaryCtxRelease) lib (CuDevicePrimaryCtxRelease dev) (cdo lib CuCtxPopCurrent s)
      else s)"

definition pin_host :: "cu_lib \<Rightarrow> nat \<Rightarrow> ipc_state \<Rightarrow> bool \<times> ipc_state" where
  "pin_host lib n s =
     (if avail lib F_MemHostRegister \<and> 0 < n then
        case ccall lib (CuMemHostRegister n) s of (r, _, s1) \<Rightarrow> (r = 0, s1)
      else (False, s))"

definition streams :: "cu_lib \<Rightarrow> cu_fn \<Rightarrow> bool" where
  "streams lib copy \<longleftrightarrow> avail lib F_StreamCreate \<and> avail lib F_StreamSynchronize \<and>
     avail lib F_StreamDestroy \<and> avail lib copy"

definition upd_exp :: "nat \<Rightarrow> (IpcExportRecord \<Rightarrow> IpcExportRecord) \<Rightarrow> ipc_state \<Rightarrow> ipc_state" where
  "upd_exp i f s = s\<lparr>g_ipc_exports := (g_ipc_exports s)[i := f (g_ipc_exports s ! i)]\<rparr>"

definition upd_imp :: "nat \<Rightarrow> (IpcImportRecord \<Rightarrow> IpcImportRecord) \<Rightarrow> ipc_state \<Rightarrow> ipc_state" where
  "upd_imp i f s = s\<lparr>g_ipc_imports := (g_ipc_imports s)[i := f (g_ipc_imports s ! i)]\<rparr>"

definition upd_loc :: "nat \<Rightarrow> (CuMemLocalAllocRecord \<Rightarrow> CuMemLocalAllocRecord) \<Rightarrow> ipc_state \<Rightarrow> ipc_state" where
  "upd_loc i f s = s\<lparr>g_local_allocs := (g_local_allocs s)[i := f (g_local_allocs s ! i)]\<rparr>"

section \<open>Lemmas on driver calls\<close>

definition same_tables :: "ipc_state \<Rightarrow> ipc_state \<Rightarrow> bool" where
  "same_tables s s' \<longleftrightarrow> s' = s\<lparr>gmem := gmem s', hbuf := hbuf s', cu_calls := cu_calls s'\<rparr>"

lemma same_tables_refl [simp]: "same_tables s s"
  by (simp add: same_tables_def)

lemma same_tables_trans: "same_tables s s' \<Longrightarrow> same_tables s' s'' \<Longrightarrow> same_tables s s''"
  by (cases s; cases s'; cases s'') (simp add: same_tables_def)

lemma same_tablesD:
  assumes "same_tables s s'"
  shows "g_ipc_imports s' = g_ipc_imports s" "g_ipc_exports s' = g_ipc_exports s"
    "g_imported_handles s' = g_imported_handles s" "g_vaddr_to_import_idx s' = g_vaddr_to_import_idx s"
    "g_created_allocs s' = g_created_allocs s" "g_handle_to_va s' = g_handle_to_va s"
    "g_vaddr_to_export_idx s' = g_vaddr_to_export_idx s"
    "g_rebuilt_handle_alias s' = g_rebuilt_handle_alias s" "g_local_allocs s' = g_local_allocs s"
    "g_va_access_descs s' = g_va_access_descs s"
  using assms by (cases s; cases s'; simp add: same_tables_def)+

lemma ccall_tables: "ccall lib c s = (r, v, s') \<Longrightarrow> same_tables s s'"
  by (auto simp: ccall_def native_def same_tables_def split: prod.splits)

lemma ccall_gmem: "ccall lib c s = (r, v, s') \<Longrightarrow>
    gmem s' = gmem_effect c r (cu_junk lib (cu_calls s')) (hbuf s) (gmem s)"
  by (auto simp: ccall_def native_def split: prod.splits)

lemma ccall_hbuf: "ccall lib c s = (r, v, s') \<Longrightarrow>
    hbuf s' = hbuf_effect c r (cu_junk lib (cu_calls s')) (gmem s) (hbuf s)"
  by (auto simp: ccall_def native_def split: prod.splits)

lemma ccall_rc: "ccall lib c s = (r, v, s') \<Longrightarrow> r = fst (cu lib c (cu_calls s)) \<and> v = snd (cu lib c (cu_calls s))"
  by (auto simp: ccall_def native_def split: prod.splits)

lemma cdo_tables: "same_tables s (cdo lib c s)"
  by (auto simp: cdo_def split: prod.splits dest: ccall_tables)

fun idle_call :: "cu_call \<Rightarrow> bool" where
  \<comment> \<open>calls that touch neither device memory nor the host buffer\<close>
  "idle_call (CuMemMap _ _ _) = False"
| "idle_call (CuMemUnmap _ _) = False"
| "idle_call (CuMemcpyDtoH _ _ _) = False"
| "idle_call (CuMemcpyDtoHAsync _ _ _) = False"
| "idle_call (CuMemcpyHtoD _ _ _) = False"
| "idle_call (CuMemcpyHtoDAsync _ _ _) = False"
| "idle_call _ = True"

lemma idle_effects: "idle_call c \<Longrightarrow> gmem_effect c r J H G = G" "idle_call c \<Longrightarrow> hbuf_effect c r J G H = H"
  by (cases c; simp)+

definition idle_step :: "ipc_state \<Rightarrow> ipc_state \<Rightarrow> bool" where
  "idle_step s s' \<longleftrightarrow> same_tables s s' \<and> gmem s' = gmem s \<and> hbuf s' = hbuf s"

lemma idle_step_refl [simp]: "idle_step s s"
  by (simp add: idle_step_def)

lemma idle_step_trans: "idle_step s s' \<Longrightarrow> idle_step s' s'' \<Longrightarrow> idle_step s s''"
  by (auto simp: idle_step_def intro: same_tables_trans)

lemma ccall_idle: "ccall lib c s = (r, v, s') \<Longrightarrow> idle_call c \<Longrightarrow> idle_step s s'"
  using ccall_tables ccall_gmem ccall_hbuf by (auto simp: idle_step_def idle_effects)

lemma cdo_idle: "idle_call c \<Longrightarrow> idle_step s (cdo lib c s)"
  by (auto simp: cdo_def split: prod.splits intro: ccall_idle)

lemma cdo_if_idle: "idle_call c \<Longrightarrow> idle_step s (cdo_if b lib c s)"
  by (simp add: cdo_if_def cdo_idle)

lemma push_context_idle: "push_context lib want dev s = (b, s') \<Longrightarrow> idle_step s s'"
  by (auto simp: push_context_def split: prod.splits if_splits
      intro: idle_step_trans [OF ccall_idle cdo_idle] ccall_idle)

lemma pop_context_idle: "idle_step s (pop_context lib pushed dev s)"
  by (auto simp: pop_context_def intro: idle_step_trans [OF cdo_idle cdo_if_idle])

lemma pin_host_idle: "pin_host lib n s = (b, s') \<Longrightarrow> idle_step s s'"
  by (auto simp: pin_host_def split: prod.splits if_splits intro: ccall_idle)

section \<open>Lemmas on grouping\<close>

lemma omap_ok_group_step: "omap_ok g \<Longrightarrow> omap_ok (group_step key x g)"
  by (simp add: group_step_def)

lemma mset_concat_omap_put:
  assumes "omap_ok g"
  shows "mset (concat (map snd (omap_put k (case map_of g k of None \<Rightarrow> [x] | Some xs \<Rightarrow> xs @ [x]) g)))
    = add_mset x (mset (concat (map snd g)))"
  using assms
proof (induction g)
  case (Cons e g)
  obtain k' v' where e: "e = (k', v')" by fastforce
  show ?case
  proof (cases "k < k'")
    case True
    with Cons.prems e have "map_of g k = None" by (intro map_of_smaller) auto
    with True e show ?thesis by auto
  next
    case False
    with Cons e show ?thesis by (cases "k = k'") auto
  qed
qed simp

lemma group_fold:
  "omap_ok g \<Longrightarrow> omap_ok (fold (group_step key) xs g) \<and>
    mset (concat (map snd (fold (group_step key) xs g))) = mset xs + mset (concat (map snd g))"
proof (induction xs arbitrary: g)
  case (Cons x xs)
  from Cons.IH [OF omap_ok_group_step [OF Cons.prems]] show ?case
    by (simp add: group_step_def mset_concat_omap_put [OF Cons.prems])
qed simp

lemma group_perm: "mset (concat (map snd (group key xs))) = mset xs"
  using group_fold [of "[]" key xs] by (simp add: group_def)

lemma set_group: "(\<Union>(k, ys) \<in> set (group key xs). set ys) = set xs"
proof -
  have "set (concat (map snd (group key xs))) = set xs" using group_perm by (metis set_mset_mset)
  then show ?thesis by (simp add: split_beta')
qed

lemma group_same:
  assumes "\<forall>x \<in> set xs. key x = k"
  shows "group key xs = (if xs = [] then [] else [(k, xs)])"
proof -
  have "fold (group_step key) ys [(k, zs)] = [(k, zs @ ys)]" if "\<forall>x \<in> set ys. key x = k" for ys zs
    using that by (induction ys arbitrary: zs) (auto simp: group_step_def)
  with assms show ?thesis by (cases xs) (auto simp: group_def group_step_def)
qed

end
