(* ===== verification/Ipc_Track.thy ===== *)
theory Ipc_Track
  imports Ipc_State
begin

text \<open>
  The hooks of \<open>src/ipc_hooks.cpp\<close> around the CUDA virtual memory calls: \<open>cuMemCreate\<close>,
  \<open>cuMemExportToShareableHandle\<close>, \<open>cuMemImportFromShareableHandle\<close>, \<open>cuMemMap\<close>,
  \<open>cuMemUnmap\<close>, \<open>cuMemRelease\<close> and \<open>cuMemSetAccess\<close>.  Each forwards the call and records
  what a checkpoint will have to tear down and rebuild.  The invariant \<open>track_inv\<close> ties the index
  tables to the record vectors and holds in every state the hooks can reach.
\<close>

section \<open>Creating, exporting, importing\<close>

definition hook_cuMemCreate ::
    "cu_lib \<Rightarrow> nat \<Rightarrow> CUmemAllocationProp \<Rightarrow> ipc_state \<Rightarrow> int \<times> nat option \<times> ipc_state" where
  "hook_cuMemCreate lib sz prop s =
     (if \<not> avail lib F_MemCreate then (CUDA_ERROR_NOT_INITIALIZED, None, s)
      else case ccall lib (CuMemCreate sz prop) s of (r, h, s1) \<Rightarrow>
        if r = CUDA_SUCCESS then
          (r, Some h, if requestedHandleTypes prop \<noteq> 0
             then s1\<lparr>g_created_allocs := omap_put h \<lparr>cr_size = sz, cr_prop = prop\<rparr> (g_created_allocs s1)\<rparr> else s1)
        else (r, None, s1))"

definition export_record :: "nat \<Rightarrow> int \<Rightarrow> int \<Rightarrow> ipc_state \<Rightarrow> IpcExportRecord" where
  "export_record h htype fd s =
     (let created = map_of (g_created_allocs s) h;
          va = map_of (g_handle_to_va s) h;
          sz = (case created of Some c \<Rightarrow> cr_size c | None \<Rightarrow> 0)
      in \<lparr>app_local_handle = h, local_handle = h,
          exported_fd = (if htype = CU_MEM_HANDLE_TYPE_POSIX_FILE_DESCRIPTOR then fd else -1),
          handle_type = htype, exp_size = sz,
          mapped_vaddr = (case va of Some p \<Rightarrow> p | None \<Rightarrow> 0),
          mapped_size = (case va of Some _ \<Rightarrow> sz | None \<Rightarrow> 0),
          has_mapping = (va \<noteq> None), access_dev = -1, access_desc = no_desc, has_access = False,
          exp_torn_down = False,
          saved_prop = (case created of Some c \<Rightarrow> cr_prop c | None \<Rightarrow> no_prop),
          has_saved_prop = (created \<noteq> None), saved_data_offset = 0, has_saved_data_offset = False\<rparr>)"

definition hook_cuMemExportToShareableHandle ::
    "cu_lib \<Rightarrow> nat \<Rightarrow> int \<Rightarrow> ipc_state \<Rightarrow> int \<times> nat option \<times> ipc_state" where
  "hook_cuMemExportToShareableHandle lib h htype s =
     (if \<not> avail lib F_MemExport then (CUDA_ERROR_NOT_INITIALIZED, None, s)
      else case ccall lib (CuMemExport h htype) s of (r, fd, s1) \<Rightarrow>
        if r = CUDA_SUCCESS then
          let rec = export_record h htype (int fd) s1;
              s2 = s1\<lparr>g_ipc_exports := g_ipc_exports s1 @ [rec]\<rparr>
          in (r, Some fd, if has_mapping rec
                then s2\<lparr>g_vaddr_to_export_idx := omap_put (mapped_vaddr rec) (length (g_ipc_exports s1)) (g_vaddr_to_export_idx s2)\<rparr>
                else s2)
        else (r, None, s1))"

definition hook_cuMemImportFromShareableHandle ::
    "cu_lib \<Rightarrow> int \<Rightarrow> ipc_state \<Rightarrow> int \<times> nat option \<times> ipc_state" where
  "hook_cuMemImportFromShareableHandle lib fd s =
     (if \<not> avail lib F_MemImport then (CUDA_ERROR_NOT_INITIALIZED, None, s)
      else case ccall lib (CuMemImport fd) s of (r, h, s1) \<Rightarrow>
        if r = CUDA_SUCCESS then (r, Some h, s1\<lparr>g_imported_handles := oset_insert h (g_imported_handles s1)\<rparr>)
        else (r, None, s1))"

section \<open>Mapping\<close>

definition track_import_map :: "nat \<Rightarrow> nat \<Rightarrow> nat \<Rightarrow> ipc_state \<Rightarrow> ipc_state" where
  "track_import_map p sz h s =
     (if h \<in> set (g_imported_handles s) then
        s\<lparr>g_ipc_imports := g_ipc_imports s @ [\<lparr>imp_vaddr = p, imp_size = sz, imp_handle = h, imp_access_dev = -1,
             imp_access_desc = no_desc, all_access = [], imp_torn_down = False\<rparr>],
          g_vaddr_to_import_idx := omap_put p (length (g_ipc_imports s)) (g_vaddr_to_import_idx s)\<rparr>
      else s)"

fun bind_exports :: "nat \<Rightarrow> nat \<Rightarrow> nat \<Rightarrow> nat list \<Rightarrow> ipc_state \<Rightarrow> ipc_state" where
  \<comment> \<open>exports of this handle that had no mapping yet\<close>
  "bind_exports p sz h [] s = s"
| "bind_exports p sz h (i # is) s =
     (let rec = g_ipc_exports s ! i in
      bind_exports p sz h is
        (if local_handle rec = h \<and> \<not> has_mapping rec then
           (upd_exp i (\<lambda>e. e\<lparr>mapped_vaddr := p, mapped_size := sz, has_mapping := True\<rparr>) s)
             \<lparr>g_vaddr_to_export_idx := omap_put p i (g_vaddr_to_export_idx s)\<rparr>
         else s))"

definition track_local_map :: "nat \<Rightarrow> nat \<Rightarrow> nat \<Rightarrow> ipc_state \<Rightarrow> ipc_state" where
  "track_local_map p sz h s =
     (if h \<in> dom (map_of (g_created_allocs s)) then
        let s1 = s\<lparr>g_handle_to_va := omap_put h p (g_handle_to_va s)\<rparr>
        in bind_exports p sz h [0..<length (g_ipc_exports s1)] s1
      else s)"

definition hook_cuMemMap :: "cu_lib \<Rightarrow> nat \<Rightarrow> nat \<Rightarrow> nat \<Rightarrow> ipc_state \<Rightarrow> int \<times> ipc_state" where
  "hook_cuMemMap lib p sz h s =
     (if \<not> avail lib F_MemMap then (CUDA_ERROR_NOT_INITIALIZED, s)
      else case ccall lib (CuMemMap p sz h) s of (r, _, s1) \<Rightarrow>
        if r = CUDA_SUCCESS then (r, track_local_map p sz h (track_import_map p sz h s1)) else (r, s1))"

definition hook_cuMemUnmap :: "cu_lib \<Rightarrow> nat \<Rightarrow> nat \<Rightarrow> ipc_state \<Rightarrow> int \<times> ipc_state" where
  "hook_cuMemUnmap lib p sz s =
     (if \<not> avail lib F_MemUnmap then (CUDA_ERROR_NOT_INITIALIZED, s)
      else case ccall lib (CuMemUnmap p sz) s of (r, _, s1) \<Rightarrow>
        if r = CUDA_SUCCESS then
          case map_of (g_vaddr_to_import_idx s1) p of
            Some i \<Rightarrow> (r, if i < length (g_ipc_imports s1) \<and> \<not> imp_torn_down (g_ipc_imports s1 ! i)
                         then upd_imp i (\<lambda>e. e\<lparr>imp_torn_down := True\<rparr>) s1 else s1)
          | None \<Rightarrow> (r, s1)
        else (r, s1))"

section \<open>Releasing\<close>

definition cleanup_handle :: "nat \<Rightarrow> ipc_state \<Rightarrow> ipc_state" where
  "cleanup_handle h s =
     (let s1 = (case map_of (g_handle_to_va s) h of
          Some va \<Rightarrow> s\<lparr>g_va_access_descs := omap_erase va (g_va_access_descs s),
                       g_vaddr_to_export_idx := omap_erase va (g_vaddr_to_export_idx s),
                       g_handle_to_va := omap_erase h (g_handle_to_va s)\<rparr>
        | None \<Rightarrow> s)
      in s1\<lparr>g_created_allocs := omap_erase h (g_created_allocs s1),
            g_imported_handles := oset_erase h (g_imported_handles s1),
            g_ipc_imports := map (\<lambda>e. if imp_handle e = h then e\<lparr>imp_handle := 0\<rparr> else e) (g_ipc_imports s1),
            g_ipc_exports := map (\<lambda>e. if local_handle e = h then e\<lparr>local_handle := 0\<rparr> else e) (g_ipc_exports s1),
            g_local_allocs := map (\<lambda>e. if loc_handle e = h then e\<lparr>loc_torn_down := True\<rparr> else e) (g_local_allocs s1)\<rparr>)"

definition hook_cuMemRelease :: "cu_lib \<Rightarrow> nat \<Rightarrow> ipc_state \<Rightarrow> int \<times> ipc_state" where
  "hook_cuMemRelease lib h s =
     (if \<not> avail lib F_MemRelease then (CUDA_ERROR_NOT_INITIALIZED, s)
      else let actual = (case map_of (g_rebuilt_handle_alias s) h of Some a \<Rightarrow> a | None \<Rightarrow> h) in
        case ccall lib (CuMemRelease actual) s of (r, _, s1) \<Rightarrow>
        if r = CUDA_SUCCESS then
          let s2 = cleanup_handle h s1;
              s3 = (if actual \<noteq> h then cleanup_handle actual s2 else s2)
          in (r, s3\<lparr>g_rebuilt_handle_alias :=
                 filter (\<lambda>(a, b). \<not> (a = h \<or> a = actual \<or> b = h \<or> b = actual)) (g_rebuilt_handle_alias s3)\<rparr>)
        else (r, s1))"

section \<open>Access descriptors\<close>

fun merge_desc :: "CUmemAccessDesc \<Rightarrow> CUmemAccessDesc list \<Rightarrow> CUmemAccessDesc list" where
  "merge_desc d [] = [d]"
| "merge_desc d (e # es) =
     (if desc_type e = desc_type d \<and> desc_id e = desc_id d then e\<lparr>desc_flags := desc_flags d\<rparr> # es
      else e # merge_desc d es)"

definition merge_descs :: "CUmemAccessDesc list \<Rightarrow> CUmemAccessDesc list \<Rightarrow> CUmemAccessDesc list" where
  "merge_descs ds es = fold merge_desc ds es"

definition hook_cuMemSetAccess ::
    "cu_lib \<Rightarrow> nat \<Rightarrow> nat \<Rightarrow> CUmemAccessDesc list \<Rightarrow> ipc_state \<Rightarrow> int \<times> ipc_state" where
  "hook_cuMemSetAccess lib p sz ds s =
     (if \<not> avail lib F_MemSetAccess then (CUDA_ERROR_NOT_INITIALIZED, s)
      else case ccall lib (CuMemSetAccess p sz ds) s of (r, _, s1) \<Rightarrow>
        if r = CUDA_SUCCESS \<and> ds \<noteq> [] then
          let s2 = s1\<lparr>g_va_access_descs := omap_put p
                 (merge_descs ds (case map_of (g_va_access_descs s1) p of Some es \<Rightarrow> es | None \<Rightarrow> []))
                 (g_va_access_descs s1)\<rparr>;
              s3 = (case map_of (g_vaddr_to_import_idx s2) p of
                      Some i \<Rightarrow> if i < length (g_ipc_imports s2) then
                          upd_imp i (\<lambda>e. e\<lparr>imp_access_desc := hd ds, imp_access_dev := desc_id (hd ds),
                            all_access := merge_descs ds (all_access e)\<rparr>) s2
                        else s2
                    | None \<Rightarrow> s2);
              s4 = (case map_of (g_vaddr_to_export_idx s3) p of
                      Some i \<Rightarrow> if i < length (g_ipc_exports s3) then
                          upd_exp i (\<lambda>e. e\<lparr>access_desc := hd ds, access_dev := desc_id (hd ds),
                            has_access := True\<rparr>) s3
                        else s3
                    | None \<Rightarrow> s3)
          in (r, s4)
        else (r, s1))"

section \<open>Access descriptors form a map\<close>

definition access_map :: "CUmemAccessDesc list \<Rightarrow> (int \<times> int) \<rightharpoonup> int" where
  "access_map es = map_of (map (\<lambda>e. ((desc_type e, desc_id e), desc_flags e)) es)"

definition desc_keys :: "CUmemAccessDesc list \<Rightarrow> (int \<times> int) list" where
  "desc_keys es = map (\<lambda>e. (desc_type e, desc_id e)) es"

lemma desc_keys_simps [simp]:
  "desc_keys [] = []" "desc_keys (e # es) = (desc_type e, desc_id e) # desc_keys es"
  by (simp_all add: desc_keys_def)

lemma access_map_merge: "access_map (merge_desc d es) = (access_map es)((desc_type d, desc_id d) \<mapsto> desc_flags d)"
  by (induction d es rule: merge_desc.induct) (auto simp: access_map_def fun_eq_iff)

lemma desc_keys_merge:
  "set (desc_keys (merge_desc d es)) = insert (desc_type d, desc_id d) (set (desc_keys es))"
  by (induction d es rule: merge_desc.induct) auto

lemma desc_keys_distinct: "distinct (desc_keys es) \<Longrightarrow> distinct (desc_keys (merge_desc d es))"
  by (induction d es rule: merge_desc.induct) (auto simp: desc_keys_merge)

lemma merge_descs_keys: "distinct (desc_keys es) \<Longrightarrow> distinct (desc_keys (merge_descs ds es))"
  unfolding merge_descs_def by (induction ds arbitrary: es) (simp_all add: desc_keys_distinct)

lemma access_map_merges:
  "access_map (merge_descs ds es) = fold (\<lambda>d m. m((desc_type d, desc_id d) \<mapsto> desc_flags d)) ds (access_map es)"
  unfolding merge_descs_def by (induction ds arbitrary: es) (simp_all add: access_map_merge)

section \<open>The tables stay consistent\<close>

definition import_idx_ok :: "ipc_state \<Rightarrow> bool" where
  "import_idx_ok s \<longleftrightarrow> (\<forall>p i. map_of (g_vaddr_to_import_idx s) p = Some i \<longrightarrow>
     i < length (g_ipc_imports s) \<and> imp_vaddr (g_ipc_imports s ! i) = p)"

definition export_idx_ok :: "ipc_state \<Rightarrow> bool" where
  "export_idx_ok s \<longleftrightarrow> (\<forall>p i. map_of (g_vaddr_to_export_idx s) p = Some i \<longrightarrow>
     i < length (g_ipc_exports s) \<and> has_mapping (g_ipc_exports s ! i) \<and> mapped_vaddr (g_ipc_exports s ! i) = p)"

definition descs_ok :: "ipc_state \<Rightarrow> bool" where
  "descs_ok s \<longleftrightarrow> (\<forall>e \<in> set (g_ipc_imports s). distinct (desc_keys (all_access e))) \<and>
     (\<forall>p es. map_of (g_va_access_descs s) p = Some es \<longrightarrow> distinct (desc_keys es))"

definition keys_ok :: "ipc_state \<Rightarrow> bool" where
  "keys_ok s \<longleftrightarrow> omap_ok (g_vaddr_to_import_idx s) \<and> omap_ok (g_vaddr_to_export_idx s) \<and>
     omap_ok (g_created_allocs s) \<and> omap_ok (g_handle_to_va s) \<and> omap_ok (g_va_access_descs s) \<and>
     sorted_wrt (<) (g_imported_handles s) \<and>
     dom (map_of (g_handle_to_va s)) \<subseteq> dom (map_of (g_created_allocs s))"

definition track_inv :: "ipc_state \<Rightarrow> bool" where
  "track_inv s \<longleftrightarrow> import_idx_ok s \<and> export_idx_ok s \<and> descs_ok s \<and> keys_ok s"

lemmas track_defs = track_inv_def import_idx_ok_def export_idx_ok_def descs_ok_def keys_ok_def

lemma track_inv_same: "same_tables s s' \<Longrightarrow> track_inv s' = track_inv s"
  by (simp add: track_defs same_tablesD)

lemma track_inv_call: "ccall lib c s = (r, v, s') \<Longrightarrow> track_inv s' = track_inv s"
  by (rule track_inv_same [OF ccall_tables])

lemma hook_create_inv: "track_inv s \<Longrightarrow> hook_cuMemCreate lib sz prop s = (r, h, s') \<Longrightarrow> track_inv s'"
proof -
  assume inv: "track_inv s" and run: "hook_cuMemCreate lib sz prop s = (r, h, s')"
  obtain r1 h1 s1 where 1: "ccall lib (CuMemCreate sz prop) s = (r1, h1, s1)" by (metis prod_cases3)
  have "track_inv s1" using inv track_inv_call [OF 1] by simp
  moreover from this have "track_inv (s1\<lparr>g_created_allocs := omap_put h1 c (g_created_allocs s1)\<rparr>)" for c
    by (auto simp: track_defs)
  ultimately show ?thesis
    using run inv 1 by (auto simp: hook_cuMemCreate_def split: if_splits)
qed

lemma export_idx_snoc:
  assumes "export_idx_ok s"
  shows "export_idx_ok (s\<lparr>g_ipc_exports := g_ipc_exports s @ [e]\<rparr>)"
    "has_mapping e \<Longrightarrow> export_idx_ok (s\<lparr>g_ipc_exports := g_ipc_exports s @ [e],
       g_vaddr_to_export_idx := omap_put (mapped_vaddr e) (length (g_ipc_exports s)) (g_vaddr_to_export_idx s)\<rparr>)"
  using assms by (auto simp: export_idx_ok_def nth_append intro: less_SucI)

lemma hook_export_inv:
  assumes inv: "track_inv s" and run: "hook_cuMemExportToShareableHandle lib h ty s = (r, fd, s')"
  shows "track_inv s'"
proof -
  obtain r1 f1 s1 where 1: "ccall lib (CuMemExport h ty) s = (r1, f1, s1)" by (metis prod_cases3)
  have i1: "track_inv s1" using inv track_inv_call [OF 1] by simp
  then have "track_inv (s1\<lparr>g_ipc_exports := g_ipc_exports s1 @ [e]\<rparr>)"
    "has_mapping e \<Longrightarrow> track_inv (s1\<lparr>g_ipc_exports := g_ipc_exports s1 @ [e],
       g_vaddr_to_export_idx := omap_put (mapped_vaddr e) (length (g_ipc_exports s1)) (g_vaddr_to_export_idx s1)\<rparr>)" for e
    using export_idx_snoc [of s1 e] by (auto simp: track_inv_def import_idx_ok_def descs_ok_def keys_ok_def)
  then show ?thesis
    using run inv i1 1 by (auto simp: hook_cuMemExportToShareableHandle_def Let_def split: if_splits)
qed

lemma hook_import_inv:
  assumes inv: "track_inv s" and run: "hook_cuMemImportFromShareableHandle lib fd s = (r, h, s')"
  shows "track_inv s'"
proof -
  obtain r1 f1 s1 where 1: "ccall lib (CuMemImport fd) s = (r1, f1, s1)" by (metis prod_cases3)
  have "track_inv s1" using inv track_inv_call [OF 1] by simp
  moreover from this have "track_inv (s1\<lparr>g_imported_handles := oset_insert x (g_imported_handles s1)\<rparr>)" for x
    by (auto simp: track_defs oset_insert_sorted)
  ultimately show ?thesis
    using run inv 1 by (auto simp: hook_cuMemImportFromShareableHandle_def split: if_splits)
qed

lemma track_import_map_inv: "track_inv s \<Longrightarrow> track_inv (track_import_map p sz h s)"
  by (auto simp: track_import_map_def track_defs nth_append intro: less_SucI)

lemma bind_exports_inv:
  "track_inv s \<Longrightarrow> \<forall>i \<in> set is. i < length (g_ipc_exports s) \<Longrightarrow> track_inv (bind_exports p sz h is s)"
proof (induction "is" arbitrary: s)
  case (Cons i "is")
  have "track_inv ((upd_exp i (\<lambda>e. e\<lparr>mapped_vaddr := p, mapped_size := sz, has_mapping := True\<rparr>) s)
      \<lparr>g_vaddr_to_export_idx := omap_put p i (g_vaddr_to_export_idx s)\<rparr>)"
    if "\<not> has_mapping (g_ipc_exports s ! i)"
    using Cons.prems that by (auto simp: track_defs upd_exp_def nth_list_update)
  with Cons show ?case by (auto simp: Let_def upd_exp_def)
qed simp

lemma track_local_map_inv: "track_inv s \<Longrightarrow> track_inv (track_local_map p sz h s)"
proof -
  assume inv: "track_inv s"
  show ?thesis
  proof (cases "h \<in> dom (map_of (g_created_allocs s))")
    case True
    let ?s = "s\<lparr>g_handle_to_va := omap_put h p (g_handle_to_va s)\<rparr>"
    have "track_inv ?s" using inv True by (auto simp: track_defs)
    then have "track_inv (bind_exports p sz h [0..<length (g_ipc_exports ?s)] ?s)"
      by (rule bind_exports_inv) simp
    then show ?thesis using True by (simp add: track_local_map_def Let_def)
  next
    case False
    with inv show ?thesis by (simp add: track_local_map_def)
  qed
qed

lemma hook_map_inv:
  assumes inv: "track_inv s" and run: "hook_cuMemMap lib p sz h s = (r, s')"
  shows "track_inv s'"
proof -
  obtain r1 f1 s1 where 1: "ccall lib (CuMemMap p sz h) s = (r1, f1, s1)" by (metis prod_cases3)
  have "track_inv s1" using inv track_inv_call [OF 1] by simp
  then show ?thesis
    using run inv 1 by (auto simp: hook_cuMemMap_def track_local_map_inv track_import_map_inv split: if_splits)
qed

lemma upd_imp_inv:
  assumes "track_inv s" "\<And>e. imp_vaddr (f e) = imp_vaddr e"
    "\<And>e. distinct (desc_keys (all_access e)) \<Longrightarrow> distinct (desc_keys (all_access (f e)))"
  shows "track_inv (upd_imp i f s)"
proof (cases "i < length (g_ipc_imports s)")
  case True
  have all: "\<forall>e \<in> set (g_ipc_imports s). distinct (desc_keys (all_access e))"
    using assms(1) by (simp add: track_defs)
  with True have "distinct (desc_keys (all_access (f (g_ipc_imports s ! i))))"
    using assms(3) nth_mem by blast
  with all have "distinct (desc_keys (all_access e))" if "e \<in> set ((g_ipc_imports s)[i := f (g_ipc_imports s ! i)])" for e
    using that set_update_subset_insert by fastforce
  moreover have "imp_vaddr ((g_ipc_imports s)[i := f (g_ipc_imports s ! i)] ! j) = imp_vaddr (g_ipc_imports s ! j)" for j
    by (rule list_update_field) (simp add: assms(2))
  ultimately show ?thesis using assms(1) by (simp add: track_defs upd_imp_def)
qed (use assms(1) in \<open>simp add: upd_imp_def list_update_beyond\<close>)

lemma upd_exp_inv:
  assumes "track_inv s" "\<And>e. mapped_vaddr (f e) = mapped_vaddr e" "\<And>e. has_mapping (f e) = has_mapping e"
  shows "track_inv (upd_exp i f s)"
proof -
  have "mapped_vaddr ((g_ipc_exports s)[i := f (g_ipc_exports s ! i)] ! j) = mapped_vaddr (g_ipc_exports s ! j)"
    "has_mapping ((g_ipc_exports s)[i := f (g_ipc_exports s ! i)] ! j) = has_mapping (g_ipc_exports s ! j)" for j
    by (rule list_update_field; simp add: assms(2,3))+
  with assms(1) show ?thesis by (simp add: track_defs upd_exp_def)
qed

lemma hook_unmap_inv:
  assumes inv: "track_inv s" and run: "hook_cuMemUnmap lib p sz s = (r, s')"
  shows "track_inv s'"
proof -
  obtain r1 f1 s1 where 1: "ccall lib (CuMemUnmap p sz) s = (r1, f1, s1)" by (metis prod_cases3)
  have "track_inv s1" using inv track_inv_call [OF 1] by simp
  then show ?thesis
    using run inv 1 by (auto simp: hook_cuMemUnmap_def upd_imp_inv split: if_splits option.splits)
qed

lemma cleanup_handle_inv: "track_inv s \<Longrightarrow> track_inv (cleanup_handle h s)"
  by (auto simp: cleanup_handle_def Let_def track_defs oset_erase_sorted split: option.splits if_splits)

lemma hook_release_inv:
  assumes inv: "track_inv s" and run: "hook_cuMemRelease lib h s = (r, s')"
  shows "track_inv s'"
proof -
  define a where "a = (case map_of (g_rebuilt_handle_alias s) h of Some a \<Rightarrow> a | None \<Rightarrow> h)"
  obtain r1 f1 s1 where 1: "ccall lib (CuMemRelease a) s = (r1, f1, s1)" by (metis prod_cases3)
  have i1: "track_inv s1" using inv track_inv_call [OF 1] by simp
  have "track_inv (s2\<lparr>g_rebuilt_handle_alias := t\<rparr>) = track_inv s2" for s2 t
    by (simp add: track_defs)
  then show ?thesis
    using run inv 1 i1 by (auto simp: hook_cuMemRelease_def a_def [symmetric] Let_def cleanup_handle_inv split: if_splits)
qed

lemma hook_access_inv:
  assumes inv: "track_inv s" and run: "hook_cuMemSetAccess lib p sz ds s = (r, s')"
  shows "track_inv s'"
proof -
  obtain r1 f1 s1 where 1: "ccall lib (CuMemSetAccess p sz ds) s = (r1, f1, s1)" by (metis prod_cases3)
  have i1: "track_inv s1" using inv track_inv_call [OF 1] by simp
  let ?es = "merge_descs ds (case map_of (g_va_access_descs s1) p of Some es \<Rightarrow> es | None \<Rightarrow> [])"
  have "distinct (desc_keys ?es)"
    using i1 by (auto simp: track_defs intro!: merge_descs_keys split: option.split)
  then have "track_inv (s1\<lparr>g_va_access_descs := omap_put p ?es (g_va_access_descs s1)\<rparr>)"
    using i1 by (auto simp: track_defs)
  then show ?thesis
    using run inv 1 i1
    by (auto simp: hook_cuMemSetAccess_def Let_def upd_imp_inv upd_exp_inv merge_descs_keys
        split: if_splits option.splits)
qed

section \<open>Reachable states\<close>

inductive track_step :: "cu_lib \<Rightarrow> ipc_state \<Rightarrow> ipc_state \<Rightarrow> bool" for lib where
  create: "hook_cuMemCreate lib sz prop s = (r, h, s') \<Longrightarrow> track_step lib s s'"
| export: "hook_cuMemExportToShareableHandle lib h ty s = (r, fd, s') \<Longrightarrow> track_step lib s s'"
| import: "hook_cuMemImportFromShareableHandle lib f s = (r, h, s') \<Longrightarrow> track_step lib s s'"
| map: "hook_cuMemMap lib p sz h s = (r, s') \<Longrightarrow> track_step lib s s'"
| unmap: "hook_cuMemUnmap lib p sz s = (r, s') \<Longrightarrow> track_step lib s s'"
| release: "hook_cuMemRelease lib h s = (r, s') \<Longrightarrow> track_step lib s s'"
| access: "hook_cuMemSetAccess lib p sz ds s = (r, s') \<Longrightarrow> track_step lib s s'"

inductive_cases track_stepE: "track_step lib s s'"

definition ipc_start :: ipc_state where
  "ipc_start = \<lparr>g_ipc_imports = [], g_ipc_exports = [], g_imported_handles = [], g_vaddr_to_import_idx = [],
     g_created_allocs = [], g_handle_to_va = [], g_vaddr_to_export_idx = [], g_rebuilt_handle_alias = [],
     g_local_allocs = [], g_va_access_descs = [], gmem = \<lambda>_. 0, hbuf = \<lambda>_. 0, cu_calls = []\<rparr>"

lemma track_step_inv: "track_inv s \<Longrightarrow> track_step lib s s' \<Longrightarrow> track_inv s'"
  by (elim track_stepE)
    (blast intro: hook_create_inv hook_export_inv hook_import_inv hook_map_inv hook_unmap_inv
      hook_release_inv hook_access_inv)+

lemma track_reach_inv:
  assumes "(track_step lib)\<^sup>*\<^sup>* ipc_start s"
  shows "track_inv s"
  using assms
proof (induction rule: rtranclp_induct)
  case base
  show ?case by (simp add: track_defs ipc_start_def)
qed (rule track_step_inv)

definition obliging_lib :: cu_lib where
  \<comment> \<open>every call succeeds; handles and descriptors are numbered by the call history\<close>
  "obliging_lib = \<lparr>cu = \<lambda>c h. (0, Suc (length h)), avail = \<lambda>_. True, cu_junk = \<lambda>_ _. 255\<rparr>"

section \<open>Properties\<close>

text \<open>C28: in every state the hooks can reach, whatever the driver answers, the index of imports by
  address and the index of exports by address point at records of exactly that address, every
  tracked address is that of a tracked allocation, and no list of access descriptors names a
  location twice.\<close>

theorem tracking_consistent:
  assumes "(track_step lib)\<^sup>*\<^sup>* ipc_start s"
  shows "(\<forall>p i. map_of (g_vaddr_to_import_idx s) p = Some i \<longrightarrow>
       i < length (g_ipc_imports s) \<and> imp_vaddr (g_ipc_imports s ! i) = p) \<and>
    (\<forall>p i. map_of (g_vaddr_to_export_idx s) p = Some i \<longrightarrow>
       i < length (g_ipc_exports s) \<and> has_mapping (g_ipc_exports s ! i) \<and> mapped_vaddr (g_ipc_exports s ! i) = p) \<and>
    dom (map_of (g_handle_to_va s)) \<subseteq> dom (map_of (g_created_allocs s)) \<and>
    (\<forall>e \<in> set (g_ipc_imports s). distinct (desc_keys (all_access e))) \<and>
    (\<forall>p es. map_of (g_va_access_descs s) p = Some es \<longrightarrow> distinct (desc_keys es))"
  using track_reach_inv [OF assms] by (simp add: track_defs)

theorem tracking_consistent_witness:
  "let s1 = snd (snd (hook_cuMemImportFromShareableHandle obliging_lib 7 ipc_start));
       s2 = snd (hook_cuMemMap obliging_lib 4096 64 1 s1);
       s3 = snd (hook_cuMemMap obliging_lib 8192 64 1 s2)
   in (track_step obliging_lib)\<^sup>*\<^sup>* ipc_start s3 \<and> map_of (g_vaddr_to_import_idx s3) 8192 = Some 1 \<and>
      1 < length (g_ipc_imports s3) \<and> imp_vaddr (g_ipc_imports s3 ! 1) = 8192"
proof -
  let ?s1 = "snd (snd (hook_cuMemImportFromShareableHandle obliging_lib 7 ipc_start))"
  let ?s2 = "snd (hook_cuMemMap obliging_lib 4096 64 1 ?s1)"
  let ?s3 = "snd (hook_cuMemMap obliging_lib 8192 64 1 ?s2)"
  have "track_step obliging_lib ipc_start ?s1"
    by (rule track_step.import [of _ 7 _ "fst (hook_cuMemImportFromShareableHandle obliging_lib 7 ipc_start)"
        "fst (snd (hook_cuMemImportFromShareableHandle obliging_lib 7 ipc_start))"]) simp
  moreover have "track_step obliging_lib ?s1 ?s2"
    by (rule track_step.map [of _ 4096 64 1 _ "fst (hook_cuMemMap obliging_lib 4096 64 1 ?s1)"]) simp
  moreover have "track_step obliging_lib ?s2 ?s3"
    by (rule track_step.map [of _ 8192 64 1 _ "fst (hook_cuMemMap obliging_lib 8192 64 1 ?s2)"]) simp
  ultimately have r: "(track_step obliging_lib)\<^sup>*\<^sup>* ipc_start ?s3" by simp
  have i: "map_of (g_vaddr_to_import_idx ?s3) 8192 = Some 1"
    by (simp add: hook_cuMemImportFromShareableHandle_def hook_cuMemMap_def obliging_lib_def ccall_def native_def
        ipc_start_def track_import_map_def track_local_map_def)
  have "1 < length (g_ipc_imports ?s3) \<and> imp_vaddr (g_ipc_imports ?s3 ! 1) = 8192"
    using tracking_consistent [OF r] i by blast
  with r i show ?thesis unfolding Let_def by blast
qed

text \<open>A successful \<open>cuMemSetAccess\<close> updates the descriptors recorded for the address as a map from
  location (type and number together) to flags: the last flags given for a location win, other
  locations of that address and other addresses keep theirs.  In particular a device and a host NUMA
  node of the same number stay apart.\<close>

theorem access_descriptors_recorded:
  assumes "hook_cuMemSetAccess lib p sz ds s = (CUDA_SUCCESS, s')" "ds \<noteq> []" "track_inv s"
  shows "(\<exists>es. map_of (g_va_access_descs s') p = Some es \<and> distinct (desc_keys es) \<and>
      access_map es = fold (\<lambda>d m. m((desc_type d, desc_id d) \<mapsto> desc_flags d)) ds
        (case map_of (g_va_access_descs s) p of Some es0 \<Rightarrow> access_map es0 | None \<Rightarrow> Map.empty)) \<and>
    (\<forall>q. q \<noteq> p \<longrightarrow> map_of (g_va_access_descs s') q = map_of (g_va_access_descs s) q)"
proof -
  obtain r1 f1 s1 where 1: "ccall lib (CuMemSetAccess p sz ds) s = (r1, f1, s1)" by (metis prod_cases3)
  let ?es = "merge_descs ds (case map_of (g_va_access_descs s) p of Some es \<Rightarrow> es | None \<Rightarrow> [])"
  have m: "map_of (g_va_access_descs s') = (map_of (g_va_access_descs s))(p \<mapsto> ?es)"
    using assms(1,2) 1 same_tablesD(10) [OF ccall_tables [OF 1]]
    by (auto simp: hook_cuMemSetAccess_def Let_def upd_imp_def upd_exp_def split: if_splits option.splits)
  have "distinct (desc_keys ?es)"
    using assms(3) by (auto simp: track_defs intro!: merge_descs_keys split: option.split)
  moreover have "access_map [] = Map.empty" by (simp add: access_map_def)
  ultimately show ?thesis
    using m by (simp add: access_map_merges split: option.split)
qed

theorem access_descriptors_recorded_witness:
  "\<exists>s' es. hook_cuMemSetAccess obliging_lib 4096 64 [\<lparr>desc_type = 1, desc_id = 0, desc_flags = 3\<rparr>,
       \<lparr>desc_type = 3, desc_id = 0, desc_flags = 1\<rparr>] ipc_start = (CUDA_SUCCESS, s') \<and>
     map_of (g_va_access_descs s') 4096 = Some es \<and> access_map es (1, 0) = Some 3 \<and> access_map es (3, 0) = Some 1"
proof -
  let ?ds = "[\<lparr>desc_type = 1, desc_id = 0, desc_flags = 3\<rparr>, \<lparr>desc_type = 3, desc_id = 0, desc_flags = 1\<rparr>]"
  obtain s' where 1: "hook_cuMemSetAccess obliging_lib 4096 64 ?ds ipc_start = (CUDA_SUCCESS, s')"
    by (simp add: hook_cuMemSetAccess_def obliging_lib_def ccall_def native_def Let_def split: option.split)
  have "track_inv ipc_start" by (simp add: track_defs ipc_start_def)
  from access_descriptors_recorded [OF 1 _ this] 1 show ?thesis
    by (auto simp: ipc_start_def)
qed

lemma cleanup_handle_gone:
  assumes "track_inv s" "0 < h"
  shows "h \<notin> dom (map_of (g_created_allocs (cleanup_handle h s)))"
    "h \<notin> set (g_imported_handles (cleanup_handle h s))"
    "h \<notin> imp_handle ` set (g_ipc_imports (cleanup_handle h s))"
    "h \<notin> local_handle ` set (g_ipc_exports (cleanup_handle h s))"
    "cu_calls (cleanup_handle h s) = cu_calls s"
    "g_rebuilt_handle_alias (cleanup_handle h s) = g_rebuilt_handle_alias s"
  using assms
  by (auto simp: cleanup_handle_def Let_def track_defs set_oset_erase split: option.splits if_splits)

lemma cleanup_handle_shrinks:
  assumes "track_inv s"
  shows "dom (map_of (g_created_allocs (cleanup_handle h s))) \<subseteq> dom (map_of (g_created_allocs s))"
    "set (g_imported_handles (cleanup_handle h s)) \<subseteq> set (g_imported_handles s)"
    "imp_handle ` set (g_ipc_imports (cleanup_handle h s)) \<subseteq> insert 0 (imp_handle ` set (g_ipc_imports s))"
    "local_handle ` set (g_ipc_exports (cleanup_handle h s)) \<subseteq> insert 0 (local_handle ` set (g_ipc_exports s))"
  using assms
  by (auto simp: cleanup_handle_def Let_def track_defs set_oset_erase split: option.splits if_splits)

text \<open>Releasing a handle releases what the application's handle stands for: when a rebuild gave the
  allocation a new handle, the driver is asked to release that one, and afterwards neither handle is
  tracked as a created, imported or aliased allocation nor held by an import or export record.\<close>

theorem release_follows_alias:
  assumes "hook_cuMemRelease lib h s = (CUDA_SUCCESS, s')" "track_inv s"
    and "a = (case map_of (g_rebuilt_handle_alias s) h of Some x \<Rightarrow> x | None \<Rightarrow> h)" "0 < h" "0 < a"
  shows "(\<exists>r v. cu_calls s' = cu_calls s @ [(CuMemRelease a, r, v)]) \<and>
    {h, a} \<inter> dom (map_of (g_created_allocs s')) = {} \<and> {h, a} \<inter> set (g_imported_handles s') = {} \<and>
    {h, a} \<inter> fst ` set (g_rebuilt_handle_alias s') = {} \<and>
    {h, a} \<inter> imp_handle ` set (g_ipc_imports s') = {} \<and> {h, a} \<inter> local_handle ` set (g_ipc_exports s') = {}"
proof -
  obtain r1 f1 s1 where 1: "ccall lib (CuMemRelease a) s = (r1, f1, s1)" by (metis prod_cases3)
  have i1: "track_inv s1" using assms(2) track_inv_call [OF 1] by simp
  have c: "cu_calls s1 = cu_calls s @ [(CuMemRelease a, r1, f1)]"
    using 1 by (auto simp: ccall_def native_def split: prod.splits)
  note i2 = cleanup_handle_inv [OF i1, of h]
  let ?s2 = "cleanup_handle h s1"
  let ?s3 = "if a \<noteq> h then cleanup_handle a ?s2 else ?s2"
  have s': "s' = ?s3\<lparr>g_rebuilt_handle_alias :=
      filter (\<lambda>(x, y). \<not> (x = h \<or> x = a \<or> y = h \<or> y = a)) (g_rebuilt_handle_alias ?s3)\<rparr>"
    using assms(1) 1 by (auto simp: hook_cuMemRelease_def assms(3) [symmetric] Let_def split: if_splits)
  note g = cleanup_handle_gone [OF i1 assms(4)] cleanup_handle_gone [OF i2 assms(5)] cleanup_handle_shrinks [OF i2, of a]
  have gone: "{h, a} \<inter> dom (map_of (g_created_allocs ?s3)) = {}" "{h, a} \<inter> set (g_imported_handles ?s3) = {}"
      "{h, a} \<inter> imp_handle ` set (g_ipc_imports ?s3) = {}" "{h, a} \<inter> local_handle ` set (g_ipc_exports ?s3) = {}"
    by (cases "a = h"; use g(1-4,7-10,13-) assms(4) in auto)+
  have "cu_calls ?s3 = cu_calls s1" using g(5,11) by simp
  moreover have "{h, a} \<inter> fst ` set (filter (\<lambda>(x, y). \<not> (x = h \<or> x = a \<or> y = h \<or> y = a)) t) = {}" for t
    by auto
  ultimately show ?thesis using gone c unfolding s' by simp
qed

definition aliased_state :: ipc_state where
  "aliased_state = ipc_start\<lparr>g_created_allocs := [(9, \<lparr>cr_size = 64, cr_prop = no_prop\<rparr>)],
     g_handle_to_va := [(9, 4096)], g_rebuilt_handle_alias := [(5, 9)]\<rparr>"

theorem release_follows_alias_witness:
  "\<exists>s' r v. hook_cuMemRelease obliging_lib 5 aliased_state = (CUDA_SUCCESS, s') \<and>
     cu_calls s' = [(CuMemRelease 9, r, v)] \<and> 9 \<notin> dom (map_of (g_created_allocs s'))"
proof -
  obtain s' where 1: "hook_cuMemRelease obliging_lib 5 aliased_state = (CUDA_SUCCESS, s')"
    by (simp add: hook_cuMemRelease_def obliging_lib_def ccall_def native_def Let_def)
  have "track_inv aliased_state" by (auto simp: track_defs aliased_state_def ipc_start_def)
  from release_follows_alias [OF 1 this, of 9] 1 show ?thesis
    by (auto simp: aliased_state_def ipc_start_def)
qed

end
