(* ===== verification/Ipc_Export.thy ===== *)
theory Ipc_Export
  imports Ipc_Track
begin

text \<open>
  Checkpoint and restore of the allocations a process exports (\<open>src/ipc_hooks.cpp\<close>):
  \<open>ipc_get_export_data_size\<close>, \<open>ipc_save_and_teardown_all_exports\<close> and
  \<open>ipc_rebuild_and_restore_all_exports\<close>.  Saving visits the exports device by device and records
  for each the offset of its data in the host buffer; rebuilding reads it back from there.  The
  main theorem is that a teardown followed by a rebuild gives back the contents of every export.
\<close>

section \<open>Saving\<close>

definition exp_active :: "IpcExportRecord \<Rightarrow> bool" where
  "exp_active e \<longleftrightarrow> \<not> exp_torn_down e \<and> has_mapping e \<and> 0 < mapped_size e"

definition ipc_get_export_data_size :: "ipc_state \<Rightarrow> nat" where
  "ipc_get_export_data_size s = sum_list (map mapped_size (filter exp_active (g_ipc_exports s)))"

definition exp_device :: "IpcExportRecord \<Rightarrow> int" where
  "exp_device e = (if has_saved_prop e then location_id (saved_prop e) else -1)"

definition device_exports :: "ipc_state \<Rightarrow> (int \<times> nat list) list" where
  "device_exports s = group (\<lambda>i. exp_device (g_ipc_exports s ! i))
     (filter (\<lambda>i. exp_active (g_ipc_exports s ! i)) [0..<length (g_ipc_exports s)])"

fun save_exports :: "cu_lib \<Rightarrow> bool \<Rightarrow> nat list \<Rightarrow> nat \<Rightarrow> ipc_state \<Rightarrow> bool \<times> nat \<times> ipc_state" where
  "save_exports lib async [] off s = (True, off, s)"
| "save_exports lib async (i # is) off s =
     (let s1 = upd_exp i (\<lambda>e. e\<lparr>saved_data_offset := off, has_saved_data_offset := True\<rparr>) s;
          rec = g_ipc_exports s1 ! i;
          copy = (if async then CuMemcpyDtoHAsync else CuMemcpyDtoH)
      in case ccall lib (copy off (mapped_vaddr rec) (mapped_size rec)) s1 of (r, _, s2) \<Rightarrow>
           if r \<noteq> 0 then (False, off, s2) else save_exports lib async is (off + mapped_size rec) s2)"

definition save_device :: "cu_lib \<Rightarrow> bool \<Rightarrow> int \<times> nat list \<Rightarrow> nat \<Rightarrow> ipc_state \<Rightarrow> bool \<times> nat \<times> ipc_state" where
  "save_device lib async g off s =
     (case g of (dev, idxs) \<Rightarrow>
        case push_context lib (0 \<le> dev) dev s of (pushed, s1) \<Rightarrow>
        case save_exports lib async idxs off (cdo_if async lib CuStreamCreate s1) of (ok, off', s2) \<Rightarrow>
          let s3 = cdo_if async lib CuStreamDestroy (cdo_if (async \<and> ok) lib CuStreamSynchronize s2)
          in (ok, off', pop_context lib pushed dev s3))"

fun save_devices ::
    "cu_lib \<Rightarrow> bool \<Rightarrow> (int \<times> nat list) list \<Rightarrow> nat \<Rightarrow> ipc_state \<Rightarrow> bool \<times> nat \<times> ipc_state" where
  "save_devices lib async [] off s = (True, off, s)"
| "save_devices lib async (g # gs) off s =
     (case save_device lib async g off s of (ok, off', s1) \<Rightarrow>
        if \<not> ok then (False, off', s1) else save_devices lib async gs off' s1)"

section \<open>Teardown\<close>

fun close_export_fds :: "cu_lib \<Rightarrow> nat list \<Rightarrow> ipc_state \<Rightarrow> ipc_state" where
  "close_export_fds lib [] s = s"
| "close_export_fds lib (i # is) s =
     (let rec = g_ipc_exports s ! i in
      close_export_fds lib is
        (if \<not> exp_torn_down rec \<and> 0 \<le> exported_fd rec
         then upd_exp i (\<lambda>e. e\<lparr>exported_fd := -1\<rparr>) (cdo lib (CloseFd (exported_fd rec)) s) else s))"

fun teardown_exports :: "cu_lib \<Rightarrow> nat list \<Rightarrow> nat \<Rightarrow> ipc_state \<Rightarrow> nat \<times> ipc_state" where
  "teardown_exports lib [] torn s = (torn, s)"
| "teardown_exports lib (i # is) torn s =
     (let rec = g_ipc_exports s ! i in
      if exp_torn_down rec \<or> \<not> has_mapping rec then teardown_exports lib is torn s
      else let s1 = cdo_if (avail lib F_MemUnmap) lib (CuMemUnmap (mapped_vaddr rec) (mapped_size rec)) s;
               s2 = cdo lib (CuMemRelease (local_handle rec)) s1
           in teardown_exports lib is (torn + 1)
                (upd_exp i (\<lambda>e. e\<lparr>exp_torn_down := True, local_handle := 0\<rparr>) s2))"

definition ipc_save_and_teardown_all_exports :: "cu_lib \<Rightarrow> nat \<Rightarrow> ipc_state \<Rightarrow> int \<times> ipc_state" where
  "ipc_save_and_teardown_all_exports lib buf_size s =
     (if \<not> avail lib F_MemRelease \<or> \<not> avail lib F_MemcpyDtoH then (-1, s)
      else let groups = device_exports s;
               total_needed = sum_list (map (\<lambda>(_, idxs). sum_list (map (\<lambda>i. mapped_size (g_ipc_exports s ! i)) idxs)) groups)
      in if buf_size < total_needed then (-1, s)
      else case pin_host lib total_needed s of (pinned, s1) \<Rightarrow>
        let async = (pinned \<and> streams lib F_MemcpyDtoHAsync) in
        case save_devices lib async groups 0 s1 of (ok, _, s2) \<Rightarrow>
          if \<not> ok then (-1, cdo_if pinned lib CuMemHostUnregister s2)
          else let s3 = cdo_if (pinned \<and> avail lib F_MemHostUnregister) lib CuMemHostUnregister s2;
                   idxs = [0..<length (g_ipc_exports s3)];
                   s4 = close_export_fds lib idxs s3
               in case teardown_exports lib idxs 0 s4 of (torn, s5) \<Rightarrow> (int torn, s5))"

section \<open>Rebuild\<close>

fun replay_access :: "cu_lib \<Rightarrow> nat \<Rightarrow> nat \<Rightarrow> CUmemAccessDesc list \<Rightarrow> ipc_state \<Rightarrow> ipc_state" where
  "replay_access lib p n [] s = s"
| "replay_access lib p n (d # ds) s = replay_access lib p n ds (cdo lib (CuMemSetAccess p n [d]) s)"

definition export_access :: "cu_lib \<Rightarrow> IpcExportRecord \<Rightarrow> ipc_state \<Rightarrow> ipc_state" where
  "export_access lib rec s =
     (let p = mapped_vaddr rec; n = mapped_size rec;
          device = \<lparr>desc_type = CU_MEM_LOCATION_TYPE_DEVICE, desc_id = location_id (saved_prop rec),
                    desc_flags = CU_MEM_ACCESS_FLAGS_PROT_READWRITE\<rparr>
      in case map_of (g_va_access_descs s) p of
           Some (d # ds) \<Rightarrow> replay_access lib p n (d # ds) s
         | _ \<Rightarrow> cdo lib (CuMemSetAccess p n [if has_access rec then access_desc rec else device]) s)"

record RebuildEntry =
  export_idx :: nat
  new_handle :: nat
  data_offset :: nat

fun rebuild_allocs ::
    "cu_lib \<Rightarrow> nat list \<Rightarrow> RebuildEntry list \<Rightarrow> nat \<Rightarrow> ipc_state \<Rightarrow> RebuildEntry list \<times> nat \<times> ipc_state" where
  \<comment> \<open>phase A: create, map at the old address, allow access\<close>
  "rebuild_allocs lib [] es off s = (es, off, s)"
| "rebuild_allocs lib (i # is) es off s =
     (let rec = g_ipc_exports s ! i in
      if \<not> exp_torn_down rec \<or> \<not> has_mapping rec \<or> mapped_size rec = 0 \<or> \<not> has_saved_prop rec
      then rebuild_allocs lib is es off s
      else case ccall lib (CuMemCreate (mapped_size rec) (saved_prop rec)) s of (r, h, s1) \<Rightarrow>
        if r \<noteq> 0 then rebuild_allocs lib is es off s1
        else case ccall lib (CuMemMap (mapped_vaddr rec) (mapped_size rec) h) s1 of (r, _, s2) \<Rightarrow>
          if r \<noteq> 0 then rebuild_allocs lib is es off (cdo lib (CuMemRelease h) s2)
          else let s3 = export_access lib rec s2;
                   o1 = (if has_saved_data_offset rec then saved_data_offset rec else off)
               in rebuild_allocs lib is (es @ [\<lparr>export_idx = i, new_handle = h, data_offset = o1\<rparr>])
                    (max off (o1 + mapped_size rec)) s3)"

fun restore_entries :: "cu_lib \<Rightarrow> bool \<Rightarrow> nat \<Rightarrow> RebuildEntry list \<Rightarrow> ipc_state \<Rightarrow> ipc_state" where
  "restore_entries lib async buf_size [] s = s"
| "restore_entries lib async buf_size (e # es) s =
     (let rec = g_ipc_exports s ! export_idx e;
          copy = (if async then CuMemcpyHtoDAsync else CuMemcpyHtoD)
      in restore_entries lib async buf_size es
           (cdo_if (data_offset e + mapped_size rec \<le> buf_size) lib
              (copy (mapped_vaddr rec) (data_offset e) (mapped_size rec)) s))"

fun restore_devices ::
    "cu_lib \<Rightarrow> bool \<Rightarrow> nat \<Rightarrow> (int \<times> RebuildEntry list) list \<Rightarrow> ipc_state \<Rightarrow> ipc_state" where
  \<comment> \<open>phase B: copy the saved data back, device by device\<close>
  "restore_devices lib async buf_size [] s = s"
| "restore_devices lib async buf_size ((dev, es) # gs) s =
     (case push_context lib True dev s of (pushed, s1) \<Rightarrow>
        let s2 = restore_entries lib async buf_size es (cdo_if async lib CuStreamCreate s1);
            s3 = cdo_if async lib CuStreamDestroy (cdo_if async lib CuStreamSynchronize s2)
        in restore_devices lib async buf_size gs (pop_context lib pushed dev s3))"

definition reexport :: "cu_lib \<Rightarrow> RebuildEntry \<Rightarrow> ipc_state \<Rightarrow> ipc_state" where
  "reexport lib e s =
     (let i = export_idx e; h = new_handle e; rec = g_ipc_exports s ! i;
          (fd, s1) = (if avail lib F_MemExport then
                        case ccall lib (CuMemExport h (handle_type rec)) s of (r, v, s1) \<Rightarrow>
                          (if r \<noteq> 0 then -1 else int v, s1)
                      else (-1, s));
          s2 = (if app_local_handle rec \<noteq> 0 \<and> app_local_handle rec \<noteq> h
                then s1\<lparr>g_rebuilt_handle_alias := omap_put (app_local_handle rec) h (g_rebuilt_handle_alias s1)\<rparr>
                else s1);
          s3 = upd_exp i (\<lambda>x. x\<lparr>local_handle := h, exported_fd := fd, exp_torn_down := False\<rparr>) s2
      in s3\<lparr>g_created_allocs := omap_put h \<lparr>cr_size = mapped_size rec, cr_prop = saved_prop rec\<rparr> (g_created_allocs s3),
            g_handle_to_va := omap_put h (mapped_vaddr rec) (g_handle_to_va s3)\<rparr>)"

definition ipc_rebuild_and_restore_all_exports :: "cu_lib \<Rightarrow> nat \<Rightarrow> ipc_state \<Rightarrow> int \<times> ipc_state" where
  "ipc_rebuild_and_restore_all_exports lib buf_size s =
     (if \<not> avail lib F_MemCreate \<or> \<not> avail lib F_MemMap \<or> \<not> avail lib F_MemcpyHtoD \<or> \<not> avail lib F_MemAddressReserve
      then (-1, s)
      else case rebuild_allocs lib [0..<length (g_ipc_exports s)] [] 0 s of (es, off, s1) \<Rightarrow>
        let groups = group (\<lambda>e. location_id (saved_prop (g_ipc_exports s1 ! export_idx e))) es in
        case pin_host lib off s1 of (pinned, s2) \<Rightarrow>
        let async = (pinned \<and> streams lib F_MemcpyHtoDAsync);
            s3 = restore_devices lib async buf_size groups s2;
            s4 = cdo_if (pinned \<and> avail lib F_MemHostUnregister) lib CuMemHostUnregister s3
        in (int (length es), fold (reexport lib) (concat (map snd groups)) s4))"

section \<open>Saving writes every export to its recorded offset\<close>

definition lib_ok :: "cu_lib \<Rightarrow> bool" where
  \<comment> \<open>the driver functions exist and succeed\<close>
  "lib_ok lib \<longleftrightarrow> (\<forall>f. avail lib f) \<and> (\<forall>c h. fst (cu lib c h) = 0)"

lemma lib_ok_rc: "lib_ok lib \<Longrightarrow> ccall lib c s = (r, v, s') \<Longrightarrow> r = 0"
  using ccall_rc [of lib c s r v s'] by (simp add: lib_ok_def)

definition geometry :: "IpcExportRecord \<Rightarrow> nat \<times> nat \<times> bool \<times> CUmemAllocationProp \<times> bool" where
  "geometry e = (mapped_vaddr e, mapped_size e, has_mapping e, saved_prop e, has_saved_prop e)"

definition saved :: "IpcExportRecord list \<Rightarrow> mem \<Rightarrow> nat set \<Rightarrow> nat \<Rightarrow> ipc_state \<Rightarrow> bool" where
  \<comment> \<open>the host buffer holds, below \<open>B\<close>, the bytes \<open>G\<close> had in the exports \<open>A\<close>, at their recorded offsets\<close>
  "saved E G A B s \<longleftrightarrow> map geometry (g_ipc_exports s) = map geometry E \<and>
     (\<forall>i \<in> A. i < length E \<and> has_saved_data_offset (g_ipc_exports s ! i) \<and>
        saved_data_offset (g_ipc_exports s ! i) + mapped_size (E ! i) \<le> B \<and>
        (\<forall>k < mapped_size (E ! i). hbuf s (saved_data_offset (g_ipc_exports s ! i) + k) = G (mapped_vaddr (E ! i) + k)))"

lemma saved_len: "saved E G A B s \<Longrightarrow> length (g_ipc_exports s) = length E"
  by (metis length_map saved_def)

lemma saved_geo:
  assumes "saved E G A B s" "i < length E"
  shows "mapped_vaddr (g_ipc_exports s ! i) = mapped_vaddr (E ! i)"
    "mapped_size (g_ipc_exports s ! i) = mapped_size (E ! i)"
    "has_mapping (g_ipc_exports s ! i) = has_mapping (E ! i)"
    "saved_prop (g_ipc_exports s ! i) = saved_prop (E ! i)"
    "has_saved_prop (g_ipc_exports s ! i) = has_saved_prop (E ! i)"
proof -
  have "geometry (g_ipc_exports s ! i) = geometry (E ! i)"
    using assms saved_len [OF assms(1)] by (metis nth_map saved_def)
  then show "mapped_vaddr (g_ipc_exports s ! i) = mapped_vaddr (E ! i)"
    "mapped_size (g_ipc_exports s ! i) = mapped_size (E ! i)"
    "has_mapping (g_ipc_exports s ! i) = has_mapping (E ! i)"
    "saved_prop (g_ipc_exports s ! i) = saved_prop (E ! i)"
    "has_saved_prop (g_ipc_exports s ! i) = has_saved_prop (E ! i)"
    by (simp_all add: geometry_def)
qed

lemma saved_cong: "hbuf s' = hbuf s \<Longrightarrow> g_ipc_exports s' = g_ipc_exports s \<Longrightarrow> saved E G A B s' = saved E G A B s"
  by (simp add: saved_def)

lemma saved_idle: "idle_step s s' \<Longrightarrow> saved E G A B s' = saved E G A B s"
  by (intro saved_cong) (simp_all add: idle_step_def same_tablesD)

lemma saved_upd:
  assumes "saved E G A B s" "\<And>e. geometry (f e) = geometry e"
    "\<And>e. saved_data_offset (f e) = saved_data_offset e" "\<And>e. has_saved_data_offset (f e) = has_saved_data_offset e"
  shows "saved E G A B (upd_exp i f s)"
proof -
  have "map geometry ((g_ipc_exports s)[i := f (g_ipc_exports s ! i)]) = map geometry (g_ipc_exports s)"
    by (rule map_list_update_field) (rule assms(2))
  moreover have "saved_data_offset ((g_ipc_exports s)[i := f (g_ipc_exports s ! i)] ! j) = saved_data_offset (g_ipc_exports s ! j)"
    "has_saved_data_offset ((g_ipc_exports s)[i := f (g_ipc_exports s ! i)] ! j) = has_saved_data_offset (g_ipc_exports s ! j)" for j
    by (rule list_update_field; simp add: assms(3,4))+
  ultimately show ?thesis using assms(1) by (simp add: saved_def upd_exp_def)
qed

lemma save_one:
  assumes sv: "saved E G A off s" and i: "i < length E" "i \<notin> A" and g: "gmem s = G"
    and s1: "s1 = upd_exp i (\<lambda>e. e\<lparr>saved_data_offset := off, has_saved_data_offset := True\<rparr>) s"
    and s2: "g_ipc_exports s2 = g_ipc_exports s1" "hbuf s2 = blit off (mapped_vaddr (E ! i)) (mapped_size (E ! i)) G (hbuf s1)"
  shows "saved E G (insert i A) (off + mapped_size (E ! i)) s2"
proof -
  let ?f = "\<lambda>e. e\<lparr>saved_data_offset := off, has_saved_data_offset := True\<rparr>"
  have len: "length (g_ipc_exports s) = length E" using saved_len [OF sv] .
  have ex: "g_ipc_exports s2 = (g_ipc_exports s)[i := ?f (g_ipc_exports s ! i)]" "hbuf s1 = hbuf s"
    by (simp_all add: s1 s2 upd_exp_def)
  have "map geometry (g_ipc_exports s2) = map geometry (g_ipc_exports s)"
    unfolding ex by (rule map_list_update_field) (simp add: geometry_def)
  then have geo: "map geometry (g_ipc_exports s2) = map geometry E" using sv by (simp add: saved_def)
  have new: "has_saved_data_offset (g_ipc_exports s2 ! i)" "saved_data_offset (g_ipc_exports s2 ! i) = off"
    using i len by (simp_all add: ex)
  have old: "g_ipc_exports s2 ! j = g_ipc_exports s ! j" if "j \<in> A" for j
    using that i(2) by (cases "i = j") (auto simp: ex)
  have "hbuf s2 (saved_data_offset (g_ipc_exports s2 ! j) + k) = G (mapped_vaddr (E ! j) + k)"
    if "j \<in> A" "k < mapped_size (E ! j)" for j k
    using sv that by (auto simp: saved_def old s2(2) ex(2) blit_out)
  moreover have "hbuf s2 (saved_data_offset (g_ipc_exports s2 ! i) + k) = G (mapped_vaddr (E ! i) + k)"
    if "k < mapped_size (E ! i)" for k
    using that by (simp add: new s2(2) blit_in)
  moreover have "j < length E \<and> has_saved_data_offset (g_ipc_exports s2 ! j) \<and>
      saved_data_offset (g_ipc_exports s2 ! j) + mapped_size (E ! j) \<le> off + mapped_size (E ! i)" if "j \<in> A" for j
    using sv that by (auto simp: saved_def old)
  ultimately show ?thesis using geo new i(1) by (auto simp: saved_def)
qed

lemma save_exports_ok:
  assumes lib: "lib_ok lib"
  shows "saved E G A off s \<Longrightarrow> gmem s = G \<Longrightarrow> distinct is \<Longrightarrow> set is \<inter> A = {} \<Longrightarrow> set is \<subseteq> {..<length E} \<Longrightarrow>
    map exp_torn_down (g_ipc_exports s) = T \<Longrightarrow>
    \<exists>s'. save_exports lib async is off s = (True, off + sum_list (map (\<lambda>i. mapped_size (E ! i)) is), s') \<and>
      saved E G (A \<union> set is) (off + sum_list (map (\<lambda>i. mapped_size (E ! i)) is)) s' \<and> gmem s' = G \<and>
      map exp_torn_down (g_ipc_exports s') = T"
proof (induction "is" arbitrary: A off s)
  case (Cons i "is")
  let ?f = "\<lambda>e. e\<lparr>saved_data_offset := off, has_saved_data_offset := True\<rparr>"
  define s1 where "s1 = upd_exp i ?f s"
  have i: "i < length E" "i \<notin> A" using Cons.prems by auto
  have len: "length (g_ipc_exports s) = length E" using saved_len [OF Cons.prems(1)] .
  let ?rec = "g_ipc_exports s1 ! i"
  have rec: "mapped_vaddr ?rec = mapped_vaddr (E ! i)" "mapped_size ?rec = mapped_size (E ! i)"
    using saved_geo [OF Cons.prems(1) i(1)] i len by (simp_all add: s1_def upd_exp_def)
  let ?c = "(if async then CuMemcpyDtoHAsync else CuMemcpyDtoH) off (mapped_vaddr ?rec) (mapped_size ?rec)"
  obtain r v s2 where 2: "ccall lib ?c s1 = (r, v, s2)" by (metis prod_cases3)
  have r: "r = 0" by (rule lib_ok_rc [OF lib 2])
  have g2: "gmem s2 = G" "hbuf s2 = blit off (mapped_vaddr (E ! i)) (mapped_size (E ! i)) G (hbuf s1)"
    using ccall_gmem [OF 2] ccall_hbuf [OF 2] Cons.prems(2) r rec by (auto simp: s1_def upd_exp_def)
  have e2: "g_ipc_exports s2 = g_ipc_exports s1" using same_tablesD [OF ccall_tables [OF 2]] by simp
  have sv2: "saved E G (insert i A) (off + mapped_size (E ! i)) s2"
    by (rule save_one [OF Cons.prems(1) i Cons.prems(2) s1_def e2 g2(2)])
  have "map exp_torn_down (g_ipc_exports s1) = map exp_torn_down (g_ipc_exports s)"
    using map_list_update_field [of exp_torn_down ?f "g_ipc_exports s" i] by (simp add: s1_def upd_exp_def)
  then have t2: "map exp_torn_down (g_ipc_exports s2) = T" using Cons.prems(6) e2 by simp
  from Cons.IH [OF sv2 g2(1) _ _ _ t2] Cons.prems
  obtain s' where "save_exports lib async is (off + mapped_size (E ! i)) s2
        = (True, off + mapped_size (E ! i) + sum_list (map (\<lambda>i. mapped_size (E ! i)) is), s')"
      "saved E G (insert i A \<union> set is) (off + mapped_size (E ! i) + sum_list (map (\<lambda>i. mapped_size (E ! i)) is)) s'"
      "gmem s' = G" "map exp_torn_down (g_ipc_exports s') = T"
    by auto
  then show ?case
    using 2 r rec by (simp add: Let_def s1_def [symmetric] add.assoc)
qed simp

lemma idle_facts:
  assumes "idle_step s s'"
  shows "gmem s' = gmem s" "hbuf s' = hbuf s" "g_ipc_exports s' = g_ipc_exports s"
    "g_local_allocs s' = g_local_allocs s" "g_ipc_imports s' = g_ipc_imports s"
  using assms by (simp_all add: idle_step_def same_tablesD)

lemma save_device_ok:
  assumes lib: "lib_ok lib" and sv: "saved E G A off s" "gmem s = G" "map exp_torn_down (g_ipc_exports s) = T"
    and idx: "distinct is" "set is \<inter> A = {}" "set is \<subseteq> {..<length E}"
  shows "\<exists>s'. save_device lib async (dev, is) off s = (True, off + sum_list (map (\<lambda>i. mapped_size (E ! i)) is), s') \<and>
      saved E G (A \<union> set is) (off + sum_list (map (\<lambda>i. mapped_size (E ! i)) is)) s' \<and> gmem s' = G \<and>
      map exp_torn_down (g_ipc_exports s') = T"
proof -
  obtain pushed s0 where 0: "push_context lib (0 \<le> dev) dev s = (pushed, s0)" by fastforce
  define s1 where "s1 = cdo_if async lib CuStreamCreate s0"
  have id1: "idle_step s s1"
    unfolding s1_def by (rule idle_step_trans [OF push_context_idle [OF 0] cdo_if_idle]) simp
  obtain s2 where 2: "save_exports lib async is off s1 = (True, off + sum_list (map (\<lambda>i. mapped_size (E ! i)) is), s2)"
      "saved E G (A \<union> set is) (off + sum_list (map (\<lambda>i. mapped_size (E ! i)) is)) s2" "gmem s2 = G"
      "map exp_torn_down (g_ipc_exports s2) = T"
    using save_exports_ok [OF lib, of E G A off s1 "is" T async] sv idx saved_idle [OF id1] idle_facts [OF id1] by auto
  let ?s3 = "pop_context lib pushed dev (cdo_if async lib CuStreamDestroy (cdo_if (async \<and> True) lib CuStreamSynchronize s2))"
  have id3: "idle_step s2 ?s3"
    by (intro idle_step_trans [OF idle_step_trans [OF cdo_if_idle cdo_if_idle] pop_context_idle]) simp_all
  have "save_device lib async (dev, is) off s = (True, off + sum_list (map (\<lambda>i. mapped_size (E ! i)) is), ?s3)"
    by (simp add: save_device_def 0 s1_def [symmetric] 2(1) Let_def)
  with 2 saved_idle [OF id3] idle_facts [OF id3] show ?thesis by auto
qed

lemma save_devices_ok:
  assumes lib: "lib_ok lib"
  shows "saved E G A off s \<Longrightarrow> gmem s = G \<Longrightarrow> map exp_torn_down (g_ipc_exports s) = T \<Longrightarrow>
    distinct (concat (map snd gs)) \<Longrightarrow> set (concat (map snd gs)) \<inter> A = {} \<Longrightarrow>
    set (concat (map snd gs)) \<subseteq> {..<length E} \<Longrightarrow>
    \<exists>off' s'. save_devices lib async gs off s = (True, off', s') \<and>
      off' = off + sum_list (map (\<lambda>i. mapped_size (E ! i)) (concat (map snd gs))) \<and>
      saved E G (A \<union> set (concat (map snd gs))) off' s' \<and> gmem s' = G \<and> map exp_torn_down (g_ipc_exports s') = T"
proof (induction gs arbitrary: A off s)
  case (Cons g gs)
  obtain dev "is" where g: "g = (dev, is)" by fastforce
  from save_device_ok [OF lib Cons.prems(1-3), of "is" async dev] Cons.prems(4-6)
  obtain s1 where 1: "save_device lib async g off s = (True, off + sum_list (map (\<lambda>i. mapped_size (E ! i)) is), s1)"
      "saved E G (A \<union> set is) (off + sum_list (map (\<lambda>i. mapped_size (E ! i)) is)) s1" "gmem s1 = G"
      "map exp_torn_down (g_ipc_exports s1) = T"
    by (auto simp: g)
  from Cons.IH [OF 1(2-4)] Cons.prems(4-6) 1(1) show ?case
    by (fastforce simp: g Un_assoc add.assoc)
qed simp

section \<open>Teardown keeps the saved data\<close>

definition exp_range :: "IpcExportRecord \<Rightarrow> nat set" where
  "exp_range e = (if has_mapping e then {mapped_vaddr e..<mapped_vaddr e + mapped_size e} else {})"

definition exp_ranges :: "IpcExportRecord list \<Rightarrow> nat set" where
  "exp_ranges E = (\<Union>e \<in> set E. exp_range e)"

lemma close_export_fds_ok:
  "saved E G A B s \<Longrightarrow> saved E G A B (close_export_fds lib is s) \<and> gmem (close_export_fds lib is s) = gmem s \<and>
    map exp_torn_down (g_ipc_exports (close_export_fds lib is s)) = map exp_torn_down (g_ipc_exports s)"
proof (induction "is" arbitrary: s)
  case (Cons i "is")
  let ?f = "\<lambda>e. e\<lparr>exported_fd := -1\<rparr>"
  let ?s = "upd_exp i ?f (cdo lib (CloseFd (exported_fd (g_ipc_exports s ! i))) s)"
  have id: "idle_step s (cdo lib (CloseFd (exported_fd (g_ipc_exports s ! i))) s)" by (rule cdo_idle) simp
  have "saved E G A B ?s" using Cons.prems by (intro saved_upd) (simp_all add: saved_idle [OF id] geometry_def)
  moreover have "gmem ?s = gmem s" using idle_facts [OF id] by (simp add: upd_exp_def)
  moreover have "map exp_torn_down (g_ipc_exports ?s) = map exp_torn_down (g_ipc_exports s)"
    using map_list_update_field [of exp_torn_down ?f "g_ipc_exports s" i] idle_facts [OF id] by (simp add: upd_exp_def)
  ultimately show ?case using Cons.IH [of ?s] Cons.IH [of s] Cons.prems by (simp add: Let_def)
qed simp

lemma unmap_facts:
  assumes "s' = cdo_if b lib (CuMemUnmap p n) s"
  shows "g_ipc_exports s' = g_ipc_exports s" "hbuf s' = hbuf s" "a \<notin> {p..<p + n} \<Longrightarrow> gmem s' a = gmem s a"
    "g_local_allocs s' = g_local_allocs s"
proof -
  obtain r v s1 where 1: "ccall lib (CuMemUnmap p n) s = (r, v, s1)" by (metis prod_cases3)
  show "g_ipc_exports s' = g_ipc_exports s" "hbuf s' = hbuf s" "a \<notin> {p..<p + n} \<Longrightarrow> gmem s' a = gmem s a"
    "g_local_allocs s' = g_local_allocs s"
    using ccall_gmem [OF 1] ccall_hbuf [OF 1] same_tablesD [OF ccall_tables [OF 1]] assms
    by (auto simp: cdo_if_def cdo_def 1 blit_def)
qed

lemma teardown_exports_ok:
  "saved E G A B s \<Longrightarrow> distinct is \<Longrightarrow> set is \<subseteq> {..<length E} \<Longrightarrow>
    \<exists>s'. teardown_exports lib is n s =
        (n + length (filter (\<lambda>i. \<not> exp_torn_down (g_ipc_exports s ! i) \<and> has_mapping (E ! i)) is), s') \<and>
      saved E G A B s' \<and> (\<forall>a. a \<notin> exp_ranges E \<longrightarrow> gmem s' a = gmem s a) \<and>
      (\<forall>j < length E. exp_torn_down (g_ipc_exports s' ! j) =
         (exp_torn_down (g_ipc_exports s ! j) \<or> j \<in> set is \<and> has_mapping (E ! j)))"
proof (induction "is" arbitrary: s n)
  case (Cons i "is")
  let ?rec = "g_ipc_exports s ! i"
  have i: "i < length E" and len: "length (g_ipc_exports s) = length E"
    using Cons.prems saved_len by auto
  note geo = saved_geo [OF Cons.prems(1) i]
  show ?case
  proof (cases "exp_torn_down ?rec \<or> \<not> has_mapping ?rec")
    case True
    with Cons.IH [OF Cons.prems(1), of n] Cons.prems geo show ?thesis by (auto simp: Let_def)
  next
    case False
    define s1 where "s1 = cdo_if (avail lib F_MemUnmap) lib (CuMemUnmap (mapped_vaddr ?rec) (mapped_size ?rec)) s"
    let ?s2 = "cdo lib (CuMemRelease (local_handle ?rec)) s1"
    let ?f = "\<lambda>e. e\<lparr>exp_torn_down := True, local_handle := 0\<rparr>"
    define s3 where "s3 = upd_exp i ?f ?s2"
    note u = unmap_facts [OF s1_def]
    have id: "idle_step s1 ?s2" by (rule cdo_idle) simp
    have "saved E G A B ?s2" using Cons.prems(1) u saved_idle [OF id] saved_cong [of s1 s] by simp
    then have sv: "saved E G A B s3"
      unfolding s3_def by (intro saved_upd) (simp_all add: geometry_def)
    have ex: "g_ipc_exports s3 = (g_ipc_exports s)[i := ?f ?rec]"
      using u idle_facts [OF id] by (simp add: s3_def upd_exp_def)
    have g: "gmem s3 a = gmem s a" if "a \<notin> exp_ranges E" for a
    proof -
      have "a \<notin> {mapped_vaddr ?rec..<mapped_vaddr ?rec + mapped_size ?rec}"
        using that i geo False nth_mem [OF i] by (auto simp: exp_ranges_def exp_range_def)
      then show ?thesis using u(3) idle_facts [OF id] by (simp add: s3_def upd_exp_def)
    qed
    have t: "exp_torn_down (g_ipc_exports s3 ! j) = (exp_torn_down (g_ipc_exports s ! j) \<or> j = i)" for j
      using i len by (cases "i = j") (auto simp: ex)
    from Cons.IH [OF sv, of "n + 1"] Cons.prems obtain s' where
      s': "teardown_exports lib is (n + 1) s3 =
          (n + 1 + length (filter (\<lambda>i. \<not> exp_torn_down (g_ipc_exports s3 ! i) \<and> has_mapping (E ! i)) is), s')"
        "saved E G A B s'" "\<forall>a. a \<notin> exp_ranges E \<longrightarrow> gmem s' a = gmem s3 a"
        "\<forall>j < length E. exp_torn_down (g_ipc_exports s' ! j) =
          (exp_torn_down (g_ipc_exports s3 ! j) \<or> j \<in> set is \<and> has_mapping (E ! j))"
      by auto
    have "filter (\<lambda>j. \<not> exp_torn_down (g_ipc_exports s3 ! j) \<and> has_mapping (E ! j)) is =
        filter (\<lambda>j. \<not> exp_torn_down (g_ipc_exports s ! j) \<and> has_mapping (E ! j)) is"
      using Cons.prems(2) by (intro filter_cong) (auto simp: t)
    moreover have "teardown_exports lib (i # is) n s = teardown_exports lib is (n + 1) s3"
      using False by (simp add: Let_def s1_def s3_def)
    ultimately show ?thesis using s' g t False geo by auto
  qed
qed simp

section \<open>Rebuilding restores the saved data\<close>

lemma replay_access_idle: "idle_step s (replay_access lib p n ds s)"
proof (induction ds arbitrary: s)
  case (Cons d ds)
  have "idle_step s (cdo lib (CuMemSetAccess p n [d]) s)" by (rule cdo_idle) simp
  with Cons [of "cdo lib (CuMemSetAccess p n [d]) s"] show ?case by (auto intro: idle_step_trans)
qed simp

lemma export_access_idle: "idle_step s (export_access lib rec s)"
  unfolding export_access_def Let_def
  by (auto intro!: replay_access_idle cdo_idle simp del: replay_access.simps split: option.split list.split)

lemma map_facts:
  assumes "ccall lib (CuMemMap p n h) s = (r, v, s')"
  shows "g_ipc_exports s' = g_ipc_exports s" "hbuf s' = hbuf s" "a \<notin> {p..<p + n} \<Longrightarrow> gmem s' a = gmem s a"
    "g_local_allocs s' = g_local_allocs s" "g_ipc_imports s' = g_ipc_imports s"
  using ccall_gmem [OF assms] ccall_hbuf [OF assms] same_tablesD [OF ccall_tables [OF assms]]
  by (auto simp: blit_def)

definition wanted :: "IpcExportRecord \<Rightarrow> bool" where
  "wanted e \<longleftrightarrow> exp_torn_down e \<and> has_mapping e \<and> 0 < mapped_size e \<and> has_saved_prop e"

lemma rebuild_allocs_ok:
  assumes lib: "lib_ok lib"
  shows "g_ipc_exports s = X \<Longrightarrow> \<forall>i \<in> set is. i < length X \<Longrightarrow>
    \<forall>i \<in> set is. wanted (X ! i) \<longrightarrow> has_saved_data_offset (X ! i) \<Longrightarrow>
    \<forall>e \<in> set es. data_offset e = saved_data_offset (X ! export_idx e) \<Longrightarrow>
    \<exists>es' off' s'. rebuild_allocs lib is es off s = (es', off', s') \<and>
      map export_idx es' = map export_idx es @ filter (\<lambda>i. wanted (X ! i)) is \<and>
      (\<forall>e \<in> set es'. data_offset e = saved_data_offset (X ! export_idx e)) \<and>
      g_ipc_exports s' = X \<and> hbuf s' = hbuf s \<and> (\<forall>a. a \<notin> exp_ranges X \<longrightarrow> gmem s' a = gmem s a)"
proof (induction "is" arbitrary: s es off)
  case (Cons i "is")
  show ?case
  proof (cases "wanted (X ! i)")
    case False
    then have "rebuild_allocs lib (i # is) es off s = rebuild_allocs lib is es off s"
      using Cons.prems(1) by (auto simp: Let_def wanted_def)
    with False Cons.IH [OF Cons.prems(1), of es off] Cons.prems show ?thesis by auto
  next
    case True
    let ?rec = "X ! i"
    obtain r1 h s1 where 1: "ccall lib (CuMemCreate (mapped_size ?rec) (saved_prop ?rec)) s = (r1, h, s1)"
      by (metis prod_cases3)
    obtain r2 v s2 where 2: "ccall lib (CuMemMap (mapped_vaddr ?rec) (mapped_size ?rec) h) s1 = (r2, v, s2)"
      by (metis prod_cases3)
    define s3 where "s3 = export_access lib ?rec s2"
    have id1: "idle_step s s1" by (rule ccall_idle [OF 1]) simp
    have id3: "idle_step s2 s3" unfolding s3_def by (rule export_access_idle)
    have x3: "g_ipc_exports s3 = X" "hbuf s3 = hbuf s"
      using Cons.prems(1) idle_facts [OF id1] idle_facts [OF id3] map_facts [OF 2] by simp_all
    have g3: "gmem s3 a = gmem s a" if "a \<notin> exp_ranges X" for a
    proof -
      have "a \<notin> {mapped_vaddr ?rec..<mapped_vaddr ?rec + mapped_size ?rec}"
        using that Cons.prems(2) True nth_mem [of i X] by (auto simp: exp_ranges_def exp_range_def wanted_def)
      then show ?thesis using map_facts(3) [OF 2] idle_facts [OF id1] idle_facts [OF id3] by simp
    qed
    let ?e = "\<lparr>export_idx = i, new_handle = h, data_offset = saved_data_offset ?rec\<rparr>"
    let ?off = "max off (saved_data_offset ?rec + mapped_size ?rec)"
    have step: "rebuild_allocs lib (i # is) es off s = rebuild_allocs lib is (es @ [?e]) ?off s3"
      using True Cons.prems(1,3) lib_ok_rc [OF lib 1] lib_ok_rc [OF lib 2] 1 2
      by (simp add: Let_def wanted_def s3_def)
    have "\<forall>e \<in> set (es @ [?e]). data_offset e = saved_data_offset (X ! export_idx e)"
      using Cons.prems(4) by auto
    from Cons.IH [OF x3(1) _ _ this, of ?off] Cons.prems(2,3) True step x3(2) g3 show ?thesis by auto
  qed
qed auto

lemma htod_facts:
  assumes "lib_ok lib" "s' = cdo lib ((if async then CuMemcpyHtoDAsync else CuMemcpyHtoD) p off n) s"
  shows "g_ipc_exports s' = g_ipc_exports s" "hbuf s' = hbuf s" "gmem s' = blit p off n (hbuf s) (gmem s)"
    "g_local_allocs s' = g_local_allocs s"
proof -
  obtain r v s1 where 1: "ccall lib ((if async then CuMemcpyHtoDAsync else CuMemcpyHtoD) p off n) s = (r, v, s1)"
    by (metis prod_cases3)
  then show "g_ipc_exports s' = g_ipc_exports s" "hbuf s' = hbuf s" "gmem s' = blit p off n (hbuf s) (gmem s)"
    "g_local_allocs s' = g_local_allocs s"
    using ccall_gmem [OF 1] ccall_hbuf [OF 1] same_tablesD [OF ccall_tables [OF 1]] assms(2) lib_ok_rc [OF assms(1) 1]
    by (auto simp: cdo_def split: if_splits)
qed

definition entry_range :: "IpcExportRecord list \<Rightarrow> RebuildEntry \<Rightarrow> nat set" where
  "entry_range X e = {mapped_vaddr (X ! export_idx e)..<mapped_vaddr (X ! export_idx e) + mapped_size (X ! export_idx e)}"

definition holds_entry :: "IpcExportRecord list \<Rightarrow> mem \<Rightarrow> nat \<Rightarrow> mem \<Rightarrow> RebuildEntry \<Rightarrow> bool" where
  \<comment> \<open>the host buffer \<open>H\<close> holds the bytes \<open>G\<close> of the entry's export at the entry's offset\<close>
  "holds_entry X G buf_size H e \<longleftrightarrow> data_offset e + mapped_size (X ! export_idx e) \<le> buf_size \<and>
     (\<forall>k < mapped_size (X ! export_idx e). H (data_offset e + k) = G (mapped_vaddr (X ! export_idx e) + k))"

lemma blit_entry:
  assumes "holds_entry X G n H e"
  shows "blit (mapped_vaddr (X ! export_idx e)) (data_offset e) (mapped_size (X ! export_idx e)) H M a =
    (if a \<in> entry_range X e then G a else M a)"
proof (cases "a \<in> entry_range X e")
  case True
  define k where "k = a - mapped_vaddr (X ! export_idx e)"
  have "k < mapped_size (X ! export_idx e)" "a = mapped_vaddr (X ! export_idx e) + k"
    using True by (auto simp: entry_range_def k_def)
  then show ?thesis using assms True by (simp add: holds_entry_def blit_in)
qed (auto simp: entry_range_def blit_def)

lemma restore_entries_ok:
  assumes lib: "lib_ok lib"
  shows "g_ipc_exports s = X \<Longrightarrow> \<forall>e \<in> set es. holds_entry X G n (hbuf s) e \<Longrightarrow>
    g_ipc_exports (restore_entries lib async n es s) = X \<and> hbuf (restore_entries lib async n es s) = hbuf s \<and>
    (\<forall>a. gmem (restore_entries lib async n es s) a =
       (if a \<in> (\<Union>e \<in> set es. entry_range X e) then G a else gmem s a))"
proof (induction es arbitrary: s)
  case (Cons e es)
  let ?rec = "X ! export_idx e"
  define s1 where "s1 = cdo lib ((if async then CuMemcpyHtoDAsync else CuMemcpyHtoD)
      (mapped_vaddr ?rec) (data_offset e) (mapped_size ?rec)) s"
  note h = htod_facts [OF lib s1_def]
  have "restore_entries lib async n (e # es) s = restore_entries lib async n es s1"
    using Cons.prems by (simp add: Let_def cdo_if_def s1_def holds_entry_def)
  moreover have "gmem s1 a = (if a \<in> entry_range X e then G a else gmem s a)" for a
    unfolding h(3) by (rule blit_entry [of X G n]) (use Cons.prems(2) in simp)
  ultimately show ?case using Cons.IH [of s1] Cons.prems h(1,2) by auto
qed simp

lemma restore_devices_ok:
  assumes lib: "lib_ok lib"
  shows "g_ipc_exports s = X \<Longrightarrow> \<forall>e \<in> set (concat (map snd gs)). holds_entry X G n (hbuf s) e \<Longrightarrow>
    g_ipc_exports (restore_devices lib async n gs s) = X \<and> hbuf (restore_devices lib async n gs s) = hbuf s \<and>
    (\<forall>a. gmem (restore_devices lib async n gs s) a =
       (if a \<in> (\<Union>e \<in> set (concat (map snd gs)). entry_range X e) then G a else gmem s a))"
proof (induction gs arbitrary: s)
  case (Cons g gs)
  obtain dev es where g: "g = (dev, es)" by fastforce
  obtain pushed s0 where 0: "push_context lib True dev s = (pushed, s0)" by fastforce
  define s1 where "s1 = cdo_if async lib CuStreamCreate s0"
  have id1: "idle_step s s1"
    unfolding s1_def by (rule idle_step_trans [OF push_context_idle [OF 0] cdo_if_idle]) simp
  define s2 where "s2 = restore_entries lib async n es s1"
  note r = restore_entries_ok [OF lib, of s1 X es G n async, folded s2_def]
  define s3 where "s3 = pop_context lib pushed dev (cdo_if async lib CuStreamDestroy (cdo_if async lib CuStreamSynchronize s2))"
  have id3: "idle_step s2 s3"
    unfolding s3_def
    by (intro idle_step_trans [OF idle_step_trans [OF cdo_if_idle cdo_if_idle] pop_context_idle]) simp_all
  have "restore_devices lib async n (g # gs) s = restore_devices lib async n gs s3"
    by (simp add: g 0 Let_def s1_def s2_def s3_def)
  moreover have "g_ipc_exports s3 = X" "hbuf s3 = hbuf s"
      "gmem s3 a = (if a \<in> (\<Union>e \<in> set es. entry_range X e) then G a else gmem s a)" for a
    using r Cons.prems idle_facts [OF id1] idle_facts [OF id3] by (simp_all add: g)
  ultimately show ?case using Cons.IH [of s3] Cons.prems(2) by (auto simp: g)
qed simp

lemma reexport_ok:
  assumes lib: "lib_ok lib" and i: "export_idx e < length (g_ipc_exports s)"
  shows "gmem (reexport lib e s) = gmem s"
    "\<exists>fd. 0 \<le> fd \<and> g_ipc_exports (reexport lib e s) = (g_ipc_exports s)[export_idx e :=
       (g_ipc_exports s ! export_idx e)\<lparr>local_handle := new_handle e, exported_fd := fd, exp_torn_down := False\<rparr>]"
proof -
  obtain r v s1 where 1: "ccall lib (CuMemExport (new_handle e) (handle_type (g_ipc_exports s ! export_idx e))) s = (r, v, s1)"
    by (metis prod_cases3)
  have "idle_step s s1" by (rule ccall_idle [OF 1]) simp
  note id = idle_facts [OF this]
  have a: "avail lib F_MemExport" using lib by (simp add: lib_ok_def)
  show "gmem (reexport lib e s) = gmem s"
    using id by (simp add: reexport_def a 1 Let_def upd_exp_def)
  show "\<exists>fd. 0 \<le> fd \<and> g_ipc_exports (reexport lib e s) = (g_ipc_exports s)[export_idx e :=
       (g_ipc_exports s ! export_idx e)\<lparr>local_handle := new_handle e, exported_fd := fd, exp_torn_down := False\<rparr>]"
    using id lib_ok_rc [OF lib 1] by (intro exI [of _ "int v"]) (simp add: reexport_def a 1 Let_def upd_exp_def)
qed

definition back_in_use :: "ipc_state \<Rightarrow> nat \<Rightarrow> bool" where
  "back_in_use s i \<longleftrightarrow> \<not> exp_torn_down (g_ipc_exports s ! i) \<and> 0 \<le> exported_fd (g_ipc_exports s ! i)"

lemma reexports_ok:
  assumes lib: "lib_ok lib"
  shows "\<forall>e \<in> set es. export_idx e < length (g_ipc_exports s) \<Longrightarrow> \<forall>i \<in> D. back_in_use s i \<Longrightarrow>
    gmem (fold (reexport lib) es s) = gmem s \<and>
    map mapped_vaddr (g_ipc_exports (fold (reexport lib) es s)) = map mapped_vaddr (g_ipc_exports s) \<and>
    (\<forall>i \<in> D \<union> export_idx ` set es. back_in_use (fold (reexport lib) es s) i)"
proof (induction es arbitrary: s D)
  case (Cons e es)
  let ?i = "export_idx e"
  from reexport_ok(2) [OF lib, of e s] Cons.prems obtain fd where fd: "0 \<le> fd"
      "g_ipc_exports (reexport lib e s) = (g_ipc_exports s)[?i :=
       (g_ipc_exports s ! ?i)\<lparr>local_handle := new_handle e, exported_fd := fd, exp_torn_down := False\<rparr>]"
    by auto
  have b: "back_in_use (reexport lib e s) i" if "i \<in> insert ?i D" for i
    using that Cons.prems fd by (cases "i = ?i") (auto simp: back_in_use_def)
  have "map mapped_vaddr (g_ipc_exports (reexport lib e s)) = map mapped_vaddr (g_ipc_exports s)"
    unfolding fd(2) using map_list_update_field [of mapped_vaddr
        "\<lambda>x. x\<lparr>local_handle := new_handle e, exported_fd := fd, exp_torn_down := False\<rparr>" "g_ipc_exports s" ?i] by simp
  with Cons.IH [of "reexport lib e s" "insert ?i D"] Cons.prems b reexport_ok(1) [OF lib, of e s] fd(2)
  show ?case by auto
qed simp

section \<open>Round trip\<close>

lemma export_total:
  "sum_list (map (\<lambda>i. mapped_size (g_ipc_exports s ! i)) (concat (map snd (device_exports s)))) = ipc_get_export_data_size s"
proof -
  let ?E = "g_ipc_exports s"
  let ?A = "filter (\<lambda>i. exp_active (?E ! i)) [0..<length ?E]"
  have "mset (concat (map snd (device_exports s))) = mset ?A"
    unfolding device_exports_def by (rule group_perm)
  then have "sum_mset (image_mset (\<lambda>i. mapped_size (?E ! i)) (mset (concat (map snd (device_exports s))))) =
      sum_mset (image_mset (\<lambda>i. mapped_size (?E ! i)) (mset ?A))"
    by (rule arg_cong)
  then have "sum_list (map (\<lambda>i. mapped_size (?E ! i)) (concat (map snd (device_exports s)))) =
      sum_list (map (\<lambda>i. mapped_size (?E ! i)) ?A)"
    by (simp only: mset_map [symmetric] sum_mset_sum_list)
  also have "\<dots> = ipc_get_export_data_size s"
    by (simp add: ipc_get_export_data_size_def filter_upt_nth)
  finally show ?thesis .
qed

lemma device_exports_total:
  "sum_list (map (\<lambda>(_, idxs). sum_list (map (\<lambda>i. mapped_size (g_ipc_exports s ! i)) idxs)) (device_exports s)) =
    ipc_get_export_data_size s"
proof -
  have "sum_list (map (\<lambda>(_, idxs). sum_list (map f idxs)) gs) = sum_list (map f (concat (map snd gs)))"
    for f :: "nat \<Rightarrow> nat" and gs :: "(int \<times> nat list) list"
    by (induction gs) auto
  then show ?thesis using export_total by simp
qed

lemma save_and_teardown_ok:
  assumes lib: "lib_ok lib" and fit: "ipc_get_export_data_size s \<le> buf_size"
    and fresh: "\<forall>e \<in> set (g_ipc_exports s). \<not> exp_torn_down e"
  shows "\<exists>s'. ipc_save_and_teardown_all_exports lib buf_size s = (int (length (filter has_mapping (g_ipc_exports s))), s') \<and>
    saved (g_ipc_exports s) (gmem s) {i. i < length (g_ipc_exports s) \<and> exp_active (g_ipc_exports s ! i)}
      (ipc_get_export_data_size s) s' \<and>
    (\<forall>a. a \<notin> exp_ranges (g_ipc_exports s) \<longrightarrow> gmem s' a = gmem s a) \<and>
    (\<forall>j < length (g_ipc_exports s). exp_torn_down (g_ipc_exports s' ! j) = has_mapping (g_ipc_exports s ! j))"
proof -
  let ?E = "g_ipc_exports s" and ?n = "ipc_get_export_data_size s"
  let ?A = "filter (\<lambda>i. exp_active (?E ! i)) [0..<length ?E]" and ?gs = "device_exports s"
  have av: "avail lib f" for f using lib by (simp add: lib_ok_def)
  obtain pinned s1 where 1: "pin_host lib ?n s = (pinned, s1)" by fastforce
  note id1 = pin_host_idle [OF 1]
  define async where "async = (pinned \<and> streams lib F_MemcpyDtoHAsync)"
  have m: "mset (concat (map snd ?gs)) = mset ?A" unfolding device_exports_def by (rule group_perm)
  have d: "distinct (concat (map snd ?gs))" using m mset_eq_imp_distinct_iff [OF m] by simp
  have st: "set (concat (map snd ?gs)) = {i. i < length ?E \<and> exp_active (?E ! i)}"
    using mset_eq_setD [OF m] by auto
  have "saved ?E (gmem s) {} 0 s1" using idle_facts [OF id1] by (simp add: saved_def)
  from save_devices_ok [OF lib this _ refl d _ , of async] idle_facts [OF id1] st
  obtain s2 where 2: "save_devices lib async ?gs 0 s1 = (True, ?n, s2)"
      "saved ?E (gmem s) {i. i < length ?E \<and> exp_active (?E ! i)} ?n s2" "gmem s2 = gmem s"
      "map exp_torn_down (g_ipc_exports s2) = map exp_torn_down ?E"
    by (auto simp: export_total)
  define s3 where "s3 = cdo_if (pinned \<and> avail lib F_MemHostUnregister) lib CuMemHostUnregister s2"
  have id3: "idle_step s2 s3" unfolding s3_def by (rule cdo_if_idle) simp
  have sv3: "saved ?E (gmem s) {i. i < length ?E \<and> exp_active (?E ! i)} ?n s3" using 2(2) saved_idle [OF id3] by simp
  define s4 where "s4 = close_export_fds lib [0..<length ?E] s3"
  note c4 = close_export_fds_ok [OF sv3, of lib "[0..<length ?E]", folded s4_def]
  obtain torn s5 where 5: "teardown_exports lib [0..<length ?E] 0 s4 = (torn, s5)" by fastforce
  have t4: "\<not> exp_torn_down (g_ipc_exports s4 ! j)" if "j < length ?E" for j
  proof -
    have "map exp_torn_down (g_ipc_exports s4) = map exp_torn_down ?E"
      using c4 2(4) idle_facts [OF id3] by simp
    then have "exp_torn_down (g_ipc_exports s4 ! j) = exp_torn_down (?E ! j)"
      using that by (metis length_map nth_map)
    then show ?thesis using fresh that by simp
  qed
  have f: "filter (\<lambda>i. \<not> exp_torn_down (g_ipc_exports s4 ! i) \<and> has_mapping (?E ! i)) [0..<length ?E] =
      filter (\<lambda>i. has_mapping (?E ! i)) [0..<length ?E]"
    by (rule filter_cong) (auto simp: t4)
  have l: "length (filter (\<lambda>i. has_mapping (?E ! i)) [0..<length ?E]) = length (filter has_mapping ?E)"
    using filter_upt_nth [of "\<lambda>x. x" ?E has_mapping] by (metis length_map)
  have sub: "set [0..<length ?E] \<subseteq> {..<length ?E}" by auto
  obtain s' where s': "teardown_exports lib [0..<length ?E] 0 s4 = (length (filter has_mapping ?E), s')"
      "saved ?E (gmem s) {i. i < length ?E \<and> exp_active (?E ! i)} ?n s'"
      "\<forall>a. a \<notin> exp_ranges ?E \<longrightarrow> gmem s' a = gmem s4 a"
      "\<forall>j < length ?E. exp_torn_down (g_ipc_exports s' ! j) =
         (exp_torn_down (g_ipc_exports s4 ! j) \<or> j \<in> set [0..<length ?E] \<and> has_mapping (?E ! j))"
    using teardown_exports_ok [OF conjunct1 [OF c4] distinct_upt sub, of lib 0] unfolding f l by auto
  have "s5 = s'" "torn = length (filter has_mapping ?E)" using s'(1) 5 by simp_all
  moreover have "gmem s4 = gmem s" using c4 2(3) idle_facts [OF id3] by simp
  ultimately have fin: "torn = length (filter has_mapping ?E)" "saved ?E (gmem s) {i. i < length ?E \<and> exp_active (?E ! i)} ?n s5"
      "\<forall>a. a \<notin> exp_ranges ?E \<longrightarrow> gmem s5 a = gmem s a"
      "\<forall>j < length ?E. exp_torn_down (g_ipc_exports s5 ! j) = has_mapping (?E ! j)"
    using s' t4 by auto
  have s3: "cdo_if pinned lib CuMemHostUnregister s2 = s3" by (simp add: s3_def av)
  have "ipc_save_and_teardown_all_exports lib buf_size s = (int torn, s5)"
    using fit 5
    by (simp add: ipc_save_and_teardown_all_exports_def av device_exports_total Let_def 1 async_def [symmetric] 2(1)
        s3 saved_len [OF sv3] s4_def [symmetric])
  with fin show ?thesis by blast
qed

lemma rebuild_all_ok:
  assumes lib: "lib_ok lib" and sv: "saved E G {i. i < length E \<and> exp_active (E ! i)} n s" and n: "n \<le> buf_size"
    and td: "\<forall>j < length E. exp_torn_down (g_ipc_exports s ! j) = has_mapping (E ! j)"
    and fresh: "\<forall>e \<in> set E. \<not> exp_torn_down e"
    and props: "\<forall>e \<in> set E. exp_active e \<longrightarrow> has_saved_prop e"
    and out: "\<forall>a. a \<notin> exp_ranges E \<longrightarrow> gmem s a = G a"
  shows "\<exists>s'. ipc_rebuild_and_restore_all_exports lib buf_size s = (int (length (filter exp_active E)), s') \<and>
    gmem s' = G \<and> (\<forall>i < length E. exp_active (E ! i) \<longrightarrow> back_in_use s' i)"
proof -
  let ?X = "g_ipc_exports s" and ?A = "{i. i < length E \<and> exp_active (E ! i)}"
  have len: "length ?X = length E" by (rule saved_len [OF sv])
  have av: "avail lib f" for f using lib by (simp add: lib_ok_def)
  have w: "wanted (?X ! i) = exp_active (E ! i)" if "i < length E" for i
    using that td saved_geo [OF sv that] fresh props by (auto simp: wanted_def exp_active_def)
  have ranges: "exp_ranges ?X = exp_ranges E"
  proof -
    have "exp_range (?X ! i) = exp_range (E ! i)" if "i < length E" for i
      using saved_geo [OF sv that] by (simp add: exp_range_def)
    then have "map exp_range ?X = map exp_range E" by (simp add: list_eq_iff_nth_eq len)
    then have "set (map exp_range ?X) = set (map exp_range E)" by simp
    then show ?thesis by (simp add: exp_ranges_def)
  qed
  have "\<forall>i \<in> set [0..<length ?X]. wanted (?X ! i) \<longrightarrow> has_saved_data_offset (?X ! i)"
    using sv len w by (auto simp: saved_def)
  from rebuild_allocs_ok [OF lib refl _ this, of "[]" 0]
  obtain es off s1 where 1: "rebuild_allocs lib [0..<length ?X] [] 0 s = (es, off, s1)"
      "map export_idx es = filter (\<lambda>i. wanted (?X ! i)) [0..<length ?X]"
      "\<forall>e \<in> set es. data_offset e = saved_data_offset (?X ! export_idx e)"
      "g_ipc_exports s1 = ?X" "hbuf s1 = hbuf s" "\<forall>a. a \<notin> exp_ranges E \<longrightarrow> gmem s1 a = gmem s a"
    by (auto simp: ranges)
  define gs where "gs = group (\<lambda>e. location_id (saved_prop (?X ! export_idx e))) es"
  have m: "set (concat (map snd gs)) = set es" unfolding gs_def using group_perm by (metis set_mset_mset)
  have idx: "export_idx ` set es = ?A"
    using arg_cong [OF 1(2), of set] w by (auto simp: len)
  have l: "length es = length (filter exp_active E)"
  proof -
    have "length es = length (filter (\<lambda>i. wanted (?X ! i)) [0..<length ?X])" using 1(2) by (metis length_map)
    also have "filter (\<lambda>i. wanted (?X ! i)) [0..<length ?X] = filter (\<lambda>i. exp_active (E ! i)) [0..<length E]"
      unfolding len by (rule filter_cong) (auto simp: w)
    also have "length \<dots> = length (filter exp_active E)"
      using filter_upt_nth [of "\<lambda>x. x" E exp_active] by (metis length_map)
    finally show ?thesis .
  qed
  obtain pinned s2 where 2: "pin_host lib off s1 = (pinned, s2)" by fastforce
  note id2 = idle_facts [OF pin_host_idle [OF 2]]
  define async where "async = (pinned \<and> streams lib F_MemcpyHtoDAsync)"
  have he: "holds_entry ?X G buf_size (hbuf s) e" if "e \<in> set es" for e
  proof -
    have "export_idx e \<in> ?A" using idx that by blast
    then show ?thesis using sv 1(3) that n saved_geo [OF sv, of "export_idx e"]
      by (fastforce simp: holds_entry_def saved_def)
  qed
  define s3 where "s3 = restore_devices lib async buf_size gs s2"
  have r: "g_ipc_exports s3 = ?X \<and> hbuf s3 = hbuf s2 \<and>
      (\<forall>a. gmem s3 a = (if a \<in> (\<Union>e \<in> set es. entry_range ?X e) then G a else gmem s2 a))"
    using restore_devices_ok [OF lib, of s2 ?X gs G buf_size async] id2 1 he
    unfolding m s3_def [symmetric] by simp
  have gm: "gmem s3 = G"
  proof
    fix a
    have "a \<in> (\<Union>e \<in> set es. entry_range ?X e)" if "a \<in> exp_ranges E"
    proof -
      from that obtain i where i: "i < length E" "a \<in> exp_range (E ! i)"
        by (auto simp: exp_ranges_def in_set_conv_nth)
      have "exp_active (E ! i)"
        using fresh i nth_mem [OF i(1)] by (simp add: exp_active_def exp_range_def split: if_splits)
      with i(1) have "i \<in> export_idx ` set es" unfolding idx by simp
      then obtain e where e: "e \<in> set es" "export_idx e = i" by auto
      have "a \<in> entry_range ?X e"
        using i(2) saved_geo [OF sv i(1)] by (simp add: e(2) entry_range_def exp_range_def split: if_splits)
      with e(1) show ?thesis by blast
    qed
    then show "gmem s3 a = G a" using r id2(1) 1(6) out by (cases "a \<in> exp_ranges E") simp_all
  qed
  define s4 where "s4 = cdo_if pinned lib CuMemHostUnregister s3"
  have id4: "idle_step s3 s4" unfolding s4_def by (rule cdo_if_idle) simp
  let ?s5 = "fold (reexport lib) (concat (map snd gs)) s4"
  have "\<forall>e \<in> set (concat (map snd gs)). export_idx e < length (g_ipc_exports s4)"
    unfolding m using idx r idle_facts [OF id4] len by auto
  note f = reexports_ok [OF lib this, of "{}", unfolded m idx]
  have "ipc_rebuild_and_restore_all_exports lib buf_size s = (int (length es), ?s5)"
    by (simp add: ipc_rebuild_and_restore_all_exports_def av 1(1,4) 2 Let_def gs_def [symmetric]
        async_def [symmetric] s3_def [symmetric] s4_def [symmetric])
  with f gm idle_facts [OF id4] l show ?thesis by simp
qed

text \<open>C5: when the driver calls succeed, \<open>ipc_save_and_teardown_all_exports\<close> tears down every mapped
  export, and a later \<open>ipc_rebuild_and_restore_all_exports\<close> on the same host buffer and tables rebuilds
  all of them, whatever was written in between to the addresses of the exports: device memory is what
  it was before the checkpoint, and each export has a new descriptor and is live again.  The exports
  may be on any mix of devices.\<close>

theorem export_round_trip:
  assumes "lib_ok lib" "lib_ok lib'" "ipc_get_export_data_size s \<le> buf_size"
    and "\<forall>e \<in> set (g_ipc_exports s). \<not> exp_torn_down e"
    and "\<forall>e \<in> set (g_ipc_exports s). exp_active e \<longrightarrow> has_saved_prop e"
  shows "\<exists>s1. ipc_save_and_teardown_all_exports lib buf_size s =
        (int (length (filter has_mapping (g_ipc_exports s))), s1) \<and>
      (\<forall>s2. hbuf s2 = hbuf s1 \<longrightarrow> g_ipc_exports s2 = g_ipc_exports s1 \<longrightarrow>
         (\<forall>a. a \<notin> exp_ranges (g_ipc_exports s) \<longrightarrow> gmem s2 a = gmem s1 a) \<longrightarrow>
         (\<exists>s3. ipc_rebuild_and_restore_all_exports lib' buf_size s2 =
              (int (length (filter exp_active (g_ipc_exports s))), s3) \<and> gmem s3 = gmem s \<and>
            (\<forall>i < length (g_ipc_exports s). exp_active (g_ipc_exports s ! i) \<longrightarrow> back_in_use s3 i)))"
proof -
  let ?A = "{i. i < length (g_ipc_exports s) \<and> exp_active (g_ipc_exports s ! i)}"
  from save_and_teardown_ok [OF assms(1,3,4)] obtain s1 where
    1: "ipc_save_and_teardown_all_exports lib buf_size s = (int (length (filter has_mapping (g_ipc_exports s))), s1)"
      "saved (g_ipc_exports s) (gmem s) ?A (ipc_get_export_data_size s) s1"
      "\<forall>a. a \<notin> exp_ranges (g_ipc_exports s) \<longrightarrow> gmem s1 a = gmem s a"
      "\<forall>j < length (g_ipc_exports s). exp_torn_down (g_ipc_exports s1 ! j) = has_mapping (g_ipc_exports s ! j)"
    by blast
  have "\<exists>s3. ipc_rebuild_and_restore_all_exports lib' buf_size s2 =
        (int (length (filter exp_active (g_ipc_exports s))), s3) \<and> gmem s3 = gmem s \<and>
      (\<forall>i < length (g_ipc_exports s). exp_active (g_ipc_exports s ! i) \<longrightarrow> back_in_use s3 i)"
    if "hbuf s2 = hbuf s1" "g_ipc_exports s2 = g_ipc_exports s1"
      "\<forall>a. a \<notin> exp_ranges (g_ipc_exports s) \<longrightarrow> gmem s2 a = gmem s1 a" for s2
    using that 1 saved_cong [of s2 s1] by (intro rebuild_all_ok [OF assms(2) _ assms(3) _ assms(4,5)]) auto
  with 1(1) show ?thesis by blast
qed

definition two_exports :: ipc_state where
  \<comment> \<open>two exported allocations, the first on device 1, the second on device 0\<close>
  "two_exports = (let e = \<lparr>app_local_handle = 5, local_handle = 5, exported_fd = 8, handle_type = 1, exp_size = 2,
       mapped_vaddr = 100, mapped_size = 2, has_mapping = True, access_dev = 1, access_desc = no_desc,
       has_access = False, exp_torn_down = False,
       saved_prop = \<lparr>requestedHandleTypes = 1, location_type = 1, location_id = 1\<rparr>, has_saved_prop = True,
       saved_data_offset = 0, has_saved_data_offset = False\<rparr>
     in ipc_start\<lparr>g_ipc_exports := [e, e\<lparr>app_local_handle := 6, local_handle := 6, exported_fd := 9,
          mapped_vaddr := 200, mapped_size := 3, saved_prop := (saved_prop e)\<lparr>location_id := 0\<rparr>\<rparr>],
          gmem := of_nat\<rparr>)"

lemma lib_ok_obliging [simp]: "lib_ok obliging_lib"
  by (simp add: lib_ok_def obliging_lib_def)

theorem export_round_trip_witness:
  "\<exists>s1 s3. ipc_save_and_teardown_all_exports obliging_lib 5 two_exports = (2, s1) \<and>
     ipc_rebuild_and_restore_all_exports obliging_lib 5 s1 = (2, s3) \<and> gmem s3 = of_nat \<and>
     back_in_use s3 0 \<and> back_in_use s3 1"
proof -
  have "ipc_get_export_data_size two_exports \<le> 5"
    "\<forall>e \<in> set (g_ipc_exports two_exports). \<not> exp_torn_down e"
    "\<forall>e \<in> set (g_ipc_exports two_exports). exp_active e \<longrightarrow> has_saved_prop e"
    by (simp_all add: two_exports_def Let_def ipc_get_export_data_size_def exp_active_def)
  note c = export_round_trip [OF lib_ok_obliging lib_ok_obliging this]
  have "length (filter has_mapping (g_ipc_exports two_exports)) = 2"
    "length (filter exp_active (g_ipc_exports two_exports)) = 2" "length (g_ipc_exports two_exports) = 2"
    "exp_active (g_ipc_exports two_exports ! 0)" "exp_active (g_ipc_exports two_exports ! 1)"
    "gmem two_exports = of_nat"
    by (simp_all add: two_exports_def Let_def exp_active_def)
  with c show ?thesis by fastforce
qed

text \<open>A host buffer smaller than the data of the exports makes the teardown return \<open>-1\<close> before it
  touches anything: no export is unmapped, no byte is copied, no driver call is made.\<close>

theorem export_no_room:
  assumes "avail lib F_MemRelease" "avail lib F_MemcpyDtoH" "buf_size < ipc_get_export_data_size s"
  shows "ipc_save_and_teardown_all_exports lib buf_size s = (-1, s)"
  using assms by (simp add: ipc_save_and_teardown_all_exports_def device_exports_total Let_def)

theorem export_no_room_witness:
  "ipc_save_and_teardown_all_exports obliging_lib 4 two_exports = (-1, two_exports)"
  by (rule export_no_room)
    (simp_all add: obliging_lib_def two_exports_def Let_def ipc_get_export_data_size_def exp_active_def)

end
