(* ===== verification/Ipc_Local.thy ===== *)
theory Ipc_Local
  imports Ipc_Export
begin

text \<open>
  Checkpoint and restore of the shareable allocations a process made but never exported
  (\<open>src/ipc_hooks.cpp\<close>): \<open>ipc_get_local_alloc_data_size\<close>, \<open>ipc_save_and_teardown_local_allocs\<close>
  and \<open>ipc_rebuild_local_allocs\<close>.  Saving assigns the offsets in the host buffer in the order of
  the handles, and records the allocations device by device; rebuilding computes the offsets anew
  from the records.  The two agree when the devices come in ascending order, one device in
  particular; in general the rebuild deals the saved bytes out in the order of the devices.
\<close>

section \<open>Saving and teardown\<close>

definition exported_vas :: "ipc_state \<Rightarrow> nat set" where
  "exported_vas s = mapped_vaddr ` {e \<in> set (g_ipc_exports s). has_mapping e}"

fun local_candidates_in ::
    "(nat \<times> nat) list \<Rightarrow> nat set \<Rightarrow> (nat \<times> CuMemCreateRecord) list \<Rightarrow> (nat \<times> nat \<times> CuMemCreateRecord) list" where
  "local_candidates_in to_va vas [] = []"
| "local_candidates_in to_va vas ((h, c) # cs) =
     (case map_of to_va h of
        None \<Rightarrow> local_candidates_in to_va vas cs
      | Some va \<Rightarrow> if va \<in> vas then local_candidates_in to_va vas cs
                   else (h, va, c) # local_candidates_in to_va vas cs)"

definition local_candidates :: "ipc_state \<Rightarrow> (nat \<times> nat \<times> CuMemCreateRecord) list" where
  \<comment> \<open>created, mapped, not exported: handle, address, record, in the order of the handles\<close>
  "local_candidates s = local_candidates_in (g_handle_to_va s) (exported_vas s) (g_created_allocs s)"

definition ipc_get_local_alloc_data_size :: "ipc_state \<Rightarrow> nat" where
  "ipc_get_local_alloc_data_size s = sum_list (map (\<lambda>(_, _, c). cr_size c) (local_candidates s))"

record LocalAllocEntry =
  la_handle :: nat
  la_vaddr :: nat
  la_size :: nat
  la_prop :: CUmemAllocationProp
  la_offset :: nat

fun collect_local :: "nat \<Rightarrow> (nat \<times> nat \<times> CuMemCreateRecord) list \<Rightarrow> nat \<Rightarrow> (LocalAllocEntry list \<times> nat) option" where
  "collect_local buf_size [] off = Some ([], off)"
| "collect_local buf_size ((h, va, c) # cs) off =
     (if buf_size < off + cr_size c then None
      else map_option (\<lambda>(es, off'). (\<lparr>la_handle = h, la_vaddr = va, la_size = cr_size c, la_prop = cr_prop c,
                                      la_offset = off\<rparr> # es, off'))
             (collect_local buf_size cs (off + cr_size c)))"

fun save_local :: "cu_lib \<Rightarrow> bool \<Rightarrow> LocalAllocEntry list \<Rightarrow> ipc_state \<Rightarrow> bool \<times> ipc_state" where
  \<comment> \<open>an error ends the loop on the synchronous path only\<close>
  "save_local lib async [] s = (True, s)"
| "save_local lib async (e # es) s =
     (case ccall lib ((if async then CuMemcpyDtoHAsync else CuMemcpyDtoH) (la_offset e) (la_vaddr e) (la_size e)) s of
        (r, _, s1) \<Rightarrow> if r \<noteq> 0 \<and> \<not> async then (False, s1) else save_local lib async es s1)"

definition local_record :: "LocalAllocEntry \<Rightarrow> CuMemLocalAllocRecord" where
  "local_record e = \<lparr>loc_handle = la_handle e, loc_vaddr = la_vaddr e, loc_size = la_size e, loc_prop = la_prop e,
                     loc_torn_down = False\<rparr>"

fun save_local_devices :: "cu_lib \<Rightarrow> bool \<Rightarrow> (int \<times> LocalAllocEntry list) list \<Rightarrow> ipc_state \<Rightarrow> bool \<times> ipc_state" where
  "save_local_devices lib async [] s = (True, s)"
| "save_local_devices lib async ((dev, es) # gs) s =
     (case push_context lib True dev s of (pushed, s1) \<Rightarrow>
      case save_local lib async es (cdo_if async lib CuStreamCreate s1) of (ok, s2) \<Rightarrow>
      let s3 = cdo_if async lib CuStreamDestroy (cdo_if async lib CuStreamSynchronize s2);
          s4 = pop_context lib pushed dev s3
      in if \<not> ok then (False, s4)
         else save_local_devices lib async gs (s4\<lparr>g_local_allocs := g_local_allocs s4 @ map local_record es\<rparr>))"

fun teardown_local :: "cu_lib \<Rightarrow> nat list \<Rightarrow> ipc_state \<Rightarrow> ipc_state" where
  "teardown_local lib [] s = s"
| "teardown_local lib (i # is) s =
     (let rec = g_local_allocs s ! i;
          s1 = cdo_if (avail lib F_MemUnmap) lib (CuMemUnmap (loc_vaddr rec) (loc_size rec)) s;
          s2 = cdo lib (CuMemRelease (loc_handle rec)) s1
      in teardown_local lib is (upd_loc i (\<lambda>e. e\<lparr>loc_torn_down := True\<rparr>) s2))"

definition ipc_save_and_teardown_local_allocs :: "cu_lib \<Rightarrow> nat \<Rightarrow> ipc_state \<Rightarrow> int \<times> ipc_state" where
  "ipc_save_and_teardown_local_allocs lib buf_size s =
     (if \<not> avail lib F_MemRelease \<or> \<not> avail lib F_MemcpyDtoH then (-1, s)
      else let s0 = s\<lparr>g_local_allocs := []\<rparr> in
      case collect_local buf_size (local_candidates s) 0 of
        None \<Rightarrow> (-1, s0)
      | Some (es, nbytes) \<Rightarrow>
          case pin_host lib nbytes s0 of (pinned, s1) \<Rightarrow>
          let async = (pinned \<and> streams lib F_MemcpyDtoHAsync) in
          case save_local_devices lib async (group (\<lambda>e. location_id (la_prop e)) es) s1 of (ok, s2) \<Rightarrow>
            if \<not> ok then (-1, cdo_if pinned lib CuMemHostUnregister s2)
            else let s3 = cdo_if (pinned \<and> avail lib F_MemHostUnregister) lib CuMemHostUnregister s2
                 in (int (length (g_local_allocs s3)), teardown_local lib [0..<length (g_local_allocs s3)] s3))"

section \<open>Rebuild\<close>

record LocalRebuildEntry =
  alloc_idx :: nat
  lr_handle :: nat
  lr_offset :: nat

definition local_access :: "cu_lib \<Rightarrow> CuMemLocalAllocRecord \<Rightarrow> ipc_state \<Rightarrow> ipc_state" where
  "local_access lib rec s =
     (if \<not> avail lib F_MemSetAccess then s
      else case map_of (g_va_access_descs s) (loc_vaddr rec) of
          Some (d # ds) \<Rightarrow> replay_access lib (loc_vaddr rec) (loc_size rec) (d # ds) s
        | _ \<Rightarrow> cdo lib (CuMemSetAccess (loc_vaddr rec) (loc_size rec)
                 [\<lparr>desc_type = CU_MEM_LOCATION_TYPE_DEVICE, desc_id = location_id (loc_prop rec),
                   desc_flags = CU_MEM_ACCESS_FLAGS_PROT_READWRITE\<rparr>]) s)"

fun rebuild_local ::
    "cu_lib \<Rightarrow> nat list \<Rightarrow> LocalRebuildEntry list \<Rightarrow> nat \<Rightarrow> ipc_state \<Rightarrow> LocalRebuildEntry list \<times> nat \<times> ipc_state" where
  "rebuild_local lib [] es off s = (es, off, s)"
| "rebuild_local lib (i # is) es off s =
     (let rec = g_local_allocs s ! i in
      if \<not> loc_torn_down rec then rebuild_local lib is es off s
      else case ccall lib (CuMemCreate (loc_size rec) (loc_prop rec)) s of (r, h, s1) \<Rightarrow>
        if r \<noteq> 0 then rebuild_local lib is es off s1
        else case ccall lib (CuMemMap (loc_vaddr rec) (loc_size rec) h) s1 of (r, _, s2) \<Rightarrow>
          if r \<noteq> 0 then rebuild_local lib is es off (cdo lib (CuMemRelease h) s2)
          else rebuild_local lib is (es @ [\<lparr>alloc_idx = i, lr_handle = h, lr_offset = off\<rparr>]) (off + loc_size rec)
                 (local_access lib rec s2))"

fun restore_local :: "cu_lib \<Rightarrow> bool \<Rightarrow> nat \<Rightarrow> LocalRebuildEntry list \<Rightarrow> ipc_state \<Rightarrow> ipc_state" where
  "restore_local lib async buf_size [] s = s"
| "restore_local lib async buf_size (e # es) s =
     (let rec = g_local_allocs s ! alloc_idx e;
          copy = (if async then CuMemcpyHtoDAsync else CuMemcpyHtoD)
      in restore_local lib async buf_size es
           (cdo_if (lr_offset e + loc_size rec \<le> buf_size) lib (copy (loc_vaddr rec) (lr_offset e) (loc_size rec)) s))"

definition track_rebuilt :: "LocalRebuildEntry \<Rightarrow> ipc_state \<Rightarrow> ipc_state" where
  "track_rebuilt e s =
     (let rec = g_local_allocs s ! alloc_idx e in
      upd_loc (alloc_idx e) (\<lambda>x. x\<lparr>loc_handle := lr_handle e, loc_torn_down := False\<rparr>)
        (s\<lparr>g_created_allocs := omap_erase (loc_handle rec)
             (omap_put (lr_handle e) \<lparr>cr_size = loc_size rec, cr_prop = loc_prop rec\<rparr> (g_created_allocs s)),
           g_handle_to_va := omap_erase (loc_handle rec) (omap_put (lr_handle e) (loc_vaddr rec) (g_handle_to_va s))\<rparr>))"

fun restore_local_devices ::
    "cu_lib \<Rightarrow> bool \<Rightarrow> nat \<Rightarrow> (int \<times> LocalRebuildEntry list) list \<Rightarrow> ipc_state \<Rightarrow> ipc_state" where
  "restore_local_devices lib async buf_size [] s = s"
| "restore_local_devices lib async buf_size ((dev, es) # gs) s =
     (case push_context lib True dev s of (pushed, s1) \<Rightarrow>
      let s2 = restore_local lib async buf_size es (cdo_if async lib CuStreamCreate s1);
          s3 = cdo_if async lib CuStreamDestroy (cdo_if async lib CuStreamSynchronize s2);
          s4 = pop_context lib pushed dev s3
      in restore_local_devices lib async buf_size gs (fold track_rebuilt es s4))"

definition ipc_rebuild_local_allocs :: "cu_lib \<Rightarrow> nat \<Rightarrow> ipc_state \<Rightarrow> int \<times> ipc_state" where
  "ipc_rebuild_local_allocs lib buf_size s =
     (if \<not> avail lib F_MemCreate \<or> \<not> avail lib F_MemMap \<or> \<not> avail lib F_MemcpyHtoD then (-1, s)
      else case rebuild_local lib [0..<length (g_local_allocs s)] [] 0 s of (es, off, s1) \<Rightarrow>
        let groups = group (\<lambda>e. location_id (loc_prop (g_local_allocs s1 ! alloc_idx e))) es in
        case pin_host lib off s1 of (pinned, s2) \<Rightarrow>
        let async = (pinned \<and> streams lib F_MemcpyHtoDAsync);
            s3 = restore_local_devices lib async buf_size groups s2
        in (int (length es), cdo_if (pinned \<and> avail lib F_MemHostUnregister) lib CuMemHostUnregister s3))"

section \<open>Saving writes the allocations one after the other\<close>

fun laid_out :: "nat \<Rightarrow> LocalAllocEntry list \<Rightarrow> bool" where
  \<comment> \<open>the entries follow each other in the buffer without gap\<close>
  "laid_out off [] = True"
| "laid_out off (e # es) = (la_offset e = off \<and> laid_out (off + la_size e) es)"

lemma collect_local_some:
  assumes "collect_local n cs off = Some (es, nbytes)"
  shows "laid_out off es \<and> nbytes = off + sum_list (map la_size es) \<and> (es \<noteq> [] \<longrightarrow> nbytes \<le> n) \<and>
    map (\<lambda>e. (la_handle e, la_vaddr e, \<lparr>cr_size = la_size e, cr_prop = la_prop e\<rparr>)) es = cs"
  using assms by (induction n cs off arbitrary: es nbytes rule: collect_local.induct) (force split: if_splits)+

lemma collect_local_fits:
  "off + sum_list (map (\<lambda>(_, _, c). cr_size c) cs) \<le> n \<Longrightarrow> \<exists>es nbytes. collect_local n cs off = Some (es, nbytes)"
  by (induction n cs off rule: collect_local.induct) force+

lemma collect_local_none:
  "n < off + sum_list (map (\<lambda>(_, _, c). cr_size c) cs) \<Longrightarrow> cs \<noteq> [] \<Longrightarrow> collect_local n cs off = None"
proof (induction n cs off rule: collect_local.induct)
  case (2 n h va c cs off)
  then show ?case by (cases cs) (auto simp: add.assoc)
qed simp

definition local_saved :: "mem \<Rightarrow> nat \<Rightarrow> mem \<Rightarrow> LocalAllocEntry list \<Rightarrow> bool" where
  \<comment> \<open>the host buffer \<open>H\<close> holds below \<open>n\<close> the bytes \<open>G\<close> had in the allocations\<close>
  "local_saved G n H es \<longleftrightarrow> (\<forall>e \<in> set es. la_offset e + la_size e \<le> n \<and>
     (\<forall>k < la_size e. H (la_offset e + k) = G (la_vaddr e + k)))"

lemma sorted_wrt_mset:
  assumes "symp R"
  shows "sorted_wrt R xs \<longleftrightarrow> (\<forall>x \<in># mset xs. \<forall>y \<in># mset xs - {#x#}. R x y)"
proof (induction xs)
  case (Cons a xs)
  then show ?case using sympD [OF assms, of a] sympD [OF assms, of _ a] by auto
qed simp

lemma sorted_wrt_perm: "symp R \<Longrightarrow> mset xs = mset ys \<Longrightarrow> sorted_wrt R xs = sorted_wrt R ys"
  by (simp add: sorted_wrt_mset)

definition slots_apart :: "LocalAllocEntry \<Rightarrow> LocalAllocEntry \<Rightarrow> bool" where
  \<comment> \<open>the entries have disjoint places in the buffer\<close>
  "slots_apart e e' \<longleftrightarrow> la_offset e + la_size e \<le> la_offset e' \<or> la_offset e' + la_size e' \<le> la_offset e"

lemma symp_slots_apart: "symp slots_apart"
  by (auto simp: symp_def slots_apart_def)

lemma laid_out_apart:
  "laid_out off es \<Longrightarrow> sorted_wrt slots_apart es \<and>
     (\<forall>e \<in> set es. off \<le> la_offset e \<and> la_offset e + la_size e \<le> off + sum_list (map la_size es))"
  by (induction es arbitrary: off) (fastforce simp: slots_apart_def)+

lemma save_local_ok:
  assumes lib: "lib_ok lib"
  shows "local_saved (gmem s) n (hbuf s) ds \<Longrightarrow> sorted_wrt slots_apart (ds @ es) \<Longrightarrow>
    \<forall>e \<in> set es. la_offset e + la_size e \<le> n \<Longrightarrow>
    \<exists>s'. save_local lib async es s = (True, s') \<and> gmem s' = gmem s \<and> g_local_allocs s' = g_local_allocs s \<and>
      local_saved (gmem s) n (hbuf s') (ds @ es)"
proof (induction es arbitrary: s ds)
  case (Cons e es)
  obtain r v s1 where 1: "ccall lib ((if async then CuMemcpyDtoHAsync else CuMemcpyDtoH) (la_offset e) (la_vaddr e) (la_size e)) s
      = (r, v, s1)" by (metis prod_cases3)
  have r: "r = 0" by (rule lib_ok_rc [OF lib 1])
  have g: "gmem s1 = gmem s" "hbuf s1 = blit (la_offset e) (la_vaddr e) (la_size e) (gmem s) (hbuf s)"
      "g_local_allocs s1 = g_local_allocs s"
    using ccall_gmem [OF 1] ccall_hbuf [OF 1] r same_tablesD [OF ccall_tables [OF 1]] by auto
  have "\<forall>d \<in> set ds. slots_apart d e" using Cons.prems(2) by (simp add: sorted_wrt_append)
  then have "local_saved (gmem s1) n (hbuf s1) (ds @ [e])"
    using Cons.prems(1,3) by (auto simp: local_saved_def slots_apart_def g blit_def)
  from Cons.IH [OF this] Cons.prems(2,3) 1 r g show ?case by auto
qed simp

lemma save_local_devices_ok:
  assumes lib: "lib_ok lib"
  shows "local_saved (gmem s) n (hbuf s) ds \<Longrightarrow> sorted_wrt slots_apart (ds @ concat (map snd gs)) \<Longrightarrow>
    \<forall>e \<in> set (concat (map snd gs)). la_offset e + la_size e \<le> n \<Longrightarrow>
    \<exists>s'. save_local_devices lib async gs s = (True, s') \<and> gmem s' = gmem s \<and>
      g_local_allocs s' = g_local_allocs s @ map local_record (concat (map snd gs)) \<and>
      local_saved (gmem s) n (hbuf s') (ds @ concat (map snd gs))"
proof (induction gs arbitrary: s ds)
  case (Cons g gs)
  obtain dev es where g: "g = (dev, es)" by fastforce
  obtain pushed s0 where 0: "push_context lib True dev s = (pushed, s0)" by fastforce
  define s1 where "s1 = cdo_if async lib CuStreamCreate s0"
  have "idle_step s s1"
    unfolding s1_def by (rule idle_step_trans [OF push_context_idle [OF 0] cdo_if_idle]) simp
  note i1 = idle_facts [OF this]
  have "sorted_wrt slots_apart (ds @ es)" "\<forall>e \<in> set es. la_offset e + la_size e \<le> n"
    using Cons.prems(2,3) by (auto simp: g sorted_wrt_append)
  with save_local_ok [OF lib, of s1 n ds es async] Cons.prems(1) i1
  obtain s2 where 2: "save_local lib async es s1 = (True, s2)" "gmem s2 = gmem s" "g_local_allocs s2 = g_local_allocs s"
      "local_saved (gmem s) n (hbuf s2) (ds @ es)"
    by auto
  define s4 where "s4 = pop_context lib pushed dev (cdo_if async lib CuStreamDestroy (cdo_if async lib CuStreamSynchronize s2))"
  have "idle_step s2 s4" unfolding s4_def
    by (intro idle_step_trans [OF idle_step_trans [OF cdo_if_idle cdo_if_idle] pop_context_idle]) simp_all
  note i4 = idle_facts [OF this]
  let ?s5 = "s4\<lparr>g_local_allocs := g_local_allocs s4 @ map local_record es\<rparr>"
  have "save_local_devices lib async (g # gs) s = save_local_devices lib async gs ?s5"
    by (simp add: g 0 s1_def [symmetric] 2(1) Let_def s4_def)
  with Cons.IH [of ?s5 "ds @ es"] Cons.prems(2,3) 2 i4 show ?case
    by (auto simp: g)
qed simp

section \<open>Round trip\<close>

definition loc_ranges :: "CuMemLocalAllocRecord list \<Rightarrow> nat set" where
  "loc_ranges L = (\<Union>e \<in> set L. {loc_vaddr e..<loc_vaddr e + loc_size e})"

definition loc_geometry :: "CuMemLocalAllocRecord \<Rightarrow> nat \<times> nat \<times> CUmemAllocationProp" where
  "loc_geometry e = (loc_vaddr e, loc_size e, loc_prop e)"

lemma loc_geometry_nth:
  assumes "map loc_geometry L = map loc_geometry L'" "i < length L'"
  shows "loc_vaddr (L ! i) = loc_vaddr (L' ! i)" "loc_size (L ! i) = loc_size (L' ! i)"
    "loc_prop (L ! i) = loc_prop (L' ! i)"
proof -
  have "loc_geometry (L ! i) = loc_geometry (L' ! i)" using assms by (metis length_map nth_map)
  then show "loc_vaddr (L ! i) = loc_vaddr (L' ! i)" "loc_size (L ! i) = loc_size (L' ! i)"
    "loc_prop (L ! i) = loc_prop (L' ! i)" by (simp_all add: loc_geometry_def)
qed

lemma upd_loc_geometry:
  "(\<And>x. loc_geometry (f x) = loc_geometry x) \<Longrightarrow> map loc_geometry (g_local_allocs (upd_loc i f s)) = map loc_geometry (g_local_allocs s)"
  by (simp add: upd_loc_def map_list_update_field)

lemma teardown_local_ok:
  "map loc_geometry (g_local_allocs s) = map loc_geometry L \<Longrightarrow> set is \<subseteq> {..<length L} \<Longrightarrow>
   hbuf (teardown_local lib is s) = hbuf s \<and>
   map loc_geometry (g_local_allocs (teardown_local lib is s)) = map loc_geometry L \<and>
   (\<forall>a. a \<notin> loc_ranges L \<longrightarrow> gmem (teardown_local lib is s) a = gmem s a) \<and>
   (\<forall>j < length L. j \<in> set is \<or> loc_torn_down (g_local_allocs s ! j) \<longrightarrow>
      loc_torn_down (g_local_allocs (teardown_local lib is s) ! j))"
proof (induction "is" arbitrary: s)
  case (Cons i "is")
  let ?rec = "g_local_allocs s ! i"
  define s1 where "s1 = cdo_if (avail lib F_MemUnmap) lib (CuMemUnmap (loc_vaddr ?rec) (loc_size ?rec)) s"
  define s2 where "s2 = cdo lib (CuMemRelease (loc_handle ?rec)) s1"
  define s3 where "s3 = upd_loc i (\<lambda>e. e\<lparr>loc_torn_down := True\<rparr>) s2"
  have i: "i < length L" and len: "length (g_local_allocs s) = length L"
    using Cons.prems by (auto dest: map_eq_imp_length_eq)
  note u = unmap_facts [OF s1_def]
  have "idle_step s1 s2" unfolding s2_def by (rule cdo_idle) simp
  note d = idle_facts [OF this]
  have geo: "map loc_geometry (g_local_allocs s3) = map loc_geometry L"
  proof -
    have "map loc_geometry (g_local_allocs s3) = map loc_geometry (g_local_allocs s2)"
      unfolding s3_def by (rule upd_loc_geometry) (simp add: loc_geometry_def)
    then show ?thesis using Cons.prems(1) u(4) d(4) by simp
  qed
  have g: "gmem s3 a = gmem s a" if "a \<notin> loc_ranges L" for a
  proof -
    have "a \<notin> {loc_vaddr ?rec..<loc_vaddr ?rec + loc_size ?rec}"
      using that loc_geometry_nth [OF Cons.prems(1) i] nth_mem [OF i] by (auto simp: loc_ranges_def)
    then show ?thesis using u(3) d by (simp add: s3_def upd_loc_def)
  qed
  have t: "loc_torn_down (g_local_allocs s3 ! j) = (j = i \<or> loc_torn_down (g_local_allocs s ! j))" if "j < length L" for j
    using that len u d by (cases "j = i") (auto simp: s3_def upd_loc_def)
  have h: "hbuf s3 = hbuf s" using u d by (simp add: s3_def upd_loc_def)
  have "teardown_local lib (i # is) s = teardown_local lib is s3"
    by (simp add: Let_def s1_def s2_def s3_def)
  with Cons.IH [OF geo] Cons.prems(2) g t h show ?case by auto
qed simp

lemma group_sorted:
  assumes "sorted (map key xs)"
  shows "concat (map snd (group key xs)) = xs"
proof -
  have put: "concat (map snd (group_step key x g)) = concat (map snd g) @ [x] \<and> (\<forall>k \<in> fst ` set (group_step key x g). k \<le> key x)"
    if "\<forall>k \<in> fst ` set g. k \<le> key x" "omap_ok g" for x and g :: "(int \<times> 'a list) list"
    using that
  proof (induction g)
    case (Cons e g)
    obtain k v where e: "e = (k, v)" by fastforce
    show ?case
    proof (cases "k = key x")
      case True
      have "g = []"
      proof (rule ccontr)
        assume "g \<noteq> []"
        then obtain p where "p \<in> set g" using hd_in_set by blast
        then show False using Cons.prems True e by force
      qed
      with True e show ?thesis by (simp add: group_step_def)
    next
      case False
      with Cons e show ?thesis by (auto simp: group_step_def)
    qed
  qed (simp add: group_step_def)
  have "concat (map snd (fold (group_step key) ys g)) = concat (map snd g) @ ys"
    if "sorted (map key ys)" "\<forall>k \<in> fst ` set g. \<forall>y \<in> set ys. k \<le> key y" "omap_ok g" for ys and g :: "(int \<times> 'a list) list"
    using that
  proof (induction ys arbitrary: g)
    case (Cons y ys)
    have p: "concat (map snd (group_step key y g)) = concat (map snd g) @ [y]"
        "\<forall>k \<in> fst ` set (group_step key y g). k \<le> key y"
      using put [of g y] Cons.prems by auto
    have "\<forall>k \<in> fst ` set (group_step key y g). \<forall>z \<in> set ys. k \<le> key z"
      using p(2) Cons.prems(1) by (auto intro: order_trans)
    with Cons.IH [of "group_step key y g"] Cons.prems p(1) show ?case by (simp add: omap_ok_group_step)
  qed simp
  from this [of xs "[]"] assms show ?thesis by (simp add: group_def)
qed

definition entry_candidate :: "LocalAllocEntry \<Rightarrow> nat \<times> nat \<times> CuMemCreateRecord" where
  "entry_candidate e = (la_handle e, la_vaddr e, \<lparr>cr_size = la_size e, cr_prop = la_prop e\<rparr>)"

lemma save_local_any_order:
  assumes lib: "lib_ok lib" and fit: "ipc_get_local_alloc_data_size s \<le> buf_size"
  shows "\<exists>es ds s'. ipc_save_and_teardown_local_allocs lib buf_size s = (int (length (local_candidates s)), s') \<and>
    map entry_candidate es = local_candidates s \<and> ds = concat (map snd (group (\<lambda>e. location_id (la_prop e)) es)) \<and>
    laid_out 0 es \<and> local_saved (gmem s) buf_size (hbuf s') es \<and>
    map loc_geometry (g_local_allocs s') = map loc_geometry (map local_record ds) \<and>
    (\<forall>e \<in> set (g_local_allocs s'). loc_torn_down e) \<and>
    (\<forall>a. a \<notin> loc_ranges (map local_record ds) \<longrightarrow> gmem s' a = gmem s a)"
proof -
  have av: "avail lib f" for f using lib by (simp add: lib_ok_def)
  obtain es n where c: "collect_local buf_size (local_candidates s) 0 = Some (es, n)"
    using fit collect_local_fits [of 0 "local_candidates s" buf_size] by (auto simp: ipc_get_local_alloc_data_size_def)
  note cs = collect_local_some [OF c]
  have n: "n \<le> buf_size" using cs by (cases "es = []") auto
  have cand: "map entry_candidate es = local_candidates s" using cs by (simp add: entry_candidate_def [abs_def])
  define gs where "gs = group (\<lambda>e. location_id (la_prop e)) es"
  define ds where "ds = concat (map snd gs)"
  have m: "mset ds = mset es" unfolding ds_def gs_def by (rule group_perm)
  then have se: "set ds = set es" and ld: "length ds = length es" by (metis set_mset_mset, metis size_mset)
  have lay: "sorted_wrt slots_apart es" "\<forall>e \<in> set es. la_offset e + la_size e \<le> buf_size"
    using laid_out_apart [of 0 es] cs n by auto
  then have ap: "sorted_wrt slots_apart ds" using sorted_wrt_perm [OF symp_slots_apart m] by simp
  let ?s0 = "s\<lparr>g_local_allocs := []\<rparr>"
  obtain pinned s1 where 1: "pin_host lib n ?s0 = (pinned, s1)" by fastforce
  note i1 = idle_facts [OF pin_host_idle [OF 1]]
  define async where "async = (pinned \<and> streams lib F_MemcpyDtoHAsync)"
  have "local_saved (gmem s1) buf_size (hbuf s1) []" by (simp add: local_saved_def)
  from save_local_devices_ok [OF lib this, of gs async, folded ds_def] ap lay(2) i1
  obtain s2 where 2: "save_local_devices lib async gs s1 = (True, s2)" "gmem s2 = gmem s"
      "g_local_allocs s2 = map local_record ds" "local_saved (gmem s) buf_size (hbuf s2) ds"
    by (auto simp: se)
  define s3 where "s3 = cdo_if pinned lib CuMemHostUnregister s2"
  have "idle_step s2 s3" unfolding s3_def by (rule cdo_if_idle) simp
  note i3 = idle_facts [OF this]
  define s4 where "s4 = teardown_local lib [0..<length ds] s3"
  have l3: "g_local_allocs s3 = map local_record ds" using i3 2 by simp
  have "set [0..<length ds] \<subseteq> {..<length (map local_record ds)}" by auto
  note t = teardown_local_ok [OF arg_cong [OF l3] this, of lib, folded s4_def]
  have geo4: "map loc_geometry (g_local_allocs s4) = map loc_geometry (map local_record ds)" using t by (elim conjE)
  have len: "length (g_local_allocs s4) = length ds" using arg_cong [OF geo4, of length] by simp
  have lc: "length (local_candidates s) = length ds" by (simp add: ld flip: cand)
  have td: "loc_torn_down (g_local_allocs s4 ! j)" if "j < length ds" for j using t that by simp
  have "ipc_save_and_teardown_local_allocs lib buf_size s = (int (length ds), s4)"
    by (simp add: ipc_save_and_teardown_local_allocs_def av c Let_def 1 gs_def [symmetric] async_def [symmetric] 2(1)
        s3_def [symmetric] l3 s4_def)
  moreover have "local_saved (gmem s) buf_size (hbuf s4) es"
    using t i3(2) 2(4) by (simp add: local_saved_def se)
  moreover have "\<forall>e \<in> set (g_local_allocs s4). loc_torn_down e" using td len by (simp add: all_set_conv_all_nth)
  moreover have "\<forall>a. a \<notin> loc_ranges (map local_record ds) \<longrightarrow> gmem s4 a = gmem s a" using t i3 2(2) by simp
  ultimately show ?thesis using geo4 cs cand ds_def [unfolded gs_def] unfolding lc
    by (intro exI [of _ es] exI [of _ ds] exI [of _ s4] conjI) blast+
qed

lemma save_local_all_ok:
  assumes lib: "lib_ok lib" and fit: "ipc_get_local_alloc_data_size s \<le> buf_size"
    and srt: "sorted (map (\<lambda>(_, _, c). location_id (cr_prop c)) (local_candidates s))"
  shows "\<exists>es s'. ipc_save_and_teardown_local_allocs lib buf_size s = (int (length (local_candidates s)), s') \<and>
    map (\<lambda>e. (la_handle e, la_vaddr e, \<lparr>cr_size = la_size e, cr_prop = la_prop e\<rparr>)) es = local_candidates s \<and>
    laid_out 0 es \<and> local_saved (gmem s) buf_size (hbuf s') es \<and>
    map loc_geometry (g_local_allocs s') = map loc_geometry (map local_record es) \<and>
    (\<forall>e \<in> set (g_local_allocs s'). loc_torn_down e) \<and>
    (\<forall>a. a \<notin> loc_ranges (map local_record es) \<longrightarrow> gmem s' a = gmem s a)"
proof -
  from save_local_any_order [OF lib fit] obtain es ds s' where
    r: "ipc_save_and_teardown_local_allocs lib buf_size s = (int (length (local_candidates s)), s')"
      "map entry_candidate es = local_candidates s" "laid_out 0 es" "local_saved (gmem s) buf_size (hbuf s') es"
      "\<forall>e \<in> set (g_local_allocs s'). loc_torn_down e"
    and ds: "ds = concat (map snd (group (\<lambda>e. location_id (la_prop e)) es))"
      "map loc_geometry (g_local_allocs s') = map loc_geometry (map local_record ds)"
      "\<forall>a. a \<notin> loc_ranges (map local_record ds) \<longrightarrow> gmem s' a = gmem s a"
    by metis
  have "map (\<lambda>e. location_id (la_prop e)) es = map (\<lambda>(_, _, c). location_id (cr_prop c)) (map entry_candidate es)"
    by (simp add: entry_candidate_def)
  then have "ds = es" unfolding ds(1) using srt r(2) by (intro group_sorted) simp
  with r ds(2,3) show ?thesis by (auto simp: entry_candidate_def [abs_def])
qed

lemma local_access_idle: "idle_step s (local_access lib rec s)"
  unfolding local_access_def
  by (auto intro!: replay_access_idle cdo_idle simp del: replay_access.simps split: option.split list.split)

lemma rebuild_local_ok:
  assumes lib: "lib_ok lib"
  shows "g_local_allocs s = L \<Longrightarrow> \<forall>i \<in> set is. i < length L \<and> loc_torn_down (L ! i) \<Longrightarrow>
    \<exists>es' s'. rebuild_local lib is es off s = (es @ es', off + sum_list (map (\<lambda>i. loc_size (L ! i)) is), s') \<and>
      map alloc_idx es' = is \<and>
      (\<forall>j < length is. lr_offset (es' ! j) = off + sum_list (map (\<lambda>i. loc_size (L ! i)) (take j is))) \<and>
      g_local_allocs s' = L \<and> hbuf s' = hbuf s \<and> (\<forall>a. a \<notin> loc_ranges L \<longrightarrow> gmem s' a = gmem s a)"
proof (induction "is" arbitrary: s es off)
  case (Cons i "is")
  let ?rec = "L ! i"
  obtain r1 h s1 where 1: "ccall lib (CuMemCreate (loc_size ?rec) (loc_prop ?rec)) s = (r1, h, s1)" by (metis prod_cases3)
  obtain r2 v s2 where 2: "ccall lib (CuMemMap (loc_vaddr ?rec) (loc_size ?rec) h) s1 = (r2, v, s2)" by (metis prod_cases3)
  define s3 where "s3 = local_access lib ?rec s2"
  have "idle_step s s1" by (rule ccall_idle [OF 1]) simp
  note i1 = idle_facts [OF this]
  have "idle_step s2 s3" unfolding s3_def by (rule local_access_idle)
  note i3 = idle_facts [OF this]
  have x3: "g_local_allocs s3 = L" "hbuf s3 = hbuf s"
    using Cons.prems(1) i1 i3 map_facts [OF 2] by simp_all
  have g3: "gmem s3 a = gmem s a" if "a \<notin> loc_ranges L" for a
  proof -
    have "a \<notin> {loc_vaddr ?rec..<loc_vaddr ?rec + loc_size ?rec}"
      using that Cons.prems(2) nth_mem [of i L] by (auto simp: loc_ranges_def)
    then show ?thesis using map_facts(3) [OF 2] i1 i3 by simp
  qed
  let ?e = "\<lparr>alloc_idx = i, lr_handle = h, lr_offset = off\<rparr>"
  have "rebuild_local lib (i # is) es off s = rebuild_local lib is (es @ [?e]) (off + loc_size ?rec) s3"
    using Cons.prems lib_ok_rc [OF lib 1] lib_ok_rc [OF lib 2] 1 2 by (simp add: Let_def s3_def)
  with Cons.IH [OF x3(1), of "es @ [?e]" "off + loc_size ?rec"] Cons.prems(2) obtain es' s' where
    IH: "rebuild_local lib (i # is) es off s = (es @ ?e # es', off + loc_size ?rec + sum_list (map (\<lambda>i. loc_size (L ! i)) is), s')"
      "map alloc_idx es' = is" "g_local_allocs s' = L" "hbuf s' = hbuf s3" "\<forall>a. a \<notin> loc_ranges L \<longrightarrow> gmem s' a = gmem s3 a"
      "\<forall>j < length is. lr_offset (es' ! j) = off + loc_size ?rec + sum_list (map (\<lambda>i. loc_size (L ! i)) (take j is))"
    by auto
  have "\<forall>j < length (i # is). lr_offset ((?e # es') ! j) = off + sum_list (map (\<lambda>i. loc_size (L ! i)) (take j (i # is)))"
  proof (intro allI impI)
    fix j assume "j < length (i # is)"
    then show "lr_offset ((?e # es') ! j) = off + sum_list (map (\<lambda>i. loc_size (L ! i)) (take j (i # is)))"
      using IH(6) by (cases j) auto
  qed
  with IH x3(2) g3 show ?case by (intro exI [of _ "?e # es'"] exI [of _ s']) (simp add: add.assoc)
qed simp

definition loc_range :: "CuMemLocalAllocRecord list \<Rightarrow> LocalRebuildEntry \<Rightarrow> nat set" where
  "loc_range L e = {loc_vaddr (L ! alloc_idx e)..<loc_vaddr (L ! alloc_idx e) + loc_size (L ! alloc_idx e)}"

definition holds_local :: "CuMemLocalAllocRecord list \<Rightarrow> mem \<Rightarrow> nat \<Rightarrow> mem \<Rightarrow> LocalRebuildEntry \<Rightarrow> bool" where
  "holds_local L G n H e \<longleftrightarrow> alloc_idx e < length L \<and> lr_offset e + loc_size (L ! alloc_idx e) \<le> n \<and>
     (\<forall>k < loc_size (L ! alloc_idx e). H (lr_offset e + k) = G (loc_vaddr (L ! alloc_idx e) + k))"

lemma blit_local:
  assumes "holds_local L G n H e"
  shows "blit (loc_vaddr (L ! alloc_idx e)) (lr_offset e) (loc_size (L ! alloc_idx e)) H M a =
    (if a \<in> loc_range L e then G a else M a)"
proof (cases "a \<in> loc_range L e")
  case True
  define k where "k = a - loc_vaddr (L ! alloc_idx e)"
  have "k < loc_size (L ! alloc_idx e)" "a = loc_vaddr (L ! alloc_idx e) + k"
    using True by (auto simp: loc_range_def k_def)
  then show ?thesis using assms True by (simp add: holds_local_def blit_in)
qed (auto simp: loc_range_def blit_def)

lemma restore_local_ok:
  assumes lib: "lib_ok lib"
  shows "map loc_geometry (g_local_allocs s) = map loc_geometry L \<Longrightarrow> \<forall>e \<in> set es. holds_local L G n (hbuf s) e \<Longrightarrow>
    g_local_allocs (restore_local lib async n es s) = g_local_allocs s \<and> hbuf (restore_local lib async n es s) = hbuf s \<and>
    (\<forall>a. gmem (restore_local lib async n es s) a = (if a \<in> (\<Union>e \<in> set es. loc_range L e) then G a else gmem s a))"
proof (induction es arbitrary: s)
  case (Cons e es)
  let ?rec = "L ! alloc_idx e"
  have h: "holds_local L G n (hbuf s) e" using Cons.prems(2) by simp
  note geo = loc_geometry_nth [OF Cons.prems(1) conjunct1 [OF h [unfolded holds_local_def]]]
  define s1 where "s1 = cdo lib ((if async then CuMemcpyHtoDAsync else CuMemcpyHtoD)
      (loc_vaddr ?rec) (lr_offset e) (loc_size ?rec)) s"
  note f = htod_facts [OF lib s1_def]
  have "restore_local lib async n (e # es) s = restore_local lib async n es s1"
    using h by (simp add: Let_def cdo_if_def s1_def holds_local_def geo)
  moreover have "gmem s1 a = (if a \<in> loc_range L e then G a else gmem s a)" for a
    unfolding f(3) by (rule blit_local [OF h])
  ultimately show ?case using Cons.IH [of s1] Cons.prems f(2,4) by auto
qed simp

lemma track_rebuilt_facts:
  "gmem (track_rebuilt e s) = gmem s" "hbuf (track_rebuilt e s) = hbuf s"
  "map loc_geometry (g_local_allocs (track_rebuilt e s)) = map loc_geometry (g_local_allocs s)"
  "g_local_allocs (track_rebuilt e s) =
     (g_local_allocs s)[alloc_idx e := (g_local_allocs s ! alloc_idx e)\<lparr>loc_handle := lr_handle e, loc_torn_down := False\<rparr>]"
proof -
  show "map loc_geometry (g_local_allocs (track_rebuilt e s)) = map loc_geometry (g_local_allocs s)"
    unfolding track_rebuilt_def Let_def by (subst upd_loc_geometry) (simp_all add: loc_geometry_def)
qed (simp_all add: track_rebuilt_def Let_def upd_loc_def)

definition loc_live :: "ipc_state \<Rightarrow> nat \<Rightarrow> bool" where
  "loc_live s i \<longleftrightarrow> \<not> loc_torn_down (g_local_allocs s ! i)"

lemma track_rebuilts_ok:
  "map loc_geometry (g_local_allocs s) = map loc_geometry L \<Longrightarrow> \<forall>e \<in> set es. alloc_idx e < length L \<Longrightarrow>
    \<forall>i \<in> D. loc_live s i \<Longrightarrow>
    gmem (fold track_rebuilt es s) = gmem s \<and> hbuf (fold track_rebuilt es s) = hbuf s \<and>
    map loc_geometry (g_local_allocs (fold track_rebuilt es s)) = map loc_geometry L \<and>
    (\<forall>i \<in> D \<union> alloc_idx ` set es. loc_live (fold track_rebuilt es s) i)"
proof (induction es arbitrary: s D)
  case (Cons e es)
  have len: "length (g_local_allocs s) = length L" using arg_cong [OF Cons.prems(1), of length] by simp
  have "loc_live (track_rebuilt e s) i" if "i \<in> insert (alloc_idx e) D" for i
    using that Cons.prems(2,3) len by (cases "i = alloc_idx e") (auto simp: loc_live_def track_rebuilt_facts)
  with Cons.IH [of "track_rebuilt e s" "insert (alloc_idx e) D"] Cons.prems(1,2) track_rebuilt_facts(1-3) [of e s]
  show ?case by simp
qed simp

lemma restore_local_devices_ok:
  assumes lib: "lib_ok lib"
  shows "map loc_geometry (g_local_allocs s) = map loc_geometry L \<Longrightarrow>
    \<forall>e \<in> set (concat (map snd gs)). holds_local L G n (hbuf s) e \<Longrightarrow> \<forall>i \<in> D. loc_live s i \<Longrightarrow>
    hbuf (restore_local_devices lib async n gs s) = hbuf s \<and>
    (\<forall>a. gmem (restore_local_devices lib async n gs s) a =
       (if a \<in> (\<Union>e \<in> set (concat (map snd gs)). loc_range L e) then G a else gmem s a)) \<and>
    map loc_geometry (g_local_allocs (restore_local_devices lib async n gs s)) = map loc_geometry L \<and>
    (\<forall>i \<in> D \<union> alloc_idx ` set (concat (map snd gs)). loc_live (restore_local_devices lib async n gs s) i)"
proof (induction gs arbitrary: s D)
  case (Cons g gs)
  obtain dev es where g: "g = (dev, es)" by fastforce
  obtain pushed s0 where 0: "push_context lib True dev s = (pushed, s0)" by fastforce
  define s1 where "s1 = cdo_if async lib CuStreamCreate s0"
  have "idle_step s s1"
    unfolding s1_def by (rule idle_step_trans [OF push_context_idle [OF 0] cdo_if_idle]) simp
  note i1 = idle_facts [OF this]
  define s2 where "s2 = restore_local lib async n es s1"
  have r: "g_local_allocs s2 = g_local_allocs s" "hbuf s2 = hbuf s"
      "\<And>a. gmem s2 a = (if a \<in> (\<Union>e \<in> set es. loc_range L e) then G a else gmem s a)"
    using restore_local_ok [OF lib, of s1 L es G n async, folded s2_def] Cons.prems(1,2) i1 by (simp_all add: g)
  define s4 where "s4 = pop_context lib pushed dev (cdo_if async lib CuStreamDestroy (cdo_if async lib CuStreamSynchronize s2))"
  have "idle_step s2 s4" unfolding s4_def
    by (intro idle_step_trans [OF idle_step_trans [OF cdo_if_idle cdo_if_idle] pop_context_idle]) simp_all
  note i4 = idle_facts [OF this]
  define s5 where "s5 = fold track_rebuilt es s4"
  have "\<forall>e \<in> set es. alloc_idx e < length L" "\<forall>i \<in> D. loc_live s4 i"
    using Cons.prems i4 r by (simp_all add: g holds_local_def loc_live_def)
  with track_rebuilts_ok [of s4 L es D, folded s5_def] Cons.prems(1) i4 r
  have t: "gmem s5 = gmem s2" "hbuf s5 = hbuf s" "map loc_geometry (g_local_allocs s5) = map loc_geometry L"
      "\<forall>i \<in> D \<union> alloc_idx ` set es. loc_live s5 i" by simp_all
  have e: "restore_local_devices lib async n (g # gs) s = restore_local_devices lib async n gs s5"
    by (simp add: g 0 Let_def s1_def s2_def s4_def s5_def)
  have "\<forall>e \<in> set (concat (map snd gs)). holds_local L G n (hbuf s5) e" using Cons.prems(2) t(2) by simp
  from Cons.IH [OF t(3) this t(4)] t(1,2) r(3) show ?case unfolding e by (simp add: g Un_assoc image_Un)
qed simp

lemma laid_out_nth: "laid_out off es \<Longrightarrow> i < length es \<Longrightarrow> la_offset (es ! i) = off + sum_list (map la_size (take i es))"
proof (induction es arbitrary: off i)
  case (Cons e es)
  then show ?case by (cases i) (auto simp: add.assoc)
qed simp

lemma loc_ranges_cong: "map loc_geometry L = map loc_geometry L' \<Longrightarrow> loc_ranges L = loc_ranges L'"
proof -
  have "loc_ranges L = (\<Union>(v, n, _) \<in> set (map loc_geometry L). {v..<v + n})" for L
    by (simp add: loc_ranges_def loc_geometry_def)
  then show "map loc_geometry L = map loc_geometry L' \<Longrightarrow> loc_ranges L = loc_ranges L'" by (simp only:)
qed

lemma rebuild_local_all_ok:
  assumes lib: "lib_ok lib" and lay: "laid_out 0 es" and sv: "local_saved G buf_size (hbuf s) es"
    and geo: "map loc_geometry (g_local_allocs s) = map loc_geometry (map local_record es)"
    and td: "\<forall>e \<in> set (g_local_allocs s). loc_torn_down e"
    and out: "\<forall>a. a \<notin> loc_ranges (map local_record es) \<longrightarrow> gmem s a = G a"
  shows "\<exists>s'. ipc_rebuild_local_allocs lib buf_size s = (int (length es), s') \<and> gmem s' = G \<and>
    (\<forall>i < length es. loc_live s' i)"
proof -
  let ?L = "g_local_allocs s" and ?M = "map local_record es"
  have av: "avail lib f" for f using lib by (simp add: lib_ok_def)
  have len: "length ?L = length es" using arg_cong [OF geo, of length] by simp
  have nth: "loc_vaddr (?L ! i) = la_vaddr (es ! i)" "loc_size (?L ! i) = la_size (es ! i)" if "i < length es" for i
    using loc_geometry_nth [OF geo, of i] that by (simp_all add: local_record_def)
  have sz: "map (\<lambda>i. loc_size (?L ! i)) [0..<j] = map la_size (take j es)" if "j \<le> length es" for j
    using that by (intro nth_equalityI) (simp_all add: nth)
  have rng: "loc_ranges ?L = loc_ranges ?M" by (rule loc_ranges_cong [OF geo])
  have "\<forall>i \<in> set [0..<length ?L]. i < length ?L \<and> loc_torn_down (?L ! i)" using td by simp
  from rebuild_local_ok [OF lib refl this, of "[]" 0]
  obtain rs off s1 where 1: "rebuild_local lib [0..<length ?L] [] 0 s = (rs, off, s1)"
      "map alloc_idx rs = [0..<length ?L]" "g_local_allocs s1 = ?L" "hbuf s1 = hbuf s"
      "\<forall>j < length es. lr_offset (rs ! j) = sum_list (map la_size (take j es))"
      "\<forall>a. a \<notin> loc_ranges ?L \<longrightarrow> gmem s1 a = gmem s a"
    by (auto simp: sz len)
  have lr: "length rs = length es" using arg_cong [OF 1(2), of length] by (simp add: len)
  have idx: "alloc_idx (rs ! j) = j" if "j < length es" for j
    using arg_cong [OF 1(2), of "\<lambda>xs. xs ! j"] that by (simp add: lr len)
  have he: "holds_local ?L G buf_size (hbuf s) e" if el: "e \<in> set rs" for e
  proof -
    obtain j where j: "j < length es" "e = rs ! j" using el unfolding in_set_conv_nth lr by blast
    have "lr_offset e = la_offset (es ! j)" using j 1(5) laid_out_nth [OF lay j(1)] by simp
    then show ?thesis using j idx nth [OF j(1)] sv nth_mem [OF j(1)] by (simp add: holds_local_def local_saved_def len)
  qed
  define gs where "gs = group (\<lambda>e. location_id (loc_prop (?L ! alloc_idx e))) rs"
  have m: "set (concat (map snd gs)) = set rs" unfolding gs_def using group_perm by (metis set_mset_mset)
  obtain pinned s2 where 2: "pin_host lib off s1 = (pinned, s2)" by fastforce
  note i2 = idle_facts [OF pin_host_idle [OF 2]]
  define async where "async = (pinned \<and> streams lib F_MemcpyHtoDAsync)"
  define s3 where "s3 = restore_local_devices lib async buf_size gs s2"
  have r: "\<And>a. gmem s3 a = (if a \<in> (\<Union>e \<in> set rs. loc_range ?L e) then G a else gmem s2 a)"
      "\<forall>i \<in> alloc_idx ` set rs. loc_live s3 i"
    using restore_local_devices_ok [OF lib, of s2 ?L gs G buf_size "{}" async, folded s3_def] i2 1(3,4) he
    unfolding m by simp_all
  have "(\<Union>e \<in> set rs. loc_range ?L e) = (\<Union>i \<in> set (map alloc_idx rs). {loc_vaddr (?L ! i)..<loc_vaddr (?L ! i) + loc_size (?L ! i)})"
    by (simp add: loc_range_def)
  also have "\<dots> = loc_ranges (map ((!) ?L) [0..<length ?L])"
    unfolding 1(2) by (simp add: loc_ranges_def)
  also have "\<dots> = loc_ranges ?L" by (simp only: map_nth)
  finally have un: "(\<Union>e \<in> set rs. loc_range ?L e) = loc_ranges ?L" .
  have gm: "gmem s3 = G"
  proof
    fix a show "gmem s3 a = G a"
      using r(1) [of a] 1(6) out i2(1) unfolding un rng by (cases "a \<in> loc_ranges ?M") simp_all
  qed
  define s4 where "s4 = cdo_if pinned lib CuMemHostUnregister s3"
  have "idle_step s3 s4" unfolding s4_def by (rule cdo_if_idle) simp
  note i4 = idle_facts [OF this]
  have "alloc_idx ` set rs = {..<length es}" using arg_cong [OF 1(2), of set] by (auto simp: len)
  then have live: "\<forall>i < length es. loc_live s4 i" using r(2) i4(4) by (simp add: loc_live_def)
  have "ipc_rebuild_local_allocs lib buf_size s = (int (length es), s4)"
    by (simp add: ipc_rebuild_local_allocs_def av 1(1,3) Let_def gs_def [symmetric] 2 async_def [symmetric]
        s3_def [symmetric] s4_def [symmetric] lr)
  with gm i4(1) live show ?thesis by simp
qed

definition local_ranges :: "ipc_state \<Rightarrow> nat set" where
  "local_ranges s = (\<Union>(_, va, c) \<in> set (local_candidates s). {va..<va + cr_size c})"

text \<open>C25: when the driver calls succeed and the devices of the local allocations ascend with the
  handles (one device in particular), \<open>ipc_rebuild_local_allocs\<close> gives back what
  \<open>ipc_save_and_teardown_local_allocs\<close> saved, whatever was written in between to the addresses of the
  allocations: all of them are torn down, all are rebuilt, and device memory is what it was.\<close>

theorem local_round_trip:
  assumes "lib_ok lib" "lib_ok lib'" "ipc_get_local_alloc_data_size s \<le> buf_size"
    and "sorted (map (\<lambda>(_, _, c). location_id (cr_prop c)) (local_candidates s))"
  shows "\<exists>s1. ipc_save_and_teardown_local_allocs lib buf_size s = (int (length (local_candidates s)), s1) \<and>
      (\<forall>s2. hbuf s2 = hbuf s1 \<longrightarrow> g_local_allocs s2 = g_local_allocs s1 \<longrightarrow>
         (\<forall>a. a \<notin> local_ranges s \<longrightarrow> gmem s2 a = gmem s1 a) \<longrightarrow>
         (\<exists>s3. ipc_rebuild_local_allocs lib' buf_size s2 = (int (length (local_candidates s)), s3) \<and>
            gmem s3 = gmem s \<and> (\<forall>i < length (local_candidates s). loc_live s3 i)))"
proof -
  from save_local_all_ok [OF assms(1,3,4)] obtain es s1 where
    1: "ipc_save_and_teardown_local_allocs lib buf_size s = (int (length (local_candidates s)), s1)"
      "map (\<lambda>e. (la_handle e, la_vaddr e, \<lparr>cr_size = la_size e, cr_prop = la_prop e\<rparr>)) es = local_candidates s"
      "laid_out 0 es" "local_saved (gmem s) buf_size (hbuf s1) es"
      "map loc_geometry (g_local_allocs s1) = map loc_geometry (map local_record es)"
      "\<forall>e \<in> set (g_local_allocs s1). loc_torn_down e"
      "\<forall>a. a \<notin> loc_ranges (map local_record es) \<longrightarrow> gmem s1 a = gmem s a"
    by blast
  have l: "length es = length (local_candidates s)" and rng: "local_ranges s = loc_ranges (map local_record es)"
    by (auto simp: local_ranges_def loc_ranges_def local_record_def simp flip: 1(2))
  have "\<exists>s3. ipc_rebuild_local_allocs lib' buf_size s2 = (int (length (local_candidates s)), s3) \<and>
            gmem s3 = gmem s \<and> (\<forall>i < length (local_candidates s). loc_live s3 i)"
    if "hbuf s2 = hbuf s1" "g_local_allocs s2 = g_local_allocs s1" "\<forall>a. a \<notin> local_ranges s \<longrightarrow> gmem s2 a = gmem s1 a" for s2
    using that 1 rebuild_local_all_ok [OF assms(2) 1(3), of "gmem s" buf_size s2] by (simp add: rng l)
  with 1(1) show ?thesis by blast
qed

definition local_state :: "int \<Rightarrow> int \<Rightarrow> ipc_state" where
  \<comment> \<open>two one-byte local allocations at addresses 100 and 200, on the given devices\<close>
  "local_state d d' = (let p = \<lambda>d. \<lparr>requestedHandleTypes = 1, location_type = 1, location_id = d\<rparr> in
     ipc_start\<lparr>g_created_allocs := [(1, \<lparr>cr_size = 1, cr_prop = p d\<rparr>), (2, \<lparr>cr_size = 1, cr_prop = p d'\<rparr>)],
       g_handle_to_va := [(1, 100), (2, 200)], gmem := of_nat\<rparr>)"

theorem local_round_trip_witness:
  "\<exists>s1 s3. ipc_save_and_teardown_local_allocs obliging_lib 2 (local_state 0 1) = (2, s1) \<and>
     ipc_rebuild_local_allocs obliging_lib 2 s1 = (2, s3) \<and> gmem s3 = of_nat \<and> loc_live s3 0 \<and> loc_live s3 1"
proof -
  have c: "local_candidates (local_state 0 1) =
      [(1, 100, \<lparr>cr_size = 1, cr_prop = \<lparr>requestedHandleTypes = 1, location_type = 1, location_id = 0\<rparr>\<rparr>),
       (2, 200, \<lparr>cr_size = 1, cr_prop = \<lparr>requestedHandleTypes = 1, location_type = 1, location_id = 1\<rparr>\<rparr>)]"
    by (simp add: local_candidates_def local_state_def exported_vas_def ipc_start_def Let_def)
  have g: "gmem (local_state 0 1) = of_nat" by (simp add: local_state_def Let_def)
  show ?thesis
    using local_round_trip [OF lib_ok_obliging lib_ok_obliging, of "local_state 0 1" 2] g
    by (simp add: c ipc_get_local_alloc_data_size_def) fastforce
qed


definition sync_lib :: cu_lib where
  \<comment> \<open>a driver without pinned host memory and streams\<close>
  "sync_lib = obliging_lib\<lparr>avail := \<lambda>f. f \<notin> {F_MemHostRegister, F_PrimaryCtxRetain, F_MemSetAccess}\<rparr>"

section \<open>Local allocations of several devices\<close>

definition device_order :: "ipc_state \<Rightarrow> (nat \<times> nat \<times> CuMemCreateRecord) list" where
  \<comment> \<open>the order of the records: by device, and by handle within a device\<close>
  "device_order s = concat (map snd (group (\<lambda>(_, _, c). location_id (cr_prop c)) (local_candidates s)))"

definition local_bytes :: "mem \<Rightarrow> (nat \<times> nat \<times> CuMemCreateRecord) list \<Rightarrow> byte list" where
  \<comment> \<open>the contents of the allocations, one after the other\<close>
  "local_bytes G xs = concat (map (\<lambda>(_, va, c). map (\<lambda>k. G (va + k)) [0..<cr_size c]) xs)"

definition va_apart :: "nat \<times> nat \<times> CuMemCreateRecord \<Rightarrow> nat \<times> nat \<times> CuMemCreateRecord \<Rightarrow> bool" where
  "va_apart x y \<longleftrightarrow> (case (x, y) of ((_, va, c), (_, va', c')) \<Rightarrow>
     {va..<va + cr_size c} \<inter> {va'..<va' + cr_size c'} = {})"

lemma symp_va_apart: "symp va_apart"
  by (auto simp: symp_def va_apart_def)

lemma omap_put_map: "omap_put k (f v) (map (apsnd f) g) = map (apsnd f) (omap_put k v g)"
  by (induction k v g rule: omap_put.induct) auto

lemma group_map: "group key (map f xs) = map (apsnd (map f)) (group (key \<circ> f) xs)"
proof -
  have look: "map_of (map (apsnd (map f)) g) k = map_option (map f) (map_of g k)" for g and k :: int
    by (induction g) auto
  have step: "group_step key (f x) (map (apsnd (map f)) g) = map (apsnd (map f)) (group_step (key \<circ> f) x g)" for x g
    by (auto simp: group_step_def look simp flip: omap_put_map split: option.split)
  have "fold (group_step key) (map f xs) (map (apsnd (map f)) g) = map (apsnd (map f)) (fold (group_step (key \<circ> f)) xs g)" for g
    by (induction xs arbitrary: g) (simp_all add: step)
  from this [of "[]"] show ?thesis by (simp add: group_def)
qed

lemma entries_device_order:
  assumes "map entry_candidate es = local_candidates s"
  shows "map entry_candidate (concat (map snd (group (\<lambda>e. location_id (la_prop e)) es))) = device_order s"
proof -
  have k: "(\<lambda>(_, _, c). location_id (cr_prop c)) \<circ> entry_candidate = (\<lambda>e. location_id (la_prop e))"
    by (simp add: fun_eq_iff entry_candidate_def)
  show ?thesis
    unfolding device_order_def assms [symmetric] group_map k by (simp add: map_concat comp_def)
qed

lemma saved_bytes:
  "laid_out off es \<Longrightarrow> local_saved G n H es \<Longrightarrow>
   local_bytes G (map entry_candidate es) = map H [off..<off + sum_list (map la_size es)]"
proof (induction es arbitrary: off)
  case (Cons e es)
  have "map (\<lambda>k. G (la_vaddr e + k)) [0..<la_size e] = map H [off..<off + la_size e]"
    using Cons.prems by (intro nth_equalityI) (auto simp: local_saved_def)
  moreover have "[off..<off + (la_size e + x)] = [off..<off + la_size e] @ [off + la_size e..<off + la_size e + x]" for x
    by (metis add.assoc le_add1 upt_add_eq_append)
  moreover have "local_bytes G (map entry_candidate es) =
      map H [off + la_size e..<off + la_size e + sum_list (map la_size es)]"
    using Cons by (simp add: local_saved_def)
  ultimately show ?case by (simp add: local_bytes_def entry_candidate_def [of e])
qed (simp add: local_bytes_def)

lemma local_bytes_eq:
  "local_bytes G xs = local_bytes G' xs \<longleftrightarrow> (\<forall>(h, va, c) \<in> set xs. \<forall>a \<in> {va..<va + cr_size c}. G a = G' a)"
proof (induction xs)
  case (Cons x xs)
  obtain h va c where x: "x = (h, va, c)" by (cases x)
  have "map (\<lambda>k. G (va + k)) [0..<cr_size c] = map (\<lambda>k. G' (va + k)) [0..<cr_size c] \<longleftrightarrow>
      (\<forall>a \<in> {va..<va + cr_size c}. G a = G' a)"
    by (auto simp: le_iff_add)
  with Cons show ?case by (simp add: x local_bytes_def append_eq_append_conv)
qed (simp add: local_bytes_def)

lemma bytes_determine:
  assumes "\<And>a. a \<notin> (\<Union>(h, va, c) \<in> set xs. {va..<va + cr_size c}) \<Longrightarrow> G a = G' a"
  shows "G = G' \<longleftrightarrow> local_bytes G xs = local_bytes G' xs"
proof
  assume "local_bytes G xs = local_bytes G' xs"
  then have "G a = G' a" for a using assms [of a] unfolding local_bytes_eq by fastforce
  then show "G = G'" by (rule ext)
qed simp

fun relaid :: "nat \<Rightarrow> LocalAllocEntry list \<Rightarrow> LocalAllocEntry list" where
  \<comment> \<open>the entries with the offsets the rebuild computes\<close>
  "relaid off [] = []"
| "relaid off (e # es) = e\<lparr>la_offset := off\<rparr> # relaid (off + la_size e) es"

lemma relaid_facts:
  "laid_out off (relaid off es)" "map local_record (relaid off es) = map local_record es"
  "map entry_candidate (relaid off es) = map entry_candidate es" "map la_size (relaid off es) = map la_size es"
  by (induction es arbitrary: off) (simp_all add: local_record_def entry_candidate_def)

definition dealt :: "mem \<Rightarrow> mem \<Rightarrow> LocalAllocEntry list \<Rightarrow> mem" where
  \<comment> \<open>\<open>G\<close> with the buffer \<open>H\<close> copied to the allocations\<close>
  "dealt G H es a = (case List.find (\<lambda>e. la_vaddr e \<le> a \<and> a < la_vaddr e + la_size e) es of
     None \<Rightarrow> G a | Some e \<Rightarrow> H (la_offset e + (a - la_vaddr e)))"

lemma dealt_saved:
  assumes "sorted_wrt va_apart (map entry_candidate es)" and "laid_out 0 es" and "sum_list (map la_size es) \<le> n"
  shows "local_saved (dealt G H es) n H es" "a \<notin> loc_ranges (map local_record es) \<Longrightarrow> dealt G H es a = G a"
proof -
  have "List.find (\<lambda>x. la_vaddr x \<le> la_vaddr e + k \<and> la_vaddr e + k < la_vaddr x + la_size x) es = Some e"
    if "e \<in> set es" "k < la_size e" for e k
    using assms(1) that
    by (induction es) (auto simp: va_apart_def entry_candidate_def disjoint_iff)
  then show "local_saved (dealt G H es) n H es"
    using laid_out_apart [OF assms(2)] assms(3) by (fastforce simp: local_saved_def dealt_def)
  show "a \<notin> loc_ranges (map local_record es) \<Longrightarrow> dealt G H es a = G a"
    by (auto simp: dealt_def loc_ranges_def local_record_def find_None_iff split: option.split dest!: find_Some_iff [THEN iffD1])
qed

text \<open>C26: which bytes a rebuild gives to which local allocation, whatever devices they are on.  When
  the driver calls succeed and the allocations have disjoint ranges, all of them are rebuilt and
  memory outside them is untouched, and the bytes of the allocations read in the order of the
  devices are, after the rebuild, what the bytes read in the order of the handles were before.  So
  device memory is what it was exactly when the two orders give the same bytes; otherwise contents
  are moved between allocations although every call succeeded.\<close>

theorem local_bytes_by_device:
  assumes "lib_ok lib" "lib_ok lib'" "ipc_get_local_alloc_data_size s \<le> buf_size"
    and "sorted_wrt va_apart (local_candidates s)"
  shows "\<exists>s1. ipc_save_and_teardown_local_allocs lib buf_size s = (int (length (local_candidates s)), s1) \<and>
      (\<forall>s2. hbuf s2 = hbuf s1 \<longrightarrow> g_local_allocs s2 = g_local_allocs s1 \<longrightarrow>
         (\<forall>a. a \<notin> local_ranges s \<longrightarrow> gmem s2 a = gmem s1 a) \<longrightarrow>
         (\<exists>s3. ipc_rebuild_local_allocs lib' buf_size s2 = (int (length (local_candidates s)), s3) \<and>
            (\<forall>i < length (local_candidates s). loc_live s3 i) \<and>
            (\<forall>a. a \<notin> local_ranges s \<longrightarrow> gmem s3 a = gmem s a) \<and>
            local_bytes (gmem s3) (device_order s) = local_bytes (gmem s) (local_candidates s) \<and>
            (gmem s3 = gmem s \<longleftrightarrow>
               local_bytes (gmem s) (device_order s) = local_bytes (gmem s) (local_candidates s))))"
proof -
  from save_local_any_order [OF assms(1,3)] obtain es ds s1 where
    1: "ipc_save_and_teardown_local_allocs lib buf_size s = (int (length (local_candidates s)), s1)"
      "map entry_candidate es = local_candidates s" "laid_out 0 es" "local_saved (gmem s) buf_size (hbuf s1) es"
      "\<forall>e \<in> set (g_local_allocs s1). loc_torn_down e"
    and ds: "ds = concat (map snd (group (\<lambda>e. location_id (la_prop e)) es))"
      "map loc_geometry (g_local_allocs s1) = map loc_geometry (map local_record ds)"
      "\<forall>a. a \<notin> loc_ranges (map local_record ds) \<longrightarrow> gmem s1 a = gmem s a"
    by metis
  have m: "mset ds = mset es" unfolding ds(1) by (rule group_perm)
  then have se: "set ds = set es" and l: "length ds = length (local_candidates s)"
    by (metis set_mset_mset, metis 1(2) length_map size_mset)
  have rng: "local_ranges s = loc_ranges (map local_record ds)"
    by (auto simp: local_ranges_def loc_ranges_def local_record_def entry_candidate_def se simp flip: 1(2))
  have order: "map entry_candidate ds = device_order s" unfolding ds(1) by (rule entries_device_order [OF 1(2)])
  have tot: "sum_list (map la_size ds) = sum_list (map la_size es)" by (metis m mset_map sum_mset_sum_list)
  define rs where "rs = relaid 0 ds"
  note rs = relaid_facts [of 0 ds, folded rs_def]
  have lr: "length rs = length (local_candidates s)" using arg_cong [OF rs(2), of length] l by simp
  define G where "G = dealt (gmem s) (hbuf s1) rs"
  have "sum_list (map la_size es) \<le> buf_size"
    using assms(3) unfolding ipc_get_local_alloc_data_size_def 1(2) [symmetric] by (simp add: entry_candidate_def comp_def)
  moreover have "mset (map entry_candidate rs) = mset (local_candidates s)" by (simp add: rs(3) m flip: 1(2))
  then have "sorted_wrt va_apart (map entry_candidate rs)" using assms(4) sorted_wrt_perm [OF symp_va_apart] by blast
  ultimately have G: "local_saved G buf_size (hbuf s1) rs" "\<And>a. a \<notin> loc_ranges (map local_record rs) \<Longrightarrow> G a = gmem s a"
    unfolding G_def using dealt_saved [OF _ rs(1)] by (simp_all add: rs(4) tot)
  have bytes: "local_bytes G (device_order s) = local_bytes (gmem s) (local_candidates s)"
    using saved_bytes [OF rs(1) G(1)] saved_bytes [OF 1(3,4)] by (simp add: rs(3,4) order 1(2) tot)
  have iff: "G = gmem s \<longleftrightarrow> local_bytes G (device_order s) = local_bytes (gmem s) (device_order s)"
    unfolding order [symmetric]
    by (rule bytes_determine) (use G(2) in \<open>auto simp: rs(2) loc_ranges_def local_record_def entry_candidate_def\<close>)
  have "\<exists>s3. ipc_rebuild_local_allocs lib' buf_size s2 = (int (length (local_candidates s)), s3) \<and> gmem s3 = G \<and>
      (\<forall>i < length (local_candidates s). loc_live s3 i)"
    if "hbuf s2 = hbuf s1" "g_local_allocs s2 = g_local_allocs s1" "\<forall>a. a \<notin> local_ranges s \<longrightarrow> gmem s2 a = gmem s1 a" for s2
    using rebuild_local_all_ok [OF assms(2) rs(1), of G buf_size s2] that G ds(2,3) 1(5)
    by (simp add: rng rs(2) lr)
  with 1(1) bytes iff G(2) show ?thesis unfolding rng rs(2) by metis
qed

theorem local_bytes_by_device_witness:
  \<comment> \<open>one allocation on device 1 and a later one on device 0: their contents are swapped\<close>
  "\<exists>s1 s3. ipc_save_and_teardown_local_allocs obliging_lib 2 (local_state 1 0) = (2, s1) \<and>
     ipc_rebuild_local_allocs obliging_lib 2 s1 = (2, s3) \<and> gmem (local_state 1 0) 100 = 100 \<and>
     gmem (local_state 1 0) 200 = 200 \<and> gmem s3 100 = 200 \<and> gmem s3 200 = 100"
proof -
  let ?p = "\<lambda>d. \<lparr>requestedHandleTypes = 1, location_type = 1, location_id = d\<rparr>"
  have c: "local_candidates (local_state 1 0) =
      [(1, 100, \<lparr>cr_size = 1, cr_prop = ?p 1\<rparr>), (2, 200, \<lparr>cr_size = 1, cr_prop = ?p 0\<rparr>)]"
    by (simp add: local_candidates_def local_state_def exported_vas_def ipc_start_def Let_def)
  have d: "device_order (local_state 1 0) =
      [(2, 200, \<lparr>cr_size = 1, cr_prop = ?p 0\<rparr>), (1, 100, \<lparr>cr_size = 1, cr_prop = ?p 1\<rparr>)]"
    by (simp add: device_order_def c group_def group_step_def)
  have g: "gmem (local_state 1 0) = of_nat" by (simp add: local_state_def Let_def)
  have "sorted_wrt va_apart (local_candidates (local_state 1 0))" by (simp add: c va_apart_def)
  with local_bytes_by_device [OF lib_ok_obliging lib_ok_obliging, of "local_state 1 0" 2]
  obtain s1 s3 where "ipc_save_and_teardown_local_allocs obliging_lib 2 (local_state 1 0) = (2, s1)"
      "ipc_rebuild_local_allocs obliging_lib 2 s1 = (2, s3)"
      "local_bytes (gmem s3) (device_order (local_state 1 0)) =
         local_bytes (gmem (local_state 1 0)) (local_candidates (local_state 1 0))"
    by (auto simp: c ipc_get_local_alloc_data_size_def)
  then show ?thesis by (auto simp: c d g local_bytes_def)
qed

text \<open>A host buffer too small for the local allocations makes the teardown return \<open>-1\<close> without any
  driver call; only the list of local allocations of the previous checkpoint is gone.\<close>

theorem local_no_room:
  assumes "avail lib F_MemRelease" "avail lib F_MemcpyDtoH" "buf_size < ipc_get_local_alloc_data_size s"
  shows "ipc_save_and_teardown_local_allocs lib buf_size s = (-1, s\<lparr>g_local_allocs := []\<rparr>)"
proof -
  have "local_candidates s \<noteq> []" using assms(3) by (auto simp: ipc_get_local_alloc_data_size_def)
  then have "collect_local buf_size (local_candidates s) 0 = None"
    using assms(3) by (intro collect_local_none) (simp_all add: ipc_get_local_alloc_data_size_def)
  then show ?thesis using assms by (simp add: ipc_save_and_teardown_local_allocs_def Let_def)
qed

theorem local_no_room_witness:
  "ipc_save_and_teardown_local_allocs sync_lib 1 (local_state 1 0) = (-1, local_state 1 0)"
proof -
  have "ipc_save_and_teardown_local_allocs sync_lib 1 (local_state 1 0) = (-1, (local_state 1 0)\<lparr>g_local_allocs := []\<rparr>)"
    by (rule local_no_room)
      (simp_all add: sync_lib_def obliging_lib_def ipc_get_local_alloc_data_size_def local_candidates_def local_state_def
        exported_vas_def ipc_start_def Let_def)
  then show ?thesis by (simp add: local_state_def ipc_start_def Let_def)
qed

end
