(* ===== verification/Fd_Exchange.thy ===== *)
theory Fd_Exchange
  imports Prelude
begin

text \<open>
  The exchange of file descriptors between the processes of a multi-GPU application
  (\<open>src/ipc_fd_exchange.cpp\<close>): a server in every process that hands out duplicates of its open
  descriptors over a Unix socket, and the client that asks for them.  A descriptor table is the list
  of the open files by descriptor number; a descriptor received by \<open>SCM_RIGHTS\<close> takes the lowest free
  number.  Outcomes of the socket calls come from the environment.
\<close>

section \<open>Descriptor tables\<close>

type_synonym fd_table = "nat option list"

definition open_file :: "fd_table \<Rightarrow> int \<Rightarrow> nat option" where
  "open_file t fd = (if 0 \<le> fd \<and> nat fd < length t then t ! nat fd else None)"

fun lowest_free :: "fd_table \<Rightarrow> nat" where
  "lowest_free [] = 0"
| "lowest_free (None # t) = 0"
| "lowest_free (Some _ # t) = Suc (lowest_free t)"

definition install :: "nat \<Rightarrow> fd_table \<Rightarrow> int \<times> fd_table" where
  "install f t = (let i = lowest_free t in (int i, if i < length t then t[i := Some f] else t @ [Some f]))"

fun install_all :: "nat list \<Rightarrow> fd_table \<Rightarrow> int list \<times> fd_table" where
  "install_all [] t = ([], t)"
| "install_all (f # fs) t =
     (case install f t of (fd, t1) \<Rightarrow> case install_all fs t1 of (fds, t2) \<Rightarrow> (fd # fds, t2))"

definition close_fd :: "int \<Rightarrow> fd_table \<Rightarrow> fd_table" where
  "close_fd fd t = (if open_file t fd = None then t else t[nat fd := None])"

section \<open>Serving a request\<close>

definition UDS_MAX_FDS :: nat where "UDS_MAX_FDS = 64"

definition send_fds :: "fd_table \<Rightarrow> int list \<Rightarrow> nat list option" where
  \<comment> \<open>\<open>sendmsg\<close> with \<open>SCM_RIGHTS\<close> fails as a whole when one descriptor is not open\<close>
  "send_fds t fds = (if \<forall>fd \<in> set fds. open_file t fd \<noteq> None then Some (map (\<lambda>fd. the (open_file t fd)) fds) else None)"

definition serve_request :: "fd_table \<Rightarrow> int \<Rightarrow> int list \<Rightarrow> (int \<times> nat list option) option" where
  \<comment> \<open>the count sent back and the files sent with it; \<open>None\<close>: the connection is closed unanswered\<close>
  "serve_request t num_fds requested_fds =
     (if num_fds \<le> 0 \<or> int UDS_MAX_FDS < num_fds then None
      else if int (length requested_fds) \<noteq> num_fds then None
      else Some (num_fds, send_fds t requested_fds))"

section \<open>Asking for descriptors\<close>

datatype connect_outcome = SocketFailed | Refused | Connected

fun connect_retry :: "nat \<Rightarrow> connect_outcome list \<Rightarrow> bool" where
  \<comment> \<open>\<open>for (attempt = 0; attempt < 20; attempt++)\<close>\<close>
  "connect_retry 0 outcomes = False"
| "connect_retry (Suc n) [] = False"
| "connect_retry (Suc n) (SocketFailed # os) = False"
| "connect_retry (Suc n) (Connected # os) = True"
| "connect_retry (Suc n) (Refused # os) = connect_retry n os"

definition recv_fds :: "int \<Rightarrow> nat list option \<Rightarrow> fd_table \<Rightarrow> int \<times> int list \<times> fd_table" where
  "recv_fds num_fds msg t =
     (case msg of
        None \<Rightarrow> (-1, [], t)
      | Some fs \<Rightarrow> case install_all fs t of (fds, t1) \<Rightarrow>
          let copy_count = min (length fds) (nat num_fds) in (int copy_count, take copy_count fds, t1))"

definition uds_receive_fds ::
    "connect_outcome list \<Rightarrow> fd_table \<Rightarrow> int list \<Rightarrow> fd_table \<Rightarrow> int \<times> int list \<times> fd_table" where
  \<comment> \<open>outcomes of the connection attempts, the peer's table, the peer's descriptor numbers, our table\<close>
  "uds_receive_fds outcomes peer peer_fds t =
     (let num_fds = int (length peer_fds) in
      if num_fds \<le> 0 \<or> int UDS_MAX_FDS < num_fds then (-1, [], t)
      else if \<not> connect_retry 20 outcomes then (-1, [], t)
      else case serve_request peer num_fds peer_fds of
             None \<Rightarrow> (-1, [], t)
           | Some (send_count, msg) \<Rightarrow> if send_count \<le> 0 then (-1, [], t) else recv_fds send_count msg t)"

section \<open>The server's life cycle\<close>

record UdsServerCtx =
  listen_fd :: int
  running :: bool
  sock_bound :: bool \<comment> \<open>the socket file exists\<close>

datatype start_outcome = NoSocket | NoBind int | NoListen int | NoThread int | Started int
  \<comment> \<open>which call of \<open>uds_fd_server_start\<close> fails, and the descriptor \<open>socket\<close> gave\<close>

definition uds_fd_server_start :: "start_outcome \<Rightarrow> UdsServerCtx \<Rightarrow> int \<times> UdsServerCtx" where
  "uds_fd_server_start out g =
     (if running g then (0, g)
      else let g1 = g\<lparr>sock_bound := False\<rparr> in
      case out of
        NoSocket \<Rightarrow> (-1, g1\<lparr>listen_fd := -1\<rparr>)
      | NoBind fd \<Rightarrow> (-1, g1\<lparr>listen_fd := -1\<rparr>)
      | NoListen fd \<Rightarrow> (-1, g1\<lparr>listen_fd := -1\<rparr>)
      | NoThread fd \<Rightarrow> (-1, g1\<lparr>running := False, listen_fd := -1\<rparr>)
      | Started fd \<Rightarrow> (0, g1\<lparr>listen_fd := fd, running := True, sock_bound := True\<rparr>))"

definition uds_fd_server_stop :: "UdsServerCtx \<Rightarrow> UdsServerCtx" where
  "uds_fd_server_stop g =
     (if \<not> running g then g else g\<lparr>running := False, listen_fd := -1, sock_bound := False\<rparr>)"

definition server_initial :: UdsServerCtx where
  "server_initial = \<lparr>listen_fd = -1, running = False, sock_bound = False\<rparr>"

inductive server_step :: "UdsServerCtx \<Rightarrow> UdsServerCtx \<Rightarrow> bool" where
  start: "(\<forall>fd. out = Started fd \<longrightarrow> 0 \<le> fd) \<Longrightarrow> uds_fd_server_start out g = (r, g') \<Longrightarrow> server_step g g'"
| stop: "server_step g (uds_fd_server_stop g)"

inductive_cases server_stepE: "server_step g g'"

section \<open>Lemmas on descriptor tables\<close>

lemma lowest_free_le: "lowest_free t \<le> length t"
  by (induction t rule: lowest_free.induct) auto

lemma lowest_free_None: "lowest_free t < length t \<Longrightarrow> t ! lowest_free t = None"
  by (induction t rule: lowest_free.induct) auto

lemma open_file_lowest_free [simp]: "open_file t (int (lowest_free t)) = None"
  by (auto simp: open_file_def lowest_free_None)

lemma open_file_append: "nat fd < length t \<Longrightarrow> open_file (t @ [x]) fd = open_file t fd"
  by (simp add: open_file_def nth_append)

lemma install_open:
  assumes "install f t = (fd, t')"
  shows "0 \<le> fd" "open_file t fd = None" "open_file t' = (open_file t)(fd \<mapsto> f)"
proof -
  let ?i = "lowest_free t"
  have fd: "fd = int ?i" and t': "t' = (if ?i < length t then t[?i := Some f] else t @ [Some f])"
    using assms by (simp_all add: install_def Let_def)
  show "0 \<le> fd" "open_file t fd = None" by (simp_all add: fd)
  show "open_file t' = (open_file t)(fd \<mapsto> f)"
  proof (cases "?i < length t")
    case True
    then show ?thesis unfolding t' fd by (auto simp: open_file_def fun_eq_iff nth_list_update)
  next
    case False
    then have "?i = length t" using lowest_free_le [of t] by simp
    then show ?thesis unfolding t' fd by (auto simp: open_file_def fun_eq_iff nth_append)
  qed
qed

lemma install_all_open:
  assumes "install_all fs t = (fds, t')"
  shows "length fds = length fs \<and> distinct fds \<and> (\<forall>fd \<in> set fds. 0 \<le> fd \<and> open_file t fd = None) \<and>
    map (open_file t') fds = map Some fs \<and> (\<forall>fd. fd \<notin> set fds \<longrightarrow> open_file t' fd = open_file t fd)"
  using assms
proof (induction fs arbitrary: t fds t')
  case (Cons f fs)
  obtain fd t1 where 1: "install f t = (fd, t1)" by fastforce
  obtain gs t2 where 2: "install_all fs t1 = (gs, t2)" by fastforce
  note i = install_open [OF 1]
  note IH = Cons.IH [OF 2]
  have eq: "fds = fd # gs" "t' = t2" using Cons.prems 1 2 by simp_all
  have "fd \<notin> set gs" using IH i(3) by (metis fun_upd_same option.distinct(1))
  moreover have "\<forall>x \<in> set gs. 0 \<le> x \<and> open_file t x = None" using IH i(3) by (auto split: if_splits)
  ultimately show ?case using IH i unfolding eq by (auto simp: fun_upd_def)
qed simp

lemma connect_retry_iff:
  "connect_retry n os \<longleftrightarrow> (\<exists>k < n. k < length os \<and> os ! k = Connected \<and> (\<forall>j < k. os ! j = Refused))"
proof (induction n os rule: connect_retry.induct)
  case (3 n os)
  then show ?case by (force simp: nth_Cons split: nat.splits)
next
  case (4 n os)
  then show ?case by (auto intro!: exI [of _ 0])
next
  case (5 n os)
  have "(\<exists>k < Suc n. k < length (Refused # os) \<and> (Refused # os) ! k = Connected \<and> (\<forall>j < k. (Refused # os) ! j = Refused)) \<longleftrightarrow>
      (\<exists>k < n. k < length os \<and> os ! k = Connected \<and> (\<forall>j < k. os ! j = Refused))" (is "?L = ?R")
  proof
    assume ?L
    then obtain k where k: "k < Suc n" "k < length (Refused # os)" "(Refused # os) ! k = Connected"
        "\<forall>j < k. (Refused # os) ! j = Refused" by blast
    then obtain m where "k = Suc m" by (cases k) auto
    with k show ?R by (intro exI [of _ m]) force
  next
    assume ?R
    then obtain k where "k < n" "k < length os" "os ! k = Connected" "\<forall>j < k. os ! j = Refused" by blast
    then show ?L by (intro exI [of _ "Suc k"]) (auto simp: nth_Cons split: nat.splits)
  qed
  with 5 show ?case by simp
qed simp_all

lemma uds_delivers:
  assumes "0 < length peer_fds" "length peer_fds \<le> UDS_MAX_FDS"
    and "\<exists>k < 20. k < length outcomes \<and> outcomes ! k = Connected \<and> (\<forall>j < k. outcomes ! j = Refused)"
    and "\<forall>fd \<in> set peer_fds. open_file peer fd \<noteq> None"
  shows "\<exists>fds t'. uds_receive_fds outcomes peer peer_fds t = (int (length peer_fds), fds, t') \<and>
    map (open_file t') fds = map (open_file peer) peer_fds \<and> distinct fds \<and>
    (\<forall>fd \<in> set fds. 0 \<le> fd \<and> open_file t fd = None) \<and> (\<forall>fd. fd \<notin> set fds \<longrightarrow> open_file t' fd = open_file t fd)"
proof -
  let ?fs = "map (\<lambda>fd. the (open_file peer fd)) peer_fds"
  obtain fds t' where 1: "install_all ?fs t = (fds, t')" by fastforce
  note i = install_all_open [OF 1]
  have "uds_receive_fds outcomes peer peer_fds t = (int (length peer_fds), fds, t')"
    using assms i by (simp add: uds_receive_fds_def Let_def serve_request_def send_fds_def recv_fds_def 1 connect_retry_iff)
  moreover have "map Some ?fs = map (open_file peer) peer_fds" using assms(4) by simp
  ultimately show ?thesis using i by auto
qed

section \<open>Theorems\<close>

text \<open>C29: a request for one to 64 descriptors that are all open in the peer, from a client whose
  connection is accepted within the first 20 attempts, returns one new local descriptor per requested
  one, in the order of the request, each for the same open file; descriptors the client had keep their
  files.\<close>

theorem fd_exchange_delivers:
  assumes "0 < length peer_fds" "length peer_fds \<le> UDS_MAX_FDS"
    and "\<exists>k < 20. k < length outcomes \<and> outcomes ! k = Connected \<and> (\<forall>j < k. outcomes ! j = Refused)"
    and "\<forall>fd \<in> set peer_fds. open_file peer fd \<noteq> None"
  shows "\<exists>fds t'. uds_receive_fds outcomes peer peer_fds t = (int (length peer_fds), fds, t') \<and>
    map (open_file t') fds = map (open_file peer) peer_fds \<and> distinct fds \<and>
    (\<forall>fd \<in> set fds. open_file t fd = None) \<and> (\<forall>fd. fd \<notin> set fds \<longrightarrow> open_file t' fd = open_file t fd)"
  using uds_delivers [OF assms, of t] by fastforce

theorem fd_exchange_delivers_witness:
  "\<exists>fds t'. uds_receive_fds [Refused, Connected] [None, Some 7, None, Some 9] [3, 1] [Some 5] = (2, fds, t') \<and>
    map (open_file t') fds = [Some 9, Some 7] \<and> distinct fds"
  using fd_exchange_delivers [of "[3, 1]" "[Refused, Connected]" "[None, Some 7, None, Some 9]" "[Some 5]"]
  by (force simp: UDS_MAX_FDS_def open_file_def intro!: exI [of _ "1 :: nat"])

text \<open>If one of the requested descriptors is not open in the peer, none is delivered: the call
  returns \<open>-1\<close> and the client's descriptors are unchanged.  (The server announces the full count and
  then fails to send.)\<close>

theorem fd_exchange_all_or_nothing:
  assumes "fd \<in> set peer_fds" "open_file peer fd = None"
  shows "uds_receive_fds outcomes peer peer_fds t = (-1, [], t)"
  using assms by (auto simp: uds_receive_fds_def Let_def serve_request_def send_fds_def recv_fds_def)

theorem fd_exchange_all_or_nothing_witness:
  "uds_receive_fds [Connected] [None, Some 7] [1, 0] [Some 5] = (-1, [], [Some 5])"
  by (rule fd_exchange_all_or_nothing [of 0]) (simp_all add: open_file_def)

text \<open>In every state the server can reach by starts (that succeed or fail at any step) and stops, it
  runs exactly when it has a listening socket and a socket file.\<close>

lemma server_consistent:
  assumes "server_step\<^sup>*\<^sup>* server_initial g"
  shows "(running g \<longleftrightarrow> 0 \<le> listen_fd g) \<and> (sock_bound g \<longleftrightarrow> running g)"
  using assms
proof induction
  case (step g g')
  from step(2) show ?case
    by cases (use step(3) in \<open>auto simp: uds_fd_server_start_def uds_fd_server_stop_def Let_def
        split: if_splits start_outcome.splits\<close>)
qed (simp add: server_initial_def)

end
