(* ===== verification/Ipc_Import.thy ===== *)
theory Ipc_Import
  imports Ipc_Local Fd_Exchange
begin

text \<open>
  The importing side of \<open>src/ipc_hooks.cpp\<close>: \<open>ipc_teardown_all_imports\<close> before a checkpoint,
  \<open>ipc_write_export_info_to_shm\<close> and \<open>ipc_import_from_shm_block\<close> after it, and the check
  \<open>ipc_validate_all_mappings\<close>.  The descriptors of the peers come from a receiver, a function of the
  peer and of its descriptor numbers over a state of its own; the theorem on the exchange between two
  processes uses the one of \<open>src/ipc_fd_exchange.cpp\<close>.
\<close>

section \<open>Teardown\<close>

fun teardown_imports :: "cu_lib \<Rightarrow> nat list \<Rightarrow> nat \<Rightarrow> ipc_state \<Rightarrow> nat \<times> ipc_state" where
  "teardown_imports lib [] torn s = (torn, s)"
| "teardown_imports lib (i # is) torn s =
     (let rec = g_ipc_imports s ! i in
      if imp_torn_down rec then teardown_imports lib is torn s
      else let s1 = cdo_if (avail lib F_MemUnmap) lib (CuMemUnmap (imp_vaddr rec) (imp_size rec)) s;
               s2 = cdo_if (imp_handle rec \<noteq> 0) lib (CuMemRelease (imp_handle rec)) s1
           in teardown_imports lib is (torn + 1)
                (upd_imp i (\<lambda>e. e\<lparr>imp_torn_down := True, imp_handle := 0\<rparr>) s2))"

definition ipc_teardown_all_imports :: "cu_lib \<Rightarrow> ipc_state \<Rightarrow> int \<times> ipc_state" where
  "ipc_teardown_all_imports lib s =
     (if \<not> avail lib F_MemRelease then (-1, s)
      else case teardown_imports lib [0..<length (g_ipc_imports s)] 0 s of (torn, s1) \<Rightarrow> (int torn, s1))"

section \<open>The export block\<close>

fun write_entries :: "int \<Rightarrow> IpcExportRecord list \<Rightarrow> IpcRebuildShmBlock \<Rightarrow> IpcRebuildShmBlock" where
  "write_entries my_pid [] b = b"
| "write_entries my_pid (rec # recs) b =
     write_entries my_pid recs
       (if exported_fd rec < 0 then b
        else b\<lparr>entries := (entries b)(num_exports b := \<lparr>owner_pid = my_pid, shm_fd = exported_fd rec,
                 local_ptr = mapped_vaddr rec, entry_size = exp_size rec, valid = True\<rparr>),
               num_exports := num_exports b + 1\<rparr>)"

definition ipc_write_export_info_to_shm :: "int \<Rightarrow> IpcRebuildShmBlock \<Rightarrow> ipc_state \<Rightarrow> int \<times> IpcRebuildShmBlock" where
  "ipc_write_export_info_to_shm my_pid b s =
     (let b1 = write_entries my_pid (take IPC_MAX_EXPORTS_PER_PROC (g_ipc_exports s)) (b\<lparr>num_exports := 0\<rparr>)
      in (int (num_exports b1), b1))"

section \<open>Importing from the block\<close>

definition peer_requests :: "IpcRebuildShmBlock \<Rightarrow> (int \<times> nat list) list" where
  \<comment> \<open>by owner in ascending order: the indices of its valid entries\<close>
  "peer_requests b = group (\<lambda>i. owner_pid (entries b i)) (filter (\<lambda>i. valid (entries b i)) [0..<num_exports b])"

fun receive_peers ::
    "('k \<Rightarrow> int \<Rightarrow> int list \<Rightarrow> int \<times> int list \<times> 'k) \<Rightarrow> IpcRebuildShmBlock \<Rightarrow> (int \<times> nat list) list \<Rightarrow>
     (nat \<times> int) list \<Rightarrow> 'k \<Rightarrow> (nat \<times> int) list \<times> 'k" where
  \<comment> \<open>one batched request per peer; the result maps block entries to local descriptors\<close>
  "receive_peers rcv b [] m k = (m, k)"
| "receive_peers rcv b ((pid, idxs) # reqs) m k =
     (case rcv k pid (map (\<lambda>i. shm_fd (entries b i)) idxs) of (received, fds, k1) \<Rightarrow>
        if received \<le> 0 then receive_peers rcv b reqs m k1
        else receive_peers rcv b reqs
               (fold (\<lambda>(i, fd). omap_put i fd) (zip idxs (take (nat received) fds)) m) k1)"

definition torn_imports :: "ipc_state \<Rightarrow> nat list" where
  "torn_imports s = filter (\<lambda>i. imp_torn_down (g_ipc_imports s ! i)) [0..<length (g_ipc_imports s)]"

definition valid_exports :: "IpcRebuildShmBlock \<Rightarrow> (nat \<times> int) list \<Rightarrow> int list" where
  \<comment> \<open>the local descriptors of the valid entries that have one, in block order\<close>
  "valid_exports b m = map (\<lambda>i. the (map_of m i))
     (filter (\<lambda>i. valid (entries b i) \<and> (case map_of m i of Some fd \<Rightarrow> 0 \<le> fd | None \<Rightarrow> False)) [0..<num_exports b])"

definition import_access :: "cu_lib \<Rightarrow> IpcImportRecord \<Rightarrow> ipc_state \<Rightarrow> ipc_state" where
  "import_access lib rec s =
     (if all_access rec \<noteq> [] \<and> avail lib F_MemSetAccess
      then replay_access lib (imp_vaddr rec) (imp_size rec) (all_access rec) s
      else if 0 \<le> imp_access_dev rec \<and> avail lib F_MemSetAccess
      then cdo lib (CuMemSetAccess (imp_vaddr rec) (imp_size rec) [imp_access_desc rec]) s
      else s)"

fun rebuild_imports :: "cu_lib \<Rightarrow> (nat \<times> int) list \<Rightarrow> nat \<Rightarrow> ipc_state \<Rightarrow> nat \<times> ipc_state" where
  "rebuild_imports lib [] n s = (n, s)"
| "rebuild_imports lib ((i, fd) # ms) n s =
     (let rec = g_ipc_imports s ! i in
      case ccall lib (CuMemImport fd) s of (r, h, s1) \<Rightarrow>
      let s2 = cdo lib (CloseFd fd) s1 in
      if r \<noteq> 0 then rebuild_imports lib ms n s2
      else case ccall lib (CuMemMap (imp_vaddr rec) (imp_size rec) h) s2 of (r, _, s3) \<Rightarrow>
        if r \<noteq> 0 then rebuild_imports lib ms n (cdo lib (CuMemRelease h) s3)
        else rebuild_imports lib ms (n + 1)
               (upd_imp i (\<lambda>e. e\<lparr>imp_handle := h, imp_torn_down := False\<rparr>) (import_access lib rec s3)))"

definition ipc_import_from_shm_block ::
    "cu_lib \<Rightarrow> ('k \<Rightarrow> int \<Rightarrow> int list \<Rightarrow> int \<times> int list \<times> 'k) \<Rightarrow> IpcRebuildShmBlock \<Rightarrow> ipc_state \<Rightarrow> 'k \<Rightarrow>
     int \<times> ipc_state \<times> 'k" where
  "ipc_import_from_shm_block lib rcv b s k =
     (if num_exports b = 0 then (0, s, k)
      else if \<not> avail lib F_MemImport \<or> \<not> avail lib F_MemMap then (-1, s, k)
      else case receive_peers rcv b (peer_requests b) [] k of (m, k1) \<Rightarrow>
        let fds = valid_exports b m; torn = torn_imports s in
        case rebuild_imports lib (zip torn fds) 0 s of (n, s1) \<Rightarrow>
          (int n, fold (\<lambda>fd. cdo lib (CloseFd fd)) (drop (length torn) fds) s1, k1))"

definition ipc_get_import_count :: "ipc_state \<Rightarrow> int" where
  "ipc_get_import_count s = int (length (g_ipc_imports s))"

definition ipc_get_export_count :: "ipc_state \<Rightarrow> int" where
  "ipc_get_export_count s = int (length (g_ipc_exports s))"

section \<open>Validation\<close>

definition probe :: "cu_lib \<Rightarrow> int option \<Rightarrow> nat \<Rightarrow> ipc_state \<Rightarrow> nat \<times> ipc_state" where
  \<comment> \<open>reads four bytes, in the context of the device if one is given; counts a failure as one error\<close>
  "probe lib dev p s =
     (case dev of
        None \<Rightarrow> (case ccall lib (CuMemProbe p) s of (r, _, s1) \<Rightarrow> (if r \<noteq> 0 then 1 else 0, s1))
      | Some d \<Rightarrow> case push_context lib True d s of (pushed, s1) \<Rightarrow>
          case ccall lib (CuMemProbe p) s1 of (r, _, s2) \<Rightarrow> (if r \<noteq> 0 then 1 else 0, pop_context lib pushed d s2))"

fun probes :: "cu_lib \<Rightarrow> (int option \<times> nat) list \<Rightarrow> nat \<Rightarrow> ipc_state \<Rightarrow> nat \<times> ipc_state" where
  "probes lib [] errors s = (errors, s)"
| "probes lib ((dev, p) # ps) errors s =
     (case probe lib dev p s of (e, s1) \<Rightarrow> probes lib ps (errors + e) s1)"

definition live_mappings :: "ipc_state \<Rightarrow> (int option \<times> nat) list" where
  "live_mappings s =
     map (\<lambda>e. (Some (location_id (saved_prop e)), mapped_vaddr e)) (filter exp_active (g_ipc_exports s)) @
     map (\<lambda>e. (None, imp_vaddr e)) (filter (\<lambda>e. \<not> imp_torn_down e \<and> imp_size e \<noteq> 0) (g_ipc_imports s)) @
     map (\<lambda>e. (Some (location_id (loc_prop e)), loc_vaddr e))
       (filter (\<lambda>e. \<not> loc_torn_down e \<and> loc_size e \<noteq> 0) (g_local_allocs s))"

definition ipc_validate_all_mappings :: "cu_lib \<Rightarrow> ipc_state \<Rightarrow> int \<times> ipc_state" where
  "ipc_validate_all_mappings lib s = (case probes lib (live_mappings s) 0 s of (errors, s1) \<Rightarrow> (int errors, s1))"

section \<open>Lemmas on teardown\<close>

definition torn_import :: "IpcImportRecord \<Rightarrow> IpcImportRecord" where
  "torn_import e = (if imp_torn_down e then e else e\<lparr>imp_torn_down := True, imp_handle := 0\<rparr>)"

definition teardown_calls :: "IpcImportRecord \<Rightarrow> cu_call list" where
  "teardown_calls e = (if imp_torn_down e then []
     else CuMemUnmap (imp_vaddr e) (imp_size e) # (if imp_handle e = 0 then [] else [CuMemRelease (imp_handle e)]))"

lemma ccall_calls: "ccall lib c s = (r, v, s') \<Longrightarrow> cu_calls s' = cu_calls s @ [(c, r, v)]"
  by (auto simp: ccall_def native_def split: prod.splits)

lemma cdo_calls: "map fst (cu_calls (cdo lib c s)) = map fst (cu_calls s) @ [c]"
  by (auto simp: cdo_def ccall_calls split: prod.splits)

lemma cdo_imports [simp]: "g_ipc_imports (cdo lib c s) = g_ipc_imports s" "g_ipc_imports (cdo_if b lib c s) = g_ipc_imports s"
  using cdo_tables [of s lib c] by (simp_all add: cdo_if_def same_tablesD)

lemma teardown_imports_spec:
  assumes "avail lib F_MemUnmap"
  shows "g_ipc_imports s = xs @ ys \<Longrightarrow>
    \<exists>s'. teardown_imports lib [length xs..<length xs + length ys] n s =
        (n + length (filter (\<lambda>e. \<not> imp_torn_down e) ys), s') \<and>
      g_ipc_imports s' = xs @ map torn_import ys \<and>
      map fst (cu_calls s') = map fst (cu_calls s) @ concat (map teardown_calls ys)"
proof (induction ys arbitrary: xs n s)
  case (Cons y ys)
  have upt: "[length xs..<length xs + length (y # ys)] = length xs # [length (xs @ [y])..<length (xs @ [y]) + length ys]"
    by (simp add: upt_conv_Cons del: upt_Suc)
  show ?case
  proof (cases "imp_torn_down y")
    case True
    with Cons.IH [of s "xs @ [y]" n] Cons.prems show ?thesis
      unfolding upt by (simp add: Let_def nth_append torn_import_def teardown_calls_def)
  next
    case False
    define s1 where "s1 = cdo lib (CuMemUnmap (imp_vaddr y) (imp_size y)) s"
    define s2 where "s2 = cdo_if (imp_handle y \<noteq> 0) lib (CuMemRelease (imp_handle y)) s1"
    define s3 where "s3 = upd_imp (length xs) (\<lambda>e. e\<lparr>imp_torn_down := True, imp_handle := 0\<rparr>) s2"
    have im: "g_ipc_imports s3 = (xs @ [torn_import y]) @ ys"
      using Cons.prems False by (simp add: s3_def s2_def s1_def upd_imp_def torn_import_def)
    have cs: "map fst (cu_calls s3) = map fst (cu_calls s) @ teardown_calls y"
      using False by (simp add: s3_def s2_def s1_def upd_imp_def cdo_if_def cdo_calls teardown_calls_def)
    have "teardown_imports lib (length xs # [length (xs @ [y])..<length (xs @ [y]) + length ys]) n s =
        teardown_imports lib [length (xs @ [torn_import y])..<length (xs @ [torn_import y]) + length ys] (n + 1) s3"
      using Cons.prems False assms by (simp add: Let_def nth_append cdo_if_def s1_def s2_def s3_def)
    with Cons.IH [OF im, of "n + 1"] cs False show ?thesis unfolding upt by auto
  qed
qed simp

text \<open>\<open>ipc_teardown_all_imports\<close> unmaps every live import once and releases its handle unless the
  application has done so; it returns how many there were.  Afterwards every import is torn down, the
  live ones without a handle, so a second teardown makes no driver call at all.\<close>

theorem import_teardown_once:
  assumes "avail lib F_MemUnmap" "avail lib F_MemRelease"
  shows "\<exists>s'. ipc_teardown_all_imports lib s = (int (length (filter (\<lambda>e. \<not> imp_torn_down e) (g_ipc_imports s))), s') \<and>
    g_ipc_imports s' = map torn_import (g_ipc_imports s) \<and>
    map fst (cu_calls s') = map fst (cu_calls s) @ concat (map teardown_calls (g_ipc_imports s)) \<and>
    (\<exists>s''. ipc_teardown_all_imports lib s' = (0, s'') \<and> cu_calls s'' = cu_calls s' \<and> g_ipc_imports s'' = g_ipc_imports s')"
proof -
  from teardown_imports_spec [OF assms(1), of s "[]" "g_ipc_imports s" 0] obtain s' where
    1: "teardown_imports lib [0..<length (g_ipc_imports s)] 0 s = (length (filter (\<lambda>e. \<not> imp_torn_down e) (g_ipc_imports s)), s')"
      "g_ipc_imports s' = map torn_import (g_ipc_imports s)"
      "map fst (cu_calls s') = map fst (cu_calls s) @ concat (map teardown_calls (g_ipc_imports s))"
    by auto
  have torn: "\<forall>e \<in> set (g_ipc_imports s'). imp_torn_down e" by (auto simp: 1(2) torn_import_def)
  have "teardown_imports lib is n s' = (n, s')" if "\<forall>i \<in> set is. imp_torn_down (g_ipc_imports s' ! i)" for "is" n
    using that by (induction "is") (auto simp: Let_def)
  then have "teardown_imports lib [0..<length (g_ipc_imports s')] 0 s' = (0, s')" using torn by simp
  then have "ipc_teardown_all_imports lib s' = (0, s')" using assms by (simp add: ipc_teardown_all_imports_def)
  with 1 assms show ?thesis by (simp add: ipc_teardown_all_imports_def)
qed

definition one_import :: "nat \<Rightarrow> IpcImportRecord" where
  "one_import h = \<lparr>imp_vaddr = 4096 * h, imp_size = 64, imp_handle = h, imp_access_dev = -1, imp_access_desc = no_desc,
     all_access = [], imp_torn_down = False\<rparr>"

theorem import_teardown_once_witness:
  "\<exists>s'. ipc_teardown_all_imports obliging_lib (ipc_start\<lparr>g_ipc_imports := [one_import 3]\<rparr>) = (1, s') \<and>
    map fst (cu_calls s') = [CuMemUnmap 12288 64, CuMemRelease 3]"
  using import_teardown_once [of obliging_lib "ipc_start\<lparr>g_ipc_imports := [one_import 3]\<rparr>"]
  by (auto simp: obliging_lib_def one_import_def teardown_calls_def ipc_start_def)

section \<open>Lemmas on the export block\<close>

definition entry_of :: "int \<Rightarrow> IpcExportRecord \<Rightarrow> IpcExportShmEntry" where
  "entry_of my_pid rec = \<lparr>owner_pid = my_pid, shm_fd = exported_fd rec, local_ptr = mapped_vaddr rec,
     entry_size = exp_size rec, valid = True\<rparr>"

definition block_list :: "IpcRebuildShmBlock \<Rightarrow> IpcExportShmEntry list" where
  "block_list b = map (entries b) [0..<num_exports b]"

lemma write_entries_list:
  "block_list (write_entries my_pid recs b) = block_list b @ map (entry_of my_pid) (filter (\<lambda>e. 0 \<le> exported_fd e) recs)"
proof (induction recs arbitrary: b)
  case (Cons rec recs)
  show ?case
  proof (cases "exported_fd rec < 0")
    case True
    with Cons.IH [of b] show ?thesis by simp
  next
    case False
    let ?b = "b\<lparr>entries := (entries b)(num_exports b := entry_of my_pid rec), num_exports := num_exports b + 1\<rparr>"
    have "block_list ?b = block_list b @ [entry_of my_pid rec]" by (simp add: block_list_def)
    with False Cons.IH [of ?b] show ?thesis by (simp add: entry_of_def)
  qed
qed simp

text \<open>C27: \<open>ipc_write_export_info_to_shm\<close> fills the block with the exports that have a descriptor, in the
  order of their creation, looking at the first 64 records only; it returns their number, which never
  exceeds the capacity of the block.\<close>

theorem export_block_contents:
  "\<exists>b'. ipc_write_export_info_to_shm my_pid b s = (int (length (block_list b')), b') \<and>
    block_list b' = map (entry_of my_pid) (filter (\<lambda>e. 0 \<le> exported_fd e) (take 64 (g_ipc_exports s))) \<and>
    length (block_list b') \<le> IPC_MAX_EXPORTS_PER_PROC"
proof -
  let ?b = "write_entries my_pid (take IPC_MAX_EXPORTS_PER_PROC (g_ipc_exports s)) (b\<lparr>num_exports := 0\<rparr>)"
  have l: "block_list ?b = map (entry_of my_pid) (filter (\<lambda>e. 0 \<le> exported_fd e) (take 64 (g_ipc_exports s)))"
    unfolding write_entries_list by (simp add: block_list_def IPC_MAX_EXPORTS_PER_PROC_def)
  have "length (filter (\<lambda>e. 0 \<le> exported_fd e) (take 64 (g_ipc_exports s))) \<le> 64"
    by (rule le_trans [OF length_filter_le]) simp
  then have "length (block_list ?b) \<le> IPC_MAX_EXPORTS_PER_PROC" unfolding l by (simp add: IPC_MAX_EXPORTS_PER_PROC_def)
  moreover have "num_exports ?b = length (block_list ?b)" by (simp add: block_list_def)
  ultimately show ?thesis
    using l by (intro exI [of _ ?b]) (simp add: ipc_write_export_info_to_shm_def Let_def)
qed

section \<open>The interface to the descriptor exchange\<close>

text \<open>
  What the import relies on: asking a peer for some of its descriptors gives as many new local ones,
  in order, for the same open files, and leaves the other local descriptors alone.
\<close>

locale fd_receiver =
  fixes rcv :: "'k \<Rightarrow> int \<Rightarrow> int list \<Rightarrow> int \<times> int list \<times> 'k"
    and ofile :: "'k \<Rightarrow> int \<Rightarrow> 'f option"
    and peer :: "int \<Rightarrow> int \<Rightarrow> 'f option"
    and limit :: nat
    and up :: "int \<Rightarrow> bool" \<comment> \<open>peers that answer\<close>
  assumes delivers: "fds \<noteq> [] \<Longrightarrow> length fds \<le> limit \<Longrightarrow> up pid \<Longrightarrow> \<forall>fd \<in> set fds. peer pid fd \<noteq> None \<Longrightarrow>
      \<exists>fds' k'. rcv k pid fds = (int (length fds), fds', k') \<and> map (ofile k') fds' = map (peer pid) fds \<and>
        (\<forall>fd \<in> set fds'. 0 \<le> fd \<and> ofile k fd = None) \<and> (\<forall>fd. fd \<notin> set fds' \<longrightarrow> ofile k' fd = ofile k fd)"
begin

definition want :: "IpcRebuildShmBlock \<Rightarrow> nat \<Rightarrow> 'f option" where
  "want b i = peer (owner_pid (entries b i)) (shm_fd (entries b i))"

definition got :: "IpcRebuildShmBlock \<Rightarrow> 'k \<Rightarrow> (nat \<times> int) list \<Rightarrow> nat \<Rightarrow> bool" where
  "got b k m i \<longleftrightarrow> (\<exists>fd. map_of m i = Some fd \<and> 0 \<le> fd \<and> ofile k fd = want b i \<and> want b i \<noteq> None)"

lemma map_of_puts:
  "distinct is \<Longrightarrow> length is = length fds \<Longrightarrow>
    map_of (fold (\<lambda>(i, fd). omap_put i fd) (zip is fds) m) = (map_of m) ++ map_of (zip is fds)"
proof (induction "is" arbitrary: fds m)
  case (Cons i "is")
  then obtain fd fds' where f: "fds = fd # fds'" by (cases fds) auto
  have "map_of (zip is fds') i = None" using Cons.prems f by simp
  with Cons.IH [of fds' "omap_put i fd m"] Cons.prems f show ?case
    by (auto simp: fun_eq_iff map_add_def split: option.splits)
qed simp

lemma receive_peers_got:
  assumes "\<forall>(pid, is) \<in> set reqs. is \<noteq> [] \<and> length is \<le> limit \<and> up pid \<and>
      (\<forall>i \<in> set is. owner_pid (entries b i) = pid \<and> want b i \<noteq> None)"
    and "distinct (concat (map snd reqs))" "\<forall>i \<in> D. got b k m i" "D \<inter> set (concat (map snd reqs)) = {}"
  shows "\<exists>m' k'. receive_peers rcv b reqs m k = (m', k') \<and> (\<forall>i \<in> D \<union> set (concat (map snd reqs)). got b k' m' i)"
  using assms
proof (induction reqs arbitrary: D m k)
  case (Cons req reqs)
  obtain pid "is" where r: "req = (pid, is)" by fastforce
  let ?fds = "map (\<lambda>i. shm_fd (entries b i)) is"
  have owner: "\<forall>i \<in> set is. owner_pid (entries b i) = pid" using Cons.prems(1) r by auto
  have w: "map (peer pid) ?fds = map (want b) is" using owner by (simp add: want_def)
  have "?fds \<noteq> []" "length ?fds \<le> limit" "up pid" "\<forall>fd \<in> set ?fds. peer pid fd \<noteq> None"
    using Cons.prems(1) r owner by (auto simp: want_def)
  from delivers [OF this, of k] obtain fds k1 where
    d: "rcv k pid ?fds = (int (length is), fds, k1)" "map (ofile k1) fds = map (want b) is"
      "\<forall>fd \<in> set fds. 0 \<le> fd \<and> ofile k fd = None" "\<forall>fd. fd \<notin> set fds \<longrightarrow> ofile k1 fd = ofile k fd"
    using w by auto
  have len: "length fds = length is" using arg_cong [OF d(2), of length] by simp
  define m1 where "m1 = fold (\<lambda>(i, fd). omap_put i fd) (zip is fds) m"
  have dist: "distinct is" using Cons.prems(2) r by simp
  have m1: "map_of m1 = map_of m ++ map_of (zip is fds)" unfolding m1_def by (rule map_of_puts [OF dist]) (simp add: len)
  have new: "got b k1 m1 (is ! j)" if j: "j < length is" for j
  proof -
    have "map_of (zip is fds) (is ! j) = Some (fds ! j)" using j dist len by (simp add: map_of_zip_nth)
    moreover have "ofile k1 (fds ! j) = want b (is ! j)" using d(2) j len by (metis nth_map)
    moreover have "want b (is ! j) \<noteq> None" using Cons.prems(1) r nth_mem [OF j] by auto
    moreover have "0 \<le> fds ! j" using d(3) j len by simp
    ultimately show ?thesis by (auto simp: got_def m1)
  qed
  have old: "got b k1 m1 i" if i: "i \<in> D" for i
  proof -
    from Cons.prems(3) i obtain fd where fd: "map_of m i = Some fd" "0 \<le> fd" "ofile k fd = want b i" "want b i \<noteq> None"
      by (auto simp: got_def)
    have "i \<notin> set is" using Cons.prems(4) i r by auto
    then have "map_of (zip is fds) i = None" using len by simp
    moreover have "fd \<notin> set fds" using d(3) fd by auto
    ultimately show ?thesis using fd d(4) by (auto simp: got_def m1 map_add_def)
  qed
  have all: "\<forall>i \<in> D \<union> set is. got b k1 m1 i" using new old by (auto simp: in_set_conv_nth)
  have step: "receive_peers rcv b (req # reqs) m k = receive_peers rcv b reqs m1 k1"
    using d(1) len \<open>?fds \<noteq> []\<close> by (simp add: r m1_def)
  have "(D \<union> set is) \<inter> set (concat (map snd reqs)) = {}" using Cons.prems(2,4) r by auto
  with Cons.IH [of "D \<union> set is" k1 m1] Cons.prems(1,2) all step show ?case by (auto simp: r Un_assoc)
qed simp

end

interpretation uds: fd_receiver "\<lambda>t pid fds. uds_receive_fds (outcomes pid) (tables pid) fds t" open_file
    "\<lambda>pid. open_file (tables pid)" UDS_MAX_FDS
    "\<lambda>pid. \<exists>k < 20. k < length (outcomes pid) \<and> outcomes pid ! k = Connected \<and> (\<forall>j < k. outcomes pid ! j = Refused)"
  for outcomes tables
proof
  fix fds :: "int list" and pid k
  assume "fds \<noteq> []" "length fds \<le> UDS_MAX_FDS"
    "\<exists>k < 20. k < length (outcomes pid) \<and> outcomes pid ! k = Connected \<and> (\<forall>j < k. outcomes pid ! j = Refused)"
    "\<forall>fd \<in> set fds. open_file (tables pid) fd \<noteq> None"
  from uds_delivers [OF _ this(2-4), of k] this(1)
  show "\<exists>fds' k'. uds_receive_fds (outcomes pid) (tables pid) fds k = (int (length fds), fds', k') \<and>
      map (open_file k') fds' = map (open_file (tables pid)) fds \<and>
      (\<forall>fd \<in> set fds'. 0 \<le> fd \<and> open_file k fd = None) \<and> (\<forall>fd. fd \<notin> set fds' \<longrightarrow> open_file k' fd = open_file k fd)"
    by auto
qed

lemma omap_put_set: "(k', v') \<in> set (omap_put k v g) \<Longrightarrow> (k' = k \<and> v' = v) \<or> (k', v') \<in> set g"
  by (induction g) (auto split: if_splits)

lemma group_members:
  assumes "(k, ys) \<in> set (group key xs)"
  shows "ys \<noteq> [] \<and> (\<forall>y \<in> set ys. key y = k)"
proof -
  define P where "P = (\<lambda>g :: (int \<times> 'a list) list. \<forall>k ys. (k, ys) \<in> set g \<longrightarrow> ys \<noteq> [] \<and> (\<forall>y \<in> set ys. key y = k))"
  have st: "P (group_step key x g)" if "P g" for x g
    using that by (auto simp: P_def group_step_def dest!: omap_put_set map_of_SomeD split: option.splits)
  have "P (fold (group_step key) xs g)" if "P g" for g
    using that by (induction xs arbitrary: g) (simp_all add: st)
  from this [of "[]"] assms show ?thesis by (auto simp: group_def P_def)
qed

lemma length_group: "(k, ys) \<in> set (group key xs) \<Longrightarrow> length ys \<le> length xs"
proof -
  assume "(k, ys) \<in> set (group key xs)"
  then have "length ys \<in> set (map (length \<circ> snd) (group key xs))" by force
  then have "length ys \<le> length (concat (map snd (group key xs)))" by (simp add: length_concat member_le_sum_list)
  also have "\<dots> = length xs" using group_perm [of key xs] by (metis size_mset)
  finally show ?thesis .
qed

definition valid_indices :: "IpcRebuildShmBlock \<Rightarrow> nat list" where
  "valid_indices b = filter (\<lambda>i. valid (entries b i)) [0..<num_exports b]"

context fd_receiver
begin

lemma receive_block:
  assumes "num_exports b \<le> limit"
    and "\<forall>i \<in> set (valid_indices b). up (owner_pid (entries b i)) \<and> want b i \<noteq> None"
  shows "\<exists>m k'. receive_peers rcv b (peer_requests b) [] k = (m, k') \<and>
    length (valid_exports b m) = length (valid_indices b) \<and> map (ofile k') (valid_exports b m) = map (want b) (valid_indices b)"
proof -
  let ?v = "valid_indices b"
  have pr: "peer_requests b = group (\<lambda>i. owner_pid (entries b i)) ?v" by (simp add: peer_requests_def valid_indices_def)
  have m: "mset (concat (map snd (peer_requests b))) = mset ?v" unfolding pr by (rule group_perm)
  have lv: "length ?v \<le> limit" using assms(1) length_filter_le [of _ "[0..<num_exports b]"] by (fastforce simp: valid_indices_def intro: le_trans)
  have reqs: "\<forall>(pid, is) \<in> set (peer_requests b). is \<noteq> [] \<and> length is \<le> limit \<and> up pid \<and>
      (\<forall>i \<in> set is. owner_pid (entries b i) = pid \<and> want b i \<noteq> None)"
  proof clarify
    fix pid "is" assume r: "(pid, is) \<in> set (peer_requests b)"
    note g = group_members [OF r [unfolded pr]]
    have l: "length is \<le> limit" using length_group [OF r [unfolded pr]] lv by simp
    have sub: "set is \<subseteq> set ?v" using set_group [of "\<lambda>i. owner_pid (entries b i)" ?v] r unfolding pr by blast
    moreover have "hd is \<in> set is" using g by simp
    ultimately have "up pid" using assms(2) g by (metis subsetD)
    then show "is \<noteq> [] \<and> length is \<le> limit \<and> up pid \<and> (\<forall>i \<in> set is. owner_pid (entries b i) = pid \<and> want b i \<noteq> None)"
      using g l sub assms(2) by blast
  qed
  have "distinct (concat (map snd (peer_requests b)))" using mset_eq_imp_distinct_iff [OF m] by (simp add: valid_indices_def)
  from receive_peers_got [OF reqs this, of "{}" k "[]"] obtain m1 k' where
    1: "receive_peers rcv b (peer_requests b) [] k = (m1, k')"
      "\<forall>i \<in> set (concat (map snd (peer_requests b))). got b k' m1 i" by auto
  then have got: "got b k' m1 i" if "i \<in> set ?v" for i using mset_eq_setD [OF m] that by blast
  have gv: "case map_of m1 i of Some fd \<Rightarrow> 0 \<le> fd | None \<Rightarrow> False" if "i \<in> set ?v" for i
    using got [OF that] by (auto simp: got_def)
  have "valid_exports b m1 = map (\<lambda>i. the (map_of m1 i)) ?v"
    unfolding valid_exports_def valid_indices_def using gv
    by (intro arg_cong [of _ _ "map _"] filter_cong) (auto simp: valid_indices_def)
  moreover have "ofile k' (the (map_of m1 i)) = want b i" if "i \<in> set ?v" for i using got [OF that] by (auto simp: got_def)
  ultimately show ?thesis using 1(1) by simp
qed

end

definition remapped :: "ipc_state \<Rightarrow> nat \<Rightarrow> int \<Rightarrow> bool" where
  \<comment> \<open>the import is live, its handle was imported from the descriptor and is mapped at its address\<close>
  "remapped s i fd \<longleftrightarrow> (let rec = g_ipc_imports s ! i in \<not> imp_torn_down rec \<and>
     (CuMemImport fd, 0, imp_handle rec) \<in> set (cu_calls s) \<and>
     (\<exists>v. (CuMemMap (imp_vaddr rec) (imp_size rec) (imp_handle rec), 0, v) \<in> set (cu_calls s)))"

definition imp_place :: "IpcImportRecord \<Rightarrow> nat \<times> nat" where
  "imp_place e = (imp_vaddr e, imp_size e)"

definition extends :: "ipc_state \<Rightarrow> ipc_state \<Rightarrow> bool" where
  "extends s s' \<longleftrightarrow> (\<exists>cs. cu_calls s' = cu_calls s @ cs) \<and> map imp_place (g_ipc_imports s') = map imp_place (g_ipc_imports s)"

lemma extends_refl [simp]: "extends s s"
  by (simp add: extends_def)

lemma extends_trans: "extends s s' \<Longrightarrow> extends s' s'' \<Longrightarrow> extends s s''"
  by (auto simp: extends_def)

lemma ccall_extends: "ccall lib c s = (r, v, s') \<Longrightarrow> extends s s'"
  by (simp add: extends_def ccall_calls same_tablesD [OF ccall_tables])

lemma cdo_extends: "extends s (cdo lib c s)"
  by (auto simp: cdo_def split: prod.splits intro: ccall_extends)

lemma import_access_extends: "extends s (import_access lib rec s) \<and> g_ipc_imports (import_access lib rec s) = g_ipc_imports s"
proof -
  have "extends s (replay_access lib p n ds s) \<and> g_ipc_imports (replay_access lib p n ds s) = g_ipc_imports s" for p n ds s
    by (induction ds arbitrary: s) (auto intro: extends_trans [OF cdo_extends])
  then show ?thesis by (auto simp: import_access_def cdo_extends)
qed

lemma rebuild_imports_ok:
  assumes lib: "lib_ok lib"
  shows "distinct (map fst ms) \<Longrightarrow> \<forall>(i, _) \<in> set ms. i < length (g_ipc_imports s) \<Longrightarrow>
    \<exists>s'. rebuild_imports lib ms n s = (n + length ms, s') \<and> extends s s' \<and> (\<forall>(i, fd) \<in> set ms. remapped s' i fd) \<and>
      (\<forall>i. i \<notin> fst ` set ms \<longrightarrow> g_ipc_imports s' ! i = g_ipc_imports s ! i)"
proof (induction ms arbitrary: s n)
  case (Cons e ms)
  obtain i fd where e: "e = (i, fd)" by fastforce
  let ?rec = "g_ipc_imports s ! i"
  obtain r1 h s1 where 1: "ccall lib (CuMemImport fd) s = (r1, h, s1)" by (metis prod_cases3)
  define s2 where "s2 = cdo lib (CloseFd fd) s1"
  obtain r3 v s3 where 3: "ccall lib (CuMemMap (imp_vaddr ?rec) (imp_size ?rec) h) s2 = (r3, v, s3)" by (metis prod_cases3)
  define s4 where "s4 = import_access lib ?rec s3"
  define s5 where "s5 = upd_imp i (\<lambda>e. e\<lparr>imp_handle := h, imp_torn_down := False\<rparr>) s4"
  have z: "r1 = 0" "r3 = 0" using lib_ok_rc [OF lib 1] lib_ok_rc [OF lib 3] by auto
  have im: "g_ipc_imports s4 = g_ipc_imports s"
    using same_tablesD [OF ccall_tables [OF 1]] same_tablesD [OF ccall_tables [OF 3]] import_access_extends [of s3 lib ?rec]
    by (simp add: s4_def s2_def)
  have im5: "g_ipc_imports s5 = (g_ipc_imports s)[i := ?rec\<lparr>imp_handle := h, imp_torn_down := False\<rparr>]"
    by (simp add: s5_def upd_imp_def im)
  have ext: "extends s s4"
    using extends_trans [OF extends_trans [OF ccall_extends [OF 1] cdo_extends [of s1 lib "CloseFd fd", folded s2_def]]
        extends_trans [OF ccall_extends [OF 3]]] import_access_extends [of s3 lib ?rec] by (simp add: s4_def)
  have "map imp_place (g_ipc_imports s5) = map imp_place (g_ipc_imports s)"
    unfolding im5 by (rule map_list_update_field) (simp add: imp_place_def)
  then have ext5: "extends s s5" using ext im by (simp add: extends_def s5_def upd_imp_def)
  have calls: "(CuMemImport fd, 0, h) \<in> set (cu_calls s5)" "(CuMemMap (imp_vaddr ?rec) (imp_size ?rec) h, 0, v) \<in> set (cu_calls s5)"
    using ccall_calls [OF 1] ccall_calls [OF 3] cdo_extends [of s1 lib "CloseFd fd", folded s2_def]
      import_access_extends [of s3 lib ?rec] z by (auto simp: s5_def upd_imp_def s4_def extends_def)
  have i: "i < length (g_ipc_imports s)" using Cons.prems(2) e by simp
  have rm5: "remapped s5 i fd" using calls i by (auto simp: remapped_def Let_def im5)
  have step: "rebuild_imports lib (e # ms) n s = rebuild_imports lib ms (n + 1) s5"
    using z 1 3 by (simp add: e Let_def s2_def [symmetric] s4_def s5_def)
  have "\<forall>(j, _) \<in> set ms. j < length (g_ipc_imports s5)" using Cons.prems(2) by (simp add: im5)
  with Cons.IH [of s5 "n + 1"] Cons.prems(1) obtain s' where
    s': "rebuild_imports lib ms (n + 1) s5 = (n + 1 + length ms, s')" "extends s5 s'" "\<forall>(i, fd) \<in> set ms. remapped s' i fd"
      "\<forall>j. j \<notin> fst ` set ms \<longrightarrow> g_ipc_imports s' ! j = g_ipc_imports s5 ! j" by auto
  have "i \<notin> fst ` set ms" using Cons.prems(1) e by simp
  then have "g_ipc_imports s' ! i = g_ipc_imports s5 ! i" using s'(4) by blast
  then have "remapped s' i fd" using rm5 s'(2) by (auto simp: remapped_def Let_def extends_def)
  with s' step extends_trans [OF ext5 s'(2)] show ?case by (auto simp: e im5)
qed simp

lemma fold_close: "extends s (fold (\<lambda>fd. cdo lib (CloseFd fd)) fds s) \<and>
    g_ipc_imports (fold (\<lambda>fd. cdo lib (CloseFd fd)) fds s) = g_ipc_imports s"
  by (induction fds arbitrary: s) (auto intro: extends_trans [OF cdo_extends])

lemma remapped_extends: "remapped s i fd \<Longrightarrow> extends s s' \<Longrightarrow> g_ipc_imports s' = g_ipc_imports s \<Longrightarrow> remapped s' i fd"
  by (auto simp: remapped_def Let_def extends_def)

text \<open>C21: when the driver calls succeed and the peers answer, \<open>ipc_import_from_shm_block\<close> rebuilds the
  torn down imports from the valid entries of the block by position: for every position both lists have,
  the import is live again at its old address, on a handle imported from a descriptor for the file the
  peer has open under the descriptor number in the entry.  It returns how many there are, and the
  imports beyond them stay as they were.\<close>

theorem import_positional:
  fixes outcomes :: "int \<Rightarrow> connect_outcome list" and tables :: "int \<Rightarrow> fd_table"
  defines "rcv \<equiv> \<lambda>t pid fds. uds_receive_fds (outcomes pid) (tables pid) fds t"
  assumes "lib_ok lib" "num_exports b \<le> UDS_MAX_FDS"
    and "\<forall>i \<in> set (valid_indices b). open_file (tables (owner_pid (entries b i))) (shm_fd (entries b i)) \<noteq> None \<and>
      connect_retry 20 (outcomes (owner_pid (entries b i)))"
  shows "\<exists>n s' t'. ipc_import_from_shm_block lib rcv b s t = (int n, s', t') \<and>
    n = min (length (torn_imports s)) (length (valid_indices b)) \<and>
    (\<forall>j < n. let e = entries b (valid_indices b ! j) in
       \<exists>fd. remapped s' (torn_imports s ! j) fd \<and> open_file t' fd = open_file (tables (owner_pid e)) (shm_fd e)) \<and>
    map imp_place (g_ipc_imports s') = map imp_place (g_ipc_imports s) \<and>
    (\<forall>i. i \<notin> set (take n (torn_imports s)) \<longrightarrow> g_ipc_imports s' ! i = g_ipc_imports s ! i)"
proof (cases "num_exports b = 0")
  case True
  then show ?thesis by (simp add: ipc_import_from_shm_block_def valid_indices_def)
next
  case False
  have av: "avail lib f" for f using assms(2) by (simp add: lib_ok_def)
  let ?want = "\<lambda>i. open_file (tables (owner_pid (entries b i))) (shm_fd (entries b i))"
  from uds.receive_block [of b outcomes tables t] assms(3,4)
  obtain m t' where 1: "receive_peers rcv b (peer_requests b) [] t = (m, t')"
      "length (valid_exports b m) = length (valid_indices b)"
      "map (open_file t') (valid_exports b m) = map ?want (valid_indices b)"
    by (auto simp: uds.want_def connect_retry_iff rcv_def)
  let ?fds = "valid_exports b m" and ?torn = "torn_imports s"
  let ?ms = "zip ?torn ?fds"
  have d: "distinct (map fst ?ms)" "\<forall>(i, _) \<in> set ?ms. i < length (g_ipc_imports s)"
    by (auto simp: torn_imports_def map_fst_zip_take distinct_take dest: set_zip_leftD)
  from rebuild_imports_ok [OF assms(2) d, of 0] obtain s1 where
    2: "rebuild_imports lib ?ms 0 s = (length ?ms, s1)" "extends s s1" "\<forall>(i, fd) \<in> set ?ms. remapped s1 i fd"
      "\<forall>i. i \<notin> fst ` set ?ms \<longrightarrow> g_ipc_imports s1 ! i = g_ipc_imports s ! i" by auto
  define s' where "s' = fold (\<lambda>fd. cdo lib (CloseFd fd)) (drop (length ?torn) ?fds) s1"
  have c: "extends s1 s'" "g_ipc_imports s' = g_ipc_imports s1" unfolding s'_def using fold_close by blast+
  let ?n = "min (length ?torn) (length (valid_indices b))"
  have run: "ipc_import_from_shm_block lib rcv b s t = (int ?n, s', t')"
    using False av 1 2(1) by (simp add: ipc_import_from_shm_block_def Let_def s'_def)
  have pos: "\<exists>fd. remapped s' (?torn ! j) fd \<and> open_file t' fd = ?want (valid_indices b ! j)" if j: "j < ?n" for j
  proof -
    have "(?torn ! j, ?fds ! j) \<in> set ?ms" using j 1(2) by (auto simp: set_zip)
    then have "remapped s' (?torn ! j) (?fds ! j)" using 2(3) c remapped_extends by blast
    moreover have "open_file t' (?fds ! j) = ?want (valid_indices b ! j)"
      using j 1(2) arg_cong [OF 1(3), of "\<lambda>xs. xs ! j"] by simp
    ultimately show ?thesis by blast
  qed
  have f: "fst ` set ?ms = set (take ?n ?torn)"
    using 1(2) by (metis list.set_map map_fst_zip_take)
  have "map imp_place (g_ipc_imports s') = map imp_place (g_ipc_imports s)" using 2(2) c by (simp add: extends_def)
  with run pos 2(4) c(2) f show ?thesis by (intro exI [of _ ?n] exI [of _ s'] exI [of _ t']) (simp add: Let_def)
qed

lemma upt_two: "[0..<2] = [0, 1 :: nat]"
  by (simp add: upt_rec)

lemma connect_first: "0 < n \<Longrightarrow> connect_retry n (Connected # os)"
  by (cases n) simp_all

definition two_torn :: ipc_state where
  "two_torn = ipc_start\<lparr>g_ipc_imports := [torn_import (one_import 3), torn_import (one_import 4)]\<rparr>"

definition two_entries :: IpcRebuildShmBlock where
  "two_entries = \<lparr>num_exports = 2, entries = (\<lambda>i. \<lparr>owner_pid = 10, shm_fd = int i, local_ptr = 0, entry_size = 64, valid = True\<rparr>)\<rparr>"

theorem import_positional_witness:
  "\<exists>s' t'. ipc_import_from_shm_block obliging_lib (\<lambda>t pid fds. uds_receive_fds [Connected] [Some 70, Some 71] fds t)
      two_entries two_torn [] = (2, s', t') \<and>
    (\<exists>fd. remapped s' 0 fd \<and> open_file t' fd = Some 70) \<and> (\<exists>fd. remapped s' 1 fd \<and> open_file t' fd = Some 71)"
proof -
  have v: "valid_indices two_entries = [0, 1]" by (simp add: valid_indices_def two_entries_def upt_two)
  have t: "torn_imports two_torn = [0, 1]"
    by (simp add: torn_imports_def two_torn_def torn_import_def one_import_def ipc_start_def)
  have w: "\<forall>i \<in> set (valid_indices two_entries). open_file [Some 70, Some 71] (shm_fd (entries two_entries i)) \<noteq> None \<and>
      connect_retry 20 [Connected]"
    unfolding v by (simp add: two_entries_def open_file_def connect_first)
  have n: "num_exports two_entries \<le> UDS_MAX_FDS" by (simp add: two_entries_def UDS_MAX_FDS_def)
  from import_positional [of obliging_lib two_entries "\<lambda>_. [Some 70, Some 71]" "\<lambda>_. [Connected]" two_torn "[]",
      OF lib_ok_obliging n w, unfolded v t]
  obtain s' t' where 1: "ipc_import_from_shm_block obliging_lib (\<lambda>t pid fds. uds_receive_fds [Connected] [Some 70, Some 71] fds t)
      two_entries two_torn [] = (2, s', t')"
    and p: "\<forall>j < 2. let e = entries two_entries ([0, 1] ! j) in
       \<exists>fd. remapped s' ([0, 1] ! j) fd \<and> open_file t' fd = open_file [Some 70, Some 71] (shm_fd e)"
    by (auto simp: numeral_2_eq_2)
  have "\<exists>fd. remapped s' 0 fd \<and> open_file t' fd = Some 70" "\<exists>fd. remapped s' 1 fd \<and> open_file t' fd = Some 71"
    using p [rule_format, of 0] p [rule_format, of 1] by (simp_all add: two_entries_def open_file_def Let_def)
  with 1 show ?thesis by blast
qed

section \<open>An import the application has unmapped itself\<close>

definition import_twice :: "ipc_state" where
  \<comment> \<open>two imports of which the application unmaps the first before the checkpoint\<close>
  "import_twice = snd (hook_cuMemUnmap obliging_lib 12288 64
     (ipc_start\<lparr>g_ipc_imports := [one_import 3, one_import 4], g_vaddr_to_import_idx := [(12288, 0), (16384, 1)]\<rparr>))"

definition live_entry :: IpcRebuildShmBlock where
  "live_entry = two_entries\<lparr>num_exports := 1\<rparr>"

text \<open>An import the application has unmapped keeps its place among the torn down ones.  If the peer
  has dropped the matching export too, the one remaining export (of the second import) is mapped at the
  address of the import that is gone, and the import in use is not rebuilt.\<close>

theorem unmapped_import_takes_place:
  "case ipc_teardown_all_imports obliging_lib import_twice of (r, s1) \<Rightarrow>
   case ipc_import_from_shm_block obliging_lib (\<lambda>t pid fds. uds_receive_fds [Connected] [Some 71] fds t)
      live_entry s1 [] of (r', s2, t) \<Rightarrow>
     r = 1 \<and> r' = 1 \<and> map imp_torn_down (g_ipc_imports s2) = [False, True]"
  by (simp add: import_twice_def hook_cuMemUnmap_def live_entry_def two_entries_def one_import_def obliging_lib_def ipc_start_def
      ipc_teardown_all_imports_def ipc_import_from_shm_block_def peer_requests_def group_def group_step_def valid_exports_def
      torn_imports_def uds_receive_fds_def serve_request_def send_fds_def recv_fds_def install_def open_file_def UDS_MAX_FDS_def
      import_access_def upd_imp_def cdo_if_def cdo_def ccall_def native_def Let_def connect_first)

section \<open>Validation\<close>

lemma probe_idle: "probe lib dev p s = (e, s') \<Longrightarrow> idle_step s s' \<and> e \<le> 1 \<and> (lib_ok lib \<longrightarrow> e = 0)"
proof (cases dev)
  case None
  then show "probe lib dev p s = (e, s') \<Longrightarrow> idle_step s s' \<and> e \<le> 1 \<and> (lib_ok lib \<longrightarrow> e = 0)"
    by (auto simp: probe_def split: prod.splits if_splits intro: ccall_idle dest: lib_ok_rc)
next
  case (Some d)
  assume p: "probe lib dev p s = (e, s')"
  obtain pushed s1 where 1: "push_context lib True d s = (pushed, s1)" by fastforce
  obtain r v s2 where 2: "ccall lib (CuMemProbe p) s1 = (r, v, s2)" by (metis prod_cases3)
  have "idle_step s1 s2" by (rule ccall_idle [OF 2]) simp
  from idle_step_trans [OF push_context_idle [OF 1] idle_step_trans [OF this pop_context_idle]]
  show "idle_step s s' \<and> e \<le> 1 \<and> (lib_ok lib \<longrightarrow> e = 0)"
    using p 1 2 Some lib_ok_rc [OF _ 2] by (auto simp: probe_def split: if_splits)
qed

lemma probes_idle: "probes lib ps n s = (e, s') \<Longrightarrow> idle_step s s' \<and> n \<le> e \<and> e \<le> n + length ps \<and> (lib_ok lib \<longrightarrow> e = n)"
proof (induction ps arbitrary: n s)
  case (Cons q ps)
  obtain dev p where q: "q = (dev, p)" by fastforce
  obtain e1 s1 where 1: "probe lib dev p s = (e1, s1)" by fastforce
  from Cons.prems q 1 have "probes lib ps (n + e1) s1 = (e, s')" by simp
  from Cons.IH [OF this] probe_idle [OF 1] show ?case by (auto intro: idle_step_trans)
qed simp

text \<open>\<open>ipc_validate_all_mappings\<close> changes neither the tables nor any memory; it returns a count
  between zero and the number of live mappings, and zero when every read succeeds.\<close>

lemma validation_observes:
  "\<exists>n s'. ipc_validate_all_mappings lib s = (int n, s') \<and> idle_step s s' \<and> n \<le> length (live_mappings s) \<and>
    (lib_ok lib \<longrightarrow> n = 0)"
proof -
  obtain n s' where 1: "probes lib (live_mappings s) 0 s = (n, s')" by fastforce
  with probes_idle [OF 1] show ?thesis by (auto simp: ipc_validate_all_mappings_def)
qed

end
