(* ===== verification/Ipc_Worker.thy ===== *)
theory Ipc_Worker
  imports Ipc_Import Peer_Access Comm_Protocol
begin

text \<open>
  The three phases of the IPC signal handler of a worker (\<open>cr_ipc_signal_handler\<close> in
  \<open>src/vGPU.cpp\<close>): the teardown before a multi-GPU checkpoint, the re-export and the re-import after
  it, composed from the tables, the host buffers for the data of exports and local allocations, the
  peer access sets, the events and the descriptor server.  The bulk of the theory says what each
  operation leaves alone; the theorem at the end composes save, teardown and rebuild.
\<close>

section \<open>State\<close>

record ipc_worker =
  ipc :: ipc_state
  peers :: peer_state
  events :: "IpcEventRecord list"
  export_buf :: "(mem \<times> nat) option" \<comment> \<open>\<open>g_ipc_export_data_buf\<close>, \<open>g_ipc_export_data_size\<close>\<close>
  local_buf :: "(mem \<times> nat) option"  \<comment> \<open>\<open>g_local_alloc_data_buf\<close>, \<open>g_local_alloc_data_size\<close>\<close>
  server :: UdsServerCtx
  my_block :: IpcRebuildShmBlock
  peer_block :: IpcRebuildShmBlock
  fd_tab :: fd_table

record ipc_env =
  e_lib :: cu_lib
  e_rt :: cuda_rt
  e_mmap :: "nat \<Rightarrow> bool" \<comment> \<open>an anonymous mapping of this size can be made\<close>
  e_pid :: int
  e_start :: start_outcome
  e_rcv :: "fd_table \<Rightarrow> int \<Rightarrow> int list \<Rightarrow> int \<times> int list \<times> fd_table"

section \<open>The three phases\<close>

definition fresh_buf :: "ipc_env \<Rightarrow> nat \<Rightarrow> (mem \<times> nat) option \<Rightarrow> (mem \<times> nat) option" where
  "fresh_buf env needed buf =
     (if 0 < needed then (if e_mmap env needed then Some (\<lambda>_. 0, needed) else None) else buf)"

definition run_with_buf ::
    "(nat \<Rightarrow> ipc_state \<Rightarrow> int \<times> ipc_state) \<Rightarrow> (mem \<times> nat) option \<Rightarrow> ipc_state \<Rightarrow> (mem \<times> nat) option \<times> ipc_state" where
  \<comment> \<open>\<open>if (buf && size > 0) f(buf, size);\<close>\<close>
  "run_with_buf f buf s =
     (case buf of
        Some (b, n) \<Rightarrow> if 0 < n then case f n (s\<lparr>hbuf := b\<rparr>) of (_, s1) \<Rightarrow> (Some (hbuf s1, n), s1) else (buf, s)
      | None \<Rightarrow> (None, s))"

definition ipc_teardown_phase :: "ipc_env \<Rightarrow> ipc_worker \<Rightarrow> ipc_worker" where
  "ipc_teardown_phase env w =
     (let s1 = snd (ipc_teardown_all_imports (e_lib env) (ipc w));
          eb = fresh_buf env (ipc_get_export_data_size s1) (export_buf w);
          (eb1, s2) = run_with_buf (ipc_save_and_teardown_all_exports (e_lib env)) eb s1;
          (_, evs, p1) = ipc_teardown_all_events (e_rt env) (events w, peers w);
          lb = fresh_buf env (ipc_get_local_alloc_data_size s2) (local_buf w);
          (lb1, s3) = run_with_buf (ipc_save_and_teardown_local_allocs (e_lib env)) lb s2;
          p2 = snd (ipc_disable_all_peer_access (e_rt env) p1)
      in w\<lparr>ipc := s3, peers := p2, events := evs, export_buf := eb1, local_buf := lb1\<rparr>)"

definition drop_buf :: "(mem \<times> nat) option \<Rightarrow> (mem \<times> nat) option" where
  \<comment> \<open>\<open>munmap\<close> of a buffer that was used\<close>
  "drop_buf buf = (case buf of Some (b, n) \<Rightarrow> if 0 < n then None else buf | None \<Rightarrow> None)"

definition ipc_export_phase :: "ipc_env \<Rightarrow> ipc_worker \<Rightarrow> ipc_worker" where
  "ipc_export_phase env w =
     (let (_, s1) = run_with_buf (ipc_rebuild_and_restore_all_exports (e_lib env)) (export_buf w) (ipc w);
          (_, s2) = run_with_buf (ipc_rebuild_local_allocs (e_lib env)) (local_buf w) s1
      in w\<lparr>ipc := s2, export_buf := drop_buf (export_buf w), local_buf := drop_buf (local_buf w),
           my_block := snd (ipc_write_export_info_to_shm (e_pid env) (my_block w) s2),
           server := snd (uds_fd_server_start (e_start env) (server w))\<rparr>)"

definition ipc_import_phase :: "ipc_env \<Rightarrow> ipc_worker \<Rightarrow> ipc_worker" where
  "ipc_import_phase env w =
     (let (s1, t1) = (if 0 < num_exports (peer_block w)
                      then snd (ipc_import_from_shm_block (e_lib env) (e_rcv env) (peer_block w) (ipc w) (fd_tab w))
                      else (ipc w, fd_tab w));
          s2 = snd (ipc_validate_all_mappings (e_lib env) s1)
      in w\<lparr>ipc := s2, fd_tab := t1, server := uds_fd_server_stop (server w),
           peers := snd (ipc_reenable_all_peer_access (e_rt env) (peers w))\<rparr>)"

definition ipc_dispatch :: "ipc_env \<Rightarrow> nat \<Rightarrow> ipc_worker \<Rightarrow> ipc_worker" where
  "ipc_dispatch env msg w =
     (if msg = IPC_TEARDOWN_MSG then ipc_teardown_phase env w
      else if msg = IPC_EXPORT_MSG then ipc_export_phase env w
      else if msg = IPC_IMPORT_MSG then ipc_import_phase env w
      else w)"

section \<open>What each operation leaves alone\<close>

definition own :: "ipc_state \<Rightarrow> CuMemLocalAllocRecord list \<times> (nat \<times> CuMemCreateRecord) list \<times> (nat \<times> nat) list" where
  "own s = (g_local_allocs s, g_created_allocs s, g_handle_to_va s)"

lemma ccall_own [simp]: "own (snd (snd (ccall lib c s))) = own s" "g_ipc_exports (snd (snd (ccall lib c s))) = g_ipc_exports s"
    "g_created_allocs (snd (snd (ccall lib c s))) = g_created_allocs s" "g_handle_to_va (snd (snd (ccall lib c s))) = g_handle_to_va s"
    "g_local_allocs (snd (snd (ccall lib c s))) = g_local_allocs s" "g_ipc_imports (snd (snd (ccall lib c s))) = g_ipc_imports s"
  by (simp_all add: own_def ccall_def native_def split_beta)

lemma cdo_own [simp]: "own (cdo lib c s) = own s" "g_ipc_exports (cdo lib c s) = g_ipc_exports s"
    "g_local_allocs (cdo lib c s) = g_local_allocs s"
  by (simp_all add: cdo_def split_beta)

lemma cdo_if_own [simp]: "own (cdo_if b lib c s) = own s" "g_ipc_exports (cdo_if b lib c s) = g_ipc_exports s"
    "g_local_allocs (cdo_if b lib c s) = g_local_allocs s"
  by (simp_all add: cdo_if_def)

lemma upd_own [simp]: "own (upd_exp i f s) = own s" "own (upd_imp i g s) = own s"
    "g_ipc_exports (upd_imp i g s) = g_ipc_exports s" "g_ipc_exports (upd_loc i k s) = g_ipc_exports s"
  by (simp_all add: own_def upd_exp_def upd_imp_def upd_loc_def)

lemma context_own [simp]: "own (snd (push_context lib want d s)) = own s" "own (pop_context lib b d s) = own s"
    "own (snd (pin_host lib n s)) = own s"
    "g_ipc_exports (snd (push_context lib want d s)) = g_ipc_exports s" "g_ipc_exports (pop_context lib b d s) = g_ipc_exports s"
    "g_ipc_exports (snd (pin_host lib n s)) = g_ipc_exports s"
  by (simp_all add: push_context_def pop_context_def pin_host_def split_beta)

lemma save_exports_own [simp]: "own (snd (snd (save_exports lib async is off s))) = own s"
  by (induction "is" arbitrary: off s) (simp_all add: split_beta Let_def)

lemma save_devices_own [simp]: "own (snd (snd (save_devices lib async gs off s))) = own s"
  by (induction gs arbitrary: off s) (simp_all add: split_beta Let_def save_device_def)

lemma teardown_exports_own [simp]: "own (snd (teardown_exports lib is n s)) = own s" "own (close_export_fds lib is s) = own s"
  by (induction "is" arbitrary: n s) (simp_all add: Let_def)

lemma save_and_teardown_own [simp]: "own (snd (ipc_save_and_teardown_all_exports lib n s)) = own s"
  by (simp add: ipc_save_and_teardown_all_exports_def Let_def split_beta)

lemma teardown_imports_own [simp]: "own (snd (teardown_imports lib is n s)) = own s"
    "g_ipc_exports (snd (teardown_imports lib is n s)) = g_ipc_exports s"
  by (induction "is" arbitrary: n s) (simp_all add: Let_def)

lemma teardown_all_imports_own [simp]: "own (snd (ipc_teardown_all_imports lib s)) = own s"
    "g_ipc_exports (snd (ipc_teardown_all_imports lib s)) = g_ipc_exports s"
  by (simp_all add: ipc_teardown_all_imports_def split_beta)

lemma save_local_exports [simp]: "g_ipc_exports (snd (save_local lib async es s)) = g_ipc_exports s"
  by (induction es arbitrary: s) (simp_all add: split_beta)

lemma save_local_devices_exports [simp]: "g_ipc_exports (snd (save_local_devices lib async gs s)) = g_ipc_exports s"
proof (induction gs arbitrary: s)
  case (Cons g gs)
  then show ?case by (cases g) (simp add: split_beta Let_def)
qed simp

lemma teardown_local_exports [simp]: "g_ipc_exports (teardown_local lib is s) = g_ipc_exports s"
  by (induction "is" arbitrary: s) (simp_all add: Let_def)

lemma save_local_allocs_exports [simp]: "g_ipc_exports (snd (ipc_save_and_teardown_local_allocs lib n s)) = g_ipc_exports s"
  by (simp add: ipc_save_and_teardown_local_allocs_def Let_def split_beta split: option.split)

lemma replay_access_own [simp]: "own (replay_access lib p n ds s) = own s" "g_ipc_exports (replay_access lib p n ds s) = g_ipc_exports s"
  by (induction ds arbitrary: s) simp_all

lemma export_access_own [simp]: "own (export_access lib rec s) = own s"
  unfolding export_access_def Let_def by (auto simp del: replay_access.simps split: option.split list.split)

lemma rebuild_allocs_own [simp]: "own (snd (snd (rebuild_allocs lib is es off s))) = own s"
  by (induction "is" arbitrary: es off s) (simp_all add: split_beta Let_def)

lemma restore_entries_own [simp]: "own (restore_entries lib async n es s) = own s"
  by (induction es arbitrary: s) (simp_all add: Let_def)

lemma restore_devices_own [simp]: "own (restore_devices lib async n gs s) = own s"
  by (induction gs arbitrary: s) (auto simp: split_beta Let_def)

lemma local_of_own: "own s = own s' \<Longrightarrow> g_local_allocs s = g_local_allocs s'"
  by (simp add: own_def)

lemma reexport_local [simp]: "g_local_allocs (reexport lib e s) = g_local_allocs s"
  by (simp add: reexport_def Let_def split_beta upd_exp_def)

lemma reexports_local [simp]: "g_local_allocs (fold (reexport lib) es s) = g_local_allocs s"
  by (induction es arbitrary: s) simp_all

lemma rebuild_exports_local [simp]: "g_local_allocs (snd (ipc_rebuild_and_restore_all_exports lib n s)) = g_local_allocs s"
  by (auto simp: ipc_rebuild_and_restore_all_exports_def Let_def split_beta intro!: local_of_own)

section \<open>Saving into a buffer and rebuilding from it\<close>

definition imp_ranges :: "ipc_state \<Rightarrow> nat set" where
  "imp_ranges s = (\<Union>e \<in> {e \<in> set (g_ipc_imports s). \<not> imp_torn_down e}. {imp_vaddr e..<imp_vaddr e + imp_size e})"

lemma teardown_import_mem:
  "set is \<subseteq> {..<length (g_ipc_imports s)} \<Longrightarrow> a \<notin> imp_ranges s \<Longrightarrow> gmem (snd (teardown_imports lib is n s)) a = gmem s a"
proof (induction "is" arbitrary: n s)
  case (Cons i "is")
  let ?rec = "g_ipc_imports s ! i"
  define s1 where "s1 = cdo_if (avail lib F_MemUnmap) lib (CuMemUnmap (imp_vaddr ?rec) (imp_size ?rec)) s"
  define s2 where "s2 = cdo_if (imp_handle ?rec \<noteq> 0) lib (CuMemRelease (imp_handle ?rec)) s1"
  define s3 where "s3 = upd_imp i (\<lambda>e. e\<lparr>imp_torn_down := True, imp_handle := 0\<rparr>) s2"
  show ?case
  proof (cases "imp_torn_down ?rec")
    case True
    with Cons show ?thesis by (simp add: Let_def)
  next
    case False
    have i: "i < length (g_ipc_imports s)" using Cons.prems by simp
    have "{imp_vaddr ?rec..<imp_vaddr ?rec + imp_size ?rec} \<subseteq> imp_ranges s"
      unfolding imp_ranges_def using i False by (intro UN_upper) simp
    then have a: "a \<notin> {imp_vaddr ?rec..<imp_vaddr ?rec + imp_size ?rec}" using Cons.prems by blast
    have g: "gmem s3 a = gmem s a"
      using a by (auto simp: s3_def s2_def s1_def upd_imp_def cdo_if_def cdo_def ccall_def native_def blit_def split_beta)
    have im: "g_ipc_imports s3 = (g_ipc_imports s)[i := (?rec)\<lparr>imp_torn_down := True, imp_handle := 0\<rparr>]"
      by (simp add: s3_def s2_def s1_def upd_imp_def)
    have "a \<notin> imp_ranges s3"
      using Cons.prems set_update_subset_insert [of "g_ipc_imports s" i "(?rec)\<lparr>imp_torn_down := True, imp_handle := 0\<rparr>"]
      by (fastforce simp: imp_ranges_def im)
    then have "gmem (snd (teardown_imports lib is (n + 1) s3)) a = gmem s3 a"
      using Cons.prems by (intro Cons.IH) (auto simp: im)
    then show ?thesis using False g by (simp add: Let_def s1_def s2_def s3_def)
  qed
qed simp

lemma teardown_imports_mem: "a \<notin> imp_ranges s \<Longrightarrow> gmem (snd (ipc_teardown_all_imports lib s)) a = gmem s a"
  using teardown_import_mem [of "[0..<length (g_ipc_imports s)]" s a lib 0]
  by (simp add: ipc_teardown_all_imports_def split_beta atLeast0LessThan)

lemma geometry_facts:
  assumes "map geometry E = map geometry E'"
  shows "exp_ranges E = exp_ranges E'"
    "mapped_vaddr ` {e \<in> set E. has_mapping e} = mapped_vaddr ` {e \<in> set E'. has_mapping e}"
proof -
  let ?r = "\<lambda>(v, n, m, _, _). if m then {v..<v + n} else {}" and ?v = "\<lambda>(v, n, m, _, _). if m then {v} else {}"
  have r: "exp_ranges E = \<Union> (?r ` set (map geometry E))"
    and v: "mapped_vaddr ` {e \<in> set E. has_mapping e} = \<Union> (?v ` set (map geometry E))" for E
    by (auto simp: exp_ranges_def exp_range_def geometry_def)
  show "exp_ranges E = exp_ranges E'" by (simp only: r assms)
  show "mapped_vaddr ` {e \<in> set E. has_mapping e} = mapped_vaddr ` {e \<in> set E'. has_mapping e}" by (simp only: v assms)
qed

definition sized_buf :: "nat \<Rightarrow> (mem \<times> nat) option \<Rightarrow> bool" where
  \<comment> \<open>a buffer of the size asked for, whatever it holds, and none for size 0\<close>
  "sized_buf n buf \<longleftrightarrow> (if n = 0 then buf = None else \<exists>b. buf = Some (b, n))"

lemma fresh_buf_sized: "e_mmap env n \<Longrightarrow> sized_buf n (fresh_buf env n None)"
  by (simp add: sized_buf_def fresh_buf_def)

definition exports_kept :: "ipc_state \<Rightarrow> (mem \<times> nat) option \<Rightarrow> ipc_state \<Rightarrow> bool" where
  \<comment> \<open>from the buffer and the records of \<open>s'\<close> the exports of \<open>s\<close> can be rebuilt in any state\<close>
  "exports_kept s buf s' \<longleftrightarrow> drop_buf buf = None \<and>
     (\<forall>lib t. lib_ok lib \<longrightarrow> g_ipc_exports t = g_ipc_exports s' \<longrightarrow>
        (\<forall>a. gmem (snd (run_with_buf (ipc_rebuild_and_restore_all_exports lib) buf t)) a =
           (if a \<in> exp_ranges (g_ipc_exports s) then gmem s a else gmem t a)) \<and>
        (\<forall>i < length (g_ipc_exports s). exp_active (g_ipc_exports s ! i) \<longrightarrow>
           back_in_use (snd (run_with_buf (ipc_rebuild_and_restore_all_exports lib) buf t)) i))"

lemma no_active_exports:
  assumes "ipc_get_export_data_size s = 0" "\<forall>e \<in> set (g_ipc_exports s). \<not> exp_torn_down e"
  shows "exp_ranges (g_ipc_exports s) = {}" "e \<in> set (g_ipc_exports s) \<Longrightarrow> \<not> exp_active e"
proof -
  have z: "mapped_size e = 0" if "e \<in> set (g_ipc_exports s)" "exp_active e" for e
    using assms(1) that by (auto simp: ipc_get_export_data_size_def)
  then show "e \<in> set (g_ipc_exports s) \<Longrightarrow> \<not> exp_active e" by (force simp: exp_active_def)
  then have "exp_range e = {}" if "e \<in> set (g_ipc_exports s)" for e
    using assms(2) that z by (force simp: exp_range_def exp_active_def)
  then show "exp_ranges (g_ipc_exports s) = {}" by (simp add: exp_ranges_def)
qed

lemma rebuild_saved_exports:
  assumes lib: "lib_ok lib" and sv: "saved E G {i. i < length E \<and> exp_active (E ! i)} n t" "n \<le> m"
    and td: "\<forall>j < length E. exp_torn_down (g_ipc_exports t ! j) = has_mapping (E ! j)"
    and fresh: "\<forall>e \<in> set E. \<not> exp_torn_down e" "\<forall>e \<in> set E. exp_active e \<longrightarrow> has_saved_prop e"
    and f: "f = ipc_rebuild_and_restore_all_exports lib m t"
  shows "(\<forall>a. gmem (snd f) a = (if a \<in> exp_ranges E then G a else gmem t a)) \<and>
    (\<forall>i < length E. exp_active (E ! i) \<longrightarrow> back_in_use (snd f) i)"
proof -
  define G' where "G' a = (if a \<in> exp_ranges E then G a else gmem t a)" for a
  have in_range: "mapped_vaddr (E ! i) + k \<in> exp_ranges E" if "i < length E" "exp_active (E ! i)" "k < mapped_size (E ! i)" for i k
    using that nth_mem [OF that(1)] by (auto simp: exp_ranges_def exp_range_def exp_active_def intro!: bexI [of _ "E ! i"])
  have "saved E G' {i. i < length E \<and> exp_active (E ! i)} n t"
    using sv(1) in_range by (auto simp: saved_def G'_def)
  then have "\<exists>s'. f = (int (length (filter exp_active E)), s') \<and>
    gmem s' = G' \<and> (\<forall>i < length E. exp_active (E ! i) \<longrightarrow> back_in_use s' i)"
    unfolding f by (rule rebuild_all_ok [OF lib _ sv(2) td fresh]) (simp add: G'_def)
  then obtain s' where "f = (int (length (filter exp_active E)), s')" "gmem s' = G'"
    "\<forall>i < length E. exp_active (E ! i) \<longrightarrow> back_in_use s' i" by blast
  then show ?thesis by (simp add: G'_def)
qed

lemma exports_saved:
  assumes lib: "lib_ok lib" and sized: "sized_buf (ipc_get_export_data_size s) buf0"
    and fresh: "\<forall>e \<in> set (g_ipc_exports s). \<not> exp_torn_down e" "\<forall>e \<in> set (g_ipc_exports s). exp_active e \<longrightarrow> has_saved_prop e"
    and run: "run_with_buf (ipc_save_and_teardown_all_exports lib) buf0 s = (buf, s')"
  shows "exports_kept s buf s' \<and> map geometry (g_ipc_exports s') = map geometry (g_ipc_exports s) \<and>
    own s' = own s \<and> (\<forall>a. a \<notin> exp_ranges (g_ipc_exports s) \<longrightarrow> gmem s' a = gmem s a)"
proof (cases "ipc_get_export_data_size s = 0")
  case True
  then have "buf = None \<and> s' = s" using run sized by (simp add: sized_buf_def run_with_buf_def)
  then show ?thesis using no_active_exports [OF True fresh(1)]
    by (auto simp: exports_kept_def drop_buf_def run_with_buf_def)
next
  case False
  let ?n = "ipc_get_export_data_size s" and ?E = "g_ipc_exports s"
  obtain b0 where b0: "buf0 = Some (b0, ?n)" using sized False by (auto simp: sized_buf_def)
  let ?s = "s\<lparr>hbuf := b0\<rparr>"
  have sz: "ipc_get_export_data_size ?s = ?n" by (simp add: ipc_get_export_data_size_def)
  obtain r where r: "ipc_save_and_teardown_all_exports lib ?n ?s = (r, s')" "buf = Some (hbuf s', ?n)"
    using run False by (auto simp: b0 run_with_buf_def split: prod.splits)
  have k: "saved ?E (gmem s) {i. i < length ?E \<and> exp_active (?E ! i)} ?n s'"
    "\<forall>a. a \<notin> exp_ranges ?E \<longrightarrow> gmem s' a = gmem s a"
    "\<forall>j < length ?E. exp_torn_down (g_ipc_exports s' ! j) = has_mapping (?E ! j)"
    using save_and_teardown_ok [OF lib, of ?s ?n] r(1) fresh(1) sz by auto
  have o: "own s' = own s" using save_and_teardown_own [of lib ?n ?s] r(1) by (simp add: own_def)
  have sv: "saved ?E (gmem s) {i. i < length ?E \<and> exp_active (?E ! i)} ?n (t\<lparr>hbuf := hbuf s'\<rparr>)"
    if "g_ipc_exports t = g_ipc_exports s'" for t using k(1) that by (simp add: saved_def)
  have "(\<forall>a. gmem (snd (run_with_buf (ipc_rebuild_and_restore_all_exports lib') buf t)) a =
         (if a \<in> exp_ranges ?E then gmem s a else gmem t a)) \<and>
      (\<forall>i < length ?E. exp_active (?E ! i) \<longrightarrow> back_in_use (snd (run_with_buf (ipc_rebuild_and_restore_all_exports lib') buf t)) i)"
    if "lib_ok lib'" and ex: "g_ipc_exports t = g_ipc_exports s'" for lib' t
  proof -
    have "snd (run_with_buf (ipc_rebuild_and_restore_all_exports lib') buf t) =
        snd (ipc_rebuild_and_restore_all_exports lib' ?n (t\<lparr>hbuf := hbuf s'\<rparr>))"
      using False by (simp add: run_with_buf_def r(2) split_beta)
    with rebuild_saved_exports [OF that(1) sv [OF ex] order.refl _ fresh refl] k(3) ex show ?thesis by simp
  qed
  then have "exports_kept s buf s'" using False by (simp add: exports_kept_def r(2) drop_buf_def)
  with k o show ?thesis by (simp add: saved_def)
qed

definition locals_kept :: "ipc_state \<Rightarrow> (mem \<times> nat) option \<Rightarrow> ipc_state \<Rightarrow> bool" where
  \<comment> \<open>the same for the local allocations\<close>
  "locals_kept s buf s' \<longleftrightarrow> drop_buf buf = None \<and>
     (\<forall>lib t. lib_ok lib \<longrightarrow> g_local_allocs t = g_local_allocs s' \<longrightarrow>
        (\<forall>a. gmem (snd (run_with_buf (ipc_rebuild_local_allocs lib) buf t)) a =
           (if a \<in> local_ranges s then gmem s a else gmem t a)))"

lemma rebuild_saved_locals:
  assumes lib: "lib_ok lib" and lay: "laid_out 0 es" and sv: "local_saved G n (hbuf t) es"
    and geo: "map loc_geometry (g_local_allocs t) = map loc_geometry (map local_record es)"
    and td: "\<forall>e \<in> set (g_local_allocs t). loc_torn_down e"
  shows "gmem (snd (ipc_rebuild_local_allocs lib n t)) a =
    (if a \<in> loc_ranges (map local_record es) then G a else gmem t a)"
proof -
  define G' where "G' a = (if a \<in> loc_ranges (map local_record es) then G a else gmem t a)" for a
  have "la_vaddr e + k \<in> loc_ranges (map local_record es)" if "e \<in> set es" "k < la_size e" for e k
    using that by (auto simp: loc_ranges_def local_record_def intro!: bexI [of _ e])
  then have "local_saved G' n (hbuf t) es" using sv by (simp add: local_saved_def G'_def)
  then obtain s' where "ipc_rebuild_local_allocs lib n t = (int (length es), s')" "gmem s' = G'"
    using rebuild_local_all_ok [OF lib lay _ geo td, of G' n] by (auto simp: G'_def)
  then show ?thesis by (simp add: G'_def)
qed

lemma locals_saved:
  assumes lib: "lib_ok lib" and sized: "sized_buf (ipc_get_local_alloc_data_size s) buf0"
    and srt: "sorted (map (\<lambda>(_, _, c). location_id (cr_prop c)) (local_candidates s))"
    and run: "run_with_buf (ipc_save_and_teardown_local_allocs lib) buf0 s = (buf, s')"
  shows "locals_kept s buf s' \<and> g_ipc_exports s' = g_ipc_exports s \<and> (\<forall>a. a \<notin> local_ranges s \<longrightarrow> gmem s' a = gmem s a)"
proof (cases "ipc_get_local_alloc_data_size s = 0")
  case True
  then have b: "buf = None \<and> s' = s" using run sized by (simp add: sized_buf_def run_with_buf_def)
  have "cr_size c = 0" if "(h, va, c) \<in> set (local_candidates s)" for h va c
    using True that by (force simp: ipc_get_local_alloc_data_size_def)
  then have "local_ranges s = {}" by (auto simp: local_ranges_def)
  then show ?thesis using b by (auto simp: locals_kept_def drop_buf_def run_with_buf_def)
next
  case False
  obtain b0 where b0: "buf0 = Some (b0, ipc_get_local_alloc_data_size s)" using sized False by (auto simp: sized_buf_def)
  let ?n = "ipc_get_local_alloc_data_size s" and ?s = "s\<lparr>hbuf := b0\<rparr>"
  have c: "local_candidates ?s = local_candidates s" by (simp add: local_candidates_def exported_vas_def)
  then have sz: "ipc_get_local_alloc_data_size ?s = ?n" by (simp add: ipc_get_local_alloc_data_size_def)
  obtain r where r: "ipc_save_and_teardown_local_allocs lib ?n ?s = (r, s')" "buf = Some (hbuf s', ?n)"
    using run False by (auto simp: b0 run_with_buf_def split: prod.splits)
  obtain es where es: "map (\<lambda>e. (la_handle e, la_vaddr e, \<lparr>cr_size = la_size e, cr_prop = la_prop e\<rparr>)) es = local_candidates s"
    "laid_out 0 es" "local_saved (gmem s) ?n (hbuf s') es"
    "map loc_geometry (g_local_allocs s') = map loc_geometry (map local_record es)"
    "\<forall>e \<in> set (g_local_allocs s'). loc_torn_down e" "\<forall>a. a \<notin> loc_ranges (map local_record es) \<longrightarrow> gmem s' a = gmem s a"
    using save_local_all_ok [OF lib, of ?s ?n] r(1) srt c sz by auto
  have rng: "local_ranges s = loc_ranges (map local_record es)"
    by (auto simp: local_ranges_def loc_ranges_def local_record_def simp flip: es(1))
  have "gmem (snd (run_with_buf (ipc_rebuild_local_allocs lib') buf t)) a = (if a \<in> local_ranges s then gmem s a else gmem t a)"
    if "lib_ok lib'" "g_local_allocs t = g_local_allocs s'" for lib' t a
  proof -
    have "snd (run_with_buf (ipc_rebuild_local_allocs lib') buf t) = snd (ipc_rebuild_local_allocs lib' ?n (t\<lparr>hbuf := hbuf s'\<rparr>))"
      using False by (simp add: run_with_buf_def r(2) split_beta)
    with rebuild_saved_locals [OF that(1) es(2), of "gmem s" ?n "t\<lparr>hbuf := hbuf s'\<rparr>"] es that rng show ?thesis by simp
  qed
  then have "locals_kept s buf s'" using False by (simp add: locals_kept_def r(2) drop_buf_def)
  moreover have "g_ipc_exports s' = g_ipc_exports s" using save_local_allocs_exports [of lib ?n ?s] r(1) by simp
  ultimately show ?thesis using es(6) rng by simp
qed

lemma run_with_buf_local: "g_local_allocs (snd (run_with_buf (ipc_rebuild_and_restore_all_exports lib) buf s)) = g_local_allocs s"
  by (simp add: run_with_buf_def split_beta split: option.split)

lemma local_access_exports [simp]: "g_ipc_exports (local_access lib rec s) = g_ipc_exports s"
  using local_access_idle [of s lib rec] by (simp add: idle_step_def same_tablesD)

lemma rebuild_local_exports [simp]: "g_ipc_exports (snd (snd (rebuild_local lib is es off s))) = g_ipc_exports s"
  by (induction "is" arbitrary: es off s) (simp_all add: split_beta Let_def)

lemma restore_local_exports [simp]: "g_ipc_exports (restore_local lib async n es s) = g_ipc_exports s"
  by (induction es arbitrary: s) (simp_all add: Let_def)

lemma track_rebuilt_exports [simp]: "g_ipc_exports (fold track_rebuilt es s) = g_ipc_exports s"
  by (induction es arbitrary: s) (simp_all add: track_rebuilt_def Let_def)

lemma restore_local_devices_exports [simp]: "g_ipc_exports (restore_local_devices lib async n gs s) = g_ipc_exports s"
proof (induction gs arbitrary: s)
  case (Cons g gs)
  then show ?case by (cases g) (simp add: split_beta Let_def)
qed simp

lemma run_with_buf_exports: "g_ipc_exports (snd (run_with_buf (ipc_rebuild_local_allocs lib) buf s)) = g_ipc_exports s"
  by (simp add: run_with_buf_def ipc_rebuild_local_allocs_def split_beta Let_def split: option.split)

lemma local_candidates_cong:
  assumes "own s' = own s" "map geometry (g_ipc_exports s') = map geometry (g_ipc_exports s)"
  shows "local_candidates s' = local_candidates s"
  using assms geometry_facts(2) [OF assms(2)] by (simp add: local_candidates_def exported_vas_def own_def)

section \<open>Where the imports are\<close>

lemma upd_imports [simp]: "g_ipc_imports (upd_exp i f s) = g_ipc_imports s" "g_ipc_imports (upd_loc i k s) = g_ipc_imports s"
  by (simp_all add: upd_exp_def upd_loc_def)

lemma context_imports [simp]: "g_ipc_imports (snd (push_context lib want d s)) = g_ipc_imports s"
    "g_ipc_imports (pop_context lib b d s) = g_ipc_imports s" "g_ipc_imports (snd (pin_host lib n s)) = g_ipc_imports s"
  by (simp_all add: push_context_def pop_context_def pin_host_def split_beta)

lemma save_exports_imports [simp]: "g_ipc_imports (snd (snd (save_exports lib async is off s))) = g_ipc_imports s"
  by (induction "is" arbitrary: off s) (simp_all add: split_beta Let_def)

lemma save_devices_imports [simp]: "g_ipc_imports (snd (snd (save_devices lib async gs off s))) = g_ipc_imports s"
  by (induction gs arbitrary: off s) (simp_all add: split_beta Let_def save_device_def)

lemma teardown_exports_imports [simp]: "g_ipc_imports (snd (teardown_exports lib is n s)) = g_ipc_imports s"
    "g_ipc_imports (close_export_fds lib is s) = g_ipc_imports s"
  by (induction "is" arbitrary: n s) (simp_all add: Let_def)

lemma save_local_imports [simp]: "g_ipc_imports (snd (save_local lib async es s)) = g_ipc_imports s"
  by (induction es arbitrary: s) (simp_all add: split_beta)

lemma save_local_devices_imports [simp]: "g_ipc_imports (snd (save_local_devices lib async gs s)) = g_ipc_imports s"
proof (induction gs arbitrary: s)
  case (Cons g gs)
  then show ?case by (cases g) (simp add: split_beta Let_def)
qed simp

lemma teardown_local_imports [simp]: "g_ipc_imports (teardown_local lib is s) = g_ipc_imports s"
  by (induction "is" arbitrary: s) (simp_all add: Let_def)

lemma saves_imports [simp]: "g_ipc_imports (snd (ipc_save_and_teardown_all_exports lib n s)) = g_ipc_imports s"
    "g_ipc_imports (snd (ipc_save_and_teardown_local_allocs lib n s)) = g_ipc_imports s"
  by (simp_all add: ipc_save_and_teardown_all_exports_def ipc_save_and_teardown_local_allocs_def Let_def split_beta split: option.split)

lemma rebuild_allocs_imports [simp]: "g_ipc_imports (snd (snd (rebuild_allocs lib is es off s))) = g_ipc_imports s"
proof (induction "is" arbitrary: es off s)
  case (Cons i "is")
  have "g_ipc_imports (export_access lib rec t) = g_ipc_imports t" for rec t
    using export_access_idle [of t lib rec] by (simp add: idle_step_def same_tablesD)
  with Cons show ?case by (simp add: split_beta Let_def)
qed simp

lemma restore_entries_imports [simp]: "g_ipc_imports (restore_entries lib async n es s) = g_ipc_imports s"
  by (induction es arbitrary: s) (simp_all add: Let_def)

lemma restore_devices_imports [simp]: "g_ipc_imports (restore_devices lib async n gs s) = g_ipc_imports s"
  by (induction gs arbitrary: s) (auto simp: split_beta Let_def)

lemma reexports_imports [simp]: "g_ipc_imports (fold (reexport lib) es s) = g_ipc_imports s"
  by (induction es arbitrary: s) (simp_all add: reexport_def Let_def split_beta)

lemma rebuild_local_imports [simp]: "g_ipc_imports (snd (snd (rebuild_local lib is es off s))) = g_ipc_imports s"
proof (induction "is" arbitrary: es off s)
  case (Cons i "is")
  have "g_ipc_imports (local_access lib rec t) = g_ipc_imports t" for rec t
    using local_access_idle [of t lib rec] by (simp add: idle_step_def same_tablesD)
  with Cons show ?case by (simp add: split_beta Let_def)
qed simp

lemma restore_local_imports [simp]: "g_ipc_imports (restore_local lib async n es s) = g_ipc_imports s"
  by (induction es arbitrary: s) (simp_all add: Let_def)

lemma track_rebuilt_imports [simp]: "g_ipc_imports (fold track_rebuilt es s) = g_ipc_imports s"
  by (induction es arbitrary: s) (simp_all add: track_rebuilt_def Let_def)

lemma restore_local_devices_imports [simp]: "g_ipc_imports (restore_local_devices lib async n gs s) = g_ipc_imports s"
proof (induction gs arbitrary: s)
  case (Cons g gs)
  then show ?case by (cases g) (simp add: split_beta Let_def)
qed simp

lemma rebuilds_imports [simp]: "g_ipc_imports (snd (ipc_rebuild_and_restore_all_exports lib n s)) = g_ipc_imports s"
    "g_ipc_imports (snd (ipc_rebuild_local_allocs lib n s)) = g_ipc_imports s"
  by (simp_all add: ipc_rebuild_and_restore_all_exports_def ipc_rebuild_local_allocs_def Let_def split_beta)

lemma run_with_buf_imports:
  assumes "\<And>n t. g_ipc_imports (snd (f n t)) = g_ipc_imports t"
  shows "g_ipc_imports (snd (run_with_buf f buf s)) = g_ipc_imports s"
  by (simp add: run_with_buf_def assms split_beta split: option.split)

definition imp_places :: "ipc_state \<Rightarrow> (nat \<times> nat) list" where
  "imp_places s = map (\<lambda>e. (imp_vaddr e, imp_size e)) (g_ipc_imports s)"

lemma imp_places_upd:
  "(\<And>e. (imp_vaddr (f e), imp_size (f e)) = (imp_vaddr e, imp_size e)) \<Longrightarrow> imp_places (upd_imp i f s) = imp_places s"
  unfolding imp_places_def upd_imp_def by simp (rule map_list_update_field, simp)

lemma teardown_imports_places: "imp_places (snd (teardown_imports lib is n s)) = imp_places s"
proof (induction "is" arbitrary: n s)
  case (Cons i "is")
  have "imp_places (upd_imp i (\<lambda>e. e\<lparr>imp_torn_down := True, imp_handle := 0\<rparr>) t) = imp_places t" for t
    by (simp add: imp_places_upd)
  moreover have "imp_places (cdo_if b lib c t) = imp_places t" for b c t by (simp add: imp_places_def)
  ultimately show ?case using Cons by (simp add: Let_def)
qed simp

lemma teardown_phase_places: "imp_places (ipc (ipc_teardown_phase env w)) = imp_places (ipc w)"
proof -
  have t: "imp_places (snd (ipc_teardown_all_imports lib s)) = imp_places s" for lib s
    by (simp add: ipc_teardown_all_imports_def split_beta teardown_imports_places)
  have i: "g_ipc_imports s' = g_ipc_imports s \<Longrightarrow> imp_places s' = imp_places s" for s s' by (simp add: imp_places_def)
  show ?thesis
    by (simp add: ipc_teardown_phase_def Let_def split_beta i [OF run_with_buf_imports] t)
qed

lemma export_phase_places: "imp_places (ipc (ipc_export_phase env w)) = imp_places (ipc w)"
proof -
  have i: "g_ipc_imports s' = g_ipc_imports s \<Longrightarrow> imp_places s' = imp_places s" for s s' by (simp add: imp_places_def)
  show ?thesis by (simp add: ipc_export_phase_def Let_def split_beta i [OF run_with_buf_imports])
qed

definition place_ranges :: "(nat \<times> nat) list \<Rightarrow> nat set" where
  "place_ranges ps = (\<Union>(v, n) \<in> set ps. {v..<v + n})"

lemma imp_ranges_places: "imp_ranges s \<subseteq> place_ranges (imp_places s)"
  by (fastforce simp: imp_ranges_def place_ranges_def imp_places_def)

lemma rebuild_imports_mem:
  "set (map fst ms) \<subseteq> {..<length (g_ipc_imports s)} \<Longrightarrow> a \<notin> place_ranges (imp_places s) \<Longrightarrow>
   gmem (snd (rebuild_imports lib ms n s)) a = gmem s a"
proof (induction ms arbitrary: n s)
  case (Cons x ms)
  obtain i fd where x: "x = (i, fd)" by fastforce
  let ?rec = "g_ipc_imports s ! i"
  obtain r h s1 where 1: "ccall lib (CuMemImport fd) s = (r, h, s1)" by (metis prod_cases3)
  define s2 where "s2 = cdo lib (CloseFd fd) s1"
  obtain r' v s3 where 3: "ccall lib (CuMemMap (imp_vaddr ?rec) (imp_size ?rec) h) s2 = (r', v, s3)" by (metis prod_cases3)
  have i: "i < length (g_ipc_imports s)" using Cons.prems x by simp
  have s2: "gmem s2 = gmem s" "g_ipc_imports s2 = g_ipc_imports s"
    using ccall_idle [OF 1] cdo_idle [of "CloseFd fd" s1 lib]
    by (simp_all add: s2_def idle_step_def same_tablesD)
  have "(imp_vaddr ?rec, imp_size ?rec) \<in> set (imp_places s)" using i by (auto simp: imp_places_def)
  then have "a \<notin> {imp_vaddr ?rec..<imp_vaddr ?rec + imp_size ?rec}" using Cons.prems by (fastforce simp: place_ranges_def)
  then have g3: "gmem s3 a = gmem s a" using ccall_gmem [OF 3] s2(1) by (auto simp: blit_def)
  have i3: "g_ipc_imports s3 = g_ipc_imports s" using ccall_tables [OF 3] s2(2) by (simp add: same_tablesD)
  have acc: "idle_step t (import_access lib rec t)" for rec t
    by (simp add: import_access_def replay_access_idle cdo_idle)
  have step: "gmem (snd (rebuild_imports lib ms k t)) a = gmem s a"
    if "gmem t a = gmem s a" "imp_places t = imp_places s" for k t
  proof -
    have "length (g_ipc_imports t) = length (g_ipc_imports s)" using that(2) by (metis imp_places_def length_map)
    with Cons.IH [of t k] Cons.prems that show ?thesis by simp
  qed
  have t2: "gmem s2 a = gmem s a" "imp_places s2 = imp_places s" by (simp_all add: s2 imp_places_def)
  have t3: "gmem (cdo lib (CuMemRelease h) s3) a = gmem s a" "imp_places (cdo lib (CuMemRelease h) s3) = imp_places s"
    using cdo_idle [of "CuMemRelease h" s3 lib] g3 i3 by (simp_all add: idle_step_def same_tablesD imp_places_def)
  let ?t = "upd_imp i (\<lambda>e. e\<lparr>imp_handle := h, imp_torn_down := False\<rparr>) (import_access lib ?rec s3)"
  have "gmem ?t a = gmem s a" using acc [of s3 ?rec] g3 by (simp add: upd_imp_def idle_step_def)
  moreover have "g_ipc_imports (import_access lib ?rec s3) = g_ipc_imports s"
    using acc [of s3 ?rec] same_tablesD(1) [of s3] i3 unfolding idle_step_def by metis
  then have "imp_places ?t = imp_places s"
    by (subst imp_places_upd) (simp_all add: imp_places_def)
  ultimately show ?case using step [OF t2] step [OF t3] step [of ?t]
    by (simp add: x Let_def 1 3 flip: s2_def)
qed simp

lemma import_phase_mem:
  assumes "a \<notin> place_ranges (imp_places (ipc w))"
  shows "gmem (ipc (ipc_import_phase env w)) a = gmem (ipc w) a"
proof -
  let ?lib = "e_lib env" and ?s = "ipc w"
  have c: "gmem (fold (\<lambda>fd. cdo lib (CloseFd fd)) fds s) = gmem s" for lib fds s
  proof (induction fds arbitrary: s)
    case (Cons fd fds)
    then show ?case using cdo_idle [of "CloseFd fd" s lib] by (simp add: idle_step_def)
  qed simp
  have v: "gmem (snd (ipc_validate_all_mappings ?lib s)) = gmem s" for s
    using probes_idle [of ?lib "live_mappings s" 0 s] by (auto simp: ipc_validate_all_mappings_def idle_step_def split: prod.split)
  have "set (map fst (zip (torn_imports ?s) fds)) \<subseteq> {..<length (g_ipc_imports ?s)}" for fds :: "int list"
    by (auto simp: torn_imports_def dest!: set_zip_leftD)
  then have "gmem (fst (snd (ipc_import_from_shm_block ?lib rcv b ?s k))) a = gmem ?s a" for rcv b and k :: fd_table
    by (simp add: ipc_import_from_shm_block_def Let_def split_beta c rebuild_imports_mem assms)
  then show ?thesis by (simp add: ipc_import_phase_def Let_def split_beta v)
qed

section \<open>Theorems\<close>

definition ipc_ready :: "ipc_worker \<Rightarrow> bool" where
  \<comment> \<open>a worker between two checkpoints: no buffer is left, no export is torn down, the devices of the local
      allocations ascend, and exports, local allocations and imports do not overlap\<close>
  "ipc_ready w \<longleftrightarrow> export_buf w = None \<and> local_buf w = None \<and>
     (\<forall>e \<in> set (g_ipc_exports (ipc w)). \<not> exp_torn_down e) \<and>
     (\<forall>e \<in> set (g_ipc_exports (ipc w)). exp_active e \<longrightarrow> has_saved_prop e) \<and>
     sorted (map (\<lambda>(_, _, c). location_id (cr_prop c)) (local_candidates (ipc w))) \<and>
     exp_ranges (g_ipc_exports (ipc w)) \<inter> local_ranges (ipc w) = {} \<and>
     imp_ranges (ipc w) \<inter> (exp_ranges (g_ipc_exports (ipc w)) \<union> local_ranges (ipc w)) = {}"

definition data_ranges :: "ipc_worker \<Rightarrow> nat set" where
  "data_ranges w = exp_ranges (g_ipc_exports (ipc w)) \<union> local_ranges (ipc w)"

definition same_checkpoint :: "ipc_worker \<Rightarrow> ipc_worker \<Rightarrow> bool" where
  "same_checkpoint w1 w2 \<longleftrightarrow> g_ipc_exports (ipc w2) = g_ipc_exports (ipc w1) \<and>
     g_local_allocs (ipc w2) = g_local_allocs (ipc w1) \<and> export_buf w2 = export_buf w1 \<and> local_buf w2 = local_buf w1"

definition image_kept :: "ipc_state \<Rightarrow> (mem \<times> nat) option \<Rightarrow> (mem \<times> nat) option \<Rightarrow> ipc_state \<Rightarrow> bool" where
  \<comment> \<open>buffers and records after a teardown of \<open>s\<close> that left \<open>s3\<close>: in any state with the records of \<open>s3\<close>
      the rebuild of exports and local allocations gives back the bytes of \<open>s\<close>\<close>
  "image_kept s eb lb s3 \<longleftrightarrow> drop_buf eb = None \<and> drop_buf lb = None \<and>
     (\<forall>lib t. lib_ok lib \<longrightarrow> g_ipc_exports t = g_ipc_exports s3 \<longrightarrow> g_local_allocs t = g_local_allocs s3 \<longrightarrow>
        (let t1 = snd (run_with_buf (ipc_rebuild_and_restore_all_exports lib) eb t);
             t2 = snd (run_with_buf (ipc_rebuild_local_allocs lib) lb t1)
         in (\<forall>a. gmem t2 a = (if a \<in> exp_ranges (g_ipc_exports s) \<union> local_ranges s then gmem s a else gmem t a)) \<and>
            (\<forall>i < length (g_ipc_exports s). exp_active (g_ipc_exports s ! i) \<longrightarrow> back_in_use t2 i)))"

lemma kept_image:
  assumes k: "exports_kept s1 eb s2" "locals_kept s2 lb s3" "g_ipc_exports s3 = g_ipc_exports s2"
    and s1: "g_ipc_exports s1 = g_ipc_exports s" "\<forall>a. a \<notin> imp_ranges s \<longrightarrow> gmem s1 a = gmem s a"
    and s2: "local_ranges s2 = local_ranges s" "\<forall>a. a \<notin> exp_ranges (g_ipc_exports s) \<longrightarrow> gmem s2 a = gmem s1 a"
    and dis: "exp_ranges (g_ipc_exports s) \<inter> local_ranges s = {}"
      "imp_ranges s \<inter> (exp_ranges (g_ipc_exports s) \<union> local_ranges s) = {}"
  shows "image_kept s eb lb s3"
proof -
  let ?E = "exp_ranges (g_ipc_exports s)" and ?L = "local_ranges s"
  have "(\<forall>a. gmem t2 a = (if a \<in> ?E \<union> ?L then gmem s a else gmem t a)) \<and>
      (\<forall>i < length (g_ipc_exports s). exp_active (g_ipc_exports s ! i) \<longrightarrow> back_in_use t2 i)"
    if lib: "lib_ok lib" and t: "g_ipc_exports t = g_ipc_exports s3" "g_local_allocs t = g_local_allocs s3"
      and t1: "t1 = snd (run_with_buf (ipc_rebuild_and_restore_all_exports lib) eb t)"
      and t2: "t2 = snd (run_with_buf (ipc_rebuild_local_allocs lib) lb t1)" for lib t t1 t2
  proof -
    have g1: "gmem t1 a = (if a \<in> ?E then gmem s1 a else gmem t a)" for a
      using k(1,3) t(1) lib s1(1) by (simp add: exports_kept_def t1)
    have "g_local_allocs t1 = g_local_allocs s3" using t(2) by (simp add: t1 run_with_buf_local)
    then have g2: "gmem t2 a = (if a \<in> ?L then gmem s2 a else gmem t1 a)" for a
      using k(2) s2(1) lib by (simp add: locals_kept_def t2)
    have "gmem t2 a = (if a \<in> ?E \<union> ?L then gmem s a else gmem t a)" for a
    proof -
      have "a \<in> ?L \<Longrightarrow> a \<notin> ?E" "a \<in> ?E \<union> ?L \<Longrightarrow> a \<notin> imp_ranges s" using dis by blast+
      then show ?thesis using g1 [of a] g2 [of a] s2(2) s1(2) by auto
    qed
    moreover have "back_in_use t2 i" if "i < length (g_ipc_exports s)" "exp_active (g_ipc_exports s ! i)" for i
      using k(1,3) t(1) lib that s1(1) run_with_buf_exports [of lib lb t1]
      by (simp add: exports_kept_def t1 t2 back_in_use_def)
    ultimately show ?thesis by blast
  qed
  then show ?thesis using k(1,2) by (simp add: image_kept_def exports_kept_def locals_kept_def Let_def)
qed

lemma teardown_kept:
  assumes lib: "lib_ok lib" and ready: "ipc_ready w" and s1: "s1 = snd (ipc_teardown_all_imports lib (ipc w))"
    and b: "sized_buf (ipc_get_export_data_size s1) b" "run_with_buf (ipc_save_and_teardown_all_exports lib) b s1 = (b2, s2)"
    and c: "sized_buf (ipc_get_local_alloc_data_size s2) c" "run_with_buf (ipc_save_and_teardown_local_allocs lib) c s2 = (b3, s3)"
  shows "image_kept (ipc w) b2 b3 s3 \<and>
    (\<forall>a. a \<notin> data_ranges w \<union> imp_ranges (ipc w) \<longrightarrow> gmem s3 a = gmem (ipc w) a)"
proof -
  have E: "g_ipc_exports s1 = g_ipc_exports (ipc w)" and O: "own s1 = own (ipc w)" by (simp_all add: s1)
  have m1: "\<forall>a. a \<notin> imp_ranges (ipc w) \<longrightarrow> gmem s1 a = gmem (ipc w) a" by (simp add: s1 teardown_imports_mem)
  have k2: "exports_kept s1 b2 s2" "map geometry (g_ipc_exports s2) = map geometry (g_ipc_exports s1)" "own s2 = own s1"
    "\<forall>a. a \<notin> exp_ranges (g_ipc_exports s1) \<longrightarrow> gmem s2 a = gmem s1 a"
    using exports_saved [OF lib b(1) _ _ b(2)] ready by (simp_all add: E ipc_ready_def)
  have cand: "local_candidates s2 = local_candidates (ipc w)"
    using local_candidates_cong [of s2 "ipc w"] k2(2,3) E O by simp
  then have rng: "local_ranges s2 = local_ranges (ipc w)" by (simp add: local_ranges_def)
  have k3: "locals_kept s2 b3 s3" "g_ipc_exports s3 = g_ipc_exports s2" "\<forall>a. a \<notin> local_ranges s2 \<longrightarrow> gmem s3 a = gmem s2 a"
    using locals_saved [OF lib c(1) _ c(2)] ready by (simp_all add: cand ipc_ready_def)
  have "image_kept (ipc w) b2 b3 s3"
    using kept_image [OF k2(1) k3(1,2) E m1 rng] k2(4) ready by (simp add: E ipc_ready_def)
  then show ?thesis using k2(4) k3(3) m1 rng E by (simp add: data_ranges_def)
qed

lemma teardown_phase_kept:
  assumes lib: "lib_ok (e_lib env)" and mmap: "\<forall>n. e_mmap env n" and ready: "ipc_ready w" and w1: "w1 = ipc_teardown_phase env w"
  shows "image_kept (ipc w) (export_buf w1) (local_buf w1) (ipc w1) \<and>
    (\<forall>a. a \<notin> data_ranges w \<union> imp_ranges (ipc w) \<longrightarrow> gmem (ipc w1) a = gmem (ipc w) a)"
proof -
  let ?lib = "e_lib env"
  define s1 where "s1 = snd (ipc_teardown_all_imports ?lib (ipc w))"
  have eb: "sized_buf n (fresh_buf env n (export_buf w))" and lb: "sized_buf n (fresh_buf env n (local_buf w))" for n
    using ready mmap by (simp_all add: ipc_ready_def fresh_buf_sized)
  obtain b2 s2 where r2: "run_with_buf (ipc_save_and_teardown_all_exports ?lib)
      (fresh_buf env (ipc_get_export_data_size s1) (export_buf w)) s1 = (b2, s2)" by fastforce
  obtain b3 s3 where r3: "run_with_buf (ipc_save_and_teardown_local_allocs ?lib)
      (fresh_buf env (ipc_get_local_alloc_data_size s2) (local_buf w)) s2 = (b3, s3)" by fastforce
  have "export_buf w1 = b2 \<and> local_buf w1 = b3 \<and> ipc w1 = s3"
    by (simp add: w1 ipc_teardown_phase_def Let_def r2 r3 split_beta flip: s1_def)
  then show ?thesis using teardown_kept [OF lib ready s1_def eb r2 lb r3] by simp
qed

lemma ipc_data_survives:
  assumes "lib_ok (e_lib env)" "lib_ok (e_lib env')" "\<forall>n. e_mmap env n" "ipc_ready w"
  shows "let w1 = ipc_dispatch env IPC_TEARDOWN_MSG w in
    (\<forall>a. a \<notin> data_ranges w \<union> imp_ranges (ipc w) \<longrightarrow> gmem (ipc w1) a = gmem (ipc w) a) \<and>
    (\<forall>w2. same_checkpoint w1 w2 \<longrightarrow>
       (let w3 = ipc_dispatch env' IPC_EXPORT_MSG w2 in
        (\<forall>a. gmem (ipc w3) a = (if a \<in> data_ranges w then gmem (ipc w) a else gmem (ipc w2) a)) \<and>
        (\<forall>i < length (g_ipc_exports (ipc w)). exp_active (g_ipc_exports (ipc w) ! i) \<longrightarrow> back_in_use (ipc w3) i) \<and>
        export_buf w3 = None \<and> local_buf w3 = None))"
proof -
  define w1 where "w1 = ipc_teardown_phase env w"
  have k: "image_kept (ipc w) (export_buf w1) (local_buf w1) (ipc w1)"
    "\<forall>a. a \<notin> data_ranges w \<union> imp_ranges (ipc w) \<longrightarrow> gmem (ipc w1) a = gmem (ipc w) a"
    using teardown_phase_kept [OF assms(1,3,4) w1_def] by blast+
  have restored: "(\<forall>a. gmem (ipc w3) a = (if a \<in> data_ranges w then gmem (ipc w) a else gmem (ipc w2) a)) \<and>
        (\<forall>i < length (g_ipc_exports (ipc w)). exp_active (g_ipc_exports (ipc w) ! i) \<longrightarrow> back_in_use (ipc w3) i) \<and>
        export_buf w3 = None \<and> local_buf w3 = None"
    if same: "same_checkpoint w1 w2" and w3: "w3 = ipc_export_phase env' w2" for w2 w3
  proof -
    have "ipc w3 = snd (run_with_buf (ipc_rebuild_local_allocs (e_lib env')) (local_buf w1)
        (snd (run_with_buf (ipc_rebuild_and_restore_all_exports (e_lib env')) (export_buf w1) (ipc w2))))"
      "export_buf w3 = drop_buf (export_buf w1)" "local_buf w3 = drop_buf (local_buf w1)"
      using same by (simp_all add: w3 ipc_export_phase_def Let_def split_beta same_checkpoint_def)
    then show ?thesis using k(1) same assms(2) by (simp add: image_kept_def same_checkpoint_def data_ranges_def Let_def)
  qed
  have "ipc_dispatch env IPC_TEARDOWN_MSG w = w1" "ipc_dispatch env' IPC_EXPORT_MSG v = ipc_export_phase env' v" for v
    by (simp_all add: ipc_dispatch_def msg_defs w1_def)
  then show ?thesis unfolding Let_def using restored [OF _ refl] k(2) by presburger
qed

text \<open>C4: over the teardown and the re-export of a worker the data of its shared allocations survives.  The
  teardown changes device memory only inside exports, local allocations and live imports.  From any
  later state with the records and buffers the teardown left, whatever device memory holds by then
  (another driver, fresh pages), the re-export gives every byte of the exports and of the local
  allocations the value it had before the teardown, changes no other byte, makes every export live
  again with a descriptor, and gives both host buffers back.\<close>

theorem ipc_worker_round_trip:
  assumes "lib_ok (e_lib env)" "lib_ok (e_lib env')" "\<forall>n. e_mmap env n" "ipc_ready w"
  shows "let w1 = ipc_dispatch env IPC_TEARDOWN_MSG w in
    (\<forall>a. a \<notin> data_ranges w \<union> imp_ranges (ipc w) \<longrightarrow> gmem (ipc w1) a = gmem (ipc w) a) \<and>
    (\<forall>w2. same_checkpoint w1 w2 \<longrightarrow>
       (let w3 = ipc_dispatch env' IPC_EXPORT_MSG w2 in
        (\<forall>a. gmem (ipc w3) a = (if a \<in> data_ranges w then gmem (ipc w) a else gmem (ipc w2) a)) \<and>
        (\<forall>i < length (g_ipc_exports (ipc w)). exp_active (g_ipc_exports (ipc w) ! i) \<longrightarrow> back_in_use (ipc w3) i) \<and>
        export_buf w3 = None \<and> local_buf w3 = None))"
  by (rule ipc_data_survives [OF assms])

definition sample_env :: ipc_env where
  "sample_env = \<lparr>e_lib = obliging_lib, e_rt = obliging_rt, e_mmap = \<lambda>_. True, e_pid = 7, e_start = Started 4,
     e_rcv = \<lambda>t _ _. (-1, [], t)\<rparr>"

definition sample_worker :: ipc_worker where
  \<comment> \<open>two exports on two devices, one local allocation, one import\<close>
  "sample_worker = \<lparr>ipc = two_exports\<lparr>g_ipc_imports := [\<lparr>imp_vaddr = 400, imp_size = 2, imp_handle = 3, imp_access_dev = 0,
          imp_access_desc = no_desc, all_access = [], imp_torn_down = False\<rparr>],
        g_created_allocs := [(9, \<lparr>cr_size = 2, cr_prop = no_prop\<rparr>)], g_handle_to_va := [(9, 300)]\<rparr>,
     peers = two_peers, events = [], export_buf = None, local_buf = None, server = server_initial,
     my_block = \<lparr>num_exports = 0, entries = undefined\<rparr>, peer_block = \<lparr>num_exports = 0, entries = undefined\<rparr>, fd_tab = []\<rparr>"

lemma sample_worker_facts:
  "gmem (ipc sample_worker) = of_nat" "local_ranges (ipc sample_worker) = {300..<302}"
  "exp_ranges (g_ipc_exports (ipc sample_worker)) = {100..<102} \<union> {200..<203}" "imp_ranges (ipc sample_worker) = {400..<402}"
  "local_candidates (ipc sample_worker) = [(9, 300, \<lparr>cr_size = 2, cr_prop = no_prop\<rparr>)]"
proof -
  show c: "local_candidates (ipc sample_worker) = [(9, 300, \<lparr>cr_size = 2, cr_prop = no_prop\<rparr>)]"
    by (auto simp: sample_worker_def two_exports_def local_candidates_def exported_vas_def Let_def)
  show "gmem (ipc sample_worker) = of_nat" by (simp add: sample_worker_def two_exports_def Let_def)
  show "local_ranges (ipc sample_worker) = {300..<302}" by (simp add: local_ranges_def c)
  show "exp_ranges (g_ipc_exports (ipc sample_worker)) = {100..<102} \<union> {200..<203}"
    by (simp add: sample_worker_def two_exports_def Let_def exp_ranges_def exp_range_def)
  show "imp_ranges (ipc sample_worker) = {400..<402}" by (simp add: sample_worker_def imp_ranges_def)
qed

lemma ipc_ready_sample: "ipc_ready sample_worker"
  unfolding ipc_ready_def sample_worker_facts by (auto simp: sample_worker_def two_exports_def Let_def)

theorem ipc_worker_round_trip_witness:
  "let w3 = ipc_dispatch sample_env IPC_EXPORT_MSG (ipc_dispatch sample_env IPC_TEARDOWN_MSG sample_worker)
   in gmem (ipc w3) 201 = 201 \<and> gmem (ipc w3) 301 = 301 \<and> back_in_use (ipc w3) 1 \<and> export_buf w3 = None"
proof -
  have "ipc_ready sample_worker" by (rule ipc_ready_sample)
  moreover have "lib_ok (e_lib sample_env)" "\<forall>n. e_mmap sample_env n" by (simp_all add: sample_env_def)
  moreover have "length (g_ipc_exports (ipc sample_worker)) = 2" "exp_active (g_ipc_exports (ipc sample_worker) ! 1)"
    by (simp_all add: sample_worker_def two_exports_def Let_def exp_active_def)
  moreover have "same_checkpoint w w" for w by (simp add: same_checkpoint_def)
  ultimately show ?thesis
    using ipc_worker_round_trip [of sample_env sample_env sample_worker] sample_worker_facts(1-3) by (auto simp: Let_def data_ranges_def)
qed

end
