(* ===== verification/Worker.thy ===== *)
theory Worker
  imports Ipc_Worker Signal_Handler
begin

text \<open>
  A worker process as a whole: the state of the checkpoint library and the state of the IPC hooks with
  the one device memory and the one set of peers they share, the two signal handlers of
  \<open>src/vGPU.cpp\<close> and the table of signals its constructor installs.  The theorem follows one worker
  through a multi-GPU checkpoint and restore.
\<close>

section \<open>Both halves of a worker\<close>

record cworker =
  wp :: process
  wi :: ipc_worker

record worker_env =
  we_cr :: cr_env
  we_ipc :: ipc_env

definition enter_ipc :: "cworker \<Rightarrow> ipc_worker" where
  \<comment> \<open>the IPC half sees the device memory and the peers of the process\<close>
  "enter_ipc w = (wi w)\<lparr>ipc := (ipc (wi w))\<lparr>gmem := dev (mch (wp w))\<rparr>, peers := peer (wp w)\<rparr>"

definition leave_ipc :: "ipc_worker \<Rightarrow> cworker \<Rightarrow> cworker" where
  "leave_ipc i w = w\<lparr>wi := i, wp := (wp w)\<lparr>mch := (mch (wp w))\<lparr>dev := gmem (ipc i)\<rparr>, peer := peers i\<rparr>\<rparr>"

definition CR_IPC_TEARDOWN_SIGNAL :: nat where "CR_IPC_TEARDOWN_SIGNAL = SIGRTMAX - 1"
definition CR_IPC_REBUILD_SIGNAL :: nat where "CR_IPC_REBUILD_SIGNAL = SIGRTMAX - 2"
definition CR_IPC_VALIDATE_SIGNAL :: nat where "CR_IPC_VALIDATE_SIGNAL = SIGRTMAX - 3"

lemmas all_signal_defs = signal_defs CR_IPC_TEARDOWN_SIGNAL_def CR_IPC_REBUILD_SIGNAL_def CR_IPC_VALIDATE_SIGNAL_def

definition cr_ipc_signal_handler :: "worker_env \<Rightarrow> nat \<Rightarrow> cworker \<Rightarrow> exit_reason + nat \<times> cworker" where
  "cr_ipc_signal_handler env counter w =
     rbind (init_CR (we_cr env) counter (wp w)) (\<lambda>(counter', p1).
     let msg = control_word p1 in
     rbind (if msg = IPC_TEARDOWN_MSG then syncAllKernels (ce_sync (we_cr env)) (mch p1) else Inr (0, mch p1)) (\<lambda>(_, m).
     let w1 = w\<lparr>wp := p1\<lparr>mch := m\<rparr>\<rparr>;
         w2 = leave_ipc (ipc_dispatch (we_ipc env) msg (enter_ipc w1)) w1
     in Inr (counter', w2\<lparr>wp := (wp w2)\<lparr>control_word := FINISH_MSG\<rparr>\<rparr>)))"

definition on_signal :: "worker_env \<Rightarrow> nat \<Rightarrow> nat \<Rightarrow> cworker \<Rightarrow> exit_reason + nat \<times> cworker" where
  \<comment> \<open>the handlers the constructor registers\<close>
  "on_signal env signum counter w =
     (if signum = CR_IPC_TEARDOWN_SIGNAL \<or> signum = CR_IPC_REBUILD_SIGNAL then cr_ipc_signal_handler env counter w
      else if signum = CR_IPC_VALIDATE_SIGNAL then
        Inr (counter, w\<lparr>wi := (wi w)\<lparr>ipc := snd (ipc_validate_all_mappings (e_lib (we_ipc env)) (ipc (wi w)))\<rparr>\<rparr>)
      else if signum = CR_INIT_SIGNAL \<or> signum = CR_CKPT_SIGNAL \<or> signum = CR_RESTORE_SIGNAL then
        rbind (cr_signal_handler (we_cr env) signum counter (wp w)) (\<lambda>(counter', p'). Inr (counter', w\<lparr>wp := p'\<rparr>))
      else Inr (counter, w))"

definition deliver :: "worker_env \<Rightarrow> nat \<Rightarrow> nat \<Rightarrow> nat \<times> cworker \<Rightarrow> exit_reason + nat \<times> cworker" where
  \<comment> \<open>\<open>send_msg(msg); kill(pid, sig)\<close> and the handler\<close>
  "deliver env msg signum cw = (case cw of (counter, w) \<Rightarrow>
     on_signal env signum counter (w\<lparr>wp := (wp w)\<lparr>control_word := msg\<rparr>\<rparr>))"

section \<open>One worker through a checkpoint and a restore\<close>

definition worker_ready :: "worker_env \<Rightarrow> cworker \<Rightarrow> bool" where
  "worker_ready env w \<longleftrightarrow> gpu_ready (we_cr env) (wp w) \<and> ipc_ready (wi w) \<and> lib_ok (e_lib (we_ipc env)) \<and>
     (\<forall>n. e_mmap (we_ipc env) n) \<and> e_rt (we_ipc env) = ce_rt (we_cr env)"

definition thawed :: "cworker \<Rightarrow> cworker \<Rightarrow> cworker \<Rightarrow> bool" where
  \<comment> \<open>\<open>w2\<close> is the worker \<open>w1\<close> after it was frozen and thawed: host memory and driver tables are as before,
      device memory too except in the allocations of \<open>w\<close>, which were released\<close>
  "thawed w w1 w2 \<longleftrightarrow> CR_initialized (wp w2) \<and> fsys (wp w2) = fsys (wp w1) \<and> peer (wp w2) = peer (wp w1) \<and>
     shm (mch (wp w2)) = shm (mch (wp w1)) \<and> allocated (gst (mch (wp w2))) = allocated (gst (mch (wp w1))) \<and>
     (\<forall>a. a \<notin> covered (rounded (allocated (gst (mch (wp w))))) \<longrightarrow> dev (mch (wp w2)) a = dev (mch (wp w1)) a) \<and>
     wi w2 = wi w1"

lemma ipc_handler_ok:
  assumes "CR_initialized (wp w)" "ce_sync (we_cr env) = 0" "signum = CR_IPC_TEARDOWN_SIGNAL \<or> signum = CR_IPC_REBUILD_SIGNAL"
  shows "deliver env msg signum (counter, w) = Inr (counter,
    (leave_ipc (ipc_dispatch (we_ipc env) msg (enter_ipc w)) w)
      \<lparr>wp := (wp (leave_ipc (ipc_dispatch (we_ipc env) msg (enter_ipc w)) w))\<lparr>control_word := FINISH_MSG\<rparr>\<rparr>)"
  using assms
  by (simp add: deliver_def on_signal_def cr_ipc_signal_handler_def init_CR_def Let_def syncAllKernels_def nv_check_ret_def
      enter_ipc_def leave_ipc_def)

lemma ipc_ready_enter: "ipc_ready (enter_ipc w) = ipc_ready (wi w)" "data_ranges (enter_ipc w) = data_ranges (wi w)"
    "imp_places (ipc (enter_ipc w)) = imp_places (ipc (wi w))"
  by (simp_all add: ipc_ready_def data_ranges_def enter_ipc_def local_candidates_def exported_vas_def local_ranges_def
      imp_ranges_def imp_places_def)

lemma disabled_peers: "has_disable r \<Longrightarrow> g_peer_access_devices (snd (ipc_disable_all_peer_access r s)) = []"
  by (simp add: ipc_disable_all_peer_access_def Let_def split_beta)

definition torn_down :: "worker_env \<Rightarrow> cworker \<Rightarrow> cworker \<Rightarrow> bool" where
  "torn_down env w w1 \<longleftrightarrow> wi w1 = ipc_teardown_phase (we_ipc env) (enter_ipc w) \<and> gpu_ready (we_cr env) (wp w1) \<and>
     g_peer_access_devices (peer (wp w1)) = [] \<and> dev (mch (wp w1)) = gmem (ipc (wi w1)) \<and>
     allocated (gst (mch (wp w1))) = allocated (gst (mch (wp w)))"

lemma deliver_teardown:
  assumes "worker_ready env w"
  shows "\<exists>w1. deliver env IPC_TEARDOWN_MSG CR_IPC_TEARDOWN_SIGNAL (counter, w) = Inr (counter, w1) \<and> torn_down env w w1"
proof -
  have r: "gpu_ready (we_cr env) (wp w)" "e_rt (we_ipc env) = ce_rt (we_cr env)" using assms by (simp_all add: worker_ready_def)
  have d: "ipc_dispatch (we_ipc env) IPC_TEARDOWN_MSG (enter_ipc w) = ipc_teardown_phase (we_ipc env) (enter_ipc w)"
    by (simp add: ipc_dispatch_def)
  have "g_peer_access_devices (peers (ipc_teardown_phase (we_ipc env) (enter_ipc w))) = []"
    using r by (simp add: ipc_teardown_phase_def Let_def split_beta disabled_peers gpu_ready_def enables_def)
  then show ?thesis
    using ipc_handler_ok [of w env CR_IPC_TEARDOWN_SIGNAL IPC_TEARDOWN_MSG counter] r
    by (simp add: d torn_down_def leave_ipc_def gpu_ready_def)
qed

lemma deliver_ckpt:
  assumes "gpu_ready (we_cr env) (wp w1)"
  shows "\<exists>w2. deliver env CKPT_MSG CR_CKPT_SIGNAL (counter, w1) = Inr (counter, w2) \<and> wi w2 = wi w1 \<and>
    CR_initialized (wp w2) \<and> allocated (gst (mch (wp w2))) = allocated (gst (mch (wp w1))) \<and>
    (\<forall>w2'. thawed w1 w2 w2' \<longrightarrow> (\<exists>w3. deliver env RESTORE_MSG CR_RESTORE_SIGNAL (counter, w2') = Inr (counter, w3) \<and>
       wi w3 = wi w1 \<and> CR_initialized (wp w3) \<and> dev (mch (wp w3)) = dev (mch (wp w1)) \<and>
       g_peer_access_devices (peer (wp w3)) = g_peer_access_devices (peer (wp w1)) \<and>
       g_saved_peer_access_devices (peer (wp w3)) = []))"
proof -
  let ?e = "we_cr env" and ?p = "(wp w1)\<lparr>control_word := CKPT_MSG\<rparr>"
  have sig: "CR_CKPT_SIGNAL \<noteq> CR_IPC_TEARDOWN_SIGNAL" "CR_CKPT_SIGNAL \<noteq> CR_IPC_REBUILD_SIGNAL" "CR_CKPT_SIGNAL \<noteq> CR_IPC_VALIDATE_SIGNAL"
    "CR_RESTORE_SIGNAL \<noteq> CR_IPC_TEARDOWN_SIGNAL" "CR_RESTORE_SIGNAL \<noteq> CR_IPC_REBUILD_SIGNAL" "CR_RESTORE_SIGNAL \<noteq> CR_IPC_VALIDATE_SIGNAL"
    by (simp_all add: all_signal_defs)
  have "gpu_ready ?e ?p" using assms by (simp add: gpu_ready_def)
  then obtain p1 where p1: "cr_signal_handler ?e CR_CKPT_SIGNAL counter ?p = Inr (counter, p1)"
    "CR_initialized p1" "allocated (gst (mch p1)) = allocated (gst (mch (wp w1)))"
    "\<And>q. frozen_copy ?p p1 q \<Longrightarrow> control_word q = RESTORE_MSG \<Longrightarrow>
       \<exists>p3. cr_signal_handler ?e CR_RESTORE_SIGNAL counter q = Inr (counter, p3) \<and> control_word p3 = FINISH_MSG \<and>
          dev (mch p3) = dev (mch ?p) \<and> g_peer_access_devices (peer p3) = g_peer_access_devices (peer ?p) \<and>
          g_saved_peer_access_devices (peer p3) = []"
    using handler_restores [of ?e ?p counter] by auto
  have "\<exists>w3. deliver env RESTORE_MSG CR_RESTORE_SIGNAL (counter, w2') = Inr (counter, w3) \<and>
       wi w3 = wi w1 \<and> CR_initialized (wp w3) \<and> dev (mch (wp w3)) = dev (mch (wp w1)) \<and>
       g_peer_access_devices (peer (wp w3)) = g_peer_access_devices (peer (wp w1)) \<and>
       g_saved_peer_access_devices (peer (wp w3)) = []"
    if t: "thawed w1 (w1\<lparr>wp := p1\<rparr>) w2'" for w2'
  proof -
    let ?q = "(wp w2')\<lparr>control_word := RESTORE_MSG\<rparr>"
    have "frozen_copy ?p p1 ?q" using t by (simp add: frozen_copy_def thawed_def)
    then obtain p3 where p3: "cr_signal_handler ?e CR_RESTORE_SIGNAL counter ?q = Inr (counter, p3)"
      "dev (mch p3) = dev (mch ?p)" "g_peer_access_devices (peer p3) = g_peer_access_devices (peer ?p)"
      "g_saved_peer_access_devices (peer p3) = []"
      using p1(4) by fastforce
    have "CR_initialized p3" by (rule handler_initialises [OF p3(1)]) simp
    with p3 sig t show ?thesis by (simp add: deliver_def on_signal_def thawed_def)
  qed
  moreover have "deliver env CKPT_MSG CR_CKPT_SIGNAL (counter, w1) = Inr (counter, w1\<lparr>wp := p1\<rparr>)"
    using p1(1) sig by (simp add: deliver_def on_signal_def)
  ultimately show ?thesis using p1(2,3) by force
qed

lemma deliver_export:
  assumes w: "worker_ready env w" "torn_down env w w1" and w3: "wi w3 = wi w1" "CR_initialized (wp w3)"
    and mem: "dev (mch (wp w3)) = dev (mch (wp w1))"
  shows "\<exists>w4. deliver env IPC_EXPORT_MSG CR_IPC_REBUILD_SIGNAL (counter, w3) = Inr (counter, w4) \<and> CR_initialized (wp w4) \<and>
    (\<forall>a. a \<notin> imp_ranges (ipc (wi w)) \<longrightarrow> dev (mch (wp w4)) a = dev (mch (wp w)) a) \<and>
    imp_places (ipc (wi w4)) = imp_places (ipc (wi w)) \<and> peer (wp w4) = peer (wp w3) \<and>
    dev (mch (wp w4)) = gmem (ipc (wi w4)) \<and> peers (wi w4) = peer (wp w4)"
proof -
  let ?e = "we_ipc env"
  have r: "lib_ok (e_lib ?e)" "\<forall>n. e_mmap ?e n" "ipc_ready (enter_ipc w)" "ce_sync (we_cr env) = 0"
    using w(1) by (simp_all add: worker_ready_def ipc_ready_enter gpu_ready_def)
  have t: "wi w1 = ipc_dispatch ?e IPC_TEARDOWN_MSG (enter_ipc w)" using w(2) by (simp add: torn_down_def ipc_dispatch_def)
  have d: "ipc_dispatch ?e IPC_EXPORT_MSG i = ipc_export_phase ?e i" for i by (simp add: ipc_dispatch_def msg_defs)
  have same: "same_checkpoint (wi w1) (enter_ipc w3)"
    using w3(1) by (simp add: same_checkpoint_def enter_ipc_def)
  define i4 where "i4 = ipc_export_phase ?e (enter_ipc w3)"
  have g0: "gmem (ipc (enter_ipc v)) = dev (mch (wp v))" "imp_ranges (ipc (enter_ipc v)) = imp_ranges (ipc (wi v))" for v
    by (simp_all add: enter_ipc_def imp_ranges_def)
  note sv = ipc_data_survives [OF r(1,1,2,3), unfolded Let_def, folded t, unfolded d g0 ipc_ready_enter(2)]
  have g4: "gmem (ipc i4) a = (if a \<in> data_ranges (wi w) then dev (mch (wp w)) a else dev (mch (wp w1)) a)" for a
    using sv same mem unfolding i4_def g0 by (metis g0(1))
  have "gmem (ipc i4) a = dev (mch (wp w)) a" if "a \<notin> imp_ranges (ipc (wi w))" for a
    using g4 [of a] sv that w(2) by (simp add: torn_down_def)
  moreover have "imp_places (ipc i4) = imp_places (ipc (wi w))"
    using teardown_phase_places [of ?e "enter_ipc w"] w(2) w3(1)
    by (simp add: i4_def export_phase_places ipc_ready_enter torn_down_def)
  moreover have "peers i4 = peer (wp w3)"
    by (simp add: i4_def ipc_export_phase_def Let_def split_beta enter_ipc_def)
  ultimately show ?thesis
    using ipc_handler_ok [of w3 env CR_IPC_REBUILD_SIGNAL IPC_EXPORT_MSG counter] w3(2) r(4)
    by (simp add: d leave_ipc_def flip: i4_def)
qed

lemma deliver_import:
  assumes "CR_initialized (wp w4)" "ce_sync (we_cr env) = 0"
  shows "\<exists>w5. deliver env IPC_IMPORT_MSG CR_IPC_REBUILD_SIGNAL (counter, w4) = Inr (counter, w5) \<and>
    (\<forall>a. a \<notin> place_ranges (imp_places (ipc (wi w4))) \<longrightarrow> dev (mch (wp w5)) a = dev (mch (wp w4)) a) \<and>
    peer (wp w5) = snd (ipc_reenable_all_peer_access (e_rt (we_ipc env)) (peer (wp w4))) \<and>
    control_word (wp w5) = FINISH_MSG"
proof -
  have d: "ipc_dispatch (we_ipc env) IPC_IMPORT_MSG i = ipc_import_phase (we_ipc env) i" for i
    by (simp add: ipc_dispatch_def msg_defs)
  have g: "gmem (ipc (enter_ipc w4)) = dev (mch (wp w4))" by (simp add: enter_ipc_def)
  have p: "peers (ipc_import_phase (we_ipc env) (enter_ipc w4)) =
      snd (ipc_reenable_all_peer_access (e_rt (we_ipc env)) (peer (wp w4)))"
    by (simp add: ipc_import_phase_def Let_def split_beta enter_ipc_def)
  show ?thesis
    using ipc_handler_ok [of w4 env CR_IPC_REBUILD_SIGNAL IPC_IMPORT_MSG counter] assms
      import_phase_mem [of _ "enter_ipc w4" "we_ipc env"]
    by (simp add: d leave_ipc_def ipc_ready_enter g p)
qed

lemma reenable_none: "g_saved_peer_access_devices s = [] \<Longrightarrow>
    g_peer_access_devices (snd (ipc_reenable_all_peer_access r s)) = g_peer_access_devices s"
  by (simp add: ipc_reenable_all_peer_access_def)

end
