(* ===== verification/Coordinator.thy ===== *)
theory Coordinator
  imports Worker
begin

text \<open>
  The multi-GPU coordinator (\<open>coordinator/multi_cr_client.cpp\<close>): the broadcast of a message to all
  workers (in the atomic form that \<open>Comm_Protocol\<close> shows the message protocol to implement), the
  exchange of export blocks between the shared files, the runs of the \<open>cuda-checkpoint\<close> program in both
  its modes, and the checkpoint and restore flows.  What \<open>cuda-checkpoint\<close> returns and does to a worker
  is a parameter.
\<close>

section \<open>State\<close>

record coord_state =
  workers :: "(worker_env \<times> cworker) list"
  next_id :: nat \<comment> \<open>the counter of \<open>get_id\<close>\<close>
  runs :: "string list list list" \<comment> \<open>the \<open>cuda-checkpoint\<close> commands started so far, batch by batch\<close>

record coord_env =
  g_cuda_ckpt_path :: string \<comment> \<open>empty if the program was not found\<close>
  g_use_action_mode :: bool
  exec :: "string list list list \<Rightarrow> string list \<Rightarrow> int" \<comment> \<open>exit code of a command after the given batches\<close>
  effect :: "string list list list \<Rightarrow> string list \<Rightarrow> cworker \<Rightarrow> cworker"
  shm_opens :: "nat \<Rightarrow> bool" \<comment> \<open>\<open>open_worker_shm(i)\<close> succeeds\<close>
  stale_block :: "nat \<Rightarrow> IpcRebuildShmBlock" \<comment> \<open>what a file no worker has set up holds\<close>

section \<open>Broadcasts\<close>

fun broadcast ::
    "nat \<Rightarrow> nat \<Rightarrow> nat \<Rightarrow> (worker_env \<times> cworker) list \<Rightarrow> exit_reason + nat \<times> (worker_env \<times> cworker) list" where
  "broadcast msg signum counter [] = Inr (counter, [])"
| "broadcast msg signum counter ((env, w) # ws) =
     rbind (deliver env msg signum (counter, w)) (\<lambda>(counter1, w1).
     rbind (broadcast msg signum counter1 ws) (\<lambda>(counter2, ws'). Inr (counter2, (env, w1) # ws')))"

definition broadcast_and_wait :: "nat \<Rightarrow> nat \<Rightarrow> coord_state \<Rightarrow> exit_reason + coord_state" where
  "broadcast_and_wait msg signum st = rbind (broadcast msg signum (next_id st) (workers st)) (\<lambda>(counter, ws).
     Inr (st\<lparr>workers := ws, next_id := counter\<rparr>))"

section \<open>Exchange of the export blocks\<close>

fun copy_entries :: "IpcRebuildShmBlock \<Rightarrow> nat list \<Rightarrow> IpcRebuildShmBlock \<Rightarrow> IpcRebuildShmBlock" where
  "copy_entries src [] dst = dst"
| "copy_entries src (k # ks) dst =
     (if IPC_MAX_EXPORTS_PER_PROC \<le> num_exports dst then dst
      else copy_entries src ks (dst\<lparr>entries := (entries dst)(num_exports dst := entries src k),
                                     num_exports := num_exports dst + 1\<rparr>))"

fun copy_others :: "(nat \<Rightarrow> IpcRebuildShmBlock) \<Rightarrow> nat \<Rightarrow> nat list \<Rightarrow> IpcRebuildShmBlock \<Rightarrow> IpcRebuildShmBlock" where
  "copy_others blocks i [] dst = dst"
| "copy_others blocks i (j # js) dst =
     (if j = i then copy_others blocks i js dst
      else copy_others blocks i js (copy_entries (blocks j) [0..<num_exports (blocks j)] dst))"

definition my_block_of :: "coord_env \<Rightarrow> (worker_env \<times> cworker) list \<Rightarrow> nat \<Rightarrow> IpcRebuildShmBlock" where
  \<comment> \<open>the export block in the file of identifier \<open>i\<close>\<close>
  "my_block_of ce ws i = (case find (\<lambda>(_, w). cr_id (wp w) = i) ws of
     Some (_, w) \<Rightarrow> my_block (wi w) | None \<Rightarrow> stale_block ce i)"

definition receive_block :: "(nat \<Rightarrow> IpcRebuildShmBlock) \<Rightarrow> nat \<Rightarrow> cworker \<Rightarrow> cworker" where
  "receive_block blocks n w =
     (let i = cr_id (wp w) in
      if i < n then w\<lparr>wi := (wi w)\<lparr>peer_block := copy_others blocks i [0..<n] ((peer_block (wi w))\<lparr>num_exports := 0\<rparr>)\<rparr>\<rparr>
      else w)"

definition exchange_ipc_export_info :: "coord_env \<Rightarrow> coord_state \<Rightarrow> exit_reason + coord_state" where
  "exchange_ipc_export_info ce st =
     (let n = length (workers st); blocks = my_block_of ce (workers st) in
      if \<exists>i < n. \<not> shm_opens ce i then Inl BackendExit
      else Inr (st\<lparr>workers := map (\<lambda>(env, w). (env, receive_block blocks n w)) (workers st)\<rparr>))"

section \<open>Runs of \<open>cuda-checkpoint\<close>\<close>

definition ckpt_argv :: "coord_env \<Rightarrow> string \<Rightarrow> nat \<Rightarrow> string list" where
  "ckpt_argv ce args pid = g_cuda_ckpt_path ce # strtok (CHR '' '') [] args @ [''--pid'', digits pid]"

definition argv_of :: "coord_env \<Rightarrow> string \<Rightarrow> worker_env \<Rightarrow> string list" where
  "argv_of ce args env = ckpt_argv ce args (ce_pid (we_cr env))"

definition cuda_ckpt_all_parallel :: "coord_env \<Rightarrow> string \<Rightarrow> coord_state \<Rightarrow> nat \<times> coord_state" where
  \<comment> \<open>the number of failures; the commands of one batch do not see each other\<close>
  "cuda_ckpt_all_parallel ce args st =
     (length (filter (\<lambda>(env, _). exec ce (runs st) (argv_of ce args env) \<noteq> 0) (workers st)),
      st\<lparr>workers := map (\<lambda>(env, w). (env, effect ce (runs st) (argv_of ce args env) w)) (workers st),
         runs := runs st @ [map (\<lambda>(env, _). argv_of ce args env) (workers st)]\<rparr>)"

definition cuda_checkpoint_toggle_all :: "coord_env \<Rightarrow> bool \<Rightarrow> coord_state \<Rightarrow> nat \<times> coord_state" where
  "cuda_checkpoint_toggle_all ce buffer_only st =
     (if buffer_only then (0, st)
      else if g_cuda_ckpt_path ce = [] then (length (workers st), st)
      else cuda_ckpt_all_parallel ce ''--toggle'' st)"

definition cuda_checkpoint_freeze_action :: "coord_env \<Rightarrow> bool \<Rightarrow> coord_state \<Rightarrow> nat \<times> coord_state" where
  "cuda_checkpoint_freeze_action ce buffer_only st =
     (if buffer_only then (0, st)
      else if g_cuda_ckpt_path ce = [] then (length (workers st), st)
      else case cuda_ckpt_all_parallel ce ''--action lock'' st of (failures, st1) \<Rightarrow>
        if 0 < failures then (failures, snd (cuda_ckpt_all_parallel ce ''--action unlock'' st1))
        else case cuda_ckpt_all_parallel ce ''--action checkpoint'' st1 of (failures, st2) \<Rightarrow>
          if 0 < failures then (failures, snd (cuda_ckpt_all_parallel ce ''--action unlock'' st2))
          else (failures, st2))"

definition cuda_checkpoint_restore_action :: "coord_env \<Rightarrow> bool \<Rightarrow> coord_state \<Rightarrow> nat \<times> coord_state" where
  "cuda_checkpoint_restore_action ce buffer_only st =
     (if buffer_only then (0, st)
      else if g_cuda_ckpt_path ce = [] then (length (workers st), st)
      else case cuda_ckpt_all_parallel ce ''--action restore'' st of (failures, st1) \<Rightarrow>
           case cuda_ckpt_all_parallel ce ''--action unlock'' st1 of (unlock_failures, st2) \<Rightarrow>
             (failures + unlock_failures, st2))"

section \<open>The flows\<close>

definition do_init :: "coord_state \<Rightarrow> exit_reason + coord_state" where
  "do_init st = broadcast_and_wait INIT_MSG CR_INIT_SIGNAL st"

definition do_checkpoint :: "coord_env \<Rightarrow> bool \<Rightarrow> bool \<Rightarrow> coord_state \<Rightarrow> exit_reason + coord_state" where
  \<comment> \<open>a freeze that fails is reported and otherwise ignored\<close>
  "do_checkpoint ce buffer_only skip_nccl st =
     rbind (if \<not> skip_nccl then broadcast_and_wait IPC_TEARDOWN_MSG CR_IPC_TEARDOWN_SIGNAL st else Inr st) (\<lambda>st1.
     rbind (broadcast_and_wait CKPT_MSG CR_CKPT_SIGNAL st1) (\<lambda>st2.
     Inr (snd (if g_use_action_mode ce then cuda_checkpoint_freeze_action ce buffer_only st2
               else cuda_checkpoint_toggle_all ce buffer_only st2))))"

definition do_restore :: "coord_env \<Rightarrow> bool \<Rightarrow> bool \<Rightarrow> coord_state \<Rightarrow> exit_reason + coord_state" where
  "do_restore ce buffer_only skip_nccl st =
     (case (if g_use_action_mode ce then cuda_checkpoint_restore_action ce buffer_only st
            else cuda_checkpoint_toggle_all ce buffer_only st) of (failures, st1) \<Rightarrow>
      if 0 < failures \<and> \<not> buffer_only then Inl BackendExit
      else rbind (broadcast_and_wait RESTORE_MSG CR_RESTORE_SIGNAL st1) (\<lambda>st2.
        if skip_nccl then Inr st2
        else rbind (broadcast_and_wait IPC_EXPORT_MSG CR_IPC_REBUILD_SIGNAL st2) (\<lambda>st3.
             rbind (exchange_ipc_export_info ce st3) (\<lambda>st4.
             broadcast_and_wait IPC_IMPORT_MSG CR_IPC_REBUILD_SIGNAL st4))))"

section \<open>Following every worker\<close>

definition tracks :: "(worker_env \<Rightarrow> cworker \<Rightarrow> cworker \<Rightarrow> bool) \<Rightarrow>
    (worker_env \<times> cworker) list \<Rightarrow> (worker_env \<times> cworker) list \<Rightarrow> bool" where
  "tracks R ws0 ws \<longleftrightarrow> list_all2 (\<lambda>(env0, w0) (env, w). env = env0 \<and> R env w0 w) ws0 ws"

lemma tracks_refl: "(\<And>env w. (env, w) \<in> set ws \<Longrightarrow> R env w w) \<Longrightarrow> tracks R ws ws"
  by (auto simp: tracks_def list_all2_conv_all_nth split_beta)

lemma broadcast_tracks:
  assumes "tracks R ws0 ws"
    and "\<And>env w0 w. R env w0 w \<Longrightarrow> \<exists>w'. deliver env msg signum (counter, w) = Inr (counter, w') \<and> R' env w0 w'"
  shows "\<exists>ws'. broadcast msg signum counter ws = Inr (counter, ws') \<and> tracks R' ws0 ws'"
  using assms(1) unfolding tracks_def
proof (induction ws0 ws rule: list_all2_induct)
  case (Cons x ws0 y ws)
  obtain env w0 w where x: "x = (env, w0)" "y = (env, w)" "R env w0 w" using Cons(1) by (auto split: prod.splits)
  obtain w' where "deliver env msg signum (counter, w) = Inr (counter, w')" "R' env w0 w'" using assms(2) [OF x(3)] by blast
  with Cons x show ?case by auto
qed simp

lemma broadcast_and_wait_tracks:
  assumes "tracks R ws0 (workers st)"
    and "\<And>env w0 w. R env w0 w \<Longrightarrow> \<exists>w'. deliver env msg signum (next_id st, w) = Inr (next_id st, w') \<and> R' env w0 w'"
  shows "\<exists>st'. broadcast_and_wait msg signum st = Inr st' \<and> next_id st' = next_id st \<and> tracks R' ws0 (workers st')"
proof -
  obtain ws' where "broadcast msg signum (next_id st) (workers st) = Inr (next_id st, ws')" "tracks R' ws0 ws'"
    using broadcast_tracks [of R ws0 "workers st" msg signum "next_id st" R'] assms by blast
  then show ?thesis by (simp add: broadcast_and_wait_def)
qed

lemma map_tracks:
  assumes "tracks R ws0 ws" "\<And>env w0 w. R env w0 w \<Longrightarrow> R' env w0 (f env w)"
  shows "tracks R' ws0 (map (\<lambda>(env, w). (env, f env w)) ws)"
  using assms by (auto simp: tracks_def list.rel_map split_beta elim!: list.rel_mono_strong)

definition all_succeed :: "coord_env \<Rightarrow> bool" where
  "all_succeed ce \<longleftrightarrow> g_cuda_ckpt_path ce \<noteq> [] \<and> (\<forall>h argv. exec ce h argv = 0)"

definition transparent :: "coord_env \<Rightarrow> bool" where
  \<comment> \<open>freezing and thawing keeps the worker as it is, except for what is in its allocations\<close>
  "transparent ce \<longleftrightarrow> (\<forall>h argv w. CR_initialized (wp w) \<longrightarrow> thawed w w (effect ce h argv w))"

lemma batch_ok:
  assumes "tracks R ws0 (workers st)" "\<And>env w0 w h argv. R env w0 w \<Longrightarrow> R env w0 (effect ce h argv w)"
  shows "tracks R ws0 (workers (snd (cuda_ckpt_all_parallel ce args st)))"
    "next_id (snd (cuda_ckpt_all_parallel ce args st)) = next_id st"
    "all_succeed ce \<Longrightarrow> fst (cuda_ckpt_all_parallel ce args st) = 0"
  using map_tracks [OF assms(1), of R "\<lambda>env w. effect ce (runs st) (argv_of ce args env) w"] assms(2)
  by (simp_all add: cuda_ckpt_all_parallel_def all_succeed_def)

definition batched :: "coord_env \<Rightarrow> (worker_env \<Rightarrow> cworker \<Rightarrow> cworker \<Rightarrow> bool) \<Rightarrow> (worker_env \<times> cworker) list \<Rightarrow>
    nat \<Rightarrow> nat \<times> coord_state \<Rightarrow> bool" where
  "batched ce R ws0 counter r \<longleftrightarrow> tracks R ws0 (workers (snd r)) \<and> next_id (snd r) = counter \<and> (all_succeed ce \<longrightarrow> fst r = 0)"

lemma freeze_ok:
  assumes st: "tracks R ws0 (workers st)" and eff: "\<And>env w0 w h argv. R env w0 w \<Longrightarrow> R env w0 (effect ce h argv w)"
  shows "batched ce R ws0 (next_id st) (cuda_checkpoint_toggle_all ce b st)"
    "batched ce R ws0 (next_id st) (cuda_checkpoint_freeze_action ce b st)"
    "batched ce R ws0 (next_id st) (cuda_checkpoint_restore_action ce b st)"
proof -
  have run: "batched ce R ws0 (next_id t) (cuda_ckpt_all_parallel ce args t)" if "tracks R ws0 (workers t)" for args t
    using batch_ok [of R ws0 t ce args] that eff by (simp add: batched_def)
  have next_run: "batched ce R ws0 (next_id st) (cuda_ckpt_all_parallel ce args (snd (cuda_ckpt_all_parallel ce args' st)))"
    and next_run2: "batched ce R ws0 (next_id st) (cuda_ckpt_all_parallel ce args (snd (cuda_ckpt_all_parallel ce args'
        (snd (cuda_ckpt_all_parallel ce args'' st)))))" for args args' args''
    using run unfolding batched_def by (metis st)+
  have skip: "batched ce R ws0 (next_id st) (0, st)" using st by (simp add: batched_def)
  have none: "g_cuda_ckpt_path ce = [] \<Longrightarrow> batched ce R ws0 (next_id st) (length (workers st), st)"
    using st by (simp add: batched_def all_succeed_def)
  show "batched ce R ws0 (next_id st) (cuda_checkpoint_toggle_all ce b st)"
    by (simp add: cuda_checkpoint_toggle_all_def skip none run st)
  show "batched ce R ws0 (next_id st) (cuda_checkpoint_freeze_action ce b st)"
    using run [OF st, of "''--action lock''"] next_run [of "''--action unlock''" "''--action lock''"]
      next_run [of "''--action checkpoint''" "''--action lock''"]
      next_run2 [of "''--action unlock''" "''--action checkpoint''" "''--action lock''"]
    by (simp add: cuda_checkpoint_freeze_action_def split_beta skip none) (simp add: batched_def)
  show "batched ce R ws0 (next_id st) (cuda_checkpoint_restore_action ce b st)"
    using run [OF st, of "''--action restore''"] next_run [of "''--action unlock''" "''--action restore''"]
    by (simp add: cuda_checkpoint_restore_action_def split_beta skip none) (simp add: batched_def)
qed

definition restorable :: "nat \<Rightarrow> worker_env \<Rightarrow> cworker \<Rightarrow> cworker \<Rightarrow> bool" where
  "restorable counter env w1 w2 \<longleftrightarrow> (\<forall>w2'. thawed w1 w2 w2' \<longrightarrow>
     (\<exists>w3. deliver env RESTORE_MSG CR_RESTORE_SIGNAL (counter, w2') = Inr (counter, w3) \<and>
       wi w3 = wi w1 \<and> CR_initialized (wp w3) \<and> dev (mch (wp w3)) = dev (mch (wp w1)) \<and>
       g_peer_access_devices (peer (wp w3)) = g_peer_access_devices (peer (wp w1)) \<and>
       g_saved_peer_access_devices (peer (wp w3)) = []))"

definition frozen_stage :: "nat \<Rightarrow> worker_env \<Rightarrow> cworker \<Rightarrow> cworker \<Rightarrow> bool" where
  "frozen_stage counter env w0 w \<longleftrightarrow> worker_ready env w0 \<and> (\<exists>w1 w2. torn_down env w0 w1 \<and>
     allocated (gst (mch (wp w2))) = allocated (gst (mch (wp w1))) \<and> thawed w1 w2 w \<and> restorable counter env w1 w2)"

definition restored_stage :: "worker_env \<Rightarrow> cworker \<Rightarrow> cworker \<Rightarrow> bool" where
  "restored_stage env w0 w \<longleftrightarrow> worker_ready env w0 \<and> (\<exists>w1. torn_down env w0 w1 \<and> wi w = wi w1 \<and> CR_initialized (wp w) \<and>
     dev (mch (wp w)) = dev (mch (wp w1)) \<and> g_peer_access_devices (peer (wp w)) = [] \<and>
     g_saved_peer_access_devices (peer (wp w)) = [])"

definition exported_stage :: "worker_env \<Rightarrow> cworker \<Rightarrow> cworker \<Rightarrow> bool" where
  "exported_stage env w0 w \<longleftrightarrow> worker_ready env w0 \<and> CR_initialized (wp w) \<and>
     (\<forall>a. a \<notin> imp_ranges (ipc (wi w0)) \<longrightarrow> dev (mch (wp w)) a = dev (mch (wp w0)) a) \<and>
     imp_places (ipc (wi w)) = imp_places (ipc (wi w0)) \<and> g_peer_access_devices (peer (wp w)) = [] \<and>
     g_saved_peer_access_devices (peer (wp w)) = []"

definition whole_again :: "worker_env \<Rightarrow> cworker \<Rightarrow> cworker \<Rightarrow> bool" where
  "whole_again env w0 w \<longleftrightarrow>
     (\<forall>a. a \<notin> place_ranges (imp_places (ipc (wi w0))) \<longrightarrow> dev (mch (wp w)) a = dev (mch (wp w0)) a) \<and>
     g_peer_access_devices (peer (wp w)) = [] \<and> control_word (wp w) = FINISH_MSG"

lemma frozen_stage_effect:
  assumes "transparent ce" "frozen_stage c env w0 w"
  shows "frozen_stage c env w0 (effect ce h argv w)"
proof -
  obtain w1 w2 where 1: "worker_ready env w0" "torn_down env w0 w1" "allocated (gst (mch (wp w2))) = allocated (gst (mch (wp w1)))"
    "thawed w1 w2 w" "restorable c env w1 w2" using assms(2) by (auto simp: frozen_stage_def)
  have "thawed w w (effect ce h argv w)" using assms(1) 1(4) by (simp add: transparent_def thawed_def)
  then have "thawed w1 w2 (effect ce h argv w)" using 1(3,4) by (simp add: thawed_def)
  with 1 show ?thesis by (auto simp: frozen_stage_def)
qed

lemma to_frozen:
  assumes "worker_ready env w0" "torn_down env w0 w"
  shows "\<exists>w'. deliver env CKPT_MSG CR_CKPT_SIGNAL (counter, w) = Inr (counter, w') \<and> frozen_stage counter env w0 w'"
proof -
  have "gpu_ready (we_cr env) (wp w)" using assms(2) by (simp add: torn_down_def)
  from deliver_ckpt [OF this, of counter] obtain w2 where 2: "deliver env CKPT_MSG CR_CKPT_SIGNAL (counter, w) = Inr (counter, w2)"
    "wi w2 = wi w" "CR_initialized (wp w2)" "allocated (gst (mch (wp w2))) = allocated (gst (mch (wp w)))"
    "restorable counter env w w2" unfolding restorable_def by blast
  have "thawed w w2 w2" using 2(2,3) by (simp add: thawed_def)
  with 2 assms show ?thesis by (auto simp: frozen_stage_def)
qed

lemma to_restored:
  "frozen_stage counter env w0 w \<Longrightarrow>
    \<exists>w'. deliver env RESTORE_MSG CR_RESTORE_SIGNAL (counter, w) = Inr (counter, w') \<and> restored_stage env w0 w'"
  by (fastforce simp: frozen_stage_def restored_stage_def restorable_def torn_down_def)

lemma to_exported:
  assumes "restored_stage env w0 w"
  shows "\<exists>w'. deliver env IPC_EXPORT_MSG CR_IPC_REBUILD_SIGNAL (counter, w) = Inr (counter, w') \<and> exported_stage env w0 w'"
proof -
  obtain w1 where 1: "worker_ready env w0" "torn_down env w0 w1" "wi w = wi w1" "CR_initialized (wp w)"
    "dev (mch (wp w)) = dev (mch (wp w1))" "g_peer_access_devices (peer (wp w)) = []" "g_saved_peer_access_devices (peer (wp w)) = []"
    using assms by (auto simp: restored_stage_def)
  from deliver_export [OF 1(1-5), of counter] 1 show ?thesis by (auto simp: exported_stage_def)
qed

lemma to_whole:
  assumes "exported_stage env w0 w"
  shows "\<exists>w'. deliver env IPC_IMPORT_MSG CR_IPC_REBUILD_SIGNAL (counter, w) = Inr (counter, w') \<and> whole_again env w0 w'"
proof -
  have e: "CR_initialized (wp w)" "ce_sync (we_cr env) = 0" "imp_places (ipc (wi w)) = imp_places (ipc (wi w0))"
    "g_peer_access_devices (peer (wp w)) = []" "g_saved_peer_access_devices (peer (wp w)) = []"
    "\<And>a. a \<notin> place_ranges (imp_places (ipc (wi w0))) \<Longrightarrow> dev (mch (wp w)) a = dev (mch (wp w0)) a"
    using assms imp_ranges_places [of "ipc (wi w0)"] by (auto simp: exported_stage_def worker_ready_def gpu_ready_def)
  with deliver_import [OF e(1,2), of counter] reenable_none [of "peer (wp w)" "e_rt (we_ipc env)"] show ?thesis
    by (auto simp: whole_again_def)
qed

lemma exported_stage_receive: "exported_stage env w0 w \<Longrightarrow> exported_stage env w0 (receive_block blocks n w)"
  by (simp add: exported_stage_def receive_block_def Let_def imp_places_def)

section \<open>Theorems\<close>

lemma checkpoint_flow:
  assumes "transparent ce" "\<forall>(env, w) \<in> set (workers st). worker_ready env w"
  shows "\<exists>st1. do_checkpoint ce buffer_only False st = Inr st1 \<and> next_id st1 = next_id st \<and>
    tracks (frozen_stage (next_id st)) (workers st) (workers st1)"
proof -
  let ?R = "\<lambda>env w0 w. w = w0 \<and> worker_ready env w0" and ?T = "\<lambda>env w0 w. worker_ready env w0 \<and> torn_down env w0 w"
  have 0: "tracks ?R (workers st) (workers st)" using assms(2) by (intro tracks_refl) auto
  obtain s1 where 1: "broadcast_and_wait IPC_TEARDOWN_MSG CR_IPC_TEARDOWN_SIGNAL st = Inr s1" "next_id s1 = next_id st"
    "tracks ?T (workers st) (workers s1)"
    using broadcast_and_wait_tracks [OF 0, of IPC_TEARDOWN_MSG CR_IPC_TEARDOWN_SIGNAL ?T] deliver_teardown by blast
  obtain s2 where 2: "broadcast_and_wait CKPT_MSG CR_CKPT_SIGNAL s1 = Inr s2" "next_id s2 = next_id st"
    "tracks (frozen_stage (next_id st)) (workers st) (workers s2)"
    using broadcast_and_wait_tracks [OF 1(3), of CKPT_MSG CR_CKPT_SIGNAL "frozen_stage (next_id st)"] to_frozen 1(2) by metis
  note f = freeze_ok [where b = buffer_only and ce = ce, OF 2(3) frozen_stage_effect [OF assms(1)], unfolded batched_def]
  show ?thesis using f(1,2) 1(1) 2(1,2) by (simp add: do_checkpoint_def)
qed

text \<open>C2: a checkpoint of all workers followed by a restore gives every worker its device memory back:
  allocations, exports and local allocations, in fact every byte outside the imported ranges (which are
  mapped again onto the memory of the peers).  The coordinator returns from every phase.  No worker has
  peer access afterwards, whatever it had before: the second of the two phases that switch it off
  forgets what the first has saved.\<close>

theorem multi_gpu_round_trip:
  assumes "transparent ce" "all_succeed ce" "\<forall>i < length (workers st). shm_opens ce i"
    and "\<forall>(env, w) \<in> set (workers st). worker_ready env w"
  shows "\<exists>st1 st2. do_checkpoint ce buffer_only False st = Inr st1 \<and> do_restore ce buffer_only False st1 = Inr st2 \<and>
    tracks whole_again (workers st) (workers st2)"
proof -
  obtain st1 where 0: "do_checkpoint ce buffer_only False st = Inr st1" "next_id st1 = next_id st"
    "tracks (frozen_stage (next_id st)) (workers st) (workers st1)" using checkpoint_flow [OF assms(1,4)] by blast
  define f where "f = (if g_use_action_mode ce then cuda_checkpoint_restore_action ce buffer_only else cuda_checkpoint_toggle_all ce buffer_only)"
  note f = freeze_ok [where b = buffer_only and ce = ce, OF 0(3) frozen_stage_effect [OF assms(1)], unfolded batched_def]
  obtain s1 where 1: "f st1 = (0, s1)" "tracks (frozen_stage (next_id st)) (workers st) (workers s1)" "next_id s1 = next_id st"
    using f(1,3) assms(2) 0(2) by (cases "f st1") (auto simp: f_def split: if_splits)
  obtain s2 where 2: "broadcast_and_wait RESTORE_MSG CR_RESTORE_SIGNAL s1 = Inr s2" "tracks restored_stage (workers st) (workers s2)"
    using broadcast_and_wait_tracks [OF 1(2), of RESTORE_MSG CR_RESTORE_SIGNAL restored_stage] to_restored 1(3) by metis
  obtain s3 where 3: "broadcast_and_wait IPC_EXPORT_MSG CR_IPC_REBUILD_SIGNAL s2 = Inr s3" "tracks exported_stage (workers st) (workers s3)"
    using broadcast_and_wait_tracks [OF 2(2), of IPC_EXPORT_MSG CR_IPC_REBUILD_SIGNAL exported_stage] to_exported by metis
  have len: "length (workers s3) = length (workers st)" using 3(2) by (simp add: tracks_def list_all2_lengthD)
  obtain s4 where 4: "exchange_ipc_export_info ce s3 = Inr s4" "tracks exported_stage (workers st) (workers s4)"
    using assms(3) map_tracks [OF 3(2), of exported_stage
        "\<lambda>_. receive_block (my_block_of ce (workers s3)) (length (workers s3))"] exported_stage_receive
    by (simp add: exchange_ipc_export_info_def Let_def len)
  obtain s5 where 5: "broadcast_and_wait IPC_IMPORT_MSG CR_IPC_REBUILD_SIGNAL s4 = Inr s5" "tracks whole_again (workers st) (workers s5)"
    using broadcast_and_wait_tracks [OF 4(2), of IPC_IMPORT_MSG CR_IPC_REBUILD_SIGNAL whole_again] to_whole by metis
  have "(if g_use_action_mode ce then cuda_checkpoint_restore_action ce buffer_only st1 else cuda_checkpoint_toggle_all ce buffer_only st1) = f st1"
    by (simp add: f_def)
  then have "do_restore ce buffer_only False st1 = Inr s5" using 1(1) 2(1) 3(1) 4(1) 5(1) by (simp add: do_restore_def)
  with 0(1) 5(2) show ?thesis by blast
qed

definition sample_coord_env :: coord_env where
  "sample_coord_env = \<lparr>g_cuda_ckpt_path = ''cuda-checkpoint'', g_use_action_mode = True, exec = \<lambda>_ _. 0, effect = \<lambda>_ _ w. w,
     shm_opens = \<lambda>_. True, stale_block = undefined\<rparr>"

definition sample_coord :: coord_state where
  "sample_coord = \<lparr>workers = [(\<lparr>we_cr = sample_cr_env, we_ipc = sample_env\<rparr>, \<lparr>wp = sample_process, wi = sample_worker\<rparr>)],
     next_id = 1, runs = []\<rparr>"

theorem multi_gpu_round_trip_witness:
  "\<exists>st1 st2. do_checkpoint sample_coord_env False False sample_coord = Inr st1 \<and>
     do_restore sample_coord_env False False st1 = Inr st2 \<and>
     map (\<lambda>(_, w). dev (mch (wp w)) 201) (workers st2) = [201] \<and>
     map (\<lambda>(_, w). g_peer_access_devices (peer (wp w))) (workers sample_coord) = [[1, 3]] \<and>
     map (\<lambda>(_, w). g_peer_access_devices (peer (wp w))) (workers st2) = [[]]"
proof -
  have "thawed w w w" if "CR_initialized (wp w)" for w using that by (simp add: thawed_def)
  then have e: "transparent sample_coord_env" "all_succeed sample_coord_env" "\<forall>i < length (workers sample_coord). shm_opens sample_coord_env i"
    by (simp_all add: transparent_def all_succeed_def sample_coord_env_def)
  have "\<forall>(env, w) \<in> set (workers sample_coord). worker_ready env w"
    using gpu_ready_sample ipc_ready_sample by (simp add: sample_coord_def worker_ready_def sample_env_def sample_cr_env_def)
  from multi_gpu_round_trip [OF e this, of False] obtain st1 st2 where
    1: "do_checkpoint sample_coord_env False False sample_coord = Inr st1" "do_restore sample_coord_env False False st1 = Inr st2"
      "tracks whole_again (workers sample_coord) (workers st2)" by blast
  then obtain env w where w: "workers st2 = [(env, w)]" "whole_again env \<lparr>wp = sample_process, wi = sample_worker\<rparr> w"
    by (auto simp: tracks_def sample_coord_def list_all2_Cons1 split: prod.splits)
  have "(201 :: nat) \<notin> place_ranges (imp_places (ipc sample_worker))"
    by (simp add: sample_worker_def place_ranges_def imp_places_def)
  with w have "dev (mch (wp w)) 201 = 201" "g_peer_access_devices (peer (wp w)) = []"
    by (simp_all add: whole_again_def sample_process_def sample_machine_def)
  with 1 w show ?thesis by (intro exI [of _ st1] exI [of _ st2]) (simp add: sample_coord_def sample_process_def two_peers_def)
qed

lemma copy_entries_list:
  "num_exports dst \<le> 64 \<Longrightarrow>
    num_exports (copy_entries src ks dst) \<le> 64 \<and> block_list (copy_entries src ks dst) = take 64 (block_list dst @ map (entries src) ks)"
proof (induction ks arbitrary: dst)
  case Nil
  then show ?case by (simp add: block_list_def)
next
  case (Cons k ks)
  show ?case
  proof (cases "64 \<le> num_exports dst")
    case True
    then show ?thesis using Cons.prems by (simp add: block_list_def IPC_MAX_EXPORTS_PER_PROC_def)
  next
    case False
    let ?d = "dst\<lparr>entries := (entries dst)(num_exports dst := entries src k), num_exports := num_exports dst + 1\<rparr>"
    have "block_list ?d = block_list dst @ [entries src k]" by (simp add: block_list_def)
    with False Cons.IH [of ?d] show ?thesis by (simp add: IPC_MAX_EXPORTS_PER_PROC_def del: take_append)
  qed
qed

lemma copy_others_list:
  "num_exports dst \<le> 64 \<Longrightarrow>
    block_list (copy_others blocks i js dst) =
      take 64 (block_list dst @ concat (map (\<lambda>j. block_list (blocks j)) (filter (\<lambda>j. j \<noteq> i) js)))"
proof (induction js arbitrary: dst)
  case Nil
  then show ?case by (simp add: block_list_def)
next
  case (Cons j js)
  show ?case
  proof (cases "j = i")
    case False
    let ?d = "copy_entries (blocks j) [0..<num_exports (blocks j)] dst"
    have d: "num_exports ?d \<le> 64" "block_list ?d = take 64 (block_list dst @ block_list (blocks j))"
      using copy_entries_list [OF Cons.prems] by (simp_all add: block_list_def)
    have "take 64 (take 64 xs @ ys) = take 64 (xs @ ys)" for xs ys :: "IpcExportShmEntry list"
      by (simp add: min_def)
    with False Cons.IH [OF d(1)] d(2) show ?thesis by (simp del: take_append)
  qed (use Cons in simp)
qed

text \<open>C13: when the identifiers of the workers are the numbers below their count, the exchange puts into
  the peer block of every worker the export entries of all the others, in the order of their
  identifiers and cut off after 64, and changes nothing else of any worker.\<close>

theorem exchange_delivers:
  assumes "exchange_ipc_export_info ce st = Inr st'" "k < length (workers st)" "workers st ! k = (env, w)"
    and ids: "mset (map (\<lambda>x. cr_id (wp (snd x))) (workers st)) = mset [0..<length (workers st)]"
  shows "\<exists>b. workers st' ! k = (env, w\<lparr>wi := (wi w)\<lparr>peer_block := b\<rparr>\<rparr>) \<and>
    block_list b = take 64 (concat (map (\<lambda>j. block_list (my_block_of ce (workers st) j))
      (filter (\<lambda>j. j \<noteq> cr_id (wp w)) [0..<length (workers st)]))) \<and>
    (\<forall>(env', v) \<in> set (workers st). my_block_of ce (workers st) (cr_id (wp v)) = my_block (wi v))"
proof -
  let ?n = "length (workers st)" and ?id = "\<lambda>x :: worker_env \<times> cworker. cr_id (wp (snd x))"
  have "set (map ?id (workers st)) = {0..<?n}" using mset_eq_setD [OF ids] by simp
  then have i: "cr_id (wp w) < ?n" using assms(2,3) nth_mem [OF assms(2)] by (force simp: image_iff)
  have d: "distinct (map ?id (workers st))" using ids by (metis distinct_upt mset_eq_imp_distinct_iff)
  have own: "my_block_of ce (workers st) (cr_id (wp v)) = my_block (wi v)" if v: "(env', v) \<in> set (workers st)" for env' v
  proof -
    obtain x where x: "find (\<lambda>(_, u). cr_id (wp u) = cr_id (wp v)) (workers st) = Some x"
      using v by (cases "find (\<lambda>(_, u). cr_id (wp u) = cr_id (wp v)) (workers st)") (auto simp: find_None_iff)
    then have "x \<in> set (workers st)" "?id x = ?id (env', v)" by (auto simp: find_Some_iff) (metis nth_mem)
    then have "x = (env', v)" using d v by (auto simp: distinct_map inj_on_def)
    with x show ?thesis by (simp add: my_block_of_def)
  qed
  define b where "b = copy_others (my_block_of ce (workers st)) (cr_id (wp w)) [0..<?n] ((peer_block (wi w))\<lparr>num_exports := 0\<rparr>)"
  have "workers st' ! k = (env, w\<lparr>wi := (wi w)\<lparr>peer_block := b\<rparr>\<rparr>)"
    using assms(1-3) i by (auto simp: exchange_ipc_export_info_def Let_def receive_block_def b_def split: if_splits)
  moreover have "block_list b = take 64 (concat (map (\<lambda>j. block_list (my_block_of ce (workers st) j))
      (filter (\<lambda>j. j \<noteq> cr_id (wp w)) [0..<?n])))"
    by (simp add: b_def copy_others_list) (simp add: block_list_def)
  ultimately show ?thesis using own by blast
qed

definition two_files :: coord_state where
  \<comment> \<open>two workers with one export each, listed in the other order than their identifiers\<close>
  "two_files = (let e = \<lparr>we_cr = sample_cr_env, we_ipc = sample_env\<rparr>;
       x = \<lparr>owner_pid = 7, shm_fd = 3, local_ptr = 100, entry_size = 2, valid = True\<rparr>;
       w = \<lparr>wp = sample_process, wi = sample_worker\<lparr>my_block := \<lparr>num_exports = 1, entries = \<lambda>_. x\<rparr>\<rparr>\<rparr>;
       v = \<lparr>wp = sample_process\<lparr>cr_id := 1\<rparr>, wi = sample_worker\<lparr>my_block := \<lparr>num_exports = 1, entries = \<lambda>_. x\<lparr>owner_pid := 8\<rparr>\<rparr>\<rparr>\<rparr>
     in \<lparr>workers = [(e, v), (e, w)], next_id = 2, runs = []\<rparr>)"

theorem exchange_delivers_witness:
  "\<exists>st' b env w. exchange_ipc_export_info sample_coord_env two_files = Inr st' \<and>
     workers st' ! 0 = (env, w\<lparr>wi := (wi w)\<lparr>peer_block := b\<rparr>\<rparr>) \<and> map owner_pid (block_list b) = [7]"
proof -
  obtain st' where st': "exchange_ipc_export_info sample_coord_env two_files = Inr st'"
    by (simp add: exchange_ipc_export_info_def sample_coord_env_def)
  let ?w = "snd (workers two_files ! 0)" and ?env = "fst (workers two_files ! 0)"
  have len: "length (workers two_files) = 2" and ids: "cr_id (wp ?w) = 1"
    by (simp_all add: two_files_def Let_def)
  have "mset (map (\<lambda>x. cr_id (wp (snd x))) (workers two_files)) = mset [0..<2]"
    by (simp add: two_files_def Let_def sample_process_def upt_rec add_mset_commute)
  from exchange_delivers [OF st' _ _ this [folded len], of 0 ?env ?w] obtain b where
    b: "workers st' ! 0 = (?env, ?w\<lparr>wi := (wi ?w)\<lparr>peer_block := b\<rparr>\<rparr>)"
      "block_list b = take 64 (concat (map (\<lambda>j. block_list (my_block_of sample_coord_env (workers two_files) j)) (filter (\<lambda>j. j \<noteq> 1) [0..<2])))"
    by (auto simp: len ids)
  have "filter (\<lambda>j. j \<noteq> 1) [0..<2] = [0 :: nat]" by (simp add: upt_rec)
  moreover have "map owner_pid (block_list (my_block_of sample_coord_env (workers two_files) 0)) = [7]"
    by (simp add: my_block_of_def two_files_def Let_def sample_process_def block_list_def)
  ultimately have "map owner_pid (block_list b) = [7]" using b(2) by (simp add: take_map [symmetric])
  with st' b(1) show ?thesis
    by (intro exI [of _ st'] exI [of _ b] exI [of _ ?env] exI [of _ ?w]) simp
qed

end
