(* ===== verification/Ckpt_Tool.thy ===== *)
theory Ckpt_Tool
  imports Coordinator Client "HOL-Library.Sublist"
begin

text \<open>
  How the coordinator (\<open>coordinator/multi_cr_client.cpp\<close>) finds and runs \<open>cuda-checkpoint\<close> and opens the
  files of the workers: the search for the binary, the probe of its help text through \<open>fgets\<close>, one run
  as a child process, the sequential variant of a run over all workers, and the names of the shared
  files.  The file system, the help text and what becomes of a child are parameters.
\<close>

section \<open>Finding the tool\<close>

record path_env =
  readlink :: "string option" \<comment> \<open>\<open>/proc/self/exe\<close>\<close>
  realpath :: "string \<Rightarrow> string option"
  present :: "string \<Rightarrow> bool" \<comment> \<open>\<open>access(path, F_OK) == 0\<close>\<close>
  executable :: "string \<Rightarrow> bool"

definition tool_candidates :: "path_env \<Rightarrow> string \<Rightarrow> string list" where
  "tool_candidates env exe =
     (let build_dir = dirname exe;
          up = build_dir @ ''/..'';
          project_root = (case realpath env up of Some resolved \<Rightarrow> resolved | None \<Rightarrow> up);
          rel = ''/cuda-checkpoint/bin/x86_64_Linux/cuda-checkpoint''
      in [project_root @ rel, build_dir @ rel])"

fun pick_tool :: "path_env \<Rightarrow> string list \<Rightarrow> string \<times> string list" where
  \<comment> \<open>the path, empty if there is none, and the files made executable\<close>
  "pick_tool env [] = ('''', [])"
| "pick_tool env (path # paths) =
     (if present env path then (path, if executable env path then [] else [path]) else pick_tool env paths)"

definition find_cuda_checkpoint :: "path_env \<Rightarrow> string \<times> string list" where
  \<comment> \<open>\<open>readlink\<close> into 1023 bytes\<close>
  "find_cuda_checkpoint env = (case readlink env of
     None \<Rightarrow> ('''', []) | Some exe \<Rightarrow> pick_tool env (tool_candidates env (take 1023 exe)))"

definition init_cuda_checkpoint_path :: "path_env \<Rightarrow> string \<Rightarrow> bool \<times> string" where
  "init_cuda_checkpoint_path env g_path =
     (let path = (if g_path = '''' then fst (find_cuda_checkpoint env) else g_path) in (path \<noteq> '''', path))"

lemma pick_tool_present: "fst (pick_tool env paths) \<noteq> '''' \<Longrightarrow> fst (pick_tool env paths) \<in> set paths \<and> present env (fst (pick_tool env paths))"
  by (induction env paths rule: pick_tool.induct) (auto split: if_splits)

lemma init_path_stable:
  "init_cuda_checkpoint_path env (snd (init_cuda_checkpoint_path env g)) = init_cuda_checkpoint_path env g"
  by (simp add: init_cuda_checkpoint_path_def Let_def)

section \<open>Probing the help text\<close>

fun fgets :: "nat \<Rightarrow> string \<Rightarrow> string \<times> string" where
  \<comment> \<open>at most \<open>n\<close> characters, up to and with the first newline, and the rest\<close>
  "fgets 0 s = ([], s)"
| "fgets (Suc n) [] = ([], [])"
| "fgets (Suc n) (c # s) = (if c = CHR 0x0A then ([c], s) else case fgets n s of (buf, rest) \<Rightarrow> (c # buf, rest))"

lemma fgets_split: "fgets n s = (buf, rest) \<Longrightarrow> s = buf @ rest"
  by (induction n s arbitrary: buf rest rule: fgets.induct) (auto split: if_splits prod.splits)

lemma fgets_progress: "0 < n \<Longrightarrow> s \<noteq> [] \<Longrightarrow> fgets n s = (buf, rest) \<Longrightarrow> buf \<noteq> []"
  by (cases n; cases s) (auto split: if_splits prod.splits)

lemma fgets_shorter:
  assumes "s \<noteq> []" "(buf, rest) = fgets 511 s"
  shows "length rest < length s"
  using fgets_split [OF assms(2) [symmetric]] fgets_progress [OF _ assms(1) assms(2) [symmetric]] by simp

function read_all :: "string \<Rightarrow> string list" where
  \<comment> \<open>\<open>while (fgets(buf, sizeof(buf), fp))\<close> with 512 bytes\<close>
  "read_all s = (if s = [] then [] else case fgets 511 s of (buf, rest) \<Rightarrow> buf # read_all rest)"
  by auto
termination
  by (relation "measure length") (auto simp: fgets_shorter)

declare read_all.simps [simp del]

definition strstr :: "string \<Rightarrow> string \<Rightarrow> bool" where
  \<comment> \<open>a string ends at its first null byte\<close>
  "strstr buf needle = sublist needle (takeWhile (\<lambda>c. c \<noteq> CHR 0x00) buf)"

definition detect_action_mode_support :: "string \<Rightarrow> (string \<Rightarrow> string option) \<Rightarrow> bool" where
  \<comment> \<open>\<open>popen\<close>: the output of a command, if it can be started; the path is that of \<open>init_cuda_checkpoint_path\<close>\<close>
  "detect_action_mode_support g_path popen =
     (if g_path = '''' then False
      else case popen (''\"'' @ g_path @ ''\" --help 2>&1'') of
        None \<Rightarrow> False
      | Some out \<Rightarrow> list_ex (\<lambda>buf. strstr buf ''--action'') (read_all out))"

section \<open>Running the tool\<close>

datatype child = ForkFailed | ExecFailed | WaitFailed | Exited nat | Signalled

definition cuda_ckpt_run :: "(string list list list \<Rightarrow> string list \<Rightarrow> child) \<Rightarrow> string list list list \<Rightarrow> string list \<Rightarrow> int" where
  \<comment> \<open>the exit code the coordinator sees of a command, given what became of the child; \<open>WEXITSTATUS\<close> has 8 bits\<close>
  "cuda_ckpt_run fate h argv =
     (case fate h argv of ForkFailed \<Rightarrow> -1 | ExecFailed \<Rightarrow> 127 | WaitFailed \<Rightarrow> -1 | Exited c \<Rightarrow> int (c mod 256) | Signalled \<Rightarrow> -1)"

fun ckpt_each :: "coord_env \<Rightarrow> string \<Rightarrow> string list list list \<Rightarrow> (worker_env \<times> cworker) list
    \<Rightarrow> nat \<times> (worker_env \<times> cworker) list \<times> string list list list" where
  "ckpt_each ce args h [] = (0, [], h)"
| "ckpt_each ce args h ((env, w) # ws) =
     (let argv = argv_of ce args env in
      case ckpt_each ce args (h @ [[argv]]) ws of (failures, ws', h') \<Rightarrow>
        ((if exec ce h argv \<noteq> 0 then 1 else 0) + failures, (env, effect ce h argv w) # ws', h'))"

definition cuda_ckpt_all :: "coord_env \<Rightarrow> string \<Rightarrow> coord_state \<Rightarrow> nat \<times> coord_state" where
  "cuda_ckpt_all ce args st =
     (case ckpt_each ce args (runs st) (workers st) of (failures, ws, h) \<Rightarrow> (failures, st\<lparr>workers := ws, runs := h\<rparr>))"

section \<open>The files of the workers\<close>

definition open_worker_shm :: "string option \<Rightarrow> (string \<Rightarrow> bool) \<Rightarrow> (string \<Rightarrow> bool) \<Rightarrow> nat \<Rightarrow> string option" where
  \<comment> \<open>the file that is mapped; \<open>opens\<close> and \<open>maps\<close>: the two calls succeed\<close>
  "open_worker_shm export_file_path opens maps cid =
     (let shm_path = (case export_file_path of
            Some d \<Rightarrow> d @ ''/ckpt-'' @ digits cid @ ''.data'' | None \<Rightarrow> ''/mnt/huge-ckpt/'' @ digits cid)
      in if \<not> opens shm_path then None else if \<not> maps shm_path then None else Some shm_path)"

section \<open>Lemmas\<close>

lemma fgets_shape:
  "fgets n s = (buf, rest) \<Longrightarrow>
     (\<exists>l. buf = l @ [CHR 0x0A] \<and> CHR 0x0A \<notin> set l) \<or> rest = [] \<and> CHR 0x0A \<notin> set buf \<or> length buf = n \<and> CHR 0x0A \<notin> set buf"
proof (induction n s arbitrary: buf rest rule: fgets.induct)
  case (3 n c s)
  show ?case
  proof (cases "c = CHR 0x0A")
    case True
    then show ?thesis using "3.prems" by (intro disjI1 exI [of _ "[]"]) simp
  next
    case False
    obtain b where b: "fgets n s = (b, rest)" "buf = c # b" using "3.prems" False by (auto split: prod.splits)
    from "3.IH" [OF False b(1)] show ?thesis
    proof (elim disjE exE conjE)
      fix l
      assume "b = l @ [CHR 0x0A]" "CHR 0x0A \<notin> set l"
      then show ?thesis using b(2) False by (intro disjI1 exI [of _ "c # l"]) auto
    qed (use b(2) False in auto)
  qed
qed auto

lemma sublist_line:
  assumes "CHR 0x0A \<notin> set p"
  shows "sublist p ((l @ [CHR 0x0A]) @ rest) \<longleftrightarrow> sublist p (l @ [CHR 0x0A]) \<or> sublist p rest"
proof
  assume "sublist p ((l @ [CHR 0x0A]) @ rest)"
  then consider "sublist p (l @ [CHR 0x0A])" | "sublist p rest"
    | a b where "p = a @ b" "suffix a (l @ [CHR 0x0A])" "prefix b rest"
    unfolding sublist_append by blast
  then show "sublist p (l @ [CHR 0x0A]) \<or> sublist p rest"
  proof cases
    case (3 a b)
    then have "a = []" using assms by (auto simp: suffix_snoc)
    then show ?thesis using 3 by (simp add: prefix_imp_sublist)
  qed simp_all
next
  assume "sublist p (l @ [CHR 0x0A]) \<or> sublist p rest"
  then show "sublist p ((l @ [CHR 0x0A]) @ rest)" unfolding sublist_append [of p "l @ [CHR 0x0A]" rest] by blast
qed

lemma read_all_sublist: "buf \<in> set (read_all s) \<Longrightarrow> sublist buf s"
proof (induction s rule: read_all.induct)
  case (1 s)
  obtain b r where e: "fgets 511 s = (b, r)" by fastforce
  then have s: "s = b @ r" by (rule fgets_split)
  have "s \<noteq> []" using 1(2) by (auto simp: read_all.simps)
  then have "buf = b \<or> buf \<in> set (read_all r)" using 1(2) e by (simp add: read_all.simps [of s])
  then show ?case
  proof
    assume "buf \<in> set (read_all r)"
    then have "sublist buf r" using 1(1) [OF \<open>s \<noteq> []\<close>] e by simp
    then show ?thesis unfolding s by (simp add: sublist_append)
  qed (simp add: s)
qed

definition short_lines :: "string \<Rightarrow> bool" where
  \<comment> \<open>no stretch of 511 characters without a newline\<close>
  "short_lines s \<longleftrightarrow> (\<forall>l. sublist l s \<longrightarrow> CHR 0x0A \<notin> set l \<longrightarrow> length l < 511)"

lemma read_all_finds:
  assumes "CHR 0x0A \<notin> set p"
  shows "short_lines s \<Longrightarrow> p \<noteq> [] \<Longrightarrow> sublist p s \<longleftrightarrow> (\<exists>buf\<in>set (read_all s). sublist p buf)"
proof (induction s rule: read_all.induct)
  case (1 s)
  show ?case
  proof (cases "s = []")
    case True
    then show ?thesis using 1(3) by (simp add: read_all.simps)
  next
    case False
    obtain b r where e: "fgets 511 s = (b, r)" by fastforce
    have s: "s = b @ r" using e by (rule fgets_split)
    have "sublist b s" "sublist r s" by (simp_all add: s sublist_append)
    then have short: "short_lines r" "CHR 0x0A \<notin> set b \<Longrightarrow> length b < 511"
      using 1(2) by (auto simp: short_lines_def intro: sublist_order.order_trans)
    have "sublist p s \<longleftrightarrow> sublist p b \<or> sublist p r"
      using fgets_shape [OF e]
    proof (elim disjE exE conjE)
      fix l
      assume "b = l @ [CHR 0x0A]"
      then show ?thesis using sublist_line [OF assms, of l r] s by simp
    qed (use s short(2) 1(3) in auto)
    moreover have "sublist p r \<longleftrightarrow> (\<exists>buf\<in>set (read_all r). sublist p buf)"
      using 1(1) [OF False e [symmetric]] short(1) 1(3) by simp
    ultimately show ?thesis using False e by (simp add: read_all.simps [of s])
  qed
qed

lemma ckpt_each_batch:
  assumes "\<And>h h' argv w. exec ce h argv = exec ce h' argv \<and> effect ce h argv w = effect ce h' argv w"
  shows "ckpt_each ce args h ws =
    (length (filter (\<lambda>(env, _). exec ce h0 (argv_of ce args env) \<noteq> 0) ws),
     map (\<lambda>(env, w). (env, effect ce h0 (argv_of ce args env) w)) ws,
     h @ map (\<lambda>(env, _). [argv_of ce args env]) ws)"
proof (induction ws arbitrary: h)
  case (Cons x ws)
  obtain env w where "x = (env, w)" by fastforce
  moreover have "exec ce h argv = exec ce h0 argv" "effect ce h argv w = effect ce h0 argv w" for argv using assms by blast+
  ultimately show ?case using Cons by (simp add: Let_def)
qed simp

section \<open>Properties\<close>

text \<open>The probe for \<open>--action\<close> never reports an option the help text does not have, and it finds the option
  wherever it stands, as long as the text has no null byte and no line of 511 characters or more.\<close>

theorem probe_decides:
  assumes "g_path \<noteq> ''''" "popen (''\"'' @ g_path @ ''\" --help 2>&1'') = Some out"
  shows "(detect_action_mode_support g_path popen \<longrightarrow> sublist ''--action'' out) \<and>
    (short_lines out \<and> CHR 0x00 \<notin> set out \<longrightarrow> (detect_action_mode_support g_path popen \<longleftrightarrow> sublist ''--action'' out))"
proof -
  have d: "detect_action_mode_support g_path popen \<longleftrightarrow> (\<exists>buf\<in>set (read_all out). strstr buf ''--action'')"
    using assms by (simp add: detect_action_mode_support_def list_ex_iff)
  have "sublist (takeWhile (\<lambda>c. c \<noteq> CHR 0x00) buf) out" if "buf \<in> set (read_all out)" for buf
    using read_all_sublist [OF that] by (meson sublist_order.order_trans sublist_takeWhile)
  then have 1: "detect_action_mode_support g_path popen \<longrightarrow> sublist ''--action'' out"
    unfolding d strstr_def by (meson sublist_order.order_trans)
  have "strstr buf ''--action'' \<longleftrightarrow> sublist ''--action'' buf" if "CHR 0x00 \<notin> set out" "buf \<in> set (read_all out)" for buf
  proof -
    have "CHR 0x00 \<notin> set buf" using set_mono_sublist [OF read_all_sublist [OF that(2)]] that(1) by blast
    then have "takeWhile (\<lambda>c. c \<noteq> CHR 0x00) buf = buf" by (auto simp: takeWhile_eq_all_conv)
    then show ?thesis unfolding strstr_def by (rule arg_cong)
  qed
  then have "detect_action_mode_support g_path popen \<longleftrightarrow> sublist ''--action'' out" if "short_lines out" "CHR 0x00 \<notin> set out"
    using read_all_finds [of "''--action''" out] that d by auto
  with 1 show ?thesis by blast
qed

lemma short_lines_short: "length s < 511 \<Longrightarrow> short_lines s"
  by (auto simp: short_lines_def dest: sublist_length_le)

theorem probe_decides_witness:
  "detect_action_mode_support ''/c'' (\<lambda>cmd. if cmd = ''\"/c\" --help 2>&1'' then Some ''--toggle --action x'' else None)"
proof -
  have "sublist ''--action'' ''--toggle --action x''" by code_simp
  then show ?thesis
    using probe_decides [of "''/c''" "\<lambda>cmd. if cmd = ''\"/c\" --help 2>&1'' then Some ''--toggle --action x'' else None" "''--toggle --action x''"]
      short_lines_short [of "''--toggle --action x''"] by simp
qed

text \<open>An option that straddles the end of the buffer is missed.\<close>

lemma probe_misses_split_option:
  "sublist ''--action'' (replicate 508 (CHR ''x'') @ ''--action'') \<and>
   \<not> detect_action_mode_support ''/c'' (\<lambda>_. Some (replicate 508 (CHR ''x'') @ ''--action''))"
proof
  show "sublist ''--action'' (replicate 508 (CHR ''x'') @ ''--action'')" by (simp add: sublist_append)
  show "\<not> detect_action_mode_support ''/c'' (\<lambda>_. Some (replicate 508 (CHR ''x'') @ ''--action''))" by code_simp
qed

text \<open>Running \<open>cuda-checkpoint\<close> on all workers in parallel is the same as running it on one after the other,
  with the same commands, failures and effects, if the tool does to a process what it does whatever
  was run before.\<close>

theorem parallel_runs_like_sequential:
  assumes "\<And>h h' argv w. exec ce h argv = exec ce h' argv \<and> effect ce h argv w = effect ce h' argv w"
  shows "fst (cuda_ckpt_all_parallel ce args st) = fst (cuda_ckpt_all ce args st) \<and>
    workers (snd (cuda_ckpt_all_parallel ce args st)) = workers (snd (cuda_ckpt_all ce args st)) \<and>
    concat (runs (snd (cuda_ckpt_all_parallel ce args st))) = concat (runs (snd (cuda_ckpt_all ce args st)))"
proof -
  have "concat (map (\<lambda>(env, _). [argv_of ce args env]) ws) = map (\<lambda>(env, _). argv_of ce args env) ws" for ws :: "(worker_env \<times> cworker) list"
    by (induction ws) auto
  then show ?thesis
    using ckpt_each_batch [OF assms, of args "runs st" "workers st" "runs st"]
    by (simp add: cuda_ckpt_all_def cuda_ckpt_all_parallel_def)
qed

theorem parallel_runs_like_sequential_witness:
  "fst (cuda_ckpt_all_parallel (sample_coord_env\<lparr>exec := cuda_ckpt_run (\<lambda>_ _. Signalled), effect := \<lambda>_ _ w. w\<rparr>) ''--toggle'' sample_coord) =
   fst (cuda_ckpt_all (sample_coord_env\<lparr>exec := cuda_ckpt_run (\<lambda>_ _. Signalled), effect := \<lambda>_ _ w. w\<rparr>) ''--toggle'' sample_coord)"
  using parallel_runs_like_sequential [of "sample_coord_env\<lparr>exec := cuda_ckpt_run (\<lambda>_ _. Signalled), effect := \<lambda>_ _ w. w\<rparr>" "''--toggle''" sample_coord]
  by (simp add: cuda_ckpt_run_def)

lemma open_worker_shm_name:
  "open_worker_shm (EXPORT_FILE_PATH e) (\<lambda>_. True) (\<lambda>_. True) i = Some (shm_name e i)"
  by (simp add: open_worker_shm_def shm_name_def Let_def split: option.split)

lemma upt_shift_eq: "0 < n \<Longrightarrow> {0..<n} = {c..<c + n} \<longleftrightarrow> c = (0::nat)"
  by (auto simp: set_eq_iff)

text \<open>C36: the coordinator opens the files of the identifiers below the number of workers.  These are the files
  of the workers exactly when the counter the identifiers come from was at zero; when it was not below
  the number of workers, the exchange reaches none of them: every peer block stays as it was.\<close>

theorem exchange_needs_fresh_counter:
  assumes "init_all ws counter = Inr (counter', ps)" "\<forall>(env, p) \<in> set ws. \<not> CR_initialized p" "ws \<noteq> []"
  shows "((\<lambda>i. the (open_worker_shm (EXPORT_FILE_PATH e) (\<lambda>_. True) (\<lambda>_. True) i)) ` {0..<length ps} = (shm_name e \<circ> cr_id) ` set ps \<longleftrightarrow> counter = 0) \<and>
    (length ps \<le> counter \<longrightarrow>
      (\<forall>ce st. map (wp \<circ> snd) (workers st) = ps \<and> (\<forall>i < length ps. shm_opens ce i) \<longrightarrow> exchange_ipc_export_info ce st = Inr st))"
proof -
  have i: "map cr_id ps = [counter..<counter + length ws]" using init_all_workers [OF assms(1,2)] by (elim conjE)
  have n: "length ps = length ws" using arg_cong [OF i, of length] by simp
  have ids: "cr_id ` set ps = {counter..<counter + length ps}" using arg_cong [OF i, of set] n by simp
  have inj: "inj (shm_name e)" by (simp add: inj_def)
  have "(\<lambda>i. the (open_worker_shm (EXPORT_FILE_PATH e) (\<lambda>_. True) (\<lambda>_. True) i)) ` {0..<length ps} = shm_name e ` {0..<length ps}"
    by (simp add: open_worker_shm_name)
  moreover have "(shm_name e \<circ> cr_id) ` set ps = shm_name e ` {counter..<counter + length ps}"
    using ids by (metis image_comp)
  ultimately have 1: "(\<lambda>i. the (open_worker_shm (EXPORT_FILE_PATH e) (\<lambda>_. True) (\<lambda>_. True) i)) ` {0..<length ps} = (shm_name e \<circ> cr_id) ` set ps \<longleftrightarrow> counter = 0"
    using upt_shift_eq [of "length ps" counter] assms(3) n by (simp add: inj_image_eq_iff [OF inj])
  have "exchange_ipc_export_info ce st = Inr st"
    if c: "length ps \<le> counter" and st: "map (wp \<circ> snd) (workers st) = ps" and o: "\<forall>i < length ps. shm_opens ce i" for ce st
  proof -
    have l: "length (workers st) = length ps" using st by (metis length_map)
    have "receive_block blocks (length (workers st)) w = w" if w: "(env, w) \<in> set (workers st)" for env w blocks
    proof -
      have "wp w \<in> set ps" using st w by force
      then have "counter \<le> cr_id (wp w)" using ids by force
      then show ?thesis using c l by (simp add: receive_block_def Let_def)
    qed
    then have "map (\<lambda>(env, w). (env, receive_block (my_block_of ce (workers st)) (length (workers st)) w)) (workers st) = workers st"
      by (intro map_idI) auto
    then show ?thesis using o l by (auto simp: exchange_ipc_export_info_def Let_def)
  qed
  with 1 show ?thesis by blast
qed

theorem exchange_needs_fresh_counter_witness:
  "\<exists>p. init_all [(sample_cr_env, sample_process\<lparr>CR_initialized := False\<rparr>)] 1 = Inr (2, [p]) \<and>
     exchange_ipc_export_info sample_coord_env
       \<lparr>workers = [(\<lparr>we_cr = sample_cr_env, we_ipc = sample_env\<rparr>, \<lparr>wp = p, wi = sample_worker\<rparr>)], next_id = 2, runs = []\<rparr> =
     Inr \<lparr>workers = [(\<lparr>we_cr = sample_cr_env, we_ipc = sample_env\<rparr>, \<lparr>wp = p, wi = sample_worker\<rparr>)], next_id = 2, runs = []\<rparr>"
proof -
  have "createGPU False (Some ''cuda'') = Inr NVIDIA" by code_simp
  then have "\<exists>p. cr_signal_handler sample_cr_env CR_INIT_SIGNAL 1 (sample_process\<lparr>CR_initialized := False\<rparr>) = Inr (Suc 1, p)"
    using counting_vmm_contract(2) by (intro init_total) (simp_all add: sample_cr_env_def)
  then obtain p where 1: "init_all [(sample_cr_env, sample_process\<lparr>CR_initialized := False\<rparr>)] 1 = Inr (2, [p])" by (auto simp: numeral_2_eq_2)
  have "\<forall>i. shm_opens sample_coord_env i" by (simp add: sample_coord_env_def)
  with exchange_needs_fresh_counter [OF 1] 1 show ?thesis by (intro exI [of _ p]) simp
qed

end
