(* ===== verification/Fd_Server.thy ===== *)
theory Fd_Server
  imports Fd_Exchange
begin

text \<open>
  The thread of the descriptor server (\<open>uds_server_thread\<close> in \<open>src/ipc_fd_exchange.cpp\<close>) and the copy of one
  descriptor by \<open>pidfd_getfd\<close>.  A run of the thread is a function of what each iteration finds: the flag
  \<open>running\<close>, the outcome of \<open>accept\<close> with its timeout, and the bytes the client sends.  A request is read
  as bytes, and the theory shows that what the client writes is what the server reads
  (\<open>serve_request\<close> of the theory \<open>Fd_Exchange\<close>).  A \<open>recv\<close> that waits for bytes that never come is the value
  \<open>Blocked\<close>.
\<close>

section \<open>Numbers as bytes\<close>

definition le32 :: "byte list \<Rightarrow> int" where
  \<comment> \<open>an \<open>int\<close> in memory, little-endian\<close>
  "le32 bs = signed_take_bit 31 (foldr (\<lambda>b acc. uint b + 256 * acc) bs 0)"

definition put32 :: "int \<Rightarrow> byte list" where
  "put32 i = [word_of_int i, word_of_int (i div 256), word_of_int (i div 65536), word_of_int (i div 16777216)]"

fun ints :: "byte list \<Rightarrow> int list" where
  "ints (a # b # c # d # r) = le32 [a, b, c, d] # ints r"
| "ints _ = []"

section \<open>The thread\<close>

datatype accept_outcome =
    Timeout
  | AcceptFailed
  | Conn "byte list" bool \<comment> \<open>what the client sends, and whether it then closes its end\<close>

datatype thread_end = Looping | Exited | Blocked

type_synonym answer = "(int \<times> nat list option) option" \<comment> \<open>as in \<open>serve_request\<close>\<close>

definition recv_all :: "nat \<Rightarrow> byte list \<Rightarrow> bool \<Rightarrow> (byte list \<times> byte list) option" where
  \<comment> \<open>\<open>recv\<close> with \<open>MSG_WAITALL\<close>: short only at the end of the stream\<close>
  "recv_all n bs closed =
     (if n \<le> length bs then Some (take n bs, drop n bs) else if closed then Some (bs, []) else None)"

definition handle_connection :: "fd_table \<Rightarrow> byte list \<Rightarrow> bool \<Rightarrow> answer option" where
  "handle_connection t bs closed =
     (case recv_all 4 bs closed of
        None \<Rightarrow> None
      | Some (head, rest) \<Rightarrow>
          if length head \<noteq> 4 \<or> le32 head \<le> 0 \<or> int UDS_MAX_FDS < le32 head then Some None
          else case recv_all (4 * nat (le32 head)) rest closed of
            None \<Rightarrow> None
          | Some (body, _) \<Rightarrow>
              if length body \<noteq> 4 * nat (le32 head) then Some None
              else Some (serve_request t (le32 head) (ints body)))"

fun uds_server_thread :: "nat \<Rightarrow> (bool \<times> accept_outcome \<times> bool) list \<Rightarrow> fd_table \<Rightarrow> answer list \<times> fd_table \<times> thread_end" where
  \<comment> \<open>per iteration: the flag at the head of the loop, \<open>accept\<close>, and the flag after a failed \<open>accept\<close>; \<open>sock\<close> is
     the file behind an accepted connection\<close>
  "uds_server_thread sock [] t = ([], t, Looping)"
| "uds_server_thread sock ((run, out, run') # evs) t =
     (if \<not> run then ([], t, Exited)
      else case out of
        Timeout \<Rightarrow> uds_server_thread sock evs t
      | AcceptFailed \<Rightarrow> if \<not> run' then ([], t, Exited) else uds_server_thread sock evs t
      | Conn bs closed \<Rightarrow>
          (case install sock t of (conn_fd, t1) \<Rightarrow>
           case handle_connection t1 bs closed of
             None \<Rightarrow> ([], t1, Blocked)
           | Some ans \<Rightarrow> (case uds_server_thread sock evs (close_fd conn_fd t1) of (answers, r) \<Rightarrow> (ans # answers, r))))"

definition request :: "int list \<Rightarrow> byte list" where
  \<comment> \<open>what \<open>uds_receive_fds\<close> sends\<close>
  "request fds = put32 (int (length fds)) @ concat (map put32 fds)"

section \<open>Copying one descriptor\<close>

definition pidfd_copy_fd :: "(nat \<Rightarrow> fd_table option) \<Rightarrow> bool \<Rightarrow> nat \<Rightarrow> int \<Rightarrow> nat \<Rightarrow> fd_table \<Rightarrow> int \<times> fd_table" where
  \<comment> \<open>\<open>procs\<close>: the tables of the processes; \<open>allowed\<close>: \<open>pidfd_getfd\<close> is permitted; \<open>pidf\<close>: the file behind the \<open>pidfd\<close>\<close>
  "pidfd_copy_fd procs allowed target_pid target_fd pidf t =
     (case procs target_pid of
        None \<Rightarrow> (-1, t)
      | Some peer \<Rightarrow> (case install pidf t of (pidfd, t1) \<Rightarrow>
          case (if allowed then open_file peer target_fd else None) of
            None \<Rightarrow> (-1, close_fd pidfd t1)
          | Some f \<Rightarrow> (case install f t1 of (local_fd, t2) \<Rightarrow> (local_fd, close_fd pidfd t2))))"

section \<open>Lemmas\<close>

lemma le32_put32:
  assumes "- (2 ^ 31) \<le> i" "i < 2 ^ 31"
  shows "le32 (put32 i) = i"
proof -
  have "foldr (\<lambda>b acc. uint b + 256 * acc) (put32 i) 0 =
      i mod 256 + 256 * (i div 256 mod 256 + 256 * (i div 65536 mod 256 + 256 * (i div 16777216 mod 256)))"
    by (simp add: put32_def uint_word_of_int)
  also have "\<dots> = i mod 2 ^ 32"
  proof -
    have 1: "i mod 4294967296 = 256 * (i div 256 mod 16777216) + i mod 256" using zmod_zmult2_eq [of 16777216 i 256] by simp
    have 2: "i div 256 mod 16777216 = 256 * (i div 65536 mod 65536) + i div 256 mod 256"
      using zmod_zmult2_eq [of 65536 "i div 256" 256] zdiv_zmult2_eq [of 256 i 256] by simp
    have 3: "i div 65536 mod 65536 = 256 * (i div 16777216 mod 256) + i div 65536 mod 256"
      using zmod_zmult2_eq [of 256 "i div 65536" 256] zdiv_zmult2_eq [of 256 i 65536] by simp
    have "(2::int) ^ 32 = 4294967296" by simp
    then show ?thesis unfolding 1 2 3 by (simp only: 1 2 3 add.commute)
  qed
  finally have "le32 (put32 i) = signed_take_bit 31 (take_bit 32 i)" by (simp add: le32_def take_bit_eq_mod)
  then show ?thesis using assms by (simp add: signed_take_bit_take_bit signed_take_bit_int_eq_self)
qed

definition int_range :: "int \<Rightarrow> bool" where
  "int_range i \<longleftrightarrow> - (2 ^ 31) \<le> i \<and> i < 2 ^ 31"

lemma ints_put32: "\<forall>i\<in>set xs. int_range i \<Longrightarrow> ints (concat (map put32 xs)) = xs"
proof (induction xs)
  case (Cons i xs)
  then show ?case using le32_put32 [of i] by (simp add: put32_def int_range_def)
qed simp

lemma length_put32 [simp]: "length (put32 i) = 4"
  by (simp add: put32_def)

lemma length_puts [simp]: "length (concat (map put32 xs)) = 4 * length xs"
  by (induction xs) simp_all

definition valid_request :: "int list \<Rightarrow> bool" where
  "valid_request fds \<longleftrightarrow> fds \<noteq> [] \<and> length fds \<le> UDS_MAX_FDS \<and> (\<forall>fd\<in>set fds. int_range fd)"

lemma handle_request:
  assumes "valid_request fds"
  shows "handle_connection t (request fds) closed = Some (serve_request t (int (length fds)) fds)"
proof -
  have n: "le32 (put32 (int (length fds))) = int (length fds)"
    using assms by (intro le32_put32) (simp_all add: valid_request_def UDS_MAX_FDS_def)
  have h: "recv_all 4 (request fds) closed = Some (put32 (int (length fds)), concat (map put32 fds))"
    by (simp add: recv_all_def request_def)
  have b: "recv_all (4 * length fds) (concat (map put32 fds)) closed = Some (concat (map put32 fds), [])"
    by (simp add: recv_all_def)
  show ?thesis
    using assms ints_put32 [of fds] by (simp add: handle_connection_def h n b valid_request_def)
qed

lemma handle_closed: "\<exists>ans. handle_connection t bs True = Some ans"
  by (auto simp: handle_connection_def recv_all_def)

lemma open_file_close: "open_file (close_fd fd t) = (open_file t)(fd := None)"
  by (auto simp: close_fd_def open_file_def fun_eq_iff nth_list_update)

lemma accept_close:
  assumes "install f t = (fd, t1)"
  shows "open_file (close_fd fd t1) = open_file t"
  using install_open [OF assms] by (auto simp: open_file_close fun_eq_iff)

lemma serve_open:
  assumes "install f t = (fd, t1)" "valid_request fds" "\<forall>x\<in>set fds. open_file t x \<noteq> None"
  shows "serve_request t1 (int (length fds)) fds = Some (int (length fds), Some (map (\<lambda>x. the (open_file t x)) fds))"
proof -
  have "\<forall>x\<in>set fds. open_file t1 x = open_file t x" using install_open [OF assms(1)] assms(3) by auto
  then show ?thesis using assms(2,3) by (auto simp: serve_request_def send_fds_def valid_request_def)
qed

definition connections :: "(bool \<times> accept_outcome \<times> bool) list \<Rightarrow> (byte list \<times> bool) list" where
  "connections evs = List.map_filter (\<lambda>(_, out, _). case out of Conn bs closed \<Rightarrow> Some (bs, closed) | _ \<Rightarrow> None) evs"

definition client_behaves :: "bool \<times> accept_outcome \<times> bool \<Rightarrow> bool" where
  \<comment> \<open>the server is running, and a client closes its end or sends a whole request\<close>
  "client_behaves ev \<longleftrightarrow> (case ev of (run, out, run') \<Rightarrow> run \<and> run' \<and>
     (\<forall>bs. out = Conn bs False \<longrightarrow> (\<exists>fds. valid_request fds \<and> bs = request fds)))"

definition expected :: "fd_table \<Rightarrow> byte list \<times> bool \<Rightarrow> answer \<Rightarrow> bool" where
  "expected t c ans \<longleftrightarrow> (\<forall>fds. valid_request fds \<and> (\<forall>x\<in>set fds. open_file t x \<noteq> None) \<and> fst c = request fds \<longrightarrow>
     ans = Some (int (length fds), Some (map (\<lambda>x. the (open_file t x)) fds)))"

lemma connections_simps [simp]:
  "connections [] = []" "connections ((run, Conn bs c, run') # evs) = (bs, c) # connections evs"
  "connections ((run, Timeout, run') # evs) = connections evs" "connections ((run, AcceptFailed, run') # evs) = connections evs"
  by (simp_all add: connections_def List.map_filter_simps)

lemma connection_answered:
  assumes "install sock t = (fd, t1)" "client_behaves (run, Conn bs closed, run')"
  shows "\<exists>ans. handle_connection t1 bs closed = Some ans \<and> expected t (bs, closed) ans"
proof -
  have "\<exists>ans. handle_connection t1 bs closed = Some ans"
  proof (cases closed)
    case True
    then show ?thesis using handle_closed by simp
  next
    case False
    then obtain fds where "valid_request fds" "bs = request fds" using assms(2) by (auto simp: client_behaves_def)
    then show ?thesis by (simp add: handle_request)
  qed
  moreover have "expected t (bs, closed) ans" if "handle_connection t1 bs closed = Some ans" for ans
    using that serve_open [OF assms(1)] by (auto simp: expected_def handle_request)
  ultimately show ?thesis by blast
qed

lemma server_keeps_serving:
  "\<forall>ev\<in>set evs. client_behaves ev \<Longrightarrow> open_file t = open_file t0 \<Longrightarrow>
   \<exists>answers t'. uds_server_thread sock evs t = (answers, t', Looping) \<and> open_file t' = open_file t0 \<and>
     list_all2 (expected t0) (connections evs) answers"
proof (induction sock evs t rule: uds_server_thread.induct)
  case (2 sock run out run' evs t)
  have r: "run" "run'" using "2.prems"(1) by (simp_all add: client_behaves_def)
  show ?case
  proof (cases out)
    case (Conn bs closed)
    obtain fd t1 where i: "install sock t = (fd, t1)" by fastforce
    have e: "expected t = expected t0" using "2.prems"(2) by (simp add: expected_def fun_eq_iff)
    obtain ans where a: "handle_connection t1 bs closed = Some ans" "expected t0 (bs, closed) ans"
      using connection_answered [OF i] "2.prems"(1) Conn e by fastforce
    obtain answers t' where "uds_server_thread sock evs (close_fd fd t1) = (answers, t', Looping)" "open_file t' = open_file t0"
      "list_all2 (expected t0) (connections evs) answers"
      using "2.IH"(3) [OF _ Conn i [symmetric] a(1)] "2.prems" r accept_close [OF i] by fastforce
    then show ?thesis using Conn r i a by simp
  qed (use 2 r in simp_all)
qed simp

section \<open>Theorems\<close>

text \<open>C35: the server thread answers every request and leaves nothing open.  Over any sequence of timeouts,
  failed accepts and connections whose clients send a whole request or close their end, it keeps
  running, gives one answer per connection, and closes each connection: its descriptors at the end are
  those of the start.  A request for one to 64 open descriptors, as \<open>uds_receive_fds\<close> writes it in bytes,
  is answered with their files in order; malformed requests before or after it change nothing.\<close>

theorem server_answers_all:
  assumes "\<forall>ev\<in>set evs. client_behaves ev"
  shows "\<exists>answers t'. uds_server_thread sock evs t = (answers, t', Looping) \<and> open_file t' = open_file t \<and>
    list_all2 (expected t) (connections evs) answers"
  using server_keeps_serving [OF assms refl] by simp

theorem server_answers_all_witness:
  "\<exists>answers t'. uds_server_thread 99 [(True, Timeout, True), (True, Conn [1, 2] True, True), (True, Conn (request [1]) False, True)] [None, Some 7] =
     (answers, t', Looping) \<and> length answers = 2 \<and> answers ! 1 = Some (1, Some [7])"
proof -
  have v: "valid_request [1]" by (simp add: valid_request_def UDS_MAX_FDS_def int_range_def)
  let ?evs = "[(True, Timeout, True), (True, Conn [1, 2] True, True), (True, Conn (request [1]) False, True)]"
  have "\<forall>ev\<in>set ?evs. client_behaves ev" using v by (auto simp: client_behaves_def)
  from server_answers_all [OF this, of 99 "[None, Some 7]"] obtain answers t' where
    1: "uds_server_thread 99 ?evs [None, Some 7] = (answers, t', Looping)" "list_all2 (expected [None, Some 7]) (connections ?evs) answers" by blast
  then obtain a b where "answers = [a, b]" "expected [None, Some 7] (request [1], False) b" by (auto simp: list_all2_Cons1)
  then have "length answers = 2" "answers ! 1 = Some (1, Some [7])"
    using v unfolding expected_def by (auto dest!: spec [of _ "[1]"] simp: open_file_def)
  with 1(1) show ?thesis by blast
qed

text \<open>The flag \<open>running\<close> ends the thread at its next iteration.\<close>

lemma server_stops: "snd (snd (uds_server_thread sock ((False, out, run') # evs) t)) = Exited"
  by simp

text \<open>A client that connects, sends less than a request and stays keeps the thread in \<open>recv\<close> for ever:
  whatever happens afterwards, the flag \<open>running\<close> included, it never exits and answers nobody.\<close>

theorem silent_client_blocks_server:
  assumes "length bs < 4"
  shows "uds_server_thread sock ((True, Conn bs False, r) # evs) t = ([], snd (install sock t), Blocked)"
  using assms by (simp add: handle_connection_def recv_all_def split: prod.split)

theorem silent_client_blocks_server_witness:
  "snd (snd (uds_server_thread 99 [(True, Conn [] False, True), (False, Timeout, False)] [])) = Blocked"
  using silent_client_blocks_server [of "[]" 99 True "[(False, Timeout, False)]" "[]"] by simp

text \<open>Copying a descriptor of another process gives a new descriptor for the same file and changes no
  other one, or fails and changes none.\<close>

lemma pidfd_copy:
  assumes "pidfd_copy_fd procs allowed pid fd pidf t = (r, t')"
  shows "(r = -1 \<and> open_file t' = open_file t) \<or>
    (\<exists>peer f. procs pid = Some peer \<and> open_file peer fd = Some f \<and> 0 \<le> r \<and> open_file t r = None \<and> open_file t' = (open_file t)(r \<mapsto> f))"
proof (cases "procs pid")
  case (Some peer)
  obtain pfd t1 where i: "install pidf t = (pfd, t1)" by fastforce
  show ?thesis
  proof (cases "if allowed then open_file peer fd else None")
    case None
    then show ?thesis using assms Some i accept_close [OF i] by (simp add: pidfd_copy_fd_def)
  next
    case f: (Some f)
    obtain l t2 where j: "install f t1 = (l, t2)" by fastforce
    have "r = l" "t' = close_fd pfd t2" using assms Some i f j by (simp_all add: pidfd_copy_fd_def)
    moreover have "l \<noteq> pfd" using install_open [OF i] install_open [OF j] by auto
    ultimately have "0 \<le> r" "open_file t r = None" "open_file t' = (open_file t)(r \<mapsto> f)"
      using install_open [OF i] install_open [OF j] by (auto simp: open_file_close fun_eq_iff)
    then show ?thesis using Some f by (auto split: if_splits)
  qed
qed (use assms in \<open>simp add: pidfd_copy_fd_def\<close>)

end
