(* ===== verification/Gcr_Runtime.thy ===== *)
theory Gcr_Runtime
  imports Ipc_Worker Text_Util
begin

text \<open>
  The checkpoint runtime of the NCCL adapter (\<open>adapters/nccl/runtime/gcr_checkpoint_runtime.cpp\<close>): the
  storage buffers for the data of exports and local allocations with their three backends, and the
  three entry points \<open>gcr_checkpoint_prepare\<close>, \<open>gcr_checkpoint_restore_export\<close> and
  \<open>gcr_checkpoint_restore_import\<close>.  They run the same operations on the tables as the signal handler
  of a worker, but stop at the first failure and return \<open>-1\<close>.  The host keeps a ledger of what the
  process holds (files, descriptors, mappings, pinned blocks), so that a leak is visible.

  Not modelled: the metrics file (\<open>append_runtime_metric\<close>, \<open>env_double\<close>), the timing snapshots and
  the dumps to the error output, none of which is read back.
\<close>

section \<open>The host\<close>

record host =
  storage_dirs :: "string list"
  storage_files :: "string list"
  open_fds :: "int list"
  mappings :: "(nat \<times> nat) list" \<comment> \<open>address and size\<close>
  pinned_blocks :: "nat list"

datatype mkdir_result = Made | EExist | MkdirFailed

record storage_os =
  env_backend :: "string option" \<comment> \<open>\<open>GCR_STORAGE_BACKEND\<close>\<close>
  env_dir :: "string option"     \<comment> \<open>\<open>GCR_STORAGE_DIR\<close>\<close>
  os_getpid :: nat
  os_mkdir :: "string \<Rightarrow> host \<Rightarrow> mkdir_result"
  os_open :: "string \<Rightarrow> host \<Rightarrow> int"
  os_ftruncate :: "string \<Rightarrow> nat \<Rightarrow> bool"
  os_mmap :: "nat \<Rightarrow> host \<Rightarrow> nat option"
  os_host_alloc :: "nat \<Rightarrow> host \<Rightarrow> nat option"
  os_free_host :: "nat \<Rightarrow> bool"
  os_pinned_content :: mem \<comment> \<open>what a pinned block holds when it is new\<close>

section \<open>Storage buffers\<close>

record StorageBuffer =
  sb_ptr :: nat
  sb_size :: nat
  sb_fd :: int
  sb_pinned :: bool
  sb_path :: string
  sb_data :: mem \<comment> \<open>the bytes at \<open>ptr\<close>\<close>

definition empty_buffer :: StorageBuffer where
  "empty_buffer = \<lparr>sb_ptr = 0, sb_size = 0, sb_fd = -1, sb_pinned = False, sb_path = '''', sb_data = \<lambda>_. 0\<rparr>"

definition storage_backend :: "storage_os \<Rightarrow> string" where
  "storage_backend os =
     (case env_backend os of
        None \<Rightarrow> ''anon''
      | Some b \<Rightarrow> if b = '''' then ''anon''
                  else if b = ''anon'' \<or> b = ''pinned'' \<or> b = ''hugepage'' then b else ''anon'')"

definition storage_dir :: "storage_os \<Rightarrow> string" where
  "storage_dir os =
     (case env_dir os of
        Some d \<Rightarrow> if d \<noteq> '''' then d else ''/mnt/huge-ckpt/nccl-gcr''
      | None \<Rightarrow> ''/mnt/huge-ckpt/nccl-gcr'')"

definition release_buffer :: "storage_os \<Rightarrow> StorageBuffer \<Rightarrow> host \<Rightarrow> StorageBuffer \<times> host" where
  "release_buffer os buf h =
     (let h1 = (if sb_ptr buf \<noteq> 0 \<and> sb_size buf \<noteq> 0 then
                  if sb_pinned buf then
                    (if os_free_host os (sb_ptr buf) then h\<lparr>pinned_blocks := removeAll (sb_ptr buf) (pinned_blocks h)\<rparr> else h)
                  else h\<lparr>mappings := removeAll (sb_ptr buf, sb_size buf) (mappings h)\<rparr>
                else h);
          h2 = (if 0 \<le> sb_fd buf then h1\<lparr>open_fds := removeAll (sb_fd buf) (open_fds h1)\<rparr> else h1);
          h3 = (if sb_path buf \<noteq> '''' then h2\<lparr>storage_files := removeAll (sb_path buf) (storage_files h2)\<rparr> else h2)
      in (empty_buffer, h3))"

definition ensure_storage_dir :: "storage_os \<Rightarrow> string \<Rightarrow> host \<Rightarrow> int \<times> host" where
  "ensure_storage_dir os dir h =
     (case os_mkdir os dir h of
        Made \<Rightarrow> (0, h\<lparr>storage_dirs := List.insert dir (storage_dirs h)\<rparr>)
      | EExist \<Rightarrow> (0, h)
      | MkdirFailed \<Rightarrow> (-1, h))"

definition storage_path :: "storage_os \<Rightarrow> string \<Rightarrow> nat \<Rightarrow> string" where
  \<comment> \<open>\<open>snprintf\<close> into 512 bytes\<close>
  "storage_path os name seq =
     take 511 (storage_dir os @ ''/'' @ name @ ''-'' @ digits (os_getpid os) @ ''-'' @ digits seq @ ''.bin'')"

definition map_storage :: "storage_os \<Rightarrow> nat \<Rightarrow> int \<Rightarrow> string \<Rightarrow> host \<Rightarrow> int \<times> StorageBuffer \<times> host" where
  \<comment> \<open>the end of \<open>allocate_buffer\<close>: \<open>mmap\<close> of the file, or of anonymous memory where \<open>fd\<close> is \<open>-1\<close>\<close>
  "map_storage os needed fd path h =
     (case os_mmap os needed h of
        None \<Rightarrow> (-1, empty_buffer,
                 if 0 \<le> fd then h\<lparr>open_fds := removeAll fd (open_fds h), storage_files := removeAll path (storage_files h)\<rparr> else h)
      | Some p \<Rightarrow> (0, empty_buffer\<lparr>sb_ptr := p, sb_size := needed, sb_fd := fd, sb_path := path\<rparr>,
                   h\<lparr>mappings := (p, needed) # mappings h\<rparr>))"

definition allocate_buffer ::
    "storage_os \<Rightarrow> StorageBuffer \<Rightarrow> nat \<Rightarrow> string \<Rightarrow> nat \<times> host \<Rightarrow> int \<times> StorageBuffer \<times> nat \<times> host" where
  \<comment> \<open>the counter \<open>g_storage_file_seq\<close> is threaded through\<close>
  "allocate_buffer os buf needed name sh =
     (case sh of (seq, h0) \<Rightarrow> case release_buffer os buf h0 of (b, h) \<Rightarrow>
      if needed = 0 then (0, b, seq, h)
      else if storage_backend os = ''pinned'' then
        (case os_host_alloc os needed h of
           None \<Rightarrow> (-1, b, seq, h)
         | Some p \<Rightarrow> (0, b\<lparr>sb_ptr := p, sb_size := needed, sb_pinned := True, sb_data := os_pinned_content os\<rparr>,
                      seq, h\<lparr>pinned_blocks := p # pinned_blocks h\<rparr>))
      else if storage_backend os = ''hugepage'' then
        (case ensure_storage_dir os (storage_dir os) h of (r, h1) \<Rightarrow>
           if r \<noteq> 0 then (-1, b, seq, h1)
           else let path = storage_path os name seq; fd = os_open os path h1 in
             if fd < 0 then (-1, b, seq + 1, h1)
             else let h2 = h1\<lparr>open_fds := fd # open_fds h1, storage_files := path # storage_files h1\<rparr> in
               if \<not> os_ftruncate os path needed
               then (-1, b, seq + 1, h2\<lparr>open_fds := removeAll fd (open_fds h2), storage_files := removeAll path (storage_files h2)\<rparr>)
               else (case map_storage os needed fd path h2 of (r, b', h') \<Rightarrow> (r, b', seq + 1, h')))
      else (case map_storage os needed (-1) '''' h of (r, b', h') \<Rightarrow> (r, b', seq, h')))"

definition env_int :: "string option \<Rightarrow> int \<Rightarrow> int" where
  \<comment> \<open>\<open>strtol\<close> has to read all of the value\<close>
  "env_int v fallback =
     (case v of
        None \<Rightarrow> fallback
      | Some s \<Rightarrow>
          (let t = dropWhile is_space s;
               u = (if t \<noteq> [] \<and> (hd t = CHR ''-'' \<or> hd t = CHR ''+'') then tl t else t)
           in if u = [] \<or> \<not> list_all is_digit u then fallback else atoi s))"

section \<open>State of the runtime\<close>

record gcr =
  rt_ipc :: ipc_state
  rt_peers :: peer_state
  rt_events :: "IpcEventRecord list"
  rt_server :: UdsServerCtx
  rt_fd_tab :: fd_table
  g_prepared :: bool
  g_export_data :: StorageBuffer
  g_local_alloc_data :: StorageBuffer
  g_storage_file_seq :: nat
  rt_host :: host
  rt_shm :: "string \<Rightarrow> IpcRebuildShmBlock option" \<comment> \<open>the block files by path\<close>

record gcr_env =
  n_lib :: cu_lib
  n_rt :: cuda_rt
  n_os :: storage_os
  n_sync :: bool \<comment> \<open>\<open>cudaDeviceSynchronize\<close> succeeds\<close>
  n_pid :: int
  n_start :: start_outcome
  n_rcv :: "fd_table \<Rightarrow> int \<Rightarrow> int list \<Rightarrow> int \<times> int list \<times> fd_table"
  n_export_path :: "string option" \<comment> \<open>\<open>GCR_EXPORT_SHM_PATH\<close>\<close>
  n_import_path :: "string option" \<comment> \<open>\<open>GCR_IMPORT_SHM_PATH\<close>\<close>
  n_stop_server :: "string option" \<comment> \<open>\<open>GCR_STOP_FD_SERVER_AFTER_IMPORT\<close>\<close>
  n_shm_open :: "string \<Rightarrow> bool"
  n_shm_ftruncate :: "string \<Rightarrow> bool"
  n_shm_mmap :: "string \<Rightarrow> bool"

definition zero_block :: IpcRebuildShmBlock where
  "zero_block = \<lparr>num_exports = 0, entries = \<lambda>_. \<lparr>owner_pid = 0, shm_fd = 0, local_ptr = 0, entry_size = 0, valid = False\<rparr>\<rparr>"

definition map_shm_block ::
    "gcr_env \<Rightarrow> string \<Rightarrow> bool \<Rightarrow> (string \<Rightarrow> IpcRebuildShmBlock option) \<Rightarrow>
     IpcRebuildShmBlock option \<times> (string \<Rightarrow> IpcRebuildShmBlock option)" where
  \<comment> \<open>a file that exists keeps its content, a new one is zero (also one that a failing \<open>ftruncate\<close> left
      empty); \<open>None\<close> stands for the return value \<open>-1\<close>\<close>
  "map_shm_block env path create shm =
     (if \<not> n_shm_open env path \<or> \<not> create \<and> shm path = None then (None, shm)
      else let b = (case shm path of Some b \<Rightarrow> b | None \<Rightarrow> zero_block);
               shm1 = shm(path \<mapsto> b)
      in if create \<and> \<not> n_shm_ftruncate env path then (None, shm1)
      else if \<not> n_shm_mmap env path then (None, shm1)
      else (Some b, shm1))"

section \<open>The entry points\<close>

definition with_storage ::
    "(nat \<Rightarrow> ipc_state \<Rightarrow> int \<times> ipc_state) \<Rightarrow> StorageBuffer \<Rightarrow> ipc_state \<Rightarrow> int \<times> StorageBuffer \<times> ipc_state" where
  \<comment> \<open>\<open>if (buf.ptr && buf.size) n = f(buf.ptr, buf.size);\<close>\<close>
  "with_storage f buf s =
     (if sb_ptr buf \<noteq> 0 \<and> sb_size buf \<noteq> 0
      then case f (sb_size buf) (s\<lparr>hbuf := sb_data buf\<rparr>) of (n, s1) \<Rightarrow> (n, buf\<lparr>sb_data := hbuf s1\<rparr>, s1)
      else (0, buf, s))"

definition save_exports_step :: "gcr_env \<Rightarrow> gcr \<Rightarrow> int \<times> gcr" where
  \<comment> \<open>\<open>allocate_buffer(&g_export_data, ...)\<close> and the saving of the exports\<close>
  "save_exports_step env g =
     (case allocate_buffer (n_os env) (g_export_data g) (ipc_get_export_data_size (rt_ipc g)) ''export''
             (g_storage_file_seq g, rt_host g) of (r, b, seq, h) \<Rightarrow>
      let g1 = g\<lparr>g_export_data := b, g_storage_file_seq := seq, rt_host := h\<rparr> in
      if r \<noteq> 0 then (-1, g1)
      else case with_storage (ipc_save_and_teardown_all_exports (n_lib env)) b (rt_ipc g1) of (n, b', s) \<Rightarrow>
        (if n < 0 then -1 else 0, g1\<lparr>g_export_data := b', rt_ipc := s\<rparr>))"

definition save_locals_step :: "gcr_env \<Rightarrow> gcr \<Rightarrow> int \<times> gcr" where
  "save_locals_step env g =
     (case allocate_buffer (n_os env) (g_local_alloc_data g) (ipc_get_local_alloc_data_size (rt_ipc g)) ''local_cumem''
             (g_storage_file_seq g, rt_host g) of (r, b, seq, h) \<Rightarrow>
      let g1 = g\<lparr>g_local_alloc_data := b, g_storage_file_seq := seq, rt_host := h\<rparr> in
      if r \<noteq> 0 then (-1, g1)
      else case with_storage (ipc_save_and_teardown_local_allocs (n_lib env)) b (rt_ipc g1) of (n, b', s) \<Rightarrow>
        (if n < 0 then -1 else 0, g1\<lparr>g_local_alloc_data := b', rt_ipc := s\<rparr>))"

definition gcr_checkpoint_prepare :: "gcr_env \<Rightarrow> gcr \<Rightarrow> int \<times> gcr" where
  "gcr_checkpoint_prepare env g =
     (if g_prepared g then (0, g)
      else if \<not> n_sync env then (-1, g)
      else case ipc_teardown_all_imports (n_lib env) (rt_ipc g) of (imports, s1) \<Rightarrow>
      let g1 = g\<lparr>rt_ipc := s1\<rparr> in
      if imports < 0 then (-1, g1)
      else case save_exports_step env g1 of (r2, g2) \<Rightarrow>
      if r2 < 0 then (-1, g2)
      else case ipc_teardown_all_events (n_rt env) (rt_events g2, rt_peers g2) of (n, evs, p) \<Rightarrow>
      let g3 = g2\<lparr>rt_events := evs, rt_peers := p\<rparr> in
      if n < 0 then (-1, g3)
      else case save_locals_step env g3 of (r4, g4) \<Rightarrow>
      if r4 < 0 then (-1, g4)
      else (0, g4\<lparr>rt_peers := snd (ipc_disable_all_peer_access (n_rt env) (rt_peers g4)), g_prepared := True\<rparr>))"

definition rebuild_exports_step :: "gcr_env \<Rightarrow> gcr \<Rightarrow> int \<times> gcr" where
  \<comment> \<open>the buffer is released whether or not the rebuild succeeds\<close>
  "rebuild_exports_step env g =
     (if sb_ptr (g_export_data g) \<noteq> 0 \<and> sb_size (g_export_data g) \<noteq> 0
      then case with_storage (ipc_rebuild_and_restore_all_exports (n_lib env)) (g_export_data g) (rt_ipc g) of (n, _, s) \<Rightarrow>
        case release_buffer (n_os env) (g_export_data g) (rt_host g) of (b, h) \<Rightarrow>
          (n, g\<lparr>rt_ipc := s, g_export_data := b, rt_host := h\<rparr>)
      else (0, g))"

definition rebuild_locals_step :: "gcr_env \<Rightarrow> gcr \<Rightarrow> int \<times> gcr" where
  "rebuild_locals_step env g =
     (if sb_ptr (g_local_alloc_data g) \<noteq> 0 \<and> sb_size (g_local_alloc_data g) \<noteq> 0
      then case with_storage (ipc_rebuild_local_allocs (n_lib env)) (g_local_alloc_data g) (rt_ipc g) of (n, _, s) \<Rightarrow>
        case release_buffer (n_os env) (g_local_alloc_data g) (rt_host g) of (b, h) \<Rightarrow>
          (n, g\<lparr>rt_ipc := s, g_local_alloc_data := b, rt_host := h\<rparr>)
      else (0, g))"

definition publish_exports :: "gcr_env \<Rightarrow> gcr \<Rightarrow> int \<times> gcr" where
  \<comment> \<open>the block at \<open>GCR_EXPORT_SHM_PATH\<close>, which may be unset only where there are no exports\<close>
  "publish_exports env g =
     (case n_export_path env of
        Some path \<Rightarrow> if path \<noteq> '''' then
            (case map_shm_block env path True (rt_shm g) of
               (None, shm) \<Rightarrow> (-1, g\<lparr>rt_shm := shm\<rparr>)
             | (Some blk, shm) \<Rightarrow>
                 (case ipc_write_export_info_to_shm (n_pid env) blk (rt_ipc g) of (written, blk') \<Rightarrow>
                    (if written < 0 then -1 else 0, g\<lparr>rt_shm := shm(path \<mapsto> blk')\<rparr>)))
          else if 0 < ipc_get_export_count (rt_ipc g) then (-1, g) else (0, g)
      | None \<Rightarrow> if 0 < ipc_get_export_count (rt_ipc g) then (-1, g) else (0, g))"

definition gcr_checkpoint_restore_export :: "gcr_env \<Rightarrow> gcr \<Rightarrow> int \<times> gcr" where
  "gcr_checkpoint_restore_export env g =
     (case rebuild_exports_step env g of (exports, g1) \<Rightarrow>
      if exports < 0 then (-1, g1)
      else case rebuild_locals_step env g1 of (locals, g2) \<Rightarrow>
      if locals < 0 then (-1, g2)
      else case publish_exports env g2 of (r, g3) \<Rightarrow>
      if r < 0 then (-1, g3)
      else case uds_fd_server_start (n_start env) (rt_server g3) of (r, srv) \<Rightarrow>
      (if r \<noteq> 0 then -1 else 0, g3\<lparr>rt_server := srv\<rparr>))"

definition import_step :: "gcr_env \<Rightarrow> gcr \<Rightarrow> int \<times> gcr" where
  "import_step env g =
     (case n_import_path env of
        Some path \<Rightarrow> if path \<noteq> '''' then
            (case map_shm_block env path False (rt_shm g) of
               (None, shm) \<Rightarrow> (-1, g\<lparr>rt_shm := shm\<rparr>)
             | (Some blk, shm) \<Rightarrow>
                 (case ipc_import_from_shm_block (n_lib env) (n_rcv env) blk (rt_ipc g) (rt_fd_tab g) of (n, s, t) \<Rightarrow>
                    (n, g\<lparr>rt_shm := shm, rt_ipc := s, rt_fd_tab := t\<rparr>)))
          else if 0 < ipc_get_import_count (rt_ipc g) then (-1, g) else (0, g)
      | None \<Rightarrow> if 0 < ipc_get_import_count (rt_ipc g) then (-1, g) else (0, g))"

definition GCR_CKPT_OPT_VALIDATE :: "32 word" where
  "GCR_CKPT_OPT_VALIDATE = 0x0400"

definition gcr_checkpoint_restore_import :: "gcr_env \<Rightarrow> 32 word \<Rightarrow> gcr \<Rightarrow> int \<times> gcr" where
  "gcr_checkpoint_restore_import env flags g =
     (case import_step env g of (imported, g1) \<Rightarrow>
      if imported < 0 then (-1, g1)
      else let g2 = (if env_int (n_stop_server env) 0 \<noteq> 0 then g1\<lparr>rt_server := uds_fd_server_stop (rt_server g1)\<rparr> else g1);
               (errors, s) = (if and flags GCR_CKPT_OPT_VALIDATE \<noteq> 0 then ipc_validate_all_mappings (n_lib env) (rt_ipc g2)
                              else (0, rt_ipc g2));
               g3 = g2\<lparr>rt_ipc := s\<rparr>
      in if errors \<noteq> 0 then (-1, g3)
      else (0, g3\<lparr>rt_peers := snd (ipc_reenable_all_peer_access (n_rt env) (rt_peers g3)), g_prepared := False\<rparr>))"

definition gcr_checkpoint_validate :: "gcr_env \<Rightarrow> gcr \<Rightarrow> int \<times> gcr" where
  "gcr_checkpoint_validate env g =
     (case ipc_validate_all_mappings (n_lib env) (rt_ipc g) of (n, s) \<Rightarrow> (n, g\<lparr>rt_ipc := s\<rparr>))"

section \<open>Storage is given back\<close>

definition same_resources :: "host \<Rightarrow> host \<Rightarrow> bool" where
  \<comment> \<open>all but the directories, which stay\<close>
  "same_resources h h' \<longleftrightarrow> storage_files h' = storage_files h \<and> open_fds h' = open_fds h \<and>
     mappings h' = mappings h \<and> pinned_blocks h' = pinned_blocks h"

definition os_fresh :: "storage_os \<Rightarrow> bool" where
  \<comment> \<open>descriptors, mappings and pinned blocks are new when they are given out, and \<open>cudaFreeHost\<close> succeeds\<close>
  "os_fresh os \<longleftrightarrow> (\<forall>p h. os_open os p h \<notin> set (open_fds h)) \<and>
     (\<forall>n h a. os_mmap os n h = Some a \<longrightarrow> a \<noteq> 0 \<and> (a, n) \<notin> set (mappings h)) \<and>
     (\<forall>n h a. os_host_alloc os n h = Some a \<longrightarrow> a \<noteq> 0 \<and> a \<notin> set (pinned_blocks h)) \<and> (\<forall>a. os_free_host os a)"

definition os_gives :: "storage_os \<Rightarrow> bool" where
  \<comment> \<open>every request of the storage is granted\<close>
  "os_gives os \<longleftrightarrow> (\<forall>d h. os_mkdir os d h \<noteq> MkdirFailed) \<and> (\<forall>p h. 0 \<le> os_open os p h) \<and>
     (\<forall>p n. os_ftruncate os p n) \<and> (\<forall>n h. os_mmap os n h \<noteq> None) \<and> (\<forall>n h. os_host_alloc os n h \<noteq> None)"

lemma same_resources_refl [simp]: "same_resources h h"
  by (simp add: same_resources_def)

lemma same_resources_trans: "same_resources h h1 \<Longrightarrow> same_resources h1 h2 \<Longrightarrow> same_resources h h2"
  by (simp add: same_resources_def)

lemma release_empty [simp]: "release_buffer os empty_buffer h = (empty_buffer, h)"
  by (simp add: release_buffer_def empty_buffer_def)

lemma release_gives_empty [simp]: "fst (release_buffer os buf h) = empty_buffer"
  by (simp add: release_buffer_def Let_def)

lemma map_storage_balanced:
  assumes "os_fresh os" "map_storage os n fd path h1 = (r, b, h')" "n \<noteq> 0"
    and "fd = -1 \<and> path = '''' \<and> h1 = h \<or> 0 \<le> fd \<and> path \<noteq> '''' \<and> fd \<notin> set (open_fds h) \<and> path \<notin> set (storage_files h) \<and>
      h1 = h\<lparr>open_fds := fd # open_fds h, storage_files := path # storage_files h\<rparr>"
  shows "if r = 0 then sb_ptr b \<noteq> 0 \<and> sb_size b = n \<and> same_resources h (snd (release_buffer os b h'))
    else r = -1 \<and> b = empty_buffer \<and> same_resources h h'"
proof -
  have "\<forall>a. os_mmap os n h1 = Some a \<longrightarrow> a \<noteq> 0 \<and> (a, n) \<notin> set (mappings h1)" using assms(1) unfolding os_fresh_def by blast
  then show ?thesis using assms(2-4) by (cases "os_mmap os n h1")
    (auto simp: map_storage_def same_resources_def release_buffer_def Let_def empty_buffer_def)
qed

lemma storage_path_nonempty: "storage_path os name seq \<noteq> ''''"
  by (simp add: storage_path_def)

lemma ensure_storage_dir_resources:
  "ensure_storage_dir os d h = (r, h') \<Longrightarrow> same_resources h h' \<and> storage_files h' = storage_files h"
  by (auto simp: ensure_storage_dir_def same_resources_def split: mkdir_result.splits)

lemma allocate_balanced:
  assumes os: "os_fresh os" and new: "storage_path os name seq \<notin> set (storage_files h)"
    and run: "allocate_buffer os empty_buffer n name (seq, h) = (r, b, seq', h')"
  shows "if r = 0 then (if n = 0 then b = empty_buffer else sb_ptr b \<noteq> 0 \<and> sb_size b = n) \<and>
      same_resources h (snd (release_buffer os b h'))
    else r = -1 \<and> b = empty_buffer \<and> same_resources h h'"
proof (cases "n = 0")
  case True
  then show ?thesis using run by (simp add: allocate_buffer_def)
next
  case False
  consider "storage_backend os = ''pinned''" | "storage_backend os = ''hugepage''"
    | "storage_backend os \<noteq> ''pinned''" "storage_backend os \<noteq> ''hugepage''" by blast
  then show ?thesis
  proof cases
    case 1
    then show ?thesis using False run os
      by (auto simp: allocate_buffer_def same_resources_def release_buffer_def Let_def empty_buffer_def os_fresh_def
          split: option.splits)
  next
    case 2
    let ?path = "storage_path os name seq"
    obtain r1 h1 where 1: "ensure_storage_dir os (storage_dir os) h = (r1, h1)" by fastforce
    note d = ensure_storage_dir_resources [OF 1]
    let ?fd = "os_open os ?path h1"
    let ?h2 = "h1\<lparr>open_fds := ?fd # open_fds h1, storage_files := ?path # storage_files h1\<rparr>"
    obtain r3 b3 h3 where 3: "map_storage os n ?fd ?path ?h2 = (r3, b3, h3)" by (metis prod_cases3)
    have fd: "?fd \<notin> set (open_fds h1)" using os by (simp add: os_fresh_def)
    have "if r3 = 0 then sb_ptr b3 \<noteq> 0 \<and> sb_size b3 = n \<and> same_resources h1 (snd (release_buffer os b3 h3))
        else r3 = -1 \<and> b3 = empty_buffer \<and> same_resources h1 h3" if "0 \<le> ?fd"
      using map_storage_balanced [OF os 3 False, of h1] that fd d new storage_path_nonempty by simp
    then have m: "if r3 = 0 then sb_ptr b3 \<noteq> 0 \<and> sb_size b3 = n \<and> same_resources h (snd (release_buffer os b3 h3))
        else r3 = -1 \<and> b3 = empty_buffer \<and> same_resources h h3" if "0 \<le> ?fd"
      using that d same_resources_trans by (auto split: if_splits)
    have undone: "same_resources h (?h2\<lparr>open_fds := removeAll ?fd (open_fds ?h2), storage_files := removeAll ?path (storage_files ?h2)\<rparr>)"
      using fd d new by (simp add: same_resources_def)
    have pinned: "storage_backend os \<noteq> ''pinned''" using 2 by simp
    show ?thesis
    proof (cases "r1 = 0 \<and> 0 \<le> ?fd \<and> os_ftruncate os ?path n")
      case True
      then have "(r, b, seq', h') = (r3, b3, seq + 1, h3)"
        using run pinned 2 False by (simp add: allocate_buffer_def 1 3 Let_def)
      then show ?thesis using m True False by simp
    next
      case no: False
      then have "r = -1 \<and> b = empty_buffer \<and> same_resources h h'"
        using run pinned 2 False undone d by (auto simp: allocate_buffer_def 1 Let_def split: if_splits)
      then show ?thesis by simp
    qed
  next
    case 3
    obtain r3 b3 h3 where m: "map_storage os n (-1) '''' h = (r3, b3, h3)" by (metis prod_cases3)
    show ?thesis using map_storage_balanced [OF os m False, of h] False run 3
      by (auto simp: allocate_buffer_def m split: if_splits)
  qed
qed

lemma allocate_gives:
  assumes "os_gives os" "allocate_buffer os empty_buffer n name (seq, h) = (r, b, seq', h')"
  shows "r = 0"
proof -
  have "fst (map_storage os n fd p k) = 0" for fd p k
    using assms(1) by (auto simp: map_storage_def os_gives_def split: option.splits)
  moreover have "fst (ensure_storage_dir os d k) = 0" for d k
    using assms(1) by (auto simp: ensure_storage_dir_def os_gives_def split: mkdir_result.splits)
  moreover have "\<exists>p. os_host_alloc os n h = Some p" using assms(1) unfolding os_gives_def by blast
  moreover have "\<not> os_open os p k < 0" "os_ftruncate os p n" for p k using assms(1) by (simp_all add: os_gives_def not_less)
  ultimately show ?thesis using assms(2)
    by (auto simp: allocate_buffer_def Let_def split_beta split: if_splits)
qed

section \<open>Save, teardown and rebuild\<close>

definition storage_view :: "StorageBuffer \<Rightarrow> (mem \<times> nat) option" where
  "storage_view b = (if sb_ptr b \<noteq> 0 \<and> sb_size b \<noteq> 0 then Some (sb_data b, sb_size b) else None)"

definition as_worker :: "gcr \<Rightarrow> ipc_worker" where
  \<comment> \<open>the runtime as a worker of the signal handler\<close>
  "as_worker g = \<lparr>ipc = rt_ipc g, peers = rt_peers g, events = rt_events g,
     export_buf = storage_view (g_export_data g), local_buf = storage_view (g_local_alloc_data g), server = rt_server g,
     my_block = zero_block, peer_block = zero_block, fd_tab = rt_fd_tab g\<rparr>"

definition gcr_ready :: "gcr \<Rightarrow> bool" where
  "gcr_ready g \<longleftrightarrow> \<not> g_prepared g \<and> g_export_data g = empty_buffer \<and> g_local_alloc_data g = empty_buffer \<and>
     ipc_ready (as_worker g)"

definition proper_buf :: "StorageBuffer \<Rightarrow> bool" where
  "proper_buf b \<longleftrightarrow> b = empty_buffer \<or> sb_ptr b \<noteq> 0 \<and> sb_size b \<noteq> 0"

lemma storage_view_empty [simp]: "storage_view empty_buffer = None"
  by (simp add: storage_view_def empty_buffer_def)

lemma with_storage_run:
  assumes "with_storage f b s = (n, b', s')"
  shows "run_with_buf f (storage_view b) s = (storage_view b', s')" "\<exists>d. b' = b\<lparr>sb_data := d\<rparr>"
proof -
  have "\<exists>d. b = b\<lparr>sb_data := d\<rparr>" by (rule exI [of _ "sb_data b"]) simp
  then show "\<exists>d. b' = b\<lparr>sb_data := d\<rparr>" using assms by (force simp: with_storage_def split: if_splits prod.splits)
  show "run_with_buf f (storage_view b) s = (storage_view b', s')"
    using assms by (cases "storage_view b = None")
      (auto simp: with_storage_def run_with_buf_def storage_view_def split: if_splits prod.splits)
qed

lemma with_storage_proper: "with_storage f b s = (n, b', s') \<Longrightarrow> proper_buf b \<Longrightarrow> proper_buf b'"
  by (auto simp: with_storage_def proper_buf_def empty_buffer_def split: if_splits prod.splits)

lemma removeAll_commute: "removeAll x (removeAll y xs) = removeAll y (removeAll x xs)"
  by (induction xs) auto

lemma release_fields:
  "storage_files (snd (release_buffer os b h)) = (if sb_path b \<noteq> '''' then removeAll (sb_path b) else id) (storage_files h)"
  "open_fds (snd (release_buffer os b h)) = (if 0 \<le> sb_fd b then removeAll (sb_fd b) else id) (open_fds h)"
  "mappings (snd (release_buffer os b h)) =
     (if storage_view b \<noteq> None \<and> \<not> sb_pinned b then removeAll (sb_ptr b, sb_size b) else id) (mappings h)"
  "pinned_blocks (snd (release_buffer os b h)) =
     (if storage_view b \<noteq> None \<and> sb_pinned b \<and> os_free_host os (sb_ptr b) then removeAll (sb_ptr b) else id) (pinned_blocks h)"
  by (simp_all add: release_buffer_def Let_def storage_view_def)

lemma release_data [simp]: "release_buffer os (b\<lparr>sb_data := d\<rparr>) h = release_buffer os b h"
  by (simp add: release_buffer_def Let_def)

lemma release_os:
  "os_fresh os \<Longrightarrow> os_fresh os' \<Longrightarrow> release_buffer os' b h = release_buffer os b h"
  by (simp add: release_buffer_def os_fresh_def)

lemma release_same: "same_resources h h' \<Longrightarrow> same_resources (snd (release_buffer os b h)) (snd (release_buffer os b h'))"
  by (simp add: same_resources_def release_fields)

lemma release_commute:
  "same_resources (snd (release_buffer os b (snd (release_buffer os c h)))) (snd (release_buffer os c (snd (release_buffer os b h))))"
  by (simp add: same_resources_def release_fields removeAll_commute)

lemma storage_paths_differ:
  assumes "length (storage_dir os) \<le> 400"
  shows "storage_path os ''export'' k \<noteq> storage_path os ''local_cumem'' m"
proof
  let ?n = "length (storage_dir os) + 1"
  assume "storage_path os ''export'' k = storage_path os ''local_cumem'' m"
  then have "storage_path os ''export'' k ! ?n = storage_path os ''local_cumem'' m ! ?n" by simp
  then show False using assms by (simp add: storage_path_def nth_append)
qed

lemma allocate_files:
  "allocate_buffer os empty_buffer n name (seq, h) = (r, b, seq', h') \<Longrightarrow>
     set (storage_files h') \<subseteq> insert (storage_path os name seq) (set (storage_files h))"
  using ensure_storage_dir_resources [of os "storage_dir os" h]
  by (auto simp: allocate_buffer_def map_storage_def Let_def split: if_splits option.splits prod.splits)

lemma rebuild_exports_rc: "lib_ok lib \<Longrightarrow> 0 \<le> fst (ipc_rebuild_and_restore_all_exports lib n s)"
  by (simp add: ipc_rebuild_and_restore_all_exports_def lib_ok_def Let_def split_beta)

lemma rebuild_locals_rc: "lib_ok lib \<Longrightarrow> 0 \<le> fst (ipc_rebuild_local_allocs lib n s)"
  by (simp add: ipc_rebuild_local_allocs_def lib_ok_def Let_def split_beta)

lemma rebuild_exports_step_ok:
  assumes "lib_ok (n_lib env)" "proper_buf (g_export_data g)"
  shows "\<exists>n \<ge> 0. rebuild_exports_step env g =
    (n, g\<lparr>rt_ipc := snd (run_with_buf (ipc_rebuild_and_restore_all_exports (n_lib env)) (storage_view (g_export_data g)) (rt_ipc g)),
         g_export_data := empty_buffer, rt_host := snd (release_buffer (n_os env) (g_export_data g) (rt_host g))\<rparr>)"
proof (cases "g_export_data g = empty_buffer")
  case True
  then show ?thesis by (simp add: rebuild_exports_step_def run_with_buf_def) (simp add: empty_buffer_def)
next
  case False
  then show ?thesis using assms(2) rebuild_exports_rc [OF assms(1)]
    by (simp add: rebuild_exports_step_def run_with_buf_def with_storage_def storage_view_def proper_buf_def split_beta)
qed

lemma rebuild_locals_step_ok:
  assumes "lib_ok (n_lib env)" "proper_buf (g_local_alloc_data g)"
  shows "\<exists>n \<ge> 0. rebuild_locals_step env g =
    (n, g\<lparr>rt_ipc := snd (run_with_buf (ipc_rebuild_local_allocs (n_lib env)) (storage_view (g_local_alloc_data g)) (rt_ipc g)),
         g_local_alloc_data := empty_buffer, rt_host := snd (release_buffer (n_os env) (g_local_alloc_data g) (rt_host g))\<rparr>)"
proof (cases "g_local_alloc_data g = empty_buffer")
  case True
  then show ?thesis by (simp add: rebuild_locals_step_def run_with_buf_def) (simp add: empty_buffer_def)
next
  case False
  then show ?thesis using assms(2) rebuild_locals_rc [OF assms(1)]
    by (simp add: rebuild_locals_step_def run_with_buf_def with_storage_def storage_view_def proper_buf_def split_beta)
qed

lemma storage_after_allocate:
  assumes os: "os_fresh os" and new: "storage_path os name seq \<notin> set (storage_files h)"
    and run: "allocate_buffer os empty_buffer n name (seq, h) = (r, b, seq', h')" and r: "r = 0"
  shows "proper_buf b" "sized_buf n (storage_view b)" "same_resources h (snd (release_buffer os b h'))"
proof -
  have *: "(if n = 0 then b = empty_buffer else sb_ptr b \<noteq> 0 \<and> sb_size b = n)"
    "same_resources h (snd (release_buffer os b h'))"
    using allocate_balanced [OF os new run] r by simp_all
  then show "proper_buf b" "same_resources h (snd (release_buffer os b h'))" by (auto simp: proper_buf_def split: if_splits)
  show "sized_buf n (storage_view b)"
    using * by (cases "n = 0") (simp_all add: sized_buf_def storage_view_def empty_buffer_def)
qed

lemma save_exports_step_ok:
  assumes lib: "lib_ok (n_lib env)" and os: "os_fresh (n_os env)"
    and new: "storage_path (n_os env) ''export'' (g_storage_file_seq g) \<notin> set (storage_files (rt_host g))"
    and r: "fst (allocate_buffer (n_os env) empty_buffer (ipc_get_export_data_size (rt_ipc g)) ''export'' (g_storage_file_seq g, rt_host g)) = 0"
    and g: "g_export_data g = empty_buffer" and fresh: "\<forall>e \<in> set (g_ipc_exports (rt_ipc g)). \<not> exp_torn_down e"
  shows "\<exists>v b seq s h. save_exports_step env g = (0, g\<lparr>g_export_data := b, g_storage_file_seq := seq, rt_host := h, rt_ipc := s\<rparr>) \<and>
    sized_buf (ipc_get_export_data_size (rt_ipc g)) v \<and>
    run_with_buf (ipc_save_and_teardown_all_exports (n_lib env)) v (rt_ipc g) = (storage_view b, s) \<and>
    proper_buf b \<and> same_resources (rt_host g) (snd (release_buffer (n_os env) b h)) \<and>
    set (storage_files h) \<subseteq> insert (storage_path (n_os env) ''export'' (g_storage_file_seq g)) (set (storage_files (rt_host g)))"
proof -
  let ?n = "ipc_get_export_data_size (rt_ipc g)" and ?f = "ipc_save_and_teardown_all_exports (n_lib env)"
  obtain r b seq h where a: "allocate_buffer (n_os env) empty_buffer ?n ''export'' (g_storage_file_seq g, rt_host g) = (r, b, seq, h)"
    by (metis prod_cases4)
  then have "r = 0" using r by simp
  note al = storage_after_allocate [OF os new a this]
  obtain n b' s where w: "with_storage ?f b (rt_ipc g) = (n, b', s)" by (metis prod_cases3)
  have "0 \<le> fst (?f ?n (rt_ipc g\<lparr>hbuf := sb_data b\<rparr>))"
    using save_and_teardown_ok [OF lib, of "rt_ipc g\<lparr>hbuf := sb_data b\<rparr>" ?n] fresh
    by (auto simp: ipc_get_export_data_size_def)
  then have n: "\<not> n < 0" using w al(2)
    by (auto simp: with_storage_def sized_buf_def storage_view_def split: if_splits prod.splits)
  obtain d where d: "b' = b\<lparr>sb_data := d\<rparr>" using with_storage_run(2) [OF w] by blast
  show ?thesis
    using with_storage_proper [OF w] with_storage_run(1) [OF w] al \<open>r = 0\<close> allocate_files [OF a] n d
    by (intro exI [of _ "storage_view b"] exI [of _ b'] exI [of _ seq] exI [of _ s] exI [of _ h])
      (simp add: save_exports_step_def g a Let_def w)
qed

lemma save_locals_step_ok:
  assumes lib: "lib_ok (n_lib env)" and os: "os_fresh (n_os env)"
    and new: "storage_path (n_os env) ''local_cumem'' (g_storage_file_seq g) \<notin> set (storage_files (rt_host g))"
    and r: "fst (allocate_buffer (n_os env) empty_buffer (ipc_get_local_alloc_data_size (rt_ipc g)) ''local_cumem'' (g_storage_file_seq g, rt_host g)) = 0"
    and g: "g_local_alloc_data g = empty_buffer" and srt: "sorted (map (\<lambda>(_, _, c). location_id (cr_prop c)) (local_candidates (rt_ipc g)))"
  shows "\<exists>v b seq s h. save_locals_step env g = (0, g\<lparr>g_local_alloc_data := b, g_storage_file_seq := seq, rt_host := h, rt_ipc := s\<rparr>) \<and>
    sized_buf (ipc_get_local_alloc_data_size (rt_ipc g)) v \<and>
    run_with_buf (ipc_save_and_teardown_local_allocs (n_lib env)) v (rt_ipc g) = (storage_view b, s) \<and>
    proper_buf b \<and> same_resources (rt_host g) (snd (release_buffer (n_os env) b h))"
proof -
  let ?n = "ipc_get_local_alloc_data_size (rt_ipc g)" and ?f = "ipc_save_and_teardown_local_allocs (n_lib env)"
  obtain r b seq h where a: "allocate_buffer (n_os env) empty_buffer ?n ''local_cumem'' (g_storage_file_seq g, rt_host g) = (r, b, seq, h)"
    by (metis prod_cases4)
  then have "r = 0" using r by simp
  note al = storage_after_allocate [OF os new a this]
  obtain n b' s where w: "with_storage ?f b (rt_ipc g) = (n, b', s)" by (metis prod_cases3)
  have "0 \<le> fst (?f ?n (rt_ipc g\<lparr>hbuf := sb_data b\<rparr>))"
    using save_local_all_ok [OF lib, of "rt_ipc g\<lparr>hbuf := sb_data b\<rparr>" ?n] srt
    by (auto simp: ipc_get_local_alloc_data_size_def local_candidates_def exported_vas_def)
  then have n: "\<not> n < 0" using w al(2)
    by (auto simp: with_storage_def sized_buf_def storage_view_def split: if_splits prod.splits)
  obtain d where d: "b' = b\<lparr>sb_data := d\<rparr>" using with_storage_run(2) [OF w] by blast
  show ?thesis
    using with_storage_proper [OF w] with_storage_run(1) [OF w] al \<open>r = 0\<close> n d
    by (intro exI [of _ "storage_view b"] exI [of _ b'] exI [of _ seq] exI [of _ s] exI [of _ h])
      (simp add: save_locals_step_def g a Let_def w)
qed

definition no_stale_files :: "storage_os \<Rightarrow> host \<Rightarrow> bool" where
  \<comment> \<open>no file with a name of this process is left in the storage directory\<close>
  "no_stale_files os h \<longleftrightarrow> (\<forall>name seq. storage_path os name seq \<notin> set (storage_files h))"

lemma prepare_ok:
  assumes lib: "lib_ok (n_lib env)" and os: "os_fresh (n_os env)" "os_gives (n_os env)" "length (storage_dir (n_os env)) \<le> 400"
    and env: "n_sync env" "has_events (n_rt env)" and g: "gcr_ready g" and stale: "no_stale_files (n_os env) (rt_host g)"
  shows "\<exists>g1. gcr_checkpoint_prepare env g = (0, g1) \<and> g_prepared g1 \<and>
    proper_buf (g_export_data g1) \<and> proper_buf (g_local_alloc_data g1) \<and>
    image_kept (rt_ipc g) (storage_view (g_export_data g1)) (storage_view (g_local_alloc_data g1)) (rt_ipc g1) \<and>
    (\<forall>a. a \<notin> data_ranges (as_worker g) \<union> imp_ranges (rt_ipc g) \<longrightarrow> gmem (rt_ipc g1) a = gmem (rt_ipc g) a) \<and>
    same_resources (rt_host g) (snd (release_buffer (n_os env) (g_local_alloc_data g1)
      (snd (release_buffer (n_os env) (g_export_data g1) (rt_host g1)))))"
proof -
  let ?lib = "n_lib env" and ?os = "n_os env"
  have w: "ipc_ready (as_worker g)" and buf: "g_export_data g = empty_buffer" "g_local_alloc_data g = empty_buffer"
    and np: "\<not> g_prepared g" using g by (simp_all add: gcr_ready_def)
  have ig: "ipc (as_worker g) = rt_ipc g" by (simp add: as_worker_def)
  obtain i s1 where 1: "ipc_teardown_all_imports ?lib (rt_ipc g) = (i, s1)" by fastforce
  then have s1: "s1 = snd (ipc_teardown_all_imports ?lib (ipc (as_worker g)))" by (simp add: ig)
  have i: "\<not> i < 0" using 1 lib by (auto simp: ipc_teardown_all_imports_def lib_ok_def split: prod.splits)
  have E: "g_ipc_exports s1 = g_ipc_exports (rt_ipc g)" by (simp add: s1 ig)
  have new: "storage_path ?os name seq \<notin> set (storage_files (rt_host g))" for name seq using stale by (simp add: no_stale_files_def)
  have allocated: "fst (allocate_buffer ?os empty_buffer n name (seq, h)) = 0" for n name seq h
    using allocate_gives [OF os(2)] by (metis prod.collapse)
  let ?g1 = "g\<lparr>rt_ipc := s1\<rparr>"
  have fresh: "\<forall>e \<in> set (g_ipc_exports (rt_ipc ?g1)). \<not> exp_torn_down e" using w by (simp add: E ipc_ready_def ig)
  have b1: "g_export_data ?g1 = empty_buffer" "storage_path ?os ''export'' (g_storage_file_seq ?g1) \<notin> set (storage_files (rt_host ?g1))"
    using buf new by simp_all
  obtain v2 b2 seq2 s2 h2 where 2:
    "save_exports_step env (g\<lparr>rt_ipc := s1\<rparr>) =
      (0, g\<lparr>g_export_data := b2, g_storage_file_seq := seq2, rt_host := h2, rt_ipc := s2\<rparr>)"
    and x2: "sized_buf (ipc_get_export_data_size s1) v2"
      "run_with_buf (ipc_save_and_teardown_all_exports ?lib) v2 s1 = (storage_view b2, s2)"
      "proper_buf b2" "same_resources (rt_host g) (snd (release_buffer ?os b2 h2))"
      "set (storage_files h2) \<subseteq> insert (storage_path ?os ''export'' (g_storage_file_seq g)) (set (storage_files (rt_host g)))"
    using save_exports_step_ok [OF lib os(1) b1(2) allocated b1(1) fresh] by (elim exE conjE) (rule that; simp)
  obtain n evs p where 3: "ipc_teardown_all_events (n_rt env) (rt_events g, rt_peers g) = (n, evs, p)" by (metis prod_cases3)
  have n: "\<not> n < 0" using 3 env(2) by (auto simp: ipc_teardown_all_events_def split: if_splits prod.splits)
  let ?g3 = "g\<lparr>g_export_data := b2, g_storage_file_seq := seq2, rt_host := h2, rt_ipc := s2, rt_events := evs, rt_peers := p\<rparr>"
  have k2: "own s2 = own s1" "map geometry (g_ipc_exports s2) = map geometry (g_ipc_exports s1)"
    using exports_saved [OF lib x2(1) _ _ x2(2)] w by (simp_all add: E ipc_ready_def ig)
  have "local_candidates s2 = local_candidates (rt_ipc g)"
    using local_candidates_cong [of s2 "rt_ipc g"] k2 by (simp add: E s1 ig)
  then have srt: "sorted (map (\<lambda>(_, _, c). location_id (cr_prop c)) (local_candidates s2))" using w by (simp add: ipc_ready_def ig)
  have "storage_path ?os ''local_cumem'' seq2 \<notin> set (storage_files h2)"
    by (rule contra_subsetD [OF x2(5)]) (simp only: insert_iff new not_sym [OF storage_paths_differ [OF os(3)]] simp_thms)
  then have b3: "storage_path ?os ''local_cumem'' (g_storage_file_seq ?g3) \<notin> set (storage_files (rt_host ?g3))"
    "g_local_alloc_data ?g3 = empty_buffer"
    "sorted (map (\<lambda>(_, _, c). location_id (cr_prop c)) (local_candidates (rt_ipc ?g3)))" using buf srt by simp_all
  obtain v4 b4 seq4 s4 h4 where 4:
    "save_locals_step env ?g3 = (0, ?g3\<lparr>g_local_alloc_data := b4, g_storage_file_seq := seq4, rt_host := h4, rt_ipc := s4\<rparr>)"
    and x4: "sized_buf (ipc_get_local_alloc_data_size s2) v4"
      "run_with_buf (ipc_save_and_teardown_local_allocs ?lib) v4 s2 = (storage_view b4, s4)"
      "proper_buf b4" "same_resources h2 (snd (release_buffer ?os b4 h4))"
    using save_locals_step_ok [OF lib os(1) b3(1) allocated b3(2,3)] by (elim exE conjE) (rule that; simp)
  have k: "image_kept (rt_ipc g) (storage_view b2) (storage_view b4) s4"
    "\<forall>a. a \<notin> data_ranges (as_worker g) \<union> imp_ranges (rt_ipc g) \<longrightarrow> gmem s4 a = gmem (rt_ipc g) a"
    using teardown_kept [OF lib w s1 x2(1,2) x4(1,2)] by (simp_all add: ig)
  have "same_resources (rt_host g) (snd (release_buffer ?os b4 (snd (release_buffer ?os b2 h4))))"
    using same_resources_trans [OF same_resources_trans [OF x2(4) release_same [OF x4(4)]] release_commute] .
  then show ?thesis using k x2(3) x4(3)
    by (simp add: gcr_checkpoint_prepare_def np env(1) 1 2 3 4 i n Let_def)
qed

definition restore_ok :: "gcr_env \<Rightarrow> bool" where
  \<comment> \<open>the environment of a restore: a path for the block, which can be mapped, and a socket for the server\<close>
  "restore_ok env \<longleftrightarrow> lib_ok (n_lib env) \<and> os_fresh (n_os env) \<and>
     (\<exists>fd. n_start env = Started fd) \<and>
     (\<exists>path. n_export_path env = Some path \<and> path \<noteq> '''' \<and> n_shm_open env path \<and> n_shm_ftruncate env path \<and> n_shm_mmap env path)"

lemma publish_exports_ok:
  assumes "restore_ok env"
  shows "\<exists>path blk shm. n_export_path env = Some path \<and>
    publish_exports env g = (0, g\<lparr>rt_shm := shm(path \<mapsto> snd (ipc_write_export_info_to_shm (n_pid env) blk (rt_ipc g)))\<rparr>)"
proof -
  obtain path where p: "n_export_path env = Some path" "path \<noteq> ''''" "n_shm_open env path" "n_shm_ftruncate env path" "n_shm_mmap env path"
    using assms by (auto simp: restore_ok_def)
  obtain blk shm where m: "map_shm_block env path True (rt_shm g) = (Some blk, shm)"
    using p(3-5) by (simp add: map_shm_block_def Let_def)
  show ?thesis
    using p(1,2) by (intro exI [of _ path] exI [of _ blk] exI [of _ shm])
      (simp add: publish_exports_def m ipc_write_export_info_to_shm_def Let_def)
qed

lemma server_starts: "n_start env = Started fd \<Longrightarrow> fst (uds_fd_server_start (n_start env) srv) = 0 \<and> running (snd (uds_fd_server_start (n_start env) srv))"
  by (simp add: uds_fd_server_start_def)

lemma restore_export_ok:
  assumes env: "restore_ok env" and buf: "proper_buf (g_export_data g)" "proper_buf (g_local_alloc_data g)"
  shows "\<exists>g3. gcr_checkpoint_restore_export env g = (0, g3) \<and>
    rt_ipc g3 = snd (run_with_buf (ipc_rebuild_local_allocs (n_lib env)) (storage_view (g_local_alloc_data g))
      (snd (run_with_buf (ipc_rebuild_and_restore_all_exports (n_lib env)) (storage_view (g_export_data g)) (rt_ipc g)))) \<and>
    g_export_data g3 = empty_buffer \<and> g_local_alloc_data g3 = empty_buffer \<and>
    rt_host g3 = snd (release_buffer (n_os env) (g_local_alloc_data g) (snd (release_buffer (n_os env) (g_export_data g) (rt_host g)))) \<and>
    running (rt_server g3) \<and>
    (\<exists>path blk. n_export_path env = Some path \<and>
      rt_shm g3 path = Some (snd (ipc_write_export_info_to_shm (n_pid env) blk (rt_ipc g3))))"
proof -
  have lib: "lib_ok (n_lib env)" using env by (simp add: restore_ok_def)
  obtain n1 g1 where 1: "rebuild_exports_step env g = (n1, g1)" "0 \<le> n1"
    "g1 = g\<lparr>rt_ipc := snd (run_with_buf (ipc_rebuild_and_restore_all_exports (n_lib env)) (storage_view (g_export_data g)) (rt_ipc g)),
         g_export_data := empty_buffer, rt_host := snd (release_buffer (n_os env) (g_export_data g) (rt_host g))\<rparr>"
    using rebuild_exports_step_ok [OF lib buf(1)] by blast
  have "proper_buf (g_local_alloc_data g1)" using buf(2) by (simp add: 1(3))
  then obtain n2 g2 where 2: "rebuild_locals_step env g1 = (n2, g2)" "0 \<le> n2"
    "g2 = g1\<lparr>rt_ipc := snd (run_with_buf (ipc_rebuild_local_allocs (n_lib env)) (storage_view (g_local_alloc_data g1)) (rt_ipc g1)),
         g_local_alloc_data := empty_buffer, rt_host := snd (release_buffer (n_os env) (g_local_alloc_data g1) (rt_host g1))\<rparr>"
    using rebuild_locals_step_ok [OF lib] by blast
  obtain path blk shm where 3: "n_export_path env = Some path"
    "publish_exports env g2 = (0, g2\<lparr>rt_shm := shm(path \<mapsto> snd (ipc_write_export_info_to_shm (n_pid env) blk (rt_ipc g2)))\<rparr>)"
    using publish_exports_ok [OF env] by blast
  obtain r srv where 4: "uds_fd_server_start (n_start env) (rt_server g2) = (r, srv)" by fastforce
  have "r = 0" "running srv" using env server_starts [of env _ "rt_server g2"] 4 by (auto simp: restore_ok_def)
  then show ?thesis using 1(2) 2(2) 3(1)
    by (simp add: gcr_checkpoint_restore_export_def 1(1) 2(1) 3(2) 4) (auto simp: 1(3) 2(3))
qed

section \<open>Theorems\<close>

definition same_image :: "gcr \<Rightarrow> gcr \<Rightarrow> bool" where
  \<comment> \<open>the records, the buffers and the host of the process are as they were; the rest may differ\<close>
  "same_image g1 g2 \<longleftrightarrow> g_ipc_exports (rt_ipc g2) = g_ipc_exports (rt_ipc g1) \<and> g_local_allocs (rt_ipc g2) = g_local_allocs (rt_ipc g1) \<and>
     g_export_data g2 = g_export_data g1 \<and> g_local_alloc_data g2 = g_local_alloc_data g1 \<and> rt_host g2 = rt_host g1"

lemma gcr_data_survives:
  assumes lib: "lib_ok (n_lib env)" and os: "os_fresh (n_os env)" "os_gives (n_os env)" "length (storage_dir (n_os env)) \<le> 400"
    and env: "n_sync env" "has_events (n_rt env)" and g: "gcr_ready g" and stale: "no_stale_files (n_os env) (rt_host g)"
    and env': "restore_ok env'"
  shows "\<exists>g1. gcr_checkpoint_prepare env g = (0, g1) \<and> g_prepared g1 \<and>
    (\<forall>a. a \<notin> data_ranges (as_worker g) \<union> imp_ranges (rt_ipc g) \<longrightarrow> gmem (rt_ipc g1) a = gmem (rt_ipc g) a) \<and>
    (\<forall>g2. same_image g1 g2 \<longrightarrow>
      (\<exists>g3. gcr_checkpoint_restore_export env' g2 = (0, g3) \<and>
        (\<forall>a. gmem (rt_ipc g3) a = (if a \<in> data_ranges (as_worker g) then gmem (rt_ipc g) a else gmem (rt_ipc g2) a)) \<and>
        (\<forall>i < length (g_ipc_exports (rt_ipc g)). exp_active (g_ipc_exports (rt_ipc g) ! i) \<longrightarrow> back_in_use (rt_ipc g3) i) \<and>
        g_export_data g3 = empty_buffer \<and> g_local_alloc_data g3 = empty_buffer \<and>
        same_resources (rt_host g) (rt_host g3) \<and> running (rt_server g3) \<and>
        (\<exists>path blk. n_export_path env' = Some path \<and>
          rt_shm g3 path = Some (snd (ipc_write_export_info_to_shm (n_pid env') blk (rt_ipc g3))))))"
proof -
  obtain g1 where p: "gcr_checkpoint_prepare env g = (0, g1)" "g_prepared g1"
    "proper_buf (g_export_data g1)" "proper_buf (g_local_alloc_data g1)"
    and k: "image_kept (rt_ipc g) (storage_view (g_export_data g1)) (storage_view (g_local_alloc_data g1)) (rt_ipc g1)"
    and m: "\<forall>a. a \<notin> data_ranges (as_worker g) \<union> imp_ranges (rt_ipc g) \<longrightarrow> gmem (rt_ipc g1) a = gmem (rt_ipc g) a"
    and h: "same_resources (rt_host g) (snd (release_buffer (n_os env) (g_local_alloc_data g1)
      (snd (release_buffer (n_os env) (g_export_data g1) (rt_host g1)))))"
    using prepare_ok [OF lib os env g stale] by blast
  have os': "release_buffer (n_os env') b k = release_buffer (n_os env) b k" for b k
    using release_os [OF os(1)] env' by (simp add: restore_ok_def)
  have d: "data_ranges (as_worker g) = exp_ranges (g_ipc_exports (rt_ipc g)) \<union> local_ranges (rt_ipc g)"
    by (simp add: data_ranges_def as_worker_def)
  have "\<exists>g3. gcr_checkpoint_restore_export env' g2 = (0, g3) \<and>
        (\<forall>a. gmem (rt_ipc g3) a = (if a \<in> data_ranges (as_worker g) then gmem (rt_ipc g) a else gmem (rt_ipc g2) a)) \<and>
        (\<forall>i < length (g_ipc_exports (rt_ipc g)). exp_active (g_ipc_exports (rt_ipc g) ! i) \<longrightarrow> back_in_use (rt_ipc g3) i) \<and>
        g_export_data g3 = empty_buffer \<and> g_local_alloc_data g3 = empty_buffer \<and>
        same_resources (rt_host g) (rt_host g3) \<and> running (rt_server g3) \<and>
        (\<exists>path blk. n_export_path env' = Some path \<and>
          rt_shm g3 path = Some (snd (ipc_write_export_info_to_shm (n_pid env') blk (rt_ipc g3))))"
    if "same_image g1 g2" for g2
  proof -
    have s: "g_export_data g2 = g_export_data g1" "g_local_alloc_data g2 = g_local_alloc_data g1" "rt_host g2 = rt_host g1"
      "g_ipc_exports (rt_ipc g2) = g_ipc_exports (rt_ipc g1)" "g_local_allocs (rt_ipc g2) = g_local_allocs (rt_ipc g1)"
      using that by (simp_all add: same_image_def)
    obtain g3 where r: "gcr_checkpoint_restore_export env' g2 = (0, g3)"
      "rt_ipc g3 = snd (run_with_buf (ipc_rebuild_local_allocs (n_lib env')) (storage_view (g_local_alloc_data g1))
        (snd (run_with_buf (ipc_rebuild_and_restore_all_exports (n_lib env')) (storage_view (g_export_data g1)) (rt_ipc g2))))"
      and b: "g_export_data g3 = empty_buffer \<and> g_local_alloc_data g3 = empty_buffer"
      "rt_host g3 = snd (release_buffer (n_os env') (g_local_alloc_data g1) (snd (release_buffer (n_os env') (g_export_data g1) (rt_host g1))))"
      "running (rt_server g3) \<and> (\<exists>path blk. n_export_path env' = Some path \<and>
          rt_shm g3 path = Some (snd (ipc_write_export_info_to_shm (n_pid env') blk (rt_ipc g3))))"
      using restore_export_ok [OF env', of g2] p(3,4) unfolding s by blast
    have "lib_ok (n_lib env')" using env' by (simp add: restore_ok_def)
    then have "(\<forall>a. gmem (rt_ipc g3) a = (if a \<in> data_ranges (as_worker g) then gmem (rt_ipc g) a else gmem (rt_ipc g2) a)) \<and>
        (\<forall>i < length (g_ipc_exports (rt_ipc g)). exp_active (g_ipc_exports (rt_ipc g) ! i) \<longrightarrow> back_in_use (rt_ipc g3) i)"
      using k s(4,5) unfolding image_kept_def Let_def r(2) d by blast
    moreover have "same_resources (rt_host g) (rt_host g3)" using h by (simp add: b(2) os')
    ultimately show ?thesis using r(1) b by blast
  qed
  then show ?thesis using p(1,2) m by blast
qed

text \<open>C7: a checkpoint through the NCCL runtime keeps the data and gives back what it took.  When the driver
  and the host grant what is asked for, \<open>gcr_checkpoint_prepare\<close> returns 0 and changes device memory
  only inside exports, local allocations and live imports.  From any later state with the records and
  buffers it left, \<open>gcr_checkpoint_restore_export\<close> returns 0, gives every byte of exports and local
  allocations its old value and changes no other byte, makes the exports live with a descriptor, writes
  them into the block, runs the descriptor server and leaves the process with the files, descriptors,
  mappings and pinned blocks it had before, whichever of the three storage backends is in use.\<close>

theorem gcr_round_trip:
  assumes "lib_ok (n_lib env)" "os_fresh (n_os env)" "os_gives (n_os env)" "length (storage_dir (n_os env)) \<le> 400"
    "n_sync env" "has_events (n_rt env)" "gcr_ready g" "no_stale_files (n_os env) (rt_host g)" "restore_ok env'"
  shows "\<exists>g1. gcr_checkpoint_prepare env g = (0, g1) \<and> g_prepared g1 \<and>
    (\<forall>a. a \<notin> data_ranges (as_worker g) \<union> imp_ranges (rt_ipc g) \<longrightarrow> gmem (rt_ipc g1) a = gmem (rt_ipc g) a) \<and>
    (\<forall>g2. same_image g1 g2 \<longrightarrow>
      (\<exists>g3. gcr_checkpoint_restore_export env' g2 = (0, g3) \<and>
        (\<forall>a. gmem (rt_ipc g3) a = (if a \<in> data_ranges (as_worker g) then gmem (rt_ipc g) a else gmem (rt_ipc g2) a)) \<and>
        (\<forall>i < length (g_ipc_exports (rt_ipc g)). exp_active (g_ipc_exports (rt_ipc g) ! i) \<longrightarrow> back_in_use (rt_ipc g3) i) \<and>
        g_export_data g3 = empty_buffer \<and> g_local_alloc_data g3 = empty_buffer \<and>
        same_resources (rt_host g) (rt_host g3) \<and> running (rt_server g3) \<and>
        (\<exists>path blk. n_export_path env' = Some path \<and>
          rt_shm g3 path = Some (snd (ipc_write_export_info_to_shm (n_pid env') blk (rt_ipc g3))))))"
  by (rule gcr_data_survives [OF assms])

definition sample_os :: storage_os where
  \<comment> \<open>a host that grants everything, with the hugepage backend\<close>
  "sample_os = \<lparr>env_backend = Some ''hugepage'', env_dir = Some ''/mnt/ckpt'', os_getpid = 42,
     os_mkdir = \<lambda>d h. if d \<in> set (storage_dirs h) then EExist else Made,
     os_open = \<lambda>p h. 1 + fold max (open_fds h) 2, os_ftruncate = \<lambda>p n. True,
     os_mmap = \<lambda>n h. Some (1 + fold max (map fst (mappings h)) 4095),
     os_host_alloc = \<lambda>n h. Some (1 + fold max (pinned_blocks h) 0), os_free_host = \<lambda>a. True, os_pinned_content = \<lambda>_. 0\<rparr>"

lemma fold_max_ge: "b \<le> fold max xs (b :: 'a :: linorder)"
  by (induction xs arbitrary: b) (auto intro: order.trans [OF max.cobounded2])

lemma fold_max_upper: "x \<in> set xs \<Longrightarrow> x \<le> fold max xs (b :: 'a :: linorder)"
proof (induction xs arbitrary: b)
  case (Cons y ys)
  have "max y b \<le> fold max ys (max y b)" by (rule fold_max_ge)
  then show ?case using Cons by auto
qed simp

lemma fold_max_new: "1 + fold max xs (b :: 'a :: linordered_semidom) \<notin> set xs"
  using fold_max_upper [of "1 + fold max xs b" xs b] by (auto simp: add.commute [of 1] not_le less_add_one)

lemma sample_os_ok: "os_fresh sample_os" "os_gives sample_os" "storage_dir sample_os = ''/mnt/ckpt''"
proof -
  have "(1 + fold max (map fst ms) b, n) \<notin> set ms" for ms :: "(nat \<times> nat) list" and b n
    using fold_max_new [of "map fst ms" b] by force
  then show "os_fresh sample_os"
    using fold_max_new [where 'a = int] fold_max_new [where 'a = nat] by (simp add: os_fresh_def sample_os_def)
  have "0 \<le> 1 + fold max xs (2 :: int)" for xs using fold_max_ge [of 2 xs] by simp
  then show "os_gives sample_os" by (simp add: os_gives_def sample_os_def)
  show "storage_dir sample_os = ''/mnt/ckpt''" by (simp add: storage_dir_def sample_os_def)
qed

definition sample_genv :: gcr_env where
  "sample_genv = \<lparr>n_lib = obliging_lib, n_rt = obliging_rt, n_os = sample_os, n_sync = True, n_pid = 42, n_start = Started 4,
     n_rcv = \<lambda>t _ _. (-1, [], t), n_export_path = Some ''/dev/shm/e'', n_import_path = None, n_stop_server = None,
     n_shm_open = \<lambda>_. True, n_shm_ftruncate = \<lambda>_. True, n_shm_mmap = \<lambda>_. True\<rparr>"

definition sample_gcr :: gcr where
  "sample_gcr = \<lparr>rt_ipc = ipc sample_worker, rt_peers = two_peers, rt_events = [], rt_server = server_initial, rt_fd_tab = [],
     g_prepared = False, g_export_data = empty_buffer, g_local_alloc_data = empty_buffer, g_storage_file_seq = 0,
     rt_host = \<lparr>storage_dirs = [], storage_files = [], open_fds = [0, 1, 2], mappings = [], pinned_blocks = []\<rparr>,
     rt_shm = \<lambda>_. None\<rparr>"

lemma sample_gcr_facts: "gcr_ready sample_gcr" "no_stale_files os (rt_host sample_gcr)"
    "rt_ipc sample_gcr = ipc sample_worker" "data_ranges (as_worker sample_gcr) = data_ranges sample_worker"
    "lib_ok (n_lib sample_genv)" "n_sync sample_genv" "has_events (n_rt sample_genv)" "restore_ok sample_genv" "n_os sample_genv = sample_os"
proof -
  show 1: "rt_ipc sample_gcr = ipc sample_worker" by (simp add: sample_gcr_def)
  show "data_ranges (as_worker sample_gcr) = data_ranges sample_worker" by (simp add: data_ranges_def as_worker_def 1)
  show "gcr_ready sample_gcr"
    using ipc_ready_sample by (simp add: gcr_ready_def ipc_ready_def as_worker_def 1) (simp add: sample_gcr_def)
  show "no_stale_files os (rt_host sample_gcr)" by (simp add: no_stale_files_def sample_gcr_def)
  show "lib_ok (n_lib sample_genv)" "n_sync sample_genv" "has_events (n_rt sample_genv)" "n_os sample_genv = sample_os"
    by (simp_all add: sample_genv_def obliging_rt_def)
  show "restore_ok sample_genv" by (simp add: restore_ok_def sample_genv_def sample_os_ok)
qed

theorem gcr_round_trip_witness:
  "\<exists>g1 g3. gcr_checkpoint_prepare sample_genv sample_gcr = (0, g1) \<and> gcr_checkpoint_restore_export sample_genv g1 = (0, g3) \<and>
     gmem (rt_ipc g3) 201 = 201 \<and> gmem (rt_ipc g3) 301 = 301 \<and> open_fds (rt_host g3) = [0, 1, 2]"
proof -
  have same: "same_image g g" for g by (simp add: same_image_def)
  have m: "gmem (rt_ipc sample_gcr) = of_nat" "201 \<in> data_ranges (as_worker sample_gcr)" "301 \<in> data_ranges (as_worker sample_gcr)"
    "open_fds (rt_host sample_gcr) = [0, 1, 2]"
  proof -
    show "gmem (rt_ipc sample_gcr) = of_nat" by (simp add: sample_gcr_facts(3) sample_worker_facts)
    show "201 \<in> data_ranges (as_worker sample_gcr)" "301 \<in> data_ranges (as_worker sample_gcr)"
      unfolding sample_gcr_facts(4) unfolding data_ranges_def sample_worker_facts by simp_all
    show "open_fds (rt_host sample_gcr) = [0, 1, 2]" by (simp add: sample_gcr_def)
  qed
  have "length (storage_dir (n_os sample_genv)) \<le> 400" by (simp add: sample_gcr_facts(9) sample_os_ok(3))
  then obtain g1 where "gcr_checkpoint_prepare sample_genv sample_gcr = (0, g1)"
    and "\<forall>g2. same_image g1 g2 \<longrightarrow> (\<exists>g3. gcr_checkpoint_restore_export sample_genv g2 = (0, g3) \<and>
        (\<forall>a. gmem (rt_ipc g3) a = (if a \<in> data_ranges (as_worker sample_gcr) then gmem (rt_ipc sample_gcr) a else gmem (rt_ipc g2) a)) \<and>
        same_resources (rt_host sample_gcr) (rt_host g3))"
    using gcr_round_trip [of sample_genv sample_gcr sample_genv] sample_os_ok(1,2) sample_gcr_facts by metis
  moreover from this(2) same obtain g3 where "gcr_checkpoint_restore_export sample_genv g1 = (0, g3)"
    "\<forall>a. gmem (rt_ipc g3) a = (if a \<in> data_ranges (as_worker sample_gcr) then gmem (rt_ipc sample_gcr) a else gmem (rt_ipc g1) a)"
    "same_resources (rt_host sample_gcr) (rt_host g3)" by blast
  ultimately show ?thesis using m by (auto simp: same_resources_def)
qed

lemma with_storage_exports:
  assumes "\<And>n s. g_ipc_exports (snd (f n s)) = g_ipc_exports s"
  shows "g_ipc_exports (snd (snd (with_storage f b s))) = g_ipc_exports s"
  using assms by (simp add: with_storage_def split_beta)

lemma rebuild_local_allocs_exports: "g_ipc_exports (snd (ipc_rebuild_local_allocs lib n s)) = g_ipc_exports s"
  using run_with_buf_exports [of lib "Some (hbuf s, Suc n)" s]
  by (simp add: ipc_rebuild_local_allocs_def Let_def split_beta)

lemma save_locals_step_exports:
  "g_ipc_exports (rt_ipc (snd (save_locals_step env g))) = g_ipc_exports (rt_ipc g)"
  "g_export_data (snd (save_locals_step env g)) = g_export_data g" "g_prepared (snd (save_locals_step env g)) = g_prepared g"
  using with_storage_exports [OF save_local_allocs_exports]
  by (simp_all add: save_locals_step_def Let_def split_beta)

lemma save_exports_step_prepared: "g_prepared (snd (save_exports_step env g)) = g_prepared g"
  by (simp add: save_exports_step_def Let_def split_beta)

lemma rebuild_locals_step_exports: "g_ipc_exports (rt_ipc (snd (rebuild_locals_step env g))) = g_ipc_exports (rt_ipc g)"
  using with_storage_exports [OF rebuild_local_allocs_exports]
  by (simp add: rebuild_locals_step_def Let_def split_beta)

lemma publish_exports_ipc: "rt_ipc (snd (publish_exports env g)) = rt_ipc g"
  by (simp add: publish_exports_def split_beta split: option.split prod.split)

lemma prepare_frame:
  assumes "\<not> g_prepared g" "n_sync env" "save_exports_step env (g\<lparr>rt_ipc := snd (ipc_teardown_all_imports (n_lib env) (rt_ipc g))\<rparr>) = (0, gs)"
    "0 \<le> fst (ipc_teardown_all_imports (n_lib env) (rt_ipc g))" "gcr_checkpoint_prepare env g = (r, g')"
  shows "g_ipc_exports (rt_ipc g') = g_ipc_exports (rt_ipc gs)" "g_export_data g' = g_export_data gs" "r \<noteq> 0 \<Longrightarrow> \<not> g_prepared g'"
proof -
  let ?e = "ipc_teardown_all_events (n_rt env) (rt_events gs, rt_peers gs)"
  let ?g3 = "gs\<lparr>rt_events := fst (snd ?e), rt_peers := snd (snd ?e)\<rparr>"
  have np: "\<not> g_prepared gs" using save_exports_step_prepared [of env] assms(1,3) by (metis gcr.select_convs(6) gcr.update_convs(1) gcr.surjective snd_conv)
  have "g' = ?g3 \<or> g' = snd (save_locals_step env ?g3) \<or> r = 0 \<and> (\<exists>p. g' = snd (save_locals_step env ?g3)\<lparr>rt_peers := p, g_prepared := True\<rparr>)"
    using assms by (auto simp: gcr_checkpoint_prepare_def Let_def split_beta not_less split: if_splits)
  then show "g_ipc_exports (rt_ipc g') = g_ipc_exports (rt_ipc gs)" "g_export_data g' = g_export_data gs" "r \<noteq> 0 \<Longrightarrow> \<not> g_prepared g'"
    using np save_locals_step_exports [of env ?g3] by auto
qed

lemma no_live_exports_nothing_saved:
  assumes "\<not> g_prepared g" "ipc_get_export_data_size (rt_ipc g) = 0" "gcr_checkpoint_prepare env g = (0, g')"
  shows "g_ipc_exports (rt_ipc g') = g_ipc_exports (rt_ipc g)" "g_export_data g' = empty_buffer"
proof -
  let ?i = "ipc_teardown_all_imports (n_lib env) (rt_ipc g)"
  let ?g1 = "g\<lparr>rt_ipc := snd ?i\<rparr>"
  have i: "n_sync env" "0 \<le> fst ?i" using assms(1,3)
    by (auto simp: gcr_checkpoint_prepare_def split_beta Let_def split: if_splits)
  have z: "ipc_get_export_data_size (snd ?i) = 0" using assms(2) by (simp add: ipc_get_export_data_size_def)
  have "save_exports_step env ?g1 = (0, ?g1\<lparr>g_export_data := empty_buffer, rt_host := snd (release_buffer (n_os env) (g_export_data g) (rt_host g))\<rparr>)"
    by (simp add: save_exports_step_def z allocate_buffer_def split_beta with_storage_def) (simp add: empty_buffer_def)
  from prepare_frame [OF assms(1) i(1) this i(2) assms(3)]
  show "g_ipc_exports (rt_ipc g') = g_ipc_exports (rt_ipc g)" "g_export_data g' = empty_buffer" by simp_all
qed

lemma restore_export_without_data:
  assumes "g_export_data g = empty_buffer" "gcr_checkpoint_restore_export env g = (r, g')"
  shows "g_ipc_exports (rt_ipc g') = g_ipc_exports (rt_ipc g)"
proof -
  have "rebuild_exports_step env g = (0, g)" using assms(1) by (simp add: rebuild_exports_step_def empty_buffer_def)
  then show ?thesis using assms(2) rebuild_locals_step_exports [of env g] publish_exports_ipc [of env "snd (rebuild_locals_step env g)"]
    by (auto simp: gcr_checkpoint_restore_export_def split_beta split: if_splits)
qed

lemma saved_exports_torn_down:
  assumes lib: "lib_ok (n_lib env)" and os: "os_fresh (n_os env)"
    and new: "storage_path (n_os env) ''export'' (g_storage_file_seq g) \<notin> set (storage_files (rt_host g))"
    and g: "g_export_data g = empty_buffer" "\<forall>e \<in> set (g_ipc_exports (rt_ipc g)). \<not> exp_torn_down e"
      "0 < ipc_get_export_data_size (rt_ipc g)" and run: "save_exports_step env g = (0, gs)"
  shows "storage_view (g_export_data gs) \<noteq> None" "ipc_get_export_data_size (rt_ipc gs) = 0"
    "i < length (g_ipc_exports (rt_ipc g)) \<Longrightarrow> exp_active (g_ipc_exports (rt_ipc g) ! i) \<Longrightarrow> exp_torn_down (g_ipc_exports (rt_ipc gs) ! i)"
proof -
  let ?n = "ipc_get_export_data_size (rt_ipc g)" and ?E = "g_ipc_exports (rt_ipc g)"
  obtain r b seq h where a: "allocate_buffer (n_os env) empty_buffer ?n ''export'' (g_storage_file_seq g, rt_host g) = (r, b, seq, h)"
    by (metis prod_cases4)
  have "r = 0" using run by (simp add: save_exports_step_def g(1) a Let_def split: if_splits)
  then have b: "sb_ptr b \<noteq> 0" "sb_size b = ?n" using allocate_balanced [OF os new a] g(3) by (auto split: if_splits)
  let ?s = "rt_ipc g\<lparr>hbuf := sb_data b\<rparr>"
  have sz: "ipc_get_export_data_size ?s = ?n" by (simp add: ipc_get_export_data_size_def)
  obtain n s' where s': "ipc_save_and_teardown_all_exports (n_lib env) ?n ?s = (n, s')" by fastforce
  have td: "\<forall>j < length ?E. exp_torn_down (g_ipc_exports s' ! j) = has_mapping (?E ! j)"
    and sv: "saved ?E (gmem (rt_ipc g)) {i. i < length ?E \<and> exp_active (?E ! i)} ?n s'"
    using save_and_teardown_ok [OF lib, of ?s ?n] g(2) s' sz by auto
  have gs: "rt_ipc gs = s'" "g_export_data gs = b\<lparr>sb_data := hbuf s'\<rparr>"
    using run b g(3) \<open>r = 0\<close> by (auto simp: save_exports_step_def g(1) a with_storage_def s' split: if_splits)
  show "storage_view (g_export_data gs) \<noteq> None" using b g(3) by (simp add: gs storage_view_def)
  show "exp_torn_down (g_ipc_exports (rt_ipc gs) ! i)" if "i < length ?E" "exp_active (?E ! i)"
    using td that by (simp add: gs exp_active_def)
  have "\<not> exp_active (g_ipc_exports s' ! j)" if "j < length (g_ipc_exports s')" for j
    using td that saved_len [OF sv] saved_geo [OF sv, of j] by (auto simp: exp_active_def)
  then have "filter exp_active (g_ipc_exports s') = []" by (auto simp: filter_empty_conv in_set_conv_nth)
  then show "ipc_get_export_data_size (rt_ipc gs) = 0" by (simp add: ipc_get_export_data_size_def gs)
qed

text \<open>C33: repeating a prepare that failed destroys the saved data.  When the exports have been saved and torn
  down and a later step fails (the storage for the local allocations cannot be had, say), the call
  returns \<open>-1\<close> and the buffer still holds the data.  A second call that returns 0 finds no live export,
  gives the buffer back, and the restore that follows leaves every one of the exports torn down,
  whatever it returns.\<close>

theorem prepare_retry_loses_exports:
  assumes lib: "lib_ok (n_lib env)" and os: "os_fresh (n_os env)" and g: "gcr_ready g" "no_stale_files (n_os env) (rt_host g)"
      "0 < ipc_get_export_data_size (rt_ipc g)"
    and saved: "n_sync env" "save_exports_step env (g\<lparr>rt_ipc := snd (ipc_teardown_all_imports (n_lib env) (rt_ipc g))\<rparr>) = (0, gs)"
    and fails: "gcr_checkpoint_prepare env g = (-1, g1)" and retry: "gcr_checkpoint_prepare env2 g1 = (0, g2)"
    and restore: "gcr_checkpoint_restore_export env3 g2 = (r, g3)"
  shows "storage_view (g_export_data g1) \<noteq> None \<and> g_export_data g2 = empty_buffer \<and>
    (\<forall>i < length (g_ipc_exports (rt_ipc g)). exp_active (g_ipc_exports (rt_ipc g) ! i) \<longrightarrow>
       exp_torn_down (g_ipc_exports (rt_ipc g3) ! i))"
proof -
  let ?i = "ipc_teardown_all_imports (n_lib env) (rt_ipc g)"
  let ?g1 = "g\<lparr>rt_ipc := snd ?i\<rparr>"
  have np: "\<not> g_prepared g" and fresh: "\<forall>e \<in> set (g_ipc_exports (rt_ipc ?g1)). \<not> exp_torn_down e" "g_export_data ?g1 = empty_buffer"
    using g(1) by (simp_all add: gcr_ready_def ipc_ready_def as_worker_def)
  have i: "0 \<le> fst ?i" using lib by (simp add: ipc_teardown_all_imports_def lib_ok_def split_beta)
  have sz: "0 < ipc_get_export_data_size (rt_ipc ?g1)" using g(3) by (simp add: ipc_get_export_data_size_def)
  have new: "storage_path (n_os env) ''export'' (g_storage_file_seq ?g1) \<notin> set (storage_files (rt_host ?g1))"
    using g(2) by (simp add: no_stale_files_def)
  note st = saved_exports_torn_down [OF lib os new fresh(2,1) sz saved(2)]
  note f1 = prepare_frame [OF np saved i fails]
  have sz1: "ipc_get_export_data_size (rt_ipc g1) = 0" using st(2) f1(1) by (simp add: ipc_get_export_data_size_def)
  note f2 = no_live_exports_nothing_saved [OF _ sz1 retry]
  have "g_ipc_exports (rt_ipc g3) = g_ipc_exports (rt_ipc gs)"
    using restore_export_without_data [OF _ restore] f1(1,3) f2 by simp
  then show ?thesis using st f1 f2 by simp
qed

lemma nothing_to_save_prepares:
  assumes "\<not> g_prepared g" "n_sync env" "lib_ok (n_lib env)" "has_events (n_rt env)"
    "ipc_get_export_data_size (rt_ipc g) = 0" "g_created_allocs (rt_ipc g) = []"
  shows "fst (gcr_checkpoint_prepare env g) = 0"
proof -
  obtain i s1 where 1: "ipc_teardown_all_imports (n_lib env) (rt_ipc g) = (i, s1)" by fastforce
  have i: "\<not> i < 0" using 1 assms(3) by (auto simp: ipc_teardown_all_imports_def lib_ok_def split: prod.splits)
  have z: "ipc_get_export_data_size s1 = 0" "ipc_get_local_alloc_data_size s1 = 0"
    using teardown_all_imports_own [of "n_lib env" "rt_ipc g"] assms(5,6)
    by (simp_all add: 1 ipc_get_export_data_size_def ipc_get_local_alloc_data_size_def local_candidates_def own_def)
  have n: "\<not> fst (ipc_teardown_all_events (n_rt env) es) < 0" for es
    using assms(4) by (cases es) (auto simp: ipc_teardown_all_events_def split: prod.splits)
  have e: "with_storage f empty_buffer s = (0, empty_buffer, s)" for f s
    by (simp add: with_storage_def empty_buffer_def)
  have a: "allocate_buffer os b 0 name (seq, h) = (0, empty_buffer, seq, snd (release_buffer os b h))" for os b name seq h
    by (simp add: allocate_buffer_def split_beta)
  show ?thesis using assms(1,2) i n
    by (simp add: gcr_checkpoint_prepare_def 1 Let_def save_exports_step_def save_locals_step_def z e a split_beta)
qed

lemma save_exports_step_frame:
  "own (rt_ipc (snd (save_exports_step env g))) = own (rt_ipc g)" "rt_events (snd (save_exports_step env g)) = rt_events g"
  using save_and_teardown_own by (auto simp: save_exports_step_def with_storage_def own_def Let_def split_beta)

definition retry_gcr :: gcr where
  \<comment> \<open>two exports, one event, no local allocation\<close>
  "retry_gcr = sample_gcr\<lparr>rt_ipc := two_exports, rt_events := [\<lparr>event = 1, is_opened = True, ev_torn_down = False\<rparr>]\<rparr>"

definition eventless_genv :: gcr_env where
  \<comment> \<open>\<open>cudaEventDestroy\<close> is not found\<close>
  "eventless_genv = sample_genv\<lparr>n_rt := obliging_rt\<lparr>has_events := False\<rparr>\<rparr>"

lemma retry_gcr_facts: "gcr_ready retry_gcr" "no_stale_files os (rt_host retry_gcr)" "rt_ipc retry_gcr = two_exports"
    "ipc_get_export_data_size two_exports = 5" "lib_ok (n_lib eventless_genv)" "n_sync eventless_genv" "n_os eventless_genv = sample_os"
    "length (g_ipc_exports two_exports) = 2" "exp_active (g_ipc_exports two_exports ! 1)"
proof -
  have "ipc_ready (as_worker retry_gcr)"
    by (simp add: ipc_ready_def as_worker_def retry_gcr_def sample_gcr_def two_exports_def ipc_start_def Let_def local_candidates_def
        local_ranges_def imp_ranges_def)
  then show "gcr_ready retry_gcr" by (simp add: gcr_ready_def) (simp add: retry_gcr_def sample_gcr_def)
  show "no_stale_files os (rt_host retry_gcr)" "rt_ipc retry_gcr = two_exports"
    by (simp_all add: no_stale_files_def retry_gcr_def sample_gcr_def)
  show "ipc_get_export_data_size two_exports = 5" "length (g_ipc_exports two_exports) = 2" "exp_active (g_ipc_exports two_exports ! 1)"
    by (simp_all add: ipc_get_export_data_size_def two_exports_def Let_def exp_active_def)
  show "lib_ok (n_lib eventless_genv)" "n_sync eventless_genv" "n_os eventless_genv = sample_os"
    by (simp_all add: eventless_genv_def sample_genv_def)
qed

lemma retry_step:
  "\<exists>gs. save_exports_step eventless_genv
     (retry_gcr\<lparr>rt_ipc := snd (ipc_teardown_all_imports (n_lib eventless_genv) (rt_ipc retry_gcr))\<rparr>) = (0, gs)"
  (is "\<exists>gs. save_exports_step _ ?g = (0, gs)")
proof -
  have "\<forall>e \<in> set (g_ipc_exports (rt_ipc ?g)). \<not> exp_torn_down e" "g_export_data ?g = empty_buffer"
    using retry_gcr_facts(1) by (simp_all add: gcr_ready_def ipc_ready_def as_worker_def)
  moreover have "fst (allocate_buffer sample_os empty_buffer n name (seq, h)) = 0" for n name seq h
    using allocate_gives [OF sample_os_ok(2)] by (metis prod.collapse)
  moreover have "storage_path sample_os ''export'' (g_storage_file_seq ?g) \<notin> set (storage_files (rt_host ?g))"
    using retry_gcr_facts(2) by (simp add: no_stale_files_def)
  ultimately show ?thesis
    using save_exports_step_ok [OF retry_gcr_facts(5), of ?g] sample_os_ok(1) unfolding retry_gcr_facts(7) by metis
qed

theorem prepare_retry_loses_exports_witness:
  "\<exists>g1 g2 r g3. gcr_checkpoint_prepare eventless_genv retry_gcr = (-1, g1) \<and> gcr_checkpoint_prepare sample_genv g1 = (0, g2) \<and>
     gcr_checkpoint_restore_export sample_genv g2 = (r, g3) \<and> exp_torn_down (g_ipc_exports (rt_ipc g3) ! 1)"
proof -
  let ?i = "ipc_teardown_all_imports (n_lib eventless_genv) (rt_ipc retry_gcr)"
  let ?g = "retry_gcr\<lparr>rt_ipc := snd ?i\<rparr>"
  obtain gs where s: "save_exports_step eventless_genv ?g = (0, gs)" using retry_step by blast
  have i: "0 \<le> fst ?i" using retry_gcr_facts(5) by (simp add: ipc_teardown_all_imports_def lib_ok_def split_beta)
  have ev: "rt_events gs = [\<lparr>event = 1, is_opened = True, ev_torn_down = False\<rparr>]"
    using save_exports_step_frame(2) [of eventless_genv ?g] s by (simp add: retry_gcr_def)
  have np: "\<not> g_prepared retry_gcr" using retry_gcr_facts(1) by (simp add: gcr_ready_def)
  obtain g1 where f: "gcr_checkpoint_prepare eventless_genv retry_gcr = (-1, g1)" "g1 = gs"
    using i s ev np retry_gcr_facts(6) by (simp add: gcr_checkpoint_prepare_def split_beta Let_def ipc_teardown_all_events_def)
      (simp add: eventless_genv_def)
  have fr: "\<forall>e \<in> set (g_ipc_exports (rt_ipc ?g)). \<not> exp_torn_down e" "g_export_data ?g = empty_buffer" "0 < ipc_get_export_data_size (rt_ipc ?g)"
    "storage_path (n_os eventless_genv) ''export'' (g_storage_file_seq ?g) \<notin> set (storage_files (rt_host ?g))"
    using retry_gcr_facts(1,2,4) by (simp_all add: gcr_ready_def ipc_ready_def as_worker_def retry_gcr_facts(3) ipc_get_export_data_size_def no_stale_files_def)
  have os: "os_fresh (n_os eventless_genv)" by (simp add: retry_gcr_facts(7) sample_os_ok)
  have "ipc_get_export_data_size (rt_ipc g1) = 0"
    using saved_exports_torn_down(2) [OF retry_gcr_facts(5) os fr(4,2,1,3) s] f(2) by simp
  moreover have "own (rt_ipc g1) = own two_exports"
    using save_exports_step_frame(1) [of eventless_genv ?g] s f(2) by (simp add: retry_gcr_facts(3))
  then have "g_created_allocs (rt_ipc g1) = []" by (simp add: own_def two_exports_def ipc_start_def Let_def)
  moreover have "\<not> g_prepared g1" using prepare_frame(3) [OF np retry_gcr_facts(6) s i f(1)] by simp
  ultimately obtain g2 where g2: "gcr_checkpoint_prepare sample_genv g1 = (0, g2)"
    using nothing_to_save_prepares [of g1 sample_genv] sample_gcr_facts(5-7) by (metis prod.collapse)
  obtain r g3 where g3: "gcr_checkpoint_restore_export sample_genv g2 = (r, g3)" by fastforce
  show ?thesis
    using prepare_retry_loses_exports [OF retry_gcr_facts(5) os retry_gcr_facts(1,2) _ retry_gcr_facts(6) s f(1) g2 g3]
      retry_gcr_facts(3,4,8,9) f(1) g2 g3 by (metis one_less_numeral_iff semiring_norm(76) zero_less_numeral)
qed

section \<open>No call leaks storage\<close>

definition same_storage :: "storage_os \<Rightarrow> storage_os \<Rightarrow> bool" where
  "same_storage os0 os \<longleftrightarrow> os_fresh os \<and> storage_dir os = storage_dir os0 \<and> os_getpid os = os_getpid os0"

inductive gcr_run :: "storage_os \<Rightarrow> gcr \<Rightarrow> gcr \<Rightarrow> bool" for os0 g0 where
  \<comment> \<open>any sequence of calls, failing ones included, with the application running in between\<close>
  Start: "gcr_run os0 g0 g0"
| Prepare: "gcr_run os0 g0 g \<Longrightarrow> same_storage os0 (n_os env) \<Longrightarrow> gcr_run os0 g0 (snd (gcr_checkpoint_prepare env g))"
| Restore_export: "gcr_run os0 g0 g \<Longrightarrow> same_storage os0 (n_os env) \<Longrightarrow> gcr_run os0 g0 (snd (gcr_checkpoint_restore_export env g))"
| Restore_import: "gcr_run os0 g0 g \<Longrightarrow> gcr_run os0 g0 (snd (gcr_checkpoint_restore_import env flags g))"
| Application: "gcr_run os0 g0 g \<Longrightarrow>
    gcr_run os0 g0 (g\<lparr>rt_ipc := s, rt_peers := p, rt_events := evs, rt_server := srv, rt_fd_tab := t, rt_shm := m\<rparr>)"

definition released :: "storage_os \<Rightarrow> gcr \<Rightarrow> host" where
  \<comment> \<open>what the process holds apart from its two buffers\<close>
  "released os g = snd (release_buffer os (g_local_alloc_data g) (snd (release_buffer os (g_export_data g) (rt_host g))))"

definition path_of :: "storage_os \<Rightarrow> string \<Rightarrow> StorageBuffer \<Rightarrow> bool" where
  "path_of os name b \<longleftrightarrow> sb_path b = '''' \<or> (\<exists>k. sb_path b = storage_path os name k)"

definition storage_wf :: "storage_os \<Rightarrow> host \<Rightarrow> gcr \<Rightarrow> bool" where
  "storage_wf os h0 g \<longleftrightarrow> proper_buf (g_export_data g) \<and> proper_buf (g_local_alloc_data g) \<and>
     path_of os ''export'' (g_export_data g) \<and> path_of os ''local_cumem'' (g_local_alloc_data g) \<and> same_resources h0 (released os g)"

lemma same_storage_path: "same_storage os0 os \<Longrightarrow> storage_path os = storage_path os0"
  by (intro ext) (simp add: same_storage_def storage_path_def)

lemma allocate_releases_first:
  "allocate_buffer os b n name (seq, h) = allocate_buffer os empty_buffer n name (seq, snd (release_buffer os b h))"
proof -
  obtain h1 where "release_buffer os b h = (empty_buffer, h1)" by (metis prod.collapse release_gives_empty)
  then show ?thesis by (simp add: allocate_buffer_def)
qed

lemma path_of_differs:
  assumes "path_of os name b" "\<And>k. storage_path os name k \<noteq> p" "p \<noteq> ''''"
  shows "sb_path b \<noteq> p"
  using assms unfolding path_of_def by metis

lemma path_empty [simp]: "sb_path empty_buffer = ''''" "path_of os name empty_buffer"
  by (simp_all add: path_of_def empty_buffer_def)

lemma allocate_path:
  "allocate_buffer os empty_buffer n name (seq, h) = (r, b, seq', h') \<Longrightarrow> path_of os name b"
  by (auto simp: allocate_buffer_def map_storage_def path_of_def Let_def split: if_splits option.splits prod.splits)

lemma allocate_keeps_storage:
  assumes os: "os_fresh os" and inv: "same_resources h0 (snd (release_buffer os other (snd (release_buffer os mine h))))"
    and new: "storage_path os name seq \<notin> set (storage_files h0)" "sb_path other \<noteq> storage_path os name seq"
    and run: "allocate_buffer os mine n name (seq, h) = (r, b, seq', h')"
  shows "proper_buf b" "path_of os name b" "same_resources h0 (snd (release_buffer os other (snd (release_buffer os b h'))))"
proof -
  let ?h = "snd (release_buffer os mine h)"
  have run': "allocate_buffer os empty_buffer n name (seq, ?h) = (r, b, seq', h')"
    by (rule trans [OF allocate_releases_first [symmetric] run])
  have "(if sb_path other \<noteq> '''' then removeAll (sb_path other) else id) (storage_files ?h) = storage_files h0"
    using inv unfolding same_resources_def release_fields(1) [of os other ?h] by blast
  then have "set (storage_files ?h) \<subseteq> insert (sb_path other) (set (storage_files h0))"
    using set_removeAll [of "sb_path other" "storage_files ?h"] by (cases "sb_path other = ''''") auto
  then have "storage_path os name seq \<notin> set (storage_files ?h)" by (rule contra_subsetD) (simp add: new not_sym [OF new(2)])
  note b = allocate_balanced [OF os this run']
  show "path_of os name b" by (rule allocate_path [OF run'])
  show "proper_buf b" using b by (auto simp: proper_buf_def split: if_splits)
  have "same_resources ?h (snd (release_buffer os b h'))" using b by (auto split: if_splits)
  then show "same_resources h0 (snd (release_buffer os other (snd (release_buffer os b h'))))"
    by (intro same_resources_trans [OF inv] release_same)
qed

lemma with_storage_path: "with_storage f b s = (n, b', s') \<Longrightarrow> path_of os name b \<Longrightarrow> path_of os name b'"
  using with_storage_run(2) [of f b s n b' s'] by (auto simp: path_of_def)

lemma save_exports_step_wf:
  assumes os: "same_storage os0 (n_os env)" "os_fresh os0" "length (storage_dir os0) \<le> 400"
    and h0: "no_stale_files os0 h0" and g: "storage_wf os0 h0 g"
  shows "storage_wf os0 h0 (snd (save_exports_step env g))"
proof -
  have rel: "release_buffer (n_os env) b h = release_buffer os0 b h" for b h using os by (intro release_os) (simp_all add: same_storage_def)
  note sp = same_storage_path [OF os(1)]
  obtain r b seq h where a: "allocate_buffer (n_os env) (g_export_data g) (ipc_get_export_data_size (rt_ipc g)) ''export''
      (g_storage_file_seq g, rt_host g) = (r, b, seq, h)" by (metis prod_cases4)
  have diff: "sb_path (g_local_alloc_data g) \<noteq> storage_path (n_os env) ''export'' (g_storage_file_seq g)"
    unfolding sp by (rule path_of_differs [OF _ not_sym [OF storage_paths_differ [OF os(3)]] storage_path_nonempty])
      (use g in \<open>simp add: storage_wf_def\<close>)
  have fr: "os_fresh (n_os env)" and nw: "storage_path (n_os env) ''export'' (g_storage_file_seq g) \<notin> set (storage_files h0)"
    using os(1) h0 unfolding sp by (simp_all add: same_storage_def no_stale_files_def)
  have inv: "same_resources h0 (snd (release_buffer (n_os env) (g_local_alloc_data g) (snd (release_buffer (n_os env) (g_export_data g) (rt_host g)))))"
    unfolding rel using g by (simp add: storage_wf_def released_def)
  have "proper_buf b" "path_of (n_os env) ''export'' b"
    "same_resources h0 (snd (release_buffer (n_os env) (g_local_alloc_data g) (snd (release_buffer (n_os env) b h))))"
    by (rule allocate_keeps_storage [OF fr inv nw diff a])+
  then have w: "storage_wf os0 h0 (g\<lparr>g_export_data := b, g_storage_file_seq := seq, rt_host := h\<rparr>)"
    using g by (simp add: storage_wf_def released_def rel path_of_def sp)
  obtain n b' s where ws: "with_storage (ipc_save_and_teardown_all_exports (n_lib env)) b (rt_ipc g) = (n, b', s)" by (metis prod_cases3)
  obtain d where "b' = b\<lparr>sb_data := d\<rparr>" using with_storage_run(2) [OF ws] by blast
  then have "storage_wf os0 h0 (g\<lparr>g_storage_file_seq := seq, rt_host := h, g_export_data := b', rt_ipc := s\<rparr>)"
    using w with_storage_proper [OF ws] with_storage_path [OF ws] by (simp add: storage_wf_def released_def)
  with w show ?thesis by (simp add: save_exports_step_def a ws Let_def)
qed

lemma save_locals_step_wf:
  assumes os: "same_storage os0 (n_os env)" "os_fresh os0" "length (storage_dir os0) \<le> 400"
    and h0: "no_stale_files os0 h0" and g: "storage_wf os0 h0 g"
  shows "storage_wf os0 h0 (snd (save_locals_step env g))"
proof -
  have rel: "release_buffer (n_os env) b h = release_buffer os0 b h" for b h using os by (intro release_os) (simp_all add: same_storage_def)
  note sp = same_storage_path [OF os(1)]
  obtain r b seq h where a: "allocate_buffer (n_os env) (g_local_alloc_data g) (ipc_get_local_alloc_data_size (rt_ipc g)) ''local_cumem''
      (g_storage_file_seq g, rt_host g) = (r, b, seq, h)" by (metis prod_cases4)
  have diff: "sb_path (g_export_data g) \<noteq> storage_path (n_os env) ''local_cumem'' (g_storage_file_seq g)"
    unfolding sp by (rule path_of_differs [OF _ storage_paths_differ [OF os(3)] storage_path_nonempty])
      (use g in \<open>simp add: storage_wf_def\<close>)
  have swap: "same_resources h0 (snd (release_buffer os0 x (snd (release_buffer os0 y k)))) \<Longrightarrow>
      same_resources h0 (snd (release_buffer os0 y (snd (release_buffer os0 x k))))" for x y k
    by (erule same_resources_trans) (rule release_commute)
  have fr: "os_fresh (n_os env)" and nw: "storage_path (n_os env) ''local_cumem'' (g_storage_file_seq g) \<notin> set (storage_files h0)"
    using os(1) h0 unfolding sp by (simp_all add: same_storage_def no_stale_files_def)
  have inv: "same_resources h0 (snd (release_buffer (n_os env) (g_export_data g) (snd (release_buffer (n_os env) (g_local_alloc_data g) (rt_host g)))))"
    unfolding rel using g swap by (simp add: storage_wf_def released_def)
  have "proper_buf b" "path_of (n_os env) ''local_cumem'' b"
    "same_resources h0 (snd (release_buffer (n_os env) (g_export_data g) (snd (release_buffer (n_os env) b h))))"
    by (rule allocate_keeps_storage [OF fr inv nw diff a])+
  then have w: "storage_wf os0 h0 (g\<lparr>g_local_alloc_data := b, g_storage_file_seq := seq, rt_host := h\<rparr>)"
    using g swap by (simp add: storage_wf_def released_def rel path_of_def sp)
  obtain n b' s where ws: "with_storage (ipc_save_and_teardown_local_allocs (n_lib env)) b (rt_ipc g) = (n, b', s)" by (metis prod_cases3)
  obtain d where "b' = b\<lparr>sb_data := d\<rparr>" using with_storage_run(2) [OF ws] by blast
  then have "storage_wf os0 h0 (g\<lparr>g_storage_file_seq := seq, rt_host := h, g_local_alloc_data := b', rt_ipc := s\<rparr>)"
    using w with_storage_proper [OF ws] with_storage_path [OF ws] by (simp add: storage_wf_def released_def)
  with w show ?thesis by (simp add: save_locals_step_def a ws Let_def)
qed

lemma prepare_wf:
  assumes "same_storage os0 (n_os env)" "os_fresh os0" "length (storage_dir os0) \<le> 400" "no_stale_files os0 h0" "storage_wf os0 h0 g"
  shows "storage_wf os0 h0 (snd (gcr_checkpoint_prepare env g))"
proof -
  have other: "storage_wf os0 h0 (k\<lparr>rt_ipc := s\<rparr>) = storage_wf os0 h0 k" "storage_wf os0 h0 (k\<lparr>rt_events := e, rt_peers := p\<rparr>) = storage_wf os0 h0 k"
    "storage_wf os0 h0 (k\<lparr>rt_peers := p, g_prepared := True\<rparr>) = storage_wf os0 h0 k" for k s e p
    by (simp_all add: storage_wf_def released_def)
  note step = save_exports_step_wf [OF assms(1-4)] save_locals_step_wf [OF assms(1-4)]
  show ?thesis using assms(5) by (simp add: gcr_checkpoint_prepare_def split_beta Let_def other step)
qed

lemma restore_export_wf:
  assumes "same_storage os0 (n_os env)" "os_fresh os0" "storage_wf os0 h0 g"
  shows "storage_wf os0 h0 (snd (gcr_checkpoint_restore_export env g))"
proof -
  have rel: "release_buffer (n_os env) b h = release_buffer os0 b h" for b h using assms(1,2) by (intro release_os) (simp_all add: same_storage_def)
  have e: "proper_buf empty_buffer" "path_of os0 name empty_buffer" for name by (simp_all add: proper_buf_def path_of_def empty_buffer_def)
  have r: "snd (release_buffer os0 empty_buffer h) = h" for h by simp
  have 1: "storage_wf os0 h0 (snd (rebuild_exports_step env k))" if "storage_wf os0 h0 k" for k
    using that e by (simp add: rebuild_exports_step_def storage_wf_def released_def split_beta rel)
  have 2: "storage_wf os0 h0 (snd (rebuild_locals_step env k))" if "storage_wf os0 h0 k" for k
  proof -
    have "same_resources h0 (snd (release_buffer os0 (g_export_data k) (snd (release_buffer os0 (g_local_alloc_data k) (rt_host k)))))"
      using that by (auto simp: storage_wf_def released_def intro: same_resources_trans [OF _ release_commute])
    then show ?thesis using that e by (simp add: rebuild_locals_step_def storage_wf_def released_def split_beta rel)
  qed
  have 3: "storage_wf os0 h0 (snd (publish_exports env k)) = storage_wf os0 h0 k" for k
    by (simp add: publish_exports_def storage_wf_def released_def split_beta split: option.split prod.split)
  have 4: "storage_wf os0 h0 (k\<lparr>rt_server := srv\<rparr>) = storage_wf os0 h0 k" for k srv by (simp add: storage_wf_def released_def)
  show ?thesis using 1 2 assms(3) by (simp add: gcr_checkpoint_restore_export_def split_beta 3 4)
qed

lemma restore_import_wf: "storage_wf os0 h0 (snd (gcr_checkpoint_restore_import env flags g)) = storage_wf os0 h0 g"
proof -
  have "storage_wf os0 h0 (snd (import_step env g)) = storage_wf os0 h0 g"
    by (simp add: import_step_def storage_wf_def released_def split_beta split: option.split prod.split)
  then show ?thesis by (simp add: gcr_checkpoint_restore_import_def Let_def split_beta) (simp add: storage_wf_def released_def)
qed

text \<open>C16: the storage of the runtime stays well formed and nothing leaks.  Starting without buffers, after any
  sequence of prepare, restore-export and restore-import calls, in any order and failing or not, and
  with the application doing whatever it likes to the tables in between, each of the two buffers is
  either empty or has memory and a size, and what the process holds is exactly what it held at the
  start and the resources of these two buffers.\<close>

theorem gcr_storage_owned:
  assumes "gcr_run os0 g0 g" "os_fresh os0" "length (storage_dir os0) \<le> 400" "no_stale_files os0 (rt_host g0)"
    and "g_export_data g0 = empty_buffer" "g_local_alloc_data g0 = empty_buffer"
  shows "proper_buf (g_export_data g) \<and> proper_buf (g_local_alloc_data g) \<and> same_resources (rt_host g0) (released os0 g)"
proof -
  have "storage_wf os0 (rt_host g0) g"
    using assms(1)
  proof (induction rule: gcr_run.induct)
    case Start
    show ?case using assms(5,6) by (simp add: storage_wf_def released_def proper_buf_def)
  next
    case (Prepare g env)
    then show ?case using assms(2-4) by (intro prepare_wf)
  next
    case (Restore_export g env)
    then show ?case using assms(2) by (intro restore_export_wf)
  next
    case (Restore_import g env flags)
    then show ?case by (simp add: restore_import_wf)
  next
    case (Application g s p evs srv t m)
    then show ?case by (simp add: storage_wf_def released_def)
  qed
  then show ?thesis by (simp add: storage_wf_def)
qed

theorem gcr_storage_owned_witness:
  "let g = snd (gcr_checkpoint_prepare eventless_genv sample_gcr) in
   proper_buf (g_export_data g) \<and> same_resources (rt_host sample_gcr) (released sample_os g)"
proof -
  have "gcr_run sample_os sample_gcr (snd (gcr_checkpoint_prepare eventless_genv sample_gcr))"
    by (intro gcr_run.intros) (simp add: same_storage_def retry_gcr_facts(7) sample_os_ok(1))
  moreover have "g_export_data sample_gcr = empty_buffer" "g_local_alloc_data sample_gcr = empty_buffer"
    by (simp_all add: sample_gcr_def)
  ultimately show ?thesis
    using gcr_storage_owned [OF _ sample_os_ok(1), of sample_gcr] sample_gcr_facts(2) sample_os_ok(3) by (simp add: Let_def)
qed

end
