(* ===== verification/Nccl_Plugin.thy ===== *)
theory Nccl_Plugin
  imports Gcr_Runtime
begin

unbundle bit_operations_syntax

text \<open>
  The path from NCCL's public checkpoint calls to the runtime: the flag checks of
  \<open>ncclCommCheckpointPrepare\<close> and \<open>ncclCommCheckpointRestore\<close>
  (\<open>adapters/nccl/nccl_patches/checkpoint_api.cc\<close>), the loader of the plugin
  (\<open>nccl_patches/checkpoint.cc\<close>) and the plugin itself
  (\<open>plugin/nccl_checkpoint_gcr_plugin.cpp\<close>).  Flags are words of 32 bits.  The library that is loaded,
  the symbols it finds and NCCL's own suspend and resume are parameters.  The locale
  \<open>checkpoint_runtime\<close> states what the plugin relies on; the runtime of the theory \<open>Gcr_Runtime\<close> is
  its interpretation.
\<close>

section \<open>Flags\<close>

datatype ncclResult_t = ncclSuccess | ncclSystemError | ncclInvalidUsage | ncclOtherError nat

definition NCCL_CKPT_MODE_NATIVE :: "32 word" where "NCCL_CKPT_MODE_NATIVE = 0x0001"
definition NCCL_CKPT_MODE_GCR_GLOBAL :: "32 word" where "NCCL_CKPT_MODE_GCR_GLOBAL = 0x0004"
definition NCCL_CKPT_MODE_MASK :: "32 word" where "NCCL_CKPT_MODE_MASK = NCCL_CKPT_MODE_NATIVE OR NCCL_CKPT_MODE_GCR_GLOBAL"
definition NCCL_CKPT_OPT_SAVE_DATA :: "32 word" where "NCCL_CKPT_OPT_SAVE_DATA = 0x0100"
definition NCCL_CKPT_OPT_NO_CUDA_CKPT :: "32 word" where "NCCL_CKPT_OPT_NO_CUDA_CKPT = 0x0200"
definition NCCL_CKPT_OPT_VALIDATE :: "32 word" where "NCCL_CKPT_OPT_VALIDATE = 0x0400"
definition NCCL_CKPT_RESTORE_EXPORT :: "32 word" where "NCCL_CKPT_RESTORE_EXPORT = 0x1000"
definition NCCL_CKPT_RESTORE_IMPORT :: "32 word" where "NCCL_CKPT_RESTORE_IMPORT = 0x2000"

lemmas ckpt_flag_defs = NCCL_CKPT_MODE_NATIVE_def NCCL_CKPT_MODE_GCR_GLOBAL_def NCCL_CKPT_MODE_MASK_def
  NCCL_CKPT_OPT_SAVE_DATA_def NCCL_CKPT_OPT_NO_CUDA_CKPT_def NCCL_CKPT_OPT_VALIDATE_def
  NCCL_CKPT_RESTORE_EXPORT_def NCCL_CKPT_RESTORE_IMPORT_def

section \<open>The plugin interface and its loader\<close>

record ('c, 's) ncclCheckpointPlugin_t =
  \<comment> \<open>\<open>'c\<close> is what the context points to, \<open>'s\<close> the state of the process the callbacks work on\<close>
  p_name :: string
  p_init :: "('s \<Rightarrow> ncclResult_t \<times> 'c option \<times> 's) option"
  p_prepare :: "('c option \<Rightarrow> nat \<Rightarrow> 32 word \<Rightarrow> 's \<Rightarrow> ncclResult_t \<times> 's) option"
  p_restore :: "('c option \<Rightarrow> nat \<Rightarrow> 32 word \<Rightarrow> 's \<Rightarrow> ncclResult_t \<times> 's) option"
  p_finalize :: "('c option \<Rightarrow> 's \<Rightarrow> ncclResult_t \<times> 's) option"

datatype load_status = checkpointPluginLoadFailed | checkpointPluginLoadReady | checkpointPluginLoadSuccess

record ('c, 's) loader =
  checkpointPluginStatus :: load_status
  checkpointPluginLib :: bool \<comment> \<open>the library is open\<close>
  checkpointPlugin :: "('c, 's) ncclCheckpointPlugin_t option"
  checkpointPluginContext :: "'c option"
  checkpointPluginFinalizeRegistered :: bool

record ('c, 's) load_env =
  l_name :: "string option" \<comment> \<open>\<open>NCCL_CHECKPOINT_PLUGIN\<close>\<close>
  l_open :: "string option \<Rightarrow> bool" \<comment> \<open>\<open>ncclOpenCheckpointPluginLib\<close> finds a library\<close>
  l_symbol :: "('c, 's) ncclCheckpointPlugin_t option" \<comment> \<open>\<open>ncclCheckpointPlugin_v1\<close> in it\<close>

definition loader_initial :: "('c, 's) loader" where
  "loader_initial = \<lparr>checkpointPluginStatus = checkpointPluginLoadReady, checkpointPluginLib = False, checkpointPlugin = None,
     checkpointPluginContext = None, checkpointPluginFinalizeRegistered = False\<rparr>"

definition ncclCheckpointPluginFinalize :: "('c, 's) loader \<times> 's \<Rightarrow> ('c, 's) loader \<times> 's" where
  "ncclCheckpointPluginFinalize ls =
     (case ls of (l, s) \<Rightarrow>
      let s1 = (case checkpointPlugin l of
                  Some p \<Rightarrow> (case p_finalize p of Some f \<Rightarrow> snd (f (checkpointPluginContext l) s) | None \<Rightarrow> s)
                | None \<Rightarrow> s)
      in (l\<lparr>checkpointPluginContext := None, checkpointPlugin := None, checkpointPluginLib := False,
            checkpointPluginStatus := checkpointPluginLoadReady\<rparr>, s1))"

definition load_fail :: "('c, 's) loader \<Rightarrow> ncclResult_t \<times> ('c, 's) loader" where
  \<comment> \<open>the label \<open>fail\<close>\<close>
  "load_fail l = (ncclInvalidUsage, l\<lparr>checkpointPluginLib := False, checkpointPlugin := None, checkpointPluginContext := None,
     checkpointPluginStatus := checkpointPluginLoadFailed\<rparr>)"

definition ncclCheckpointPluginLoad ::
    "('c, 's) load_env \<Rightarrow> ('c, 's) loader \<times> 's \<Rightarrow> ncclResult_t \<times> ('c, 's) loader \<times> 's" where
  "ncclCheckpointPluginLoad env ls =
     (case ls of (l, s) \<Rightarrow>
      if checkpointPluginStatus l = checkpointPluginLoadFailed then (ncclInvalidUsage, l, s)
      else if checkpointPluginStatus l = checkpointPluginLoadSuccess then (ncclSuccess, l, s)
      else if (case l_name env of Some n \<Rightarrow> strcaseeq n ''none'' | None \<Rightarrow> False) then (case load_fail l of (r, l1) \<Rightarrow> (r, l1, s))
      else let l1 = l\<lparr>checkpointPluginLib := l_open env (l_name env)\<rparr> in
      if \<not> checkpointPluginLib l1 then (case load_fail l1 of (r, l2) \<Rightarrow> (r, l2, s))
      else case l_symbol env of
        None \<Rightarrow> (case load_fail l1 of (r, l2) \<Rightarrow> (r, l2, s))
      | Some p \<Rightarrow>
          let l2 = l1\<lparr>checkpointPlugin := Some p\<rparr> in
          case p_init p of
            None \<Rightarrow> (case load_fail l2 of (r, l3) \<Rightarrow> (r, l3, s))
          | Some init \<Rightarrow>
              if Option.is_none (p_prepare p) \<or> Option.is_none (p_restore p) then (case load_fail l2 of (r, l3) \<Rightarrow> (r, l3, s))
              else case init s of (r, ctx, s1) \<Rightarrow>
                let l3 = l2\<lparr>checkpointPluginContext := ctx\<rparr> in
                if r \<noteq> ncclSuccess then (case load_fail l3 of (r, l4) \<Rightarrow> (r, l4, s1))
                else (ncclSuccess, l3\<lparr>checkpointPluginStatus := checkpointPluginLoadSuccess,
                        checkpointPluginFinalizeRegistered := True\<rparr>, s1))"

definition ncclCheckpointPluginPrepare ::
    "('c, 's) load_env \<Rightarrow> nat \<Rightarrow> 32 word \<Rightarrow> ('c, 's) loader \<times> 's \<Rightarrow> ncclResult_t \<times> ('c, 's) loader \<times> 's" where
  "ncclCheckpointPluginPrepare env comm flags ls =
     (case ncclCheckpointPluginLoad env ls of (r, l, s) \<Rightarrow>
      if r \<noteq> ncclSuccess then (r, l, s)
      else case checkpointPlugin l of
        None \<Rightarrow> (ncclInvalidUsage, l, s)
      | Some p \<Rightarrow> case p_prepare p of
          Some f \<Rightarrow> (case f (checkpointPluginContext l) comm flags s of (r, s1) \<Rightarrow> (r, l, s1))
        | None \<Rightarrow> (ncclInvalidUsage, l, s))"

definition ncclCheckpointPluginRestore ::
    "('c, 's) load_env \<Rightarrow> nat \<Rightarrow> 32 word \<Rightarrow> ('c, 's) loader \<times> 's \<Rightarrow> ncclResult_t \<times> ('c, 's) loader \<times> 's" where
  "ncclCheckpointPluginRestore env comm flags ls =
     (case ncclCheckpointPluginLoad env ls of (r, l, s) \<Rightarrow>
      if r \<noteq> ncclSuccess then (r, l, s)
      else case checkpointPlugin l of
        None \<Rightarrow> (ncclInvalidUsage, l, s)
      | Some p \<Rightarrow> case p_restore p of
          Some f \<Rightarrow> (case f (checkpointPluginContext l) comm flags s of (r, s1) \<Rightarrow> (r, l, s1))
        | None \<Rightarrow> (ncclInvalidUsage, l, s))"

section \<open>The public calls\<close>

definition ncclCommCheckpointPrepare ::
    "('s \<Rightarrow> ncclResult_t \<times> 's) option \<Rightarrow> ('c, 's) load_env \<Rightarrow> nat \<Rightarrow> 32 word \<Rightarrow> ('c, 's) loader \<times> 's \<Rightarrow>
     ncclResult_t \<times> ('c, 's) loader \<times> 's" where
  \<comment> \<open>the first argument is \<open>ncclCommSuspend\<close>, where NCCL has it\<close>
  "ncclCommCheckpointPrepare suspend env comm flags ls =
     (let mode = flags AND NCCL_CKPT_MODE_MASK;
          knownFlags = NCCL_CKPT_MODE_MASK OR NCCL_CKPT_OPT_SAVE_DATA OR NCCL_CKPT_OPT_NO_CUDA_CKPT OR NCCL_CKPT_OPT_VALIDATE
      in if mode = NCCL_CKPT_MODE_NATIVE \<and> flags AND NOT NCCL_CKPT_MODE_NATIVE = 0 then
           (case suspend of Some f \<Rightarrow> (case f (snd ls) of (r, s) \<Rightarrow> (r, fst ls, s)) | None \<Rightarrow> (ncclInvalidUsage, ls))
         else if mode = NCCL_CKPT_MODE_GCR_GLOBAL then
           (if flags AND NOT knownFlags \<noteq> 0 then (ncclInvalidUsage, ls) else ncclCheckpointPluginPrepare env comm flags ls)
         else (ncclInvalidUsage, ls))"

definition ncclCommCheckpointRestore ::
    "('s \<Rightarrow> ncclResult_t \<times> 's) option \<Rightarrow> ('c, 's) load_env \<Rightarrow> nat \<Rightarrow> 32 word \<Rightarrow> ('c, 's) loader \<times> 's \<Rightarrow>
     ncclResult_t \<times> ('c, 's) loader \<times> 's" where
  "ncclCommCheckpointRestore resume env comm flags ls =
     (let mode = flags AND NCCL_CKPT_MODE_MASK;
          restorePhase = flags AND (NCCL_CKPT_RESTORE_EXPORT OR NCCL_CKPT_RESTORE_IMPORT);
          knownFlags = NCCL_CKPT_MODE_MASK OR NCCL_CKPT_OPT_SAVE_DATA OR NCCL_CKPT_OPT_NO_CUDA_CKPT OR
            NCCL_CKPT_OPT_VALIDATE OR NCCL_CKPT_RESTORE_EXPORT OR NCCL_CKPT_RESTORE_IMPORT
      in if mode = NCCL_CKPT_MODE_NATIVE \<and> flags AND NOT NCCL_CKPT_MODE_NATIVE = 0 then
           (case resume of Some f \<Rightarrow> (case f (snd ls) of (r, s) \<Rightarrow> (r, fst ls, s)) | None \<Rightarrow> (ncclInvalidUsage, ls))
         else if mode = NCCL_CKPT_MODE_GCR_GLOBAL then
           (if flags AND NOT knownFlags \<noteq> 0 \<or> restorePhase = 0 \<or>
               restorePhase = (NCCL_CKPT_RESTORE_EXPORT OR NCCL_CKPT_RESTORE_IMPORT)
            then (ncclInvalidUsage, ls) else ncclCheckpointPluginRestore env comm flags ls)
         else (ncclInvalidUsage, ls))"

section \<open>The GCR plugin\<close>

record 's GcrCheckpointContext =
  c_prepare :: "32 word \<Rightarrow> 's \<Rightarrow> int \<times> 's"
  c_restoreExport :: "32 word \<Rightarrow> 's \<Rightarrow> int \<times> 's"
  c_restoreImport :: "32 word \<Rightarrow> 's \<Rightarrow> int \<times> 's"
  c_validate :: "(32 word \<Rightarrow> 's \<Rightarrow> int \<times> 's) option"

type_synonym 's symbols = "string \<Rightarrow> (32 word \<Rightarrow> 's \<Rightarrow> int \<times> 's) option" \<comment> \<open>\<open>dlsym(RTLD_DEFAULT, ...)\<close>\<close>

definition gcrPluginInit :: "'s symbols \<Rightarrow> 's \<Rightarrow> ncclResult_t \<times> 's GcrCheckpointContext option \<times> 's" where
  "gcrPluginInit dl s =
     (case (dl ''gcr_checkpoint_prepare'', dl ''gcr_checkpoint_restore_export'', dl ''gcr_checkpoint_restore_import'') of
        (Some p, Some e, Some i) \<Rightarrow>
          (ncclSuccess, Some \<lparr>c_prepare = p, c_restoreExport = e, c_restoreImport = i, c_validate = dl ''gcr_checkpoint_validate''\<rparr>, s)
      | _ \<Rightarrow> (ncclSystemError, None, s))"

definition status_of :: "int \<times> 's \<Rightarrow> ncclResult_t \<times> 's" where
  \<comment> \<open>\<open>f(flags) == 0 ? ncclSuccess : ncclSystemError\<close>\<close>
  "status_of rs = (if fst rs = 0 then ncclSuccess else ncclSystemError, snd rs)"

definition gcrPluginPrepare :: "'s GcrCheckpointContext option \<Rightarrow> nat \<Rightarrow> 32 word \<Rightarrow> 's \<Rightarrow> ncclResult_t \<times> 's" where
  \<comment> \<open>the loader passes the context that \<open>gcrPluginInit\<close> set\<close>
  "gcrPluginPrepare context comm flags s =
     (case context of Some ctx \<Rightarrow> status_of (c_prepare ctx flags s) | None \<Rightarrow> (ncclInvalidUsage, s))"

definition gcrPluginRestore :: "'s GcrCheckpointContext option \<Rightarrow> nat \<Rightarrow> 32 word \<Rightarrow> 's \<Rightarrow> ncclResult_t \<times> 's" where
  "gcrPluginRestore context comm flags s =
     (case context of
        Some ctx \<Rightarrow>
          if flags AND NCCL_CKPT_RESTORE_EXPORT \<noteq> 0 then status_of (c_restoreExport ctx flags s)
          else if flags AND NCCL_CKPT_RESTORE_IMPORT \<noteq> 0 then status_of (c_restoreImport ctx flags s)
          else (ncclInvalidUsage, s)
      | None \<Rightarrow> (ncclInvalidUsage, s))"

definition gcrPluginFinalize :: "'s GcrCheckpointContext option \<Rightarrow> 's \<Rightarrow> ncclResult_t \<times> 's" where
  "gcrPluginFinalize context s = (ncclSuccess, s)"

definition gcr_plugin :: "'s symbols \<Rightarrow> ('s GcrCheckpointContext, 's) ncclCheckpointPlugin_t" where
  "gcr_plugin dl = \<lparr>p_name = ''gcr'', p_init = Some (gcrPluginInit dl), p_prepare = Some gcrPluginPrepare,
     p_restore = Some gcrPluginRestore, p_finalize = Some gcrPluginFinalize\<rparr>"

section \<open>Which flags reach the plugin\<close>

lemma and_single_bit: "x AND 2 ^ k = (if bit x k then 2 ^ k else (0 :: 32 word))"
  by (rule bit_eqI) (auto simp: bit_simps)

definition flag_bit :: "32 word \<Rightarrow> nat \<Rightarrow> 32 word" where
  "flag_bit x k = (if bit x k then 2 ^ k else 0)"

lemma only_bits:
  assumes "x AND NOT m = 0" "m = foldr (\<lambda>k w. 2 ^ k OR w) ks (0 :: 32 word)"
  shows "x = foldr (\<lambda>k w. flag_bit x k OR w) ks 0"
proof -
  have "x AND foldr (\<lambda>k w. 2 ^ k OR w) ks 0 = foldr (\<lambda>k w. flag_bit x k OR w) ks 0" for ks
    by (induction ks) (simp_all add: bit.conj_disj_distrib and_single_bit flag_bit_def)
  moreover have "x = x AND m"
  proof (rule bit_eqI)
    fix n assume "possible_bit TYPE(32 word) n"
    moreover have "\<not> bit (x AND NOT m) n" using assms(1) by simp
    ultimately show "bit x n = bit (x AND m) n" by (simp add: bit_simps) blast
  qed
  ultimately show ?thesis using assms(2) by simp
qed

lemma prepare_flags:
  "flags AND NCCL_CKPT_MODE_MASK = NCCL_CKPT_MODE_GCR_GLOBAL \<and>
   flags AND NOT (NCCL_CKPT_MODE_MASK OR NCCL_CKPT_OPT_SAVE_DATA OR NCCL_CKPT_OPT_NO_CUDA_CKPT OR NCCL_CKPT_OPT_VALIDATE) = 0 \<longleftrightarrow>
   flags \<in> {0x4, 0x104, 0x204, 0x304, 0x404, 0x504, 0x604, 0x704}" (is "?l \<longleftrightarrow> ?r")
proof
  assume l: ?l
  have "flags = foldr (\<lambda>k w. flag_bit flags k OR w) [0, 2, 8, 9, 10] 0"
    by (rule only_bits [OF conjunct2 [OF l]]) (simp add: ckpt_flag_defs)
  then have f: "flags = flag_bit flags 0 OR flag_bit flags 2 OR flag_bit flags 8 OR flag_bit flags 9 OR flag_bit flags 10" by simp
  have "flags AND 5 = 4" using l by (simp add: ckpt_flag_defs)
  then show ?r using f
    by (cases "bit flags 0"; cases "bit flags 2"; cases "bit flags 8"; cases "bit flags 9"; cases "bit flags 10")
      (simp_all add: flag_bit_def)
next
  assume ?r
  then show ?l by (auto simp: ckpt_flag_defs)
qed

lemma restore_flags:
  "flags AND NCCL_CKPT_MODE_MASK = NCCL_CKPT_MODE_GCR_GLOBAL \<and>
   flags AND NOT (NCCL_CKPT_MODE_MASK OR NCCL_CKPT_OPT_SAVE_DATA OR NCCL_CKPT_OPT_NO_CUDA_CKPT OR NCCL_CKPT_OPT_VALIDATE OR
     NCCL_CKPT_RESTORE_EXPORT OR NCCL_CKPT_RESTORE_IMPORT) = 0 \<and>
   flags AND (NCCL_CKPT_RESTORE_EXPORT OR NCCL_CKPT_RESTORE_IMPORT) \<noteq> 0 \<and>
   flags AND (NCCL_CKPT_RESTORE_EXPORT OR NCCL_CKPT_RESTORE_IMPORT) \<noteq> (NCCL_CKPT_RESTORE_EXPORT OR NCCL_CKPT_RESTORE_IMPORT) \<longleftrightarrow>
   flags \<in> {0x1004, 0x1104, 0x1204, 0x1304, 0x1404, 0x1504, 0x1604, 0x1704,
     0x2004, 0x2104, 0x2204, 0x2304, 0x2404, 0x2504, 0x2604, 0x2704}" (is "?l \<longleftrightarrow> ?r")
proof
  assume l: ?l
  have "flags = foldr (\<lambda>k w. flag_bit flags k OR w) [0, 2, 8, 9, 10, 12, 13] 0"
    by (rule only_bits [OF conjunct1 [OF conjunct2 [OF l]]]) (simp add: ckpt_flag_defs)
  then have f: "flags = flag_bit flags 0 OR flag_bit flags 2 OR flag_bit flags 8 OR flag_bit flags 9 OR flag_bit flags 10 OR
    flag_bit flags 12 OR flag_bit flags 13" by simp
  have m: "flags AND 5 = 4" "flags AND 0x3000 \<noteq> 0" "flags AND 0x3000 \<noteq> 0x3000" using l by (simp_all add: ckpt_flag_defs)
  have "\<not> bit (flags AND 5) 0" "bit (flags AND 5) 2" unfolding m(1) by simp_all
  then have b: "\<not> bit flags 0" "bit flags 2" by (simp_all add: bit_simps)
  show ?r using f m b
    by (cases "bit flags 8"; cases "bit flags 9"; cases "bit flags 10"; cases "bit flags 12"; cases "bit flags 13")
      (simp_all add: flag_bit_def)
next
  assume ?r
  then show ?l by (auto simp: ckpt_flag_defs)
qed

text \<open>C34: the public calls accept exactly the documented flag words.  \<open>ncclCommCheckpointPrepare\<close> reaches the
  plugin for mode \<open>GCR_GLOBAL\<close> with any of the three options, and \<open>ncclCommCheckpointRestore\<close> for that
  mode, any options and exactly one of the two phases; the word 1 goes to NCCL's own suspend or resume;
  every other of the \<open>2 ^ 32\<close> words is refused with \<open>ncclInvalidUsage\<close> and nothing happens, the loading
  of the plugin included.\<close>

theorem checkpoint_flags_decide:
  "ncclCommCheckpointPrepare suspend env comm flags ls =
     (if flags \<in> {0x4, 0x104, 0x204, 0x304, 0x404, 0x504, 0x604, 0x704} then ncclCheckpointPluginPrepare env comm flags ls
      else case suspend of Some f \<Rightarrow> if flags = 1 then (case f (snd ls) of (r, s) \<Rightarrow> (r, fst ls, s)) else (ncclInvalidUsage, ls)
      | None \<Rightarrow> (ncclInvalidUsage, ls)) \<and>
   ncclCommCheckpointRestore resume env comm flags ls =
     (if flags \<in> {0x1004, 0x1104, 0x1204, 0x1304, 0x1404, 0x1504, 0x1604, 0x1704,
        0x2004, 0x2104, 0x2204, 0x2304, 0x2404, 0x2504, 0x2604, 0x2704} then ncclCheckpointPluginRestore env comm flags ls
      else case resume of Some f \<Rightarrow> if flags = 1 then (case f (snd ls) of (r, s) \<Rightarrow> (r, fst ls, s)) else (ncclInvalidUsage, ls)
      | None \<Rightarrow> (ncclInvalidUsage, ls))"
proof -
  have "flags AND NOT NCCL_CKPT_MODE_NATIVE = 0 \<longleftrightarrow> flags = 0 \<or> flags = 1"
  proof
    assume "flags AND NOT NCCL_CKPT_MODE_NATIVE = 0"
    then have "flags = foldr (\<lambda>k w. flag_bit flags k OR w) [0] 0"
      by (rule only_bits) (simp add: ckpt_flag_defs)
    then show "flags = 0 \<or> flags = 1" by (cases "bit flags 0") (simp_all add: flag_bit_def)
  qed (auto simp: ckpt_flag_defs)
  then have n: "flags AND NCCL_CKPT_MODE_MASK = NCCL_CKPT_MODE_NATIVE \<and> flags AND NOT NCCL_CKPT_MODE_NATIVE = 0 \<longleftrightarrow> flags = 1"
    by (auto simp: ckpt_flag_defs)
  have "ncclCommCheckpointPrepare suspend env comm flags ls =
     (if flags = 1 then (case suspend of Some f \<Rightarrow> (case f (snd ls) of (r, s) \<Rightarrow> (r, fst ls, s)) | None \<Rightarrow> (ncclInvalidUsage, ls))
      else if flags \<in> {0x4, 0x104, 0x204, 0x304, 0x404, 0x504, 0x604, 0x704} then ncclCheckpointPluginPrepare env comm flags ls
      else (ncclInvalidUsage, ls))"
    unfolding ncclCommCheckpointPrepare_def Let_def n prepare_flags [symmetric] by auto
  moreover have "ncclCommCheckpointRestore resume env comm flags ls =
     (if flags = 1 then (case resume of Some f \<Rightarrow> (case f (snd ls) of (r, s) \<Rightarrow> (r, fst ls, s)) | None \<Rightarrow> (ncclInvalidUsage, ls))
      else if flags \<in> {0x1004, 0x1104, 0x1204, 0x1304, 0x1404, 0x1504, 0x1604, 0x1704,
        0x2004, 0x2104, 0x2204, 0x2304, 0x2404, 0x2504, 0x2604, 0x2704} then ncclCheckpointPluginRestore env comm flags ls
      else (ncclInvalidUsage, ls))"
    unfolding ncclCommCheckpointRestore_def Let_def n restore_flags [symmetric] by auto
  ultimately show ?thesis by (cases "flags = 1") (auto split: option.split)
qed

section \<open>The loader\<close>

inductive loader_run :: "('c, 's) loader \<times> 's \<Rightarrow> bool" where
  \<comment> \<open>the loader after any calls of the process, each with its own environment, and any work on the state in between\<close>
  Fresh: "loader_run (loader_initial, s)"
| Load: "loader_run (l, s) \<Longrightarrow> ncclCheckpointPluginLoad env (l, s) = (r, l', s') \<Longrightarrow> loader_run (l', s')"
| Exit: "loader_run (l, s) \<Longrightarrow> ncclCheckpointPluginFinalize (l, s) = (l', s') \<Longrightarrow> loader_run (l', s')"
| Work: "loader_run (l, s) \<Longrightarrow> loader_run (l, s')"

definition complete_plugin :: "('c, 's) ncclCheckpointPlugin_t \<Rightarrow> bool" where
  "complete_plugin p \<longleftrightarrow> p_init p \<noteq> None \<and> p_prepare p \<noteq> None \<and> p_restore p \<noteq> None"

definition loader_wf :: "('c, 's) loader \<Rightarrow> bool" where
  "loader_wf l \<longleftrightarrow>
     (if checkpointPluginStatus l = checkpointPluginLoadSuccess
      then checkpointPluginLib l \<and> checkpointPluginFinalizeRegistered l \<and> (\<exists>p. checkpointPlugin l = Some p \<and> complete_plugin p)
      else \<not> checkpointPluginLib l \<and> checkpointPlugin l = None \<and> checkpointPluginContext l = None)"

lemma load_fail_facts [simp]:
  "fst (load_fail l) = ncclInvalidUsage" "loader_wf (snd (load_fail l))"
  "checkpointPluginStatus (snd (load_fail l)) = checkpointPluginLoadFailed"
  by (simp_all add: load_fail_def loader_wf_def)

lemma load_wf:
  assumes "loader_wf l" "ncclCheckpointPluginLoad env (l, s) = (r, l', s')"
  shows "loader_wf l'" "r = (if checkpointPluginStatus l' = checkpointPluginLoadSuccess then ncclSuccess else ncclInvalidUsage)"
    "checkpointPluginStatus l' \<noteq> checkpointPluginLoadReady"
    "checkpointPluginStatus l \<noteq> checkpointPluginLoadReady \<Longrightarrow> l' = l \<and> s' = s"
proof -
  have "loader_wf l' \<and> r = (if checkpointPluginStatus l' = checkpointPluginLoadSuccess then ncclSuccess else ncclInvalidUsage) \<and>
      checkpointPluginStatus l' \<noteq> checkpointPluginLoadReady \<and> (checkpointPluginStatus l \<noteq> checkpointPluginLoadReady \<longrightarrow> l' = l \<and> s' = s)"
  proof (cases "checkpointPluginStatus l")
    case checkpointPluginLoadReady
    with assms show ?thesis
      by (auto simp: ncclCheckpointPluginLoad_def Let_def split_beta loader_wf_def complete_plugin_def load_fail_def Option.is_none_def
          split: if_splits option.splits)
  qed (use assms in \<open>auto simp: ncclCheckpointPluginLoad_def\<close>)
  then show "loader_wf l'" "r = (if checkpointPluginStatus l' = checkpointPluginLoadSuccess then ncclSuccess else ncclInvalidUsage)"
    "checkpointPluginStatus l' \<noteq> checkpointPluginLoadReady"
    "checkpointPluginStatus l \<noteq> checkpointPluginLoadReady \<Longrightarrow> l' = l \<and> s' = s" by blast+
qed

lemma loader_run_wf: "loader_run ls \<Longrightarrow> loader_wf (fst ls)"
proof (induction rule: loader_run.induct)
  case (Fresh s)
  then show ?case by (simp add: loader_wf_def loader_initial_def)
next
  case (Load l s env r l' s')
  then show ?case using load_wf(1) by (metis fst_conv)
next
  case (Exit l s l' s')
  then show ?case by (auto simp: ncclCheckpointPluginFinalize_def loader_wf_def Let_def)
qed simp

text \<open>The loader is consistent and decides once.  In every state it can reach, the status is \<open>Success\<close>
  exactly when a library is open with a plugin that has the three required callbacks (and the exit
  handler is registered), and otherwise no library, plugin or context is left.  A load returns
  \<open>ncclSuccess\<close> or \<open>ncclInvalidUsage\<close> according to the status it leaves; a second load, under any other
  environment, returns the same and neither changes the loader nor runs the plugin's \<open>init\<close> again.\<close>

theorem loader_decides_once:
  assumes "loader_run (l, s)" "ncclCheckpointPluginLoad env (l, s) = (r, l', s')"
  shows "loader_wf l' \<and> (r = ncclSuccess \<longleftrightarrow> checkpointPluginStatus l' = checkpointPluginLoadSuccess) \<and>
    (r = ncclInvalidUsage \<longleftrightarrow> checkpointPluginStatus l' = checkpointPluginLoadFailed) \<and>
    ncclCheckpointPluginLoad env' (l', s'') = (r, l', s'')"
proof -
  have wf: "loader_wf l" using loader_run_wf [OF assms(1)] by simp
  note f = load_wf [OF wf assms(2)]
  obtain r2 l2 s2 where 2: "ncclCheckpointPluginLoad env' (l', s'') = (r2, l2, s2)" by (metis prod_cases3)
  note g = load_wf [OF f(1) 2]
  have "l2 = l'" "s2 = s''" using g(4) [OF f(3)] by simp_all
  moreover have "checkpointPluginStatus l' = checkpointPluginLoadSuccess \<or> checkpointPluginStatus l' = checkpointPluginLoadFailed"
    using f(3) by (cases "checkpointPluginStatus l'") simp_all
  ultimately show ?thesis using f(1,2) g(2) 2 by auto
qed

section \<open>From the public calls to the runtime\<close>

definition runtime_symbols ::
    "(32 word \<Rightarrow> 's \<Rightarrow> int \<times> 's) \<Rightarrow> (32 word \<Rightarrow> 's \<Rightarrow> int \<times> 's) \<Rightarrow> (32 word \<Rightarrow> 's \<Rightarrow> int \<times> 's) \<Rightarrow> 's symbols" where
  \<comment> \<open>the symbols the plugin asks for\<close>
  "runtime_symbols p e i =
     [''gcr_checkpoint_prepare'' \<mapsto> p, ''gcr_checkpoint_restore_export'' \<mapsto> e, ''gcr_checkpoint_restore_import'' \<mapsto> i]"

definition serves :: "'s symbols \<Rightarrow> ('s GcrCheckpointContext, 's) load_env \<Rightarrow> ('s GcrCheckpointContext, 's) loader \<Rightarrow> bool" where
  \<comment> \<open>the plugin on these symbols is loaded or can be\<close>
  "serves syms env l \<longleftrightarrow> (if checkpointPluginStatus l = checkpointPluginLoadReady
     then l_open env (l_name env) \<and> (case l_name env of Some n \<Rightarrow> \<not> strcaseeq n ''none'' | None \<Rightarrow> True) \<and>
       l_symbol env = Some (gcr_plugin syms)
     else checkpointPluginStatus l = checkpointPluginLoadSuccess \<and> checkpointPlugin l = Some (gcr_plugin syms) \<and>
       (\<exists>s. checkpointPluginContext l = fst (snd (gcrPluginInit syms s))))"

locale checkpoint_runtime =
  fixes prepare restore_export restore_import :: "32 word \<Rightarrow> 's \<Rightarrow> int \<times> 's"
    and ready :: "'s \<Rightarrow> bool" and kept :: "'s \<Rightarrow> 's \<Rightarrow> bool" and restored :: "'s \<Rightarrow> 's \<Rightarrow> 's \<Rightarrow> bool"
  assumes checkpoint:
    "ready s \<Longrightarrow> \<exists>s1. prepare f s = (0, s1) \<and> (\<forall>s2 f'. kept s1 s2 \<longrightarrow> (\<exists>s3. restore_export f' s2 = (0, s3) \<and> restored s s2 s3))"
begin

lemma load_serves:
  assumes "serves (runtime_symbols prepare restore_export restore_import) env l"
  shows "\<exists>l1 c. ncclCheckpointPluginLoad env (l, s) = (ncclSuccess, l1, s) \<and>
    checkpointPlugin l1 = Some (gcr_plugin (runtime_symbols prepare restore_export restore_import)) \<and>
    checkpointPluginContext l1 = Some c \<and> c_prepare c = prepare \<and> c_restoreExport c = restore_export \<and>
    checkpointPluginStatus l1 = checkpointPluginLoadSuccess"
proof -
  have i: "gcrPluginInit (runtime_symbols prepare restore_export restore_import) s =
      (ncclSuccess, Some \<lparr>c_prepare = prepare, c_restoreExport = restore_export, c_restoreImport = restore_import, c_validate = None\<rparr>, s)" for s
    by (simp add: gcrPluginInit_def runtime_symbols_def)
  show ?thesis
  proof (cases "checkpointPluginStatus l = checkpointPluginLoadReady")
    case True
    with assms i show ?thesis
      by (auto simp: serves_def ncclCheckpointPluginLoad_def Let_def gcr_plugin_def split: option.splits)
  next
    case False
    with assms i show ?thesis by (auto simp: serves_def ncclCheckpointPluginLoad_def)
  qed
qed

lemma api_round_trip:
  assumes l: "serves (runtime_symbols prepare restore_export restore_import) env l" and s: "ready s" and flags: "flags \<in> {0x4, 0x104, 0x204, 0x304, 0x404, 0x504, 0x604, 0x704}"
    and flags': "flags' \<in> {0x1004, 0x1104, 0x1204, 0x1304, 0x1404, 0x1504, 0x1604, 0x1704}"
  shows "\<exists>l1 s1. ncclCommCheckpointPrepare suspend env comm flags (l, s) = (ncclSuccess, l1, s1) \<and>
    (\<forall>s2 env'. kept s1 s2 \<longrightarrow>
      (\<exists>s3. ncclCommCheckpointRestore resume env' comm flags' (l1, s2) = (ncclSuccess, l1, s3) \<and> restored s s2 s3))"
proof -
  obtain l1 c where 1: "ncclCheckpointPluginLoad env (l, s) = (ncclSuccess, l1, s)"
    "checkpointPlugin l1 = Some (gcr_plugin (runtime_symbols prepare restore_export restore_import))"
    "checkpointPluginContext l1 = Some c" "c_prepare c = prepare" "c_restoreExport c = restore_export" "checkpointPluginStatus l1 = checkpointPluginLoadSuccess"
    using load_serves [OF l] by blast
  obtain s1 where p: "prepare flags s = (0, s1)"
    "\<forall>s2 f'. kept s1 s2 \<longrightarrow> (\<exists>s3. restore_export f' s2 = (0, s3) \<and> restored s s2 s3)" using checkpoint [OF s] by blast
  have "ncclCheckpointPluginPrepare env comm flags (l, s) = (ncclSuccess, l1, s1)"
    by (simp add: ncclCheckpointPluginPrepare_def 1 gcr_plugin_def gcrPluginPrepare_def p(1) status_of_def)
  then have a: "ncclCommCheckpointPrepare suspend env comm flags (l, s) = (ncclSuccess, l1, s1)"
    using flags by (auto simp: ncclCommCheckpointPrepare_def ckpt_flag_defs)
  have "\<exists>s3. ncclCommCheckpointRestore resume env' comm flags' (l1, s2) = (ncclSuccess, l1, s3) \<and> restored s s2 s3"
    if k: "kept s1 s2" for s2 env'
  proof -
    obtain s3 where s3: "restore_export flags' s2 = (0, s3)" "restored s s2 s3" using p(2) k by blast
    have "flags' AND NCCL_CKPT_RESTORE_EXPORT \<noteq> 0" using flags' by (auto simp: ckpt_flag_defs)
    then have "ncclCheckpointPluginRestore env' comm flags' (l1, s2) = (ncclSuccess, l1, s3)"
      by (simp add: ncclCheckpointPluginRestore_def ncclCheckpointPluginLoad_def 1 gcr_plugin_def gcrPluginRestore_def s3(1) status_of_def)
    moreover have "ncclCommCheckpointRestore resume env' comm flags' ls = ncclCheckpointPluginRestore env' comm flags' ls" for ls
      using flags' by (auto simp: ncclCommCheckpointRestore_def ckpt_flag_defs)
    ultimately show ?thesis using s3(2) by simp
  qed
  with a show ?thesis by blast
qed

end

section \<open>The runtime as provider\<close>

type_synonym gcr_world = "gcr_env \<times> gcr" \<comment> \<open>the runtime and what surrounds the process\<close>

definition sym_prepare :: "32 word \<Rightarrow> gcr_world \<Rightarrow> int \<times> gcr_world" where
  "sym_prepare flags w = (case gcr_checkpoint_prepare (fst w) (snd w) of (r, g) \<Rightarrow> (r, fst w, g))"

definition sym_restore_export :: "32 word \<Rightarrow> gcr_world \<Rightarrow> int \<times> gcr_world" where
  "sym_restore_export flags w = (case gcr_checkpoint_restore_export (fst w) (snd w) of (r, g) \<Rightarrow> (r, fst w, g))"

definition sym_restore_import :: "32 word \<Rightarrow> gcr_world \<Rightarrow> int \<times> gcr_world" where
  "sym_restore_import flags w = (case gcr_checkpoint_restore_import (fst w) flags (snd w) of (r, g) \<Rightarrow> (r, fst w, g))"

definition gcr_symbols :: "gcr_world symbols" where
  "gcr_symbols = runtime_symbols sym_prepare sym_restore_export sym_restore_import"

definition world_ready :: "gcr_world \<Rightarrow> bool" where
  "world_ready w = (case w of (env, g) \<Rightarrow> lib_ok (n_lib env) \<and> os_fresh (n_os env) \<and> os_gives (n_os env) \<and>
     length (storage_dir (n_os env)) \<le> 400 \<and> n_sync env \<and> has_events (n_rt env) \<and> gcr_ready g \<and> no_stale_files (n_os env) (rt_host g))"

definition world_kept :: "gcr_world \<Rightarrow> gcr_world \<Rightarrow> bool" where
  \<comment> \<open>the image of the process is restored, in an environment where its restore can succeed\<close>
  "world_kept w1 w2 \<longleftrightarrow> same_image (snd w1) (snd w2) \<and> restore_ok (fst w2)"

definition world_restored :: "gcr_world \<Rightarrow> gcr_world \<Rightarrow> gcr_world \<Rightarrow> bool" where
  "world_restored w w2 w3 \<longleftrightarrow>
     (\<forall>a. gmem (rt_ipc (snd w3)) a = (if a \<in> data_ranges (as_worker (snd w)) then gmem (rt_ipc (snd w)) a else gmem (rt_ipc (snd w2)) a)) \<and>
     (\<forall>i < length (g_ipc_exports (rt_ipc (snd w))). exp_active (g_ipc_exports (rt_ipc (snd w)) ! i) \<longrightarrow> back_in_use (rt_ipc (snd w3)) i) \<and>
     same_resources (rt_host (snd w)) (rt_host (snd w3))"

interpretation gcr_provides: checkpoint_runtime sym_prepare sym_restore_export sym_restore_import world_ready world_kept world_restored
proof unfold_locales
  fix w :: gcr_world and f :: "32 word"
  assume "world_ready w"
  then obtain env g where w: "w = (env, g)" and r: "lib_ok (n_lib env)" "os_fresh (n_os env)" "os_gives (n_os env)"
    "length (storage_dir (n_os env)) \<le> 400" "n_sync env" "has_events (n_rt env)" "gcr_ready g" "no_stale_files (n_os env) (rt_host g)"
    by (cases w) (auto simp: world_ready_def)
  show "\<exists>s1. sym_prepare f w = (0, s1) \<and>
      (\<forall>s2 f'. world_kept s1 s2 \<longrightarrow> (\<exists>s3. sym_restore_export f' s2 = (0, s3) \<and> world_restored w s2 s3))"
  proof -
    obtain g1 where p: "gcr_checkpoint_prepare env g = (0, g1)" using prepare_ok [OF r] by blast
    have "\<exists>s3. sym_restore_export f' s2 = (0, s3) \<and> world_restored w s2 s3" if k: "world_kept (env, g1) s2" for s2 f'
    proof -
      obtain env' g2 where s2: "s2 = (env', g2)" "same_image g1 g2" "restore_ok env'" using k by (cases s2) (auto simp: world_kept_def)
      then obtain g3 where "gcr_checkpoint_restore_export env' g2 = (0, g3)" "world_restored (env, g) (env', g2) (env', g3)"
        using gcr_data_survives [OF r s2(3)] p unfolding world_restored_def by fastforce
      then show ?thesis by (simp add: sym_restore_export_def s2(1) w)
    qed
    then show ?thesis using p by (simp add: sym_prepare_def w)
  qed
qed

text \<open>C6: a checkpoint driven through NCCL's public calls keeps the data.  In a process where the plugin is
  loaded, or can be and finds the runtime's symbols, \<open>ncclCommCheckpointPrepare\<close> with mode
  \<open>GCR_GLOBAL\<close> and any options returns \<open>ncclSuccess\<close>; once the image is restored, the export phase of
  \<open>ncclCommCheckpointRestore\<close> returns \<open>ncclSuccess\<close> with the loader unchanged, every byte of exports and
  local allocations back, the exports live and the resources of the process as at the start.\<close>

theorem nccl_checkpoint_round_trip:
  assumes "serves gcr_symbols env l" "world_ready w" "flags \<in> {0x4, 0x104, 0x204, 0x304, 0x404, 0x504, 0x604, 0x704}"
    "flags' \<in> {0x1004, 0x1104, 0x1204, 0x1304, 0x1404, 0x1504, 0x1604, 0x1704}"
  shows "\<exists>l1 w1. ncclCommCheckpointPrepare suspend env comm flags (l, w) = (ncclSuccess, l1, w1) \<and>
    (\<forall>w2 env'. world_kept w1 w2 \<longrightarrow>
      (\<exists>w3. ncclCommCheckpointRestore resume env' comm flags' (l1, w2) = (ncclSuccess, l1, w3) \<and> world_restored w w2 w3))"
  by (rule gcr_provides.api_round_trip [OF assms [unfolded gcr_symbols_def]])

definition sample_load_env :: "(gcr_world GcrCheckpointContext, gcr_world) load_env" where
  "sample_load_env = \<lparr>l_name = Some ''gcr'', l_open = \<lambda>_. True, l_symbol = Some (gcr_plugin gcr_symbols)\<rparr>"

theorem nccl_checkpoint_round_trip_witness:
  "\<exists>l1 w1 w3. ncclCommCheckpointPrepare None sample_load_env 1 0x4 (loader_initial, sample_genv, sample_gcr) = (ncclSuccess, l1, w1) \<and>
     ncclCommCheckpointRestore None sample_load_env 1 0x1404 (l1, sample_genv, snd w1) = (ncclSuccess, l1, w3) \<and>
     gmem (rt_ipc (snd w3)) 201 = 201"
proof -
  have "serves gcr_symbols sample_load_env loader_initial"
    by (simp add: serves_def sample_load_env_def loader_initial_def strcaseeq_def lower_def)
  moreover have "world_ready (sample_genv, sample_gcr)"
    by (simp add: world_ready_def sample_gcr_facts sample_os_ok)
  ultimately obtain l1 w1 where 1: "ncclCommCheckpointPrepare None sample_load_env 1 0x4 (loader_initial, sample_genv, sample_gcr) = (ncclSuccess, l1, w1)"
    and 2: "\<forall>w2 env'. world_kept w1 w2 \<longrightarrow>
      (\<exists>w3. ncclCommCheckpointRestore None env' 1 0x1404 (l1, w2) = (ncclSuccess, l1, w3) \<and> world_restored (sample_genv, sample_gcr) w2 w3)"
    using nccl_checkpoint_round_trip [of sample_load_env loader_initial "(sample_genv, sample_gcr)" "0x4" "0x1404" None 1 None] by auto
  have "world_kept w1 (sample_genv, snd w1)" by (simp add: world_kept_def same_image_def sample_gcr_facts(8))
  with 2 obtain w3 where 3: "ncclCommCheckpointRestore None sample_load_env 1 0x1404 (l1, sample_genv, snd w1) = (ncclSuccess, l1, w3)"
    "world_restored (sample_genv, sample_gcr) (sample_genv, snd w1) w3" by blast
  have "201 \<in> data_ranges (as_worker sample_gcr)" "gmem (rt_ipc sample_gcr) 201 = 201"
    unfolding sample_gcr_facts(3,4) by (simp_all add: data_ranges_def sample_worker_facts)
  then have "gmem (rt_ipc (snd w3)) 201 = 201" using 3(2) by (simp add: world_restored_def)
  then show ?thesis using 1 3(1) by blast
qed

theorem loader_decides_once_witness:
  "let ls = snd (ncclCheckpointPluginLoad (sample_load_env\<lparr>l_symbol := None\<rparr>) (loader_initial, sample_genv, sample_gcr))
   in loader_wf (fst ls) \<and> (\<exists>r. ncclCheckpointPluginLoad sample_load_env ls = (r, ls))"
proof -
  obtain r l' w' where "ncclCheckpointPluginLoad (sample_load_env\<lparr>l_symbol := None\<rparr>) (loader_initial, sample_genv, sample_gcr) = (r, l', w')"
    by (metis prod_cases3)
  with loader_decides_once [OF loader_run.Fresh this, of sample_load_env w'] show ?thesis by (auto simp: Let_def)
qed

end
