(* ===== verification/Hook_Table.thy ===== *)
theory Hook_Table
  imports Text_Util
begin

text \<open>
  Symbol interception (\<open>src/ipc_hooks.cpp\<close>): the hook table, \<open>try_intercept\<close>, the interposed \<open>dlsym\<close>,
  the hooked lookup functions of the CUDA runtime and driver, the exported functions that stand in
  front of the driver's, and \<open>resolve_helper_fns\<close>.  The dynamic linker is modelled as its manual
  describes it: objects in search order, a default search from the front, a search after the calling
  object, and a search in the scope of a handle.  What the hooks do to the tracking tables is in the
  theory \<open>Ipc_Track\<close>; here a hook is what it calls.  A call that does not come back (unbounded
  recursion, or a call through a null pointer) has the value \<open>None\<close>; fuel bounds the depth of calls
  between function pointers.

  Not modelled: the counters and traces, which only print, and the thread-local flag of \<open>dlsym\<close>, which
  is set only while the real \<open>dlsym\<close> runs and so is never seen set.
\<close>

section \<open>The dynamic linker\<close>

datatype fn = Own string | Ext nat \<comment> \<open>a function of this library, by name, or of another one, by address\<close>

type_synonym object = "(string \<times> fn) list" \<comment> \<open>the exported symbols\<close>

datatype dl_handle = RTLD_DEFAULT | RTLD_NEXT | Scope "nat list"

fun lookup_in :: "object list \<Rightarrow> nat list \<Rightarrow> string \<Rightarrow> fn option" where
  "lookup_in maps [] symbol = None"
| "lookup_in maps (i # is) symbol = (case map_of (maps ! i) symbol of Some f \<Rightarrow> Some f | None \<Rightarrow> lookup_in maps is symbol)"

definition real_dlsym :: "object list \<Rightarrow> nat \<Rightarrow> dl_handle \<Rightarrow> string \<Rightarrow> fn option" where
  "real_dlsym maps caller h symbol =
     (case h of
        RTLD_DEFAULT \<Rightarrow> lookup_in maps [0..<length maps] symbol
      | RTLD_NEXT \<Rightarrow> lookup_in maps [Suc caller..<length maps] symbol
      | Scope is \<Rightarrow> lookup_in maps is symbol)"

record hook_env =
  link_map :: "object list"
  self :: nat \<comment> \<open>the position of this library\<close>
  entry :: "fn \<Rightarrow> string \<Rightarrow> int \<times> fn option" \<comment> \<open>what a real lookup function answers\<close>
  ext_result :: "nat \<Rightarrow> int"
  get_ok :: bool \<comment> \<open>\<open>cuCtxGetCurrent\<close> succeeds\<close>
  push_ok :: "nat \<Rightarrow> bool" \<comment> \<open>\<open>cuCtxPushCurrent\<close> succeeds; what was pushed can be popped\<close>

datatype ext_call = \<comment> \<open>a call that leaves this library\<close>
    Real nat "nat list" \<comment> \<open>through a saved pointer, with the contexts of the thread at the time\<close>
  | CtxGetCurrent | CtxPushCurrent nat | CtxPopCurrent

record hook_state =
  ptrs :: "string \<Rightarrow> fn option" \<comment> \<open>the saved function pointers, by the name of the variable\<close>
  ctx_stack :: "nat list" \<comment> \<open>the contexts of the thread, current first\<close>
  g_pytorch_context :: nat
  inited :: "string list" \<comment> \<open>the function-local statics that are initialised\<close>
  ext_calls :: "ext_call list" \<comment> \<open>the calls that left this library\<close>

type_synonym call = "fn \<Rightarrow> hook_state \<Rightarrow> (int \<times> hook_state) option"

definition set_ptr :: "string \<Rightarrow> fn option \<Rightarrow> hook_state \<Rightarrow> hook_state" where
  "set_ptr v f st = st\<lparr>ptrs := (ptrs st)(v := f)\<rparr>"

section \<open>The hook table\<close>

record HookEntry =
  hook_fn :: fn
  real_fn_storage :: string

definition g_hook_table :: "(string \<times> HookEntry) list" where
  "g_hook_table =
    [(''cuMemCreate'', \<lparr>hook_fn = Own ''hook_cuMemCreate'', real_fn_storage = ''real_cuMemCreate''\<rparr>),
     (''cuMemExportToShareableHandle'', \<lparr>hook_fn = Own ''hook_cuMemExportToShareableHandle'', real_fn_storage = ''real_cuMemExportToShareableHandle''\<rparr>),
     (''cuMemImportFromShareableHandle'', \<lparr>hook_fn = Own ''hook_cuMemImportFromShareableHandle'', real_fn_storage = ''real_cuMemImportFromShareableHandle''\<rparr>),
     (''cuMemMap'', \<lparr>hook_fn = Own ''hook_cuMemMap'', real_fn_storage = ''real_cuMemMap''\<rparr>),
     (''cuMemUnmap'', \<lparr>hook_fn = Own ''hook_cuMemUnmap'', real_fn_storage = ''real_cuMemUnmap''\<rparr>),
     (''cuMemRelease'', \<lparr>hook_fn = Own ''hook_cuMemRelease'', real_fn_storage = ''fn_cuMemRelease''\<rparr>),
     (''cuMemSetAccess'', \<lparr>hook_fn = Own ''hook_cuMemSetAccess'', real_fn_storage = ''real_cuMemSetAccess''\<rparr>),
     (''cudaLaunchKernel'', \<lparr>hook_fn = Own ''cudaLaunchKernel'', real_fn_storage = ''real_cudaLaunchKernel''\<rparr>),
     (''cuLaunchKernel'', \<lparr>hook_fn = Own ''cuLaunchKernel'', real_fn_storage = ''real_cuLaunchKernel''\<rparr>),
     (''cudaLaunchKernel_ptsz'', \<lparr>hook_fn = Own ''cudaLaunchKernel_ptsz'', real_fn_storage = ''real_cudaLaunchKernel_ptsz''\<rparr>),
     (''cuLaunchKernel_ptsz'', \<lparr>hook_fn = Own ''cuLaunchKernel_ptsz'', real_fn_storage = ''real_cuLaunchKernel_ptsz''\<rparr>),
     (''cuLaunchKernelEx'', \<lparr>hook_fn = Own ''cuLaunchKernelEx'', real_fn_storage = ''real_cuLaunchKernelEx''\<rparr>),
     (''cudaLaunchKernelExC'', \<lparr>hook_fn = Own ''cudaLaunchKernelExC'', real_fn_storage = ''real_cudaLaunchKernelExC''\<rparr>),
     (''cudaLaunchKernelExC_ptsz'', \<lparr>hook_fn = Own ''cudaLaunchKernelExC_ptsz'', real_fn_storage = ''real_cudaLaunchKernelExC_ptsz''\<rparr>),
     (''__cudaLaunchKernel'', \<lparr>hook_fn = Own ''__cudaLaunchKernel'', real_fn_storage = ''real___cudaLaunchKernel''\<rparr>),
     (''__cudaLaunchKernel_ptsz'', \<lparr>hook_fn = Own ''__cudaLaunchKernel_ptsz'', real_fn_storage = ''real___cudaLaunchKernel_ptsz''\<rparr>),
     (''cudaGetLastError'', \<lparr>hook_fn = Own ''cudaGetLastError'', real_fn_storage = ''real_cudaGetLastError''\<rparr>),
     (''cudaPeekAtLastError'', \<lparr>hook_fn = Own ''cudaPeekAtLastError'', real_fn_storage = ''real_cudaPeekAtLastError''\<rparr>),
     (''cudaStreamSynchronize'', \<lparr>hook_fn = Own ''cudaStreamSynchronize'', real_fn_storage = ''real_cudaStreamSynchronize''\<rparr>),
     (''cudaStreamSynchronize_ptsz'', \<lparr>hook_fn = Own ''cudaStreamSynchronize_ptsz'', real_fn_storage = ''real_cudaStreamSynchronize_ptsz''\<rparr>),
     (''cuCtxCreate'', \<lparr>hook_fn = Own ''hook_cuCtxCreate'', real_fn_storage = ''real_cuCtxCreate''\<rparr>),
     (''cuCtxDestroy'', \<lparr>hook_fn = Own ''hook_cuCtxDestroy'', real_fn_storage = ''real_cuCtxDestroy''\<rparr>),
     (''cuDevicePrimaryCtxRetain'', \<lparr>hook_fn = Own ''hook_cuDevicePrimaryCtxRetain'', real_fn_storage = ''real_cuDevicePrimaryCtxRetain''\<rparr>),
     (''cuDevicePrimaryCtxRelease'', \<lparr>hook_fn = Own ''hook_cuDevicePrimaryCtxRelease'', real_fn_storage = ''real_cuDevicePrimaryCtxRelease''\<rparr>)]"

definition try_intercept :: "string \<Rightarrow> fn option \<Rightarrow> hook_state \<Rightarrow> fn option \<times> hook_state" where
  "try_intercept symbol funcPtr st =
     (case funcPtr of
        None \<Rightarrow> (None, st)
      | Some f \<Rightarrow> (case map_of g_hook_table symbol of
          Some e \<Rightarrow> (Some (hook_fn e), set_ptr (real_fn_storage e) (Some f) st)
        | None \<Rightarrow> (Some f, st)))"

definition lookup_functions :: "string list" where
  "lookup_functions = [''cuGetProcAddress'', ''cuGetProcAddress_v2'', ''cudaGetDriverEntryPoint'', ''cudaGetDriverEntryPointByVersion'']"

definition dlsym :: "hook_env \<Rightarrow> dl_handle \<Rightarrow> string \<Rightarrow> hook_state \<Rightarrow> fn option \<times> hook_state" where
  \<comment> \<open>the real \<open>dlsym\<close> is called from this library, whoever called the hook\<close>
  "dlsym env h symbol st =
     (let real = real_dlsym (link_map env) (self env) h symbol in
      if h \<noteq> RTLD_NEXT then
        if symbol \<in> set lookup_functions then (Some (Own symbol), st)
        else case map_of g_hook_table symbol of
          Some e \<Rightarrow> (case real of
              Some f \<Rightarrow> (Some (hook_fn e), set_ptr (real_fn_storage e) (Some f) st)
            | None \<Rightarrow> (real, st))
        | None \<Rightarrow> (real, st)
      else (real, st))"

definition resolve :: "hook_env \<Rightarrow> dl_handle \<Rightarrow> string \<Rightarrow> string \<Rightarrow> hook_state \<Rightarrow> hook_state" where
  \<comment> \<open>\<open>if (!v) v = dlsym(h, symbol);\<close>\<close>
  "resolve env h v symbol st =
     (if ptrs st v = None then case dlsym env h symbol st of (f, st1) \<Rightarrow> set_ptr v f st1 else st)"

definition helper_fns :: "(string \<times> string) list" where
  \<comment> \<open>variable and symbol, in the order of the assignments\<close>
  "helper_fns =
      [(''fn_cuMemRelease'', ''cuMemRelease''),
       (''fn_cuMemAddressReserve'', ''cuMemAddressReserve''),
       (''fn_cuMemAddressFree'', ''cuMemAddressFree''),
       (''fn_cuMemRetainAllocationHandle'', ''cuMemRetainAllocationHandle''),
       (''fn_cuMemcpyDtoH'', ''cuMemcpyDtoH_v2''), (''fn_cuMemcpyDtoH'', ''cuMemcpyDtoH''),
       (''fn_cuMemcpyHtoD'', ''cuMemcpyHtoD_v2''), (''fn_cuMemcpyHtoD'', ''cuMemcpyHtoD''),
       (''real_cuMemCreate'', ''cuMemCreate''),
       (''fn_cuCtxSetCurrent'', ''cuCtxSetCurrent''), (''fn_cuCtxGetCurrent'', ''cuCtxGetCurrent''),
       (''fn_cuDevicePrimaryCtxRetain'', ''cuDevicePrimaryCtxRetain''),
       (''fn_cuDevicePrimaryCtxRelease'', ''cuDevicePrimaryCtxRelease_v2''),
       (''fn_cuDevicePrimaryCtxRelease'', ''cuDevicePrimaryCtxRelease''),
       (''fn_cuCtxPushCurrent'', ''cuCtxPushCurrent_v2''), (''fn_cuCtxPushCurrent'', ''cuCtxPushCurrent''),
       (''fn_cuCtxPopCurrent'', ''cuCtxPopCurrent_v2''), (''fn_cuCtxPopCurrent'', ''cuCtxPopCurrent''),
       (''fn_cuStreamCreate'', ''cuStreamCreate''), (''fn_cuStreamSynchronize'', ''cuStreamSynchronize''),
       (''fn_cuStreamDestroy'', ''cuStreamDestroy_v2''), (''fn_cuStreamDestroy'', ''cuStreamDestroy''),
       (''fn_cuMemcpyDtoHAsync'', ''cuMemcpyDtoHAsync_v2''), (''fn_cuMemcpyDtoHAsync'', ''cuMemcpyDtoHAsync''),
       (''fn_cuMemcpyHtoDAsync'', ''cuMemcpyHtoDAsync_v2''), (''fn_cuMemcpyHtoDAsync'', ''cuMemcpyHtoDAsync''),
       (''fn_cuMemHostRegister'', ''cuMemHostRegister_v2''), (''fn_cuMemHostRegister'', ''cuMemHostRegister''),
       (''fn_cuMemHostUnregister'', ''cuMemHostUnregister'')]"

definition resolve_helper_fns :: "hook_env \<Rightarrow> hook_state \<Rightarrow> hook_state" where
  "resolve_helper_fns env st = fold (\<lambda>(v, symbol). resolve env RTLD_DEFAULT v symbol) helper_fns st"

section \<open>Hooked lookups\<close>

definition lookup_hook :: "string \<Rightarrow> int \<Rightarrow> hook_env \<Rightarrow> string \<Rightarrow> hook_state \<Rightarrow> int \<times> fn option \<times> hook_state" where
  \<comment> \<open>the body the four lookup functions share: the real function is found once, called, and its answer intercepted\<close>
  "lookup_hook name missing env symbol st =
     (let st1 = resolve env RTLD_NEXT name name st in
      case ptrs st1 name of
        None \<Rightarrow> (missing, None, st1)
      | Some real_fn \<Rightarrow> (case entry env real_fn symbol of (ret, p) \<Rightarrow>
          if ret = 0 then (case try_intercept symbol p st1 of (p', st2) \<Rightarrow> (ret, p', st2)) else (ret, p, st1)))"

definition cudaErrorNotSupported :: int where "cudaErrorNotSupported = 801"
definition CUDA_ERROR_NOT_FOUND :: int where "CUDA_ERROR_NOT_FOUND = 500"
definition CUDA_ERROR_NOT_INITIALIZED :: int where "CUDA_ERROR_NOT_INITIALIZED = 3"
definition CUDA_ERROR_UNKNOWN :: int where "CUDA_ERROR_UNKNOWN = 999"
definition cudaErrorUnknown :: int where "cudaErrorUnknown = 999"

definition cudaGetDriverEntryPoint :: "hook_env \<Rightarrow> string \<Rightarrow> hook_state \<Rightarrow> int \<times> fn option \<times> hook_state" where
  "cudaGetDriverEntryPoint = lookup_hook ''cudaGetDriverEntryPoint'' cudaErrorNotSupported"

definition cudaGetDriverEntryPointByVersion :: "hook_env \<Rightarrow> string \<Rightarrow> hook_state \<Rightarrow> int \<times> fn option \<times> hook_state" where
  "cudaGetDriverEntryPointByVersion = lookup_hook ''cudaGetDriverEntryPointByVersion'' cudaErrorNotSupported"

definition cuGetProcAddress :: "hook_env \<Rightarrow> string \<Rightarrow> hook_state \<Rightarrow> int \<times> fn option \<times> hook_state" where
  "cuGetProcAddress = lookup_hook ''cuGetProcAddress'' CUDA_ERROR_NOT_FOUND"

definition cuGetProcAddress_v2 :: "hook_env \<Rightarrow> string \<Rightarrow> hook_state \<Rightarrow> int \<times> fn option \<times> hook_state" where
  "cuGetProcAddress_v2 = lookup_hook ''cuGetProcAddress_v2'' CUDA_ERROR_NOT_FOUND"

section \<open>Hooks\<close>

definition call_ptr :: "string \<Rightarrow> int \<Rightarrow> call \<Rightarrow> hook_state \<Rightarrow> (int \<times> hook_state) option" where
  \<comment> \<open>a call through a saved pointer, or an error code where it is null\<close>
  "call_ptr v missing call st = (case ptrs st v of Some f \<Rightarrow> call f st | None \<Rightarrow> Some (missing, st))"

definition mem_hook :: "string \<Rightarrow> call \<Rightarrow> hook_state \<Rightarrow> (int \<times> hook_state) option" where
  \<comment> \<open>\<open>hook_cuMemCreate\<close>, \<open>hook_cuMemMap\<close> and the others, as far as they call\<close>
  "mem_hook v = call_ptr v CUDA_ERROR_NOT_INITIALIZED"

definition release_hook :: "hook_env \<Rightarrow> call \<Rightarrow> hook_state \<Rightarrow> (int \<times> hook_state) option" where
  "release_hook env call st =
     mem_hook ''fn_cuMemRelease'' call (if ptrs st ''fn_cuMemRelease'' = None then resolve_helper_fns env st else st)"

definition exp_cuMemCreate :: "hook_env \<Rightarrow> call \<Rightarrow> hook_state \<Rightarrow> (int \<times> hook_state) option" where
  "exp_cuMemCreate env call st = mem_hook ''real_cuMemCreate'' call (resolve env RTLD_NEXT ''real_cuMemCreate'' ''cuMemCreate'' st)"

definition exp_cuMemExportToShareableHandle :: "hook_env \<Rightarrow> call \<Rightarrow> hook_state \<Rightarrow> (int \<times> hook_state) option" where
  "exp_cuMemExportToShareableHandle env call st = mem_hook ''real_cuMemExportToShareableHandle'' call
     (resolve env RTLD_NEXT ''real_cuMemExportToShareableHandle'' ''cuMemExportToShareableHandle'' st)"

definition exp_cuMemImportFromShareableHandle :: "hook_env \<Rightarrow> call \<Rightarrow> hook_state \<Rightarrow> (int \<times> hook_state) option" where
  "exp_cuMemImportFromShareableHandle env call st = mem_hook ''real_cuMemImportFromShareableHandle'' call
     (resolve env RTLD_NEXT ''real_cuMemImportFromShareableHandle'' ''cuMemImportFromShareableHandle'' st)"

definition exp_cuMemMap :: "hook_env \<Rightarrow> call \<Rightarrow> hook_state \<Rightarrow> (int \<times> hook_state) option" where
  "exp_cuMemMap env call st = mem_hook ''real_cuMemMap'' call (resolve env RTLD_NEXT ''real_cuMemMap'' ''cuMemMap'' st)"

definition exp_cuMemUnmap :: "hook_env \<Rightarrow> call \<Rightarrow> hook_state \<Rightarrow> (int \<times> hook_state) option" where
  "exp_cuMemUnmap env call st = mem_hook ''real_cuMemUnmap'' call (resolve env RTLD_NEXT ''real_cuMemUnmap'' ''cuMemUnmap'' st)"

definition exp_cuMemRelease :: "hook_env \<Rightarrow> call \<Rightarrow> hook_state \<Rightarrow> (int \<times> hook_state) option" where
  "exp_cuMemRelease env call st = release_hook env call (resolve env RTLD_NEXT ''fn_cuMemRelease'' ''cuMemRelease'' st)"

definition exp_cuMemSetAccess :: "hook_env \<Rightarrow> call \<Rightarrow> hook_state \<Rightarrow> (int \<times> hook_state) option" where
  "exp_cuMemSetAccess env call st = mem_hook ''real_cuMemSetAccess'' call (resolve env RTLD_NEXT ''real_cuMemSetAccess'' ''cuMemSetAccess'' st)"

definition ext :: "ext_call \<Rightarrow> hook_state \<Rightarrow> hook_state" where
  "ext c st = st\<lparr>ext_calls := ext_calls st @ [c]\<rparr>"

definition current_ctx :: "hook_env \<Rightarrow> hook_state \<Rightarrow> nat" where
  \<comment> \<open>what \<open>cuCtxGetCurrent\<close> stores in a variable that was null\<close>
  "current_ctx env st = (if get_ok env then (case ctx_stack st of c # _ \<Rightarrow> c | [] \<Rightarrow> 0) else 0)"

definition launch_hook :: "string \<Rightarrow> string \<Rightarrow> int \<Rightarrow> hook_env \<Rightarrow> call \<Rightarrow> hook_state \<Rightarrow> (int \<times> hook_state) option" where
  \<comment> \<open>the body the launch functions share: the captured context is made current around the launch\<close>
  "launch_hook v symbol unknown env call st =
     (let ctx = current_ctx env st; captured = g_pytorch_context st; st1 = ext CtxGetCurrent st;
          push = (captured \<noteq> 0 \<and> ctx \<noteq> captured);
          pushed = (push \<and> push_ok env captured);
          st2 = (if push then ext (CtxPushCurrent captured) st1 else st1);
          st3 = (if pushed then st2\<lparr>ctx_stack := captured # ctx_stack st2\<rparr> else st2)
      in case call_ptr v unknown call (resolve env RTLD_NEXT v symbol st3) of
           None \<Rightarrow> None
         | Some (result, st4) \<Rightarrow>
             Some (result, if pushed then ext CtxPopCurrent (st4\<lparr>ctx_stack := tl (ctx_stack st4)\<rparr>) else st4))"

definition cudaLaunchKernel :: "hook_env \<Rightarrow> call \<Rightarrow> hook_state \<Rightarrow> (int \<times> hook_state) option" where
  "cudaLaunchKernel = launch_hook ''real_cudaLaunchKernel'' ''cudaLaunchKernel'' cudaErrorUnknown"

definition cuLaunchKernel :: "hook_env \<Rightarrow> call \<Rightarrow> hook_state \<Rightarrow> (int \<times> hook_state) option" where
  "cuLaunchKernel = launch_hook ''real_cuLaunchKernel'' ''cuLaunchKernel'' CUDA_ERROR_UNKNOWN"

definition cudaLaunchKernel_ptsz :: "hook_env \<Rightarrow> call \<Rightarrow> hook_state \<Rightarrow> (int \<times> hook_state) option" where
  "cudaLaunchKernel_ptsz = launch_hook ''real_cudaLaunchKernel_ptsz'' ''cudaLaunchKernel_ptsz'' cudaErrorUnknown"

definition cuLaunchKernel_ptsz :: "hook_env \<Rightarrow> call \<Rightarrow> hook_state \<Rightarrow> (int \<times> hook_state) option" where
  "cuLaunchKernel_ptsz = launch_hook ''real_cuLaunchKernel_ptsz'' ''cuLaunchKernel_ptsz'' CUDA_ERROR_UNKNOWN"

definition cuLaunchKernelEx :: "hook_env \<Rightarrow> call \<Rightarrow> hook_state \<Rightarrow> (int \<times> hook_state) option" where
  "cuLaunchKernelEx = launch_hook ''real_cuLaunchKernelEx'' ''cuLaunchKernelEx'' CUDA_ERROR_UNKNOWN"

definition cudaLaunchKernelExC :: "hook_env \<Rightarrow> call \<Rightarrow> hook_state \<Rightarrow> (int \<times> hook_state) option" where
  "cudaLaunchKernelExC = launch_hook ''real_cudaLaunchKernelExC'' ''cudaLaunchKernelExC'' cudaErrorUnknown"

definition cudaLaunchKernelExC_ptsz :: "hook_env \<Rightarrow> call \<Rightarrow> hook_state \<Rightarrow> (int \<times> hook_state) option" where
  "cudaLaunchKernelExC_ptsz = launch_hook ''real_cudaLaunchKernelExC_ptsz'' ''cudaLaunchKernelExC_ptsz'' cudaErrorUnknown"

definition internal_cudaLaunchKernel :: "hook_env \<Rightarrow> call \<Rightarrow> hook_state \<Rightarrow> (int \<times> hook_state) option" where
  \<comment> \<open>\<open>__cudaLaunchKernel\<close>\<close>
  "internal_cudaLaunchKernel = launch_hook ''real___cudaLaunchKernel'' ''__cudaLaunchKernel'' cudaErrorUnknown"

definition internal_cudaLaunchKernel_ptsz :: "hook_env \<Rightarrow> call \<Rightarrow> hook_state \<Rightarrow> (int \<times> hook_state) option" where
  "internal_cudaLaunchKernel_ptsz = launch_hook ''real___cudaLaunchKernel_ptsz'' ''__cudaLaunchKernel_ptsz'' cudaErrorUnknown"

definition status_hook :: "string \<Rightarrow> string \<Rightarrow> hook_env \<Rightarrow> call \<Rightarrow> hook_state \<Rightarrow> (int \<times> hook_state) option" where
  \<comment> \<open>find the real function and return what it returns\<close>
  "status_hook v symbol env call st = call_ptr v cudaErrorUnknown call (resolve env RTLD_NEXT v symbol st)"

definition cudaGetLastError :: "hook_env \<Rightarrow> call \<Rightarrow> hook_state \<Rightarrow> (int \<times> hook_state) option" where
  "cudaGetLastError = status_hook ''real_cudaGetLastError'' ''cudaGetLastError''"

definition cudaPeekAtLastError :: "hook_env \<Rightarrow> call \<Rightarrow> hook_state \<Rightarrow> (int \<times> hook_state) option" where
  "cudaPeekAtLastError = status_hook ''real_cudaPeekAtLastError'' ''cudaPeekAtLastError''"

definition cudaStreamSynchronize :: "hook_env \<Rightarrow> call \<Rightarrow> hook_state \<Rightarrow> (int \<times> hook_state) option" where
  "cudaStreamSynchronize = status_hook ''real_cudaStreamSynchronize'' ''cudaStreamSynchronize''"

definition cudaStreamSynchronize_ptsz :: "hook_env \<Rightarrow> call \<Rightarrow> hook_state \<Rightarrow> (int \<times> hook_state) option" where
  "cudaStreamSynchronize_ptsz = status_hook ''real_cudaStreamSynchronize_ptsz'' ''cudaStreamSynchronize_ptsz''"

definition context_hook :: "string \<Rightarrow> string \<Rightarrow> hook_env \<Rightarrow> call \<Rightarrow> hook_state \<Rightarrow> (int \<times> hook_state) option" where
  \<comment> \<open>without a check for null\<close>
  "context_hook v symbol env call st =
     (let st1 = resolve env RTLD_NEXT v symbol st in case ptrs st1 v of Some f \<Rightarrow> call f st1 | None \<Rightarrow> None)"

definition hook_cuCtxCreate :: "hook_env \<Rightarrow> call \<Rightarrow> hook_state \<Rightarrow> (int \<times> hook_state) option" where
  "hook_cuCtxCreate = context_hook ''real_cuCtxCreate'' ''cuCtxCreate''"

definition hook_cuCtxDestroy :: "hook_env \<Rightarrow> call \<Rightarrow> hook_state \<Rightarrow> (int \<times> hook_state) option" where
  "hook_cuCtxDestroy = context_hook ''real_cuCtxDestroy'' ''cuCtxDestroy''"

definition hook_cuDevicePrimaryCtxRetain :: "hook_env \<Rightarrow> call \<Rightarrow> hook_state \<Rightarrow> (int \<times> hook_state) option" where
  "hook_cuDevicePrimaryCtxRetain = context_hook ''real_cuDevicePrimaryCtxRetain'' ''cuDevicePrimaryCtxRetain''"

definition hook_cuDevicePrimaryCtxRelease :: "hook_env \<Rightarrow> call \<Rightarrow> hook_state \<Rightarrow> (int \<times> hook_state) option" where
  "hook_cuDevicePrimaryCtxRelease = context_hook ''real_cuDevicePrimaryCtxRelease'' ''cuDevicePrimaryCtxRelease''"

definition detect_hook :: "string \<Rightarrow> hook_env \<Rightarrow> call \<Rightarrow> hook_state \<Rightarrow> (int \<times> hook_state) option" where
  \<comment> \<open>the old interface is only reported; the first call initialises its static pointer, for good\<close>
  "detect_hook symbol env call st =
     call_ptr symbol cudaErrorNotSupported call
       (if symbol \<in> set (inited st) then st else (resolve env RTLD_NEXT symbol symbol st)\<lparr>inited := symbol # inited st\<rparr>)"

definition cudaIpcGetMemHandle :: "hook_env \<Rightarrow> call \<Rightarrow> hook_state \<Rightarrow> (int \<times> hook_state) option" where
  "cudaIpcGetMemHandle = detect_hook ''cudaIpcGetMemHandle''"

definition cudaIpcOpenMemHandle :: "hook_env \<Rightarrow> call \<Rightarrow> hook_state \<Rightarrow> (int \<times> hook_state) option" where
  "cudaIpcOpenMemHandle = detect_hook ''cudaIpcOpenMemHandle''"

definition cudaIpcCloseMemHandle :: "hook_env \<Rightarrow> call \<Rightarrow> hook_state \<Rightarrow> (int \<times> hook_state) option" where
  "cudaIpcCloseMemHandle = detect_hook ''cudaIpcCloseMemHandle''"

section \<open>Calling a function pointer\<close>

definition own_functions :: "(string \<times> (hook_env \<Rightarrow> call \<Rightarrow> hook_state \<Rightarrow> (int \<times> hook_state) option)) list" where
  "own_functions =
    [(''hook_cuMemCreate'', \<lambda>env. mem_hook ''real_cuMemCreate''),
     (''hook_cuMemExportToShareableHandle'', \<lambda>env. mem_hook ''real_cuMemExportToShareableHandle''),
     (''hook_cuMemImportFromShareableHandle'', \<lambda>env. mem_hook ''real_cuMemImportFromShareableHandle''),
     (''hook_cuMemMap'', \<lambda>env. mem_hook ''real_cuMemMap''),
     (''hook_cuMemUnmap'', \<lambda>env. mem_hook ''real_cuMemUnmap''),
     (''hook_cuMemRelease'', release_hook),
     (''hook_cuMemSetAccess'', \<lambda>env. mem_hook ''real_cuMemSetAccess''),
     (''hook_cuCtxCreate'', hook_cuCtxCreate), (''hook_cuCtxDestroy'', hook_cuCtxDestroy),
     (''hook_cuDevicePrimaryCtxRetain'', hook_cuDevicePrimaryCtxRetain),
     (''hook_cuDevicePrimaryCtxRelease'', hook_cuDevicePrimaryCtxRelease),
     (''cuMemCreate'', exp_cuMemCreate), (''cuMemExportToShareableHandle'', exp_cuMemExportToShareableHandle),
     (''cuMemImportFromShareableHandle'', exp_cuMemImportFromShareableHandle), (''cuMemMap'', exp_cuMemMap),
     (''cuMemUnmap'', exp_cuMemUnmap), (''cuMemRelease'', exp_cuMemRelease), (''cuMemSetAccess'', exp_cuMemSetAccess),
     (''cudaLaunchKernel'', cudaLaunchKernel), (''cuLaunchKernel'', cuLaunchKernel),
     (''cudaLaunchKernel_ptsz'', cudaLaunchKernel_ptsz), (''cuLaunchKernel_ptsz'', cuLaunchKernel_ptsz),
     (''cuLaunchKernelEx'', cuLaunchKernelEx), (''cudaLaunchKernelExC'', cudaLaunchKernelExC),
     (''cudaLaunchKernelExC_ptsz'', cudaLaunchKernelExC_ptsz), (''__cudaLaunchKernel'', internal_cudaLaunchKernel),
     (''__cudaLaunchKernel_ptsz'', internal_cudaLaunchKernel_ptsz), (''cudaGetLastError'', cudaGetLastError),
     (''cudaPeekAtLastError'', cudaPeekAtLastError), (''cudaStreamSynchronize'', cudaStreamSynchronize),
     (''cudaStreamSynchronize_ptsz'', cudaStreamSynchronize_ptsz), (''cudaIpcGetMemHandle'', cudaIpcGetMemHandle),
     (''cudaIpcOpenMemHandle'', cudaIpcOpenMemHandle), (''cudaIpcCloseMemHandle'', cudaIpcCloseMemHandle)]"

fun call_fn :: "nat \<Rightarrow> hook_env \<Rightarrow> call" where
  "call_fn 0 env f st = None"
| "call_fn (Suc k) env (Ext a) st = Some (ext_result env a, ext (Real a (ctx_stack st)) st)"
| "call_fn (Suc k) env (Own n) st = (case map_of own_functions n of Some body \<Rightarrow> body env (call_fn k env) st | None \<Rightarrow> None)"

definition static_hooks :: "string list" where
  "static_hooks = [''hook_cuMemCreate'', ''hook_cuMemExportToShareableHandle'', ''hook_cuMemImportFromShareableHandle'', ''hook_cuMemMap'',
     ''hook_cuMemUnmap'', ''hook_cuMemRelease'', ''hook_cuMemSetAccess'']"

definition hook_library :: object where
  \<comment> \<open>what this library exports: all but the seven static hooks\<close>
  "hook_library = map (\<lambda>n. (n, Own n)) (map fst (filter (\<lambda>(n, _). n \<notin> set static_hooks) own_functions) @ lookup_functions @ [''dlsym''])"

section \<open>Invariant\<close>

definition saved_pointers :: "(string \<times> string) list" where
  \<comment> \<open>symbol and variable, for the hooks of the table and the three functions of the old interface\<close>
  "saved_pointers = map (\<lambda>(s, e). (s, real_fn_storage e)) g_hook_table @
     [(''cudaIpcGetMemHandle'', ''cudaIpcGetMemHandle''), (''cudaIpcOpenMemHandle'', ''cudaIpcOpenMemHandle''),
      (''cudaIpcCloseMemHandle'', ''cudaIpcCloseMemHandle'')]"

abbreviation storage :: "string \<Rightarrow> string \<Rightarrow> bool" where
  "storage symbol v \<equiv> (symbol, v) \<in> set saved_pointers"

definition providers :: "hook_env \<Rightarrow> string \<Rightarrow> nat set" where
  \<comment> \<open>the functions other libraries and the driver's lookups have for a symbol\<close>
  "providers env symbol =
     {a. \<exists>i < length (link_map env). i \<noteq> self env \<and> (symbol, Ext a) \<in> set (link_map env ! i)} \<union>
     {a. \<exists>f ret. entry env f symbol = (ret, Some (Ext a))}"


definition slots_ok :: "hook_env \<Rightarrow> hook_state \<Rightarrow> bool" where
  \<comment> \<open>no saved pointer leads back into this library\<close>
  "slots_ok env st \<longleftrightarrow> (\<forall>symbol v f. storage symbol v \<longrightarrow> ptrs st v = Some f \<longrightarrow> (\<exists>a \<in> providers env symbol. f = Ext a))"


fun real_calls :: "ext_call list \<Rightarrow> (nat \<times> nat list) list" where
  \<comment> \<open>the calls through saved pointers\<close>
  "real_calls [] = []"
| "real_calls (Real a ctxs # cs) = (a, ctxs) # real_calls cs"
| "real_calls (_ # cs) = real_calls cs"





lemma lookup_in_SomeD: "lookup_in maps is symbol = Some f \<Longrightarrow> \<exists>i \<in> set is. map_of (maps ! i) symbol = Some f"
  by (induction "is") (auto split: option.splits)











section \<open>Calls\<close>









lemma launch_runs:
  assumes "ptrs st v = Some (Ext a)"
  shows "\<exists>cs log. launch_hook v symbol unknown env (call_fn (Suc k) env) st =
      Some (ext_result env a, st\<lparr>ext_calls := ext_calls st @ log\<rparr>) \<and> real_calls log = [(a, cs)] \<and>
    (g_pytorch_context st \<noteq> 0 \<and> (push_ok env (g_pytorch_context st) \<or> (\<exists>ds. ctx_stack st = g_pytorch_context st # ds)) \<longrightarrow>
      (\<exists>ds. cs = g_pytorch_context st # ds)) \<and>
    log = (let p = g_pytorch_context st; push = (p \<noteq> 0 \<and> current_ctx env st \<noteq> p) in
      CtxGetCurrent # (if push then [CtxPushCurrent p] else []) @ Real a cs # (if push \<and> push_ok env p then [CtxPopCurrent] else []))"
proof -
  let ?p = "g_pytorch_context st" and ?push = "g_pytorch_context st \<noteq> 0 \<and> current_ctx env st \<noteq> g_pytorch_context st"
  define cs where "cs = (if ?push \<and> push_ok env ?p then ?p # ctx_stack st else ctx_stack st)"
  define log where "log = CtxGetCurrent # (if ?push then [CtxPushCurrent ?p] else []) @ Real a cs #
      (if ?push \<and> push_ok env ?p then [CtxPopCurrent] else [])"
  have r: "resolve env RTLD_NEXT v symbol (st\<lparr>ctx_stack := c, ext_calls := l\<rparr>) = st\<lparr>ctx_stack := c, ext_calls := l\<rparr>"
    "resolve env RTLD_NEXT v symbol (st\<lparr>ext_calls := l, ctx_stack := c\<rparr>) = st\<lparr>ext_calls := l, ctx_stack := c\<rparr>"
    "resolve env RTLD_NEXT v symbol (st\<lparr>ext_calls := l\<rparr>) = st\<lparr>ext_calls := l\<rparr>" for c l
    using assms by (simp_all add: resolve_def)
  have "launch_hook v symbol unknown env (call_fn (Suc k) env) st = Some (ext_result env a, st\<lparr>ext_calls := ext_calls st @ log\<rparr>)"
    using assms by (auto simp: launch_hook_def Let_def call_ptr_def ext_def r log_def cs_def)
  moreover have "real_calls log = [(a, cs)]" by (simp add: log_def)
  moreover have "\<exists>ds. cs = ?p # ds" if "?p \<noteq> 0" "push_ok env ?p \<or> (\<exists>ds. ctx_stack st = ?p # ds)"
    using that by (auto simp: cs_def current_ctx_def split: list.splits if_splits)
  ultimately show ?thesis
    by (intro exI [of _ cs] exI [of _ log]) (simp add: log_def Let_def)
qed







lemma slots_ctx [simp]: "slots_ok env (st\<lparr>ctx_stack := c\<rparr>) = slots_ok env st" "slots_ok env (st\<lparr>inited := n\<rparr>) = slots_ok env st"
  "slots_ok env (ext x st) = slots_ok env st"
  by (simp_all add: slots_ok_def ext_def)






section \<open>Theorems\<close>




lemma table_entry: "(symbol, e) \<in> set g_hook_table \<Longrightarrow> map_of g_hook_table symbol = Some e"
proof -
  have "distinct (map fst g_hook_table)" by code_simp
  then show "(symbol, e) \<in> set g_hook_table \<Longrightarrow> map_of g_hook_table symbol = Some e" by simp
qed




definition sample_hook_env :: hook_env where
  \<comment> \<open>the program, this library, and a driver with three symbols\<close>
  "sample_hook_env = \<lparr>link_map = [[], hook_library, [(''cuMemRelease'', Ext 1), (''cuMemUnmap'', Ext 2), (''cudaLaunchKernel'', Ext 3)]],
     self = 1, entry = \<lambda>f s. (500, None), ext_result = \<lambda>a. int a, get_ok = True, push_ok = \<lambda>c. True\<rparr>"

definition fresh_hooks :: hook_state where
  "fresh_hooks = \<lparr>ptrs = \<lambda>_. None, ctx_stack = [7], g_pytorch_context = 9, inited = [], ext_calls = []\<rparr>"



lemma launch_contexts:
  "list_all (\<lambda>(s, e). \<exists>n unknown. hook_fn e = Own n \<and> map_of own_functions n = Some (launch_hook (real_fn_storage e) s unknown)) (take 9 (drop 7 g_hook_table))"
  by (simp add: g_hook_table_def own_functions_def cudaLaunchKernel_def cuLaunchKernel_def cudaLaunchKernel_ptsz_def cuLaunchKernel_ptsz_def
      cuLaunchKernelEx_def cudaLaunchKernelExC_def cudaLaunchKernelExC_ptsz_def internal_cudaLaunchKernel_def internal_cudaLaunchKernel_ptsz_def)
    blast

text \<open>Each of the nine launch functions asks for the current context, runs the real launch once, with the
  captured context current whenever there is one and it is or can be made current, and gives the thread
  its contexts back.\<close>

theorem launch_runs_in_captured_context:
  assumes e: "(symbol, e) \<in> set (take 9 (drop 7 g_hook_table))" and p: "ptrs st (real_fn_storage e) = Some (Ext a)"
    and captured: "g_pytorch_context st \<noteq> 0" "push_ok env (g_pytorch_context st) \<or> (\<exists>cs. ctx_stack st = g_pytorch_context st # cs)"
  shows "\<exists>log cs. call_fn (Suc (Suc k)) env (hook_fn e) st = Some (ext_result env a, st\<lparr>ext_calls := ext_calls st @ log\<rparr>) \<and>
    real_calls log = [(a, g_pytorch_context st # cs)] \<and>
    (current_ctx env st = g_pytorch_context st \<longrightarrow> CtxPopCurrent \<notin> set log) \<and>
    (current_ctx env st \<noteq> g_pytorch_context st \<and> push_ok env (g_pytorch_context st) \<longrightarrow>
       log = [CtxGetCurrent, CtxPushCurrent (g_pytorch_context st), Real a (g_pytorch_context st # cs), CtxPopCurrent])"
proof -
  obtain n unknown where b: "hook_fn e = Own n" "map_of own_functions n = Some (launch_hook (real_fn_storage e) symbol unknown)"
    using launch_contexts e unfolding list_all_iff by fast
  from launch_runs [OF p, of symbol unknown env k] captured obtain cs log
    where "launch_hook (real_fn_storage e) symbol unknown env (call_fn (Suc k) env) st =
        Some (ext_result env a, st\<lparr>ext_calls := ext_calls st @ log\<rparr>)" "real_calls log = [(a, g_pytorch_context st # cs)]"
      "log = CtxGetCurrent # (if current_ctx env st \<noteq> g_pytorch_context st then [CtxPushCurrent (g_pytorch_context st)] else []) @
        Real a (g_pytorch_context st # cs) #
        (if current_ctx env st \<noteq> g_pytorch_context st \<and> push_ok env (g_pytorch_context st) then [CtxPopCurrent] else [])"
    unfolding Let_def by auto
  then show ?thesis by (intro exI [of _ log] exI [of _ cs]) (simp add: b)
qed

theorem launch_runs_in_captured_context_witness:
  "\<exists>cs. call_fn 2 sample_hook_env (Own ''cudaLaunchKernel'') (set_ptr ''real_cudaLaunchKernel'' (Some (Ext 3)) fresh_hooks) =
     Some (3, (set_ptr ''real_cudaLaunchKernel'' (Some (Ext 3)) fresh_hooks)
       \<lparr>ext_calls := [CtxGetCurrent, CtxPushCurrent 9, Real 3 (9 # cs), CtxPopCurrent]\<rparr>)"
proof -
  let ?st = "set_ptr ''real_cudaLaunchKernel'' (Some (Ext 3)) fresh_hooks"
  let ?e = "\<lparr>hook_fn = Own ''cudaLaunchKernel'', real_fn_storage = ''real_cudaLaunchKernel''\<rparr>"
  have "(''cudaLaunchKernel'', ?e) \<in> set (take 9 (drop 7 g_hook_table))" by (simp add: g_hook_table_def)
  from launch_runs_in_captured_context [OF this, of ?st 3 sample_hook_env 0] show ?thesis
    by (auto simp: set_ptr_def fresh_hooks_def numeral_2_eq_2 sample_hook_env_def current_ctx_def)
qed

lemma lookup_in_first:
  assumes "\<And>i. i < j \<Longrightarrow> map_of (maps ! i) symbol = None" "j < length maps" "map_of (maps ! j) symbol = Some f" "k \<le> j"
  shows "lookup_in maps [k..<length maps] symbol = Some f"
  using assms(4)
proof (induction "j - k" arbitrary: k)
  case 0
  then have "[k..<length maps] = j # [Suc j..<length maps]" using assms(2) by (simp add: upt_conv_Cons)
  then show ?case using assms(3) by simp
next
  case (Suc d)
  then have k: "k < j" by simp
  then have "[k..<length maps] = k # [Suc k..<length maps]" using assms(2) by (simp add: upt_conv_Cons)
  then show ?case using Suc.hyps(1) [of "Suc k"] Suc.hyps(2) k assms(1) by simp
qed

lemma exported_memory_hooks:
  "list_all (\<lambda>(s, e). map_of hook_library s = Some (Own s) \<and> \<not> List.member lookup_functions s) (take 7 g_hook_table)"
  by code_simp

lemma default_finds_hook:
  assumes self: "self env < length (link_map env)" "link_map env ! self env = hook_library"
    "\<And>i. i < self env \<Longrightarrow> map_of (link_map env ! i) symbol = None" and e: "(symbol, e) \<in> set (take 7 g_hook_table)"
    and p: "ptrs st (real_fn_storage e) = None"
  shows "ptrs (resolve env RTLD_DEFAULT (real_fn_storage e) symbol st) (real_fn_storage e) = Some (hook_fn e)"
proof -
  have s: "map_of hook_library symbol = Some (Own symbol)" "symbol \<notin> set lookup_functions"
    using exported_memory_hooks e unfolding list_all_iff by auto
  have "lookup_in (link_map env) [0..<length (link_map env)] symbol = Some (Own symbol)"
    by (rule lookup_in_first [of "self env"]) (use self s in simp_all)
  moreover have "map_of g_hook_table symbol = Some e" using e by (intro table_entry) (rule in_set_takeD)
  ultimately show ?thesis using p s(2) by (simp add: resolve_def dlsym_def real_dlsym_def set_ptr_def)
qed

lemma memory_hook_bodies:
  "list_all (\<lambda>(s, e). \<exists>n body. hook_fn e = Own n \<and> map_of own_functions n = Some body \<and>
     (\<forall>env call st f. ptrs st (real_fn_storage e) = Some f \<longrightarrow> body env call st = call f st)) (take 7 g_hook_table)"
  by (simp add: g_hook_table_def own_functions_def mem_hook_def release_hook_def call_ptr_def)

lemma self_pointer_diverges:
  assumes e: "(symbol, e) \<in> set (take 7 g_hook_table)" and p: "ptrs st (real_fn_storage e) = Some (hook_fn e)"
  shows "call_fn k env (hook_fn e) st = None"
proof -
  obtain n body where b: "hook_fn e = Own n" "map_of own_functions n = Some body"
    "\<And>env call st f. ptrs st (real_fn_storage e) = Some f \<Longrightarrow> body env call st = call f st"
    using memory_hook_bodies e unfolding list_all_iff by fast
  show ?thesis
  proof (induction k)
    case (Suc k)
    have "call_fn (Suc k) env (hook_fn e) st = body env (call_fn k env) st" by (simp add: b(1,2))
    also have "\<dots> = call_fn k env (hook_fn e) st" using b(3) [OF p] by simp
    finally show ?case using Suc by simp
  qed simp
qed

lemma resolve_other:
  assumes "v \<noteq> x" "case map_of g_hook_table symbol of Some e \<Rightarrow> real_fn_storage e \<noteq> x | None \<Rightarrow> True"
  shows "ptrs (resolve env h v symbol st) x = ptrs st x"
  using assms by (auto simp: resolve_def dlsym_def set_ptr_def Let_def split: option.splits prod.splits)

lemma fold_resolve_other:
  "list_all (\<lambda>(v, symbol). v \<noteq> x \<and> (case map_of g_hook_table symbol of Some e \<Rightarrow> real_fn_storage e \<noteq> x | None \<Rightarrow> True)) ws \<Longrightarrow>
   ptrs (fold (\<lambda>(v, symbol). resolve env h v symbol) ws st) x = ptrs st x"
  by (induction ws arbitrary: st) (auto simp: resolve_other)

lemma helpers_resolve_release:
  "ptrs (resolve_helper_fns env st) ''fn_cuMemRelease'' =
   ptrs (resolve env RTLD_DEFAULT ''fn_cuMemRelease'' ''cuMemRelease'' st) ''fn_cuMemRelease''"
proof -
  have 1: "helper_fns = (''fn_cuMemRelease'', ''cuMemRelease'') # tl helper_fns" by (simp add: helper_fns_def)
  have 2: "list_all (\<lambda>(v, symbol). v \<noteq> ''fn_cuMemRelease'' \<and>
      (case map_of g_hook_table symbol of Some e \<Rightarrow> real_fn_storage e \<noteq> ''fn_cuMemRelease'' | None \<Rightarrow> True)) (tl helper_fns)" by code_simp
  have "resolve_helper_fns env st = fold (\<lambda>(v, symbol). resolve env RTLD_DEFAULT v symbol) (tl helper_fns)
      (resolve env RTLD_DEFAULT ''fn_cuMemRelease'' ''cuMemRelease'' st)"
    unfolding resolve_helper_fns_def by (subst 1) simp
  then show ?thesis by (simp add: fold_resolve_other [OF 2])
qed

text \<open>A search from the front of the link map ends in unbounded recursion.  The library's own code looks up
  \<open>cuMemUnmap\<close>, \<open>cuMemMap\<close> and others, and in \<open>resolve_helper_fns\<close> \<open>cuMemRelease\<close> and \<open>cuMemCreate\<close>, with
  \<open>RTLD_DEFAULT\<close>.  Where no object before it in the link map has the symbol, that search finds the
  library itself, and the interposed \<open>dlsym\<close> answers with the hook: a pointer of the memory functions
  that was still null then points to its own hook, and a call of it never returns.\<close>

theorem default_search_recurses:
  assumes "self env < length (link_map env)" "link_map env ! self env = hook_library"
    "\<And>i. i < self env \<Longrightarrow> map_of (link_map env ! i) symbol = None" "(symbol, e) \<in> set (take 7 g_hook_table)"
    "ptrs st (real_fn_storage e) = None"
  shows "ptrs (resolve env RTLD_DEFAULT (real_fn_storage e) symbol st) (real_fn_storage e) = Some (hook_fn e) \<and>
    call_fn k env (hook_fn e) (resolve env RTLD_DEFAULT (real_fn_storage e) symbol st) = None \<and>
    (symbol = ''cuMemRelease'' \<longrightarrow> call_fn k env (hook_fn e) (resolve_helper_fns env st) = None)"
proof -
  note p = default_finds_hook [OF assms]
  have "ptrs (resolve_helper_fns env st) (real_fn_storage e) = Some (hook_fn e)" if "symbol = ''cuMemRelease''"
  proof -
    have "map_of g_hook_table ''cuMemRelease'' = Some e" using table_entry assms(4) that by (metis in_set_takeD)
    moreover have "map_option real_fn_storage (map_of g_hook_table ''cuMemRelease'') = Some ''fn_cuMemRelease''" by code_simp
    ultimately have "real_fn_storage e = ''fn_cuMemRelease''" by simp
    then show ?thesis using p that by (simp add: helpers_resolve_release)
  qed
  then show ?thesis using p self_pointer_diverges [OF assms(4)] by blast
qed

theorem default_search_recurses_witness:
  "\<forall>k. call_fn k sample_hook_env (Own ''hook_cuMemRelease'') (resolve_helper_fns sample_hook_env fresh_hooks) = None"
proof
  fix k
  have "(''cuMemRelease'', \<lparr>hook_fn = Own ''hook_cuMemRelease'', real_fn_storage = ''fn_cuMemRelease''\<rparr>) \<in> set (take 7 g_hook_table)"
    by (simp add: g_hook_table_def)
  from default_search_recurses [OF _ _ _ this, of sample_hook_env fresh_hooks k]
  show "call_fn k sample_hook_env (Own ''hook_cuMemRelease'') (resolve_helper_fns sample_hook_env fresh_hooks) = None"
    by (simp add: sample_hook_env_def fresh_hooks_def less_Suc_eq)
qed

text \<open>The interposed \<open>dlsym\<close> answers \<open>RTLD_NEXT\<close> relative to this library, not to the caller: another
  interposer further down the link map that looks up the next definition of a symbol it exports itself
  is given its own function, which the linker, searching behind the caller, would not return.\<close>

theorem next_is_relative_to_hook:
  assumes c: "self env < c" "c < length (link_map env)" "map_of (link_map env ! c) symbol = Some f"
    and between: "\<And>i. self env < i \<Longrightarrow> i < c \<Longrightarrow> map_of (link_map env ! i) symbol = None"
    and behind: "\<And>i. c < i \<Longrightarrow> i < length (link_map env) \<Longrightarrow> (symbol, f) \<notin> set (link_map env ! i)"
  shows "dlsym env RTLD_NEXT symbol st = (Some f, st) \<and> real_dlsym (link_map env) c RTLD_NEXT symbol \<noteq> Some f"
proof -
  have "lookup_in (link_map env) [k..<length (link_map env)] symbol = Some f" if "self env < k" "k \<le> c" for k
    using that
  proof (induction "c - k" arbitrary: k)
    case 0
    then show ?case using c by (simp add: upt_conv_Cons)
  next
    case (Suc d)
    then have "k < c" by simp
    then show ?case using Suc.hyps(1) [of "Suc k"] Suc.hyps(2) Suc.prems between c(2) by (simp add: upt_conv_Cons)
  qed
  from this [of "Suc (self env)"] have "dlsym env RTLD_NEXT symbol st = (Some f, st)" using c(1) by (simp add: dlsym_def real_dlsym_def)
  moreover have "real_dlsym (link_map env) c RTLD_NEXT symbol \<noteq> Some f"
    using behind by (auto simp: real_dlsym_def dest!: lookup_in_SomeD map_of_SomeD)
  ultimately show ?thesis by blast
qed

theorem next_is_relative_to_hook_witness:
  "let env = sample_hook_env\<lparr>link_map := [[], hook_library, [(''malloc'', Ext 1)], [(''malloc'', Ext 2)]]\<rparr> in
   dlsym env RTLD_NEXT ''malloc'' fresh_hooks = (Some (Ext 1), fresh_hooks) \<and> real_dlsym (link_map env) 2 RTLD_NEXT ''malloc'' \<noteq> Some (Ext 1)"
  unfolding Let_def
  by (rule next_is_relative_to_hook) (auto simp: sample_hook_env_def less_Suc_eq numeral_3_eq_3 numeral_2_eq_2 eval_nat_numeral)

end
