(* ===== verification/Nccl_Hooks.thy ===== *)
theory Nccl_Hooks
  imports Hook_Table
begin

text \<open>
  The communicator hooks (\<open>src/nccl_hooks.cpp\<close>): the search for the real NCCL function behind a hook,
  the table of tracked communicators, and the four hooked entry points with the manual registration
  calls.  The search uses the interposed \<open>dlsym\<close> of the theory \<open>Hook_Table\<close> and a linker whose objects
  come and go with \<open>dlopen\<close>: the loaded libraries in load order and the global scope, a list of indices
  that only grows.  A handle finds what its library exports; its dependencies are read as part of it.

  NCCL is a parameter: the function behind a pointer is an argument of each hook, and every call that
  reaches NCCL is appended to a log with the function called and its outcome.

  Not modelled: the messages on \<open>stderr\<close>, and the mutex, which makes each operation on the table atomic.
\<close>

section \<open>Loaded libraries\<close>

record lib =
  soname :: string
  path :: string
  exports :: object

record linker =
  libs :: "lib list" \<comment> \<open>in load order\<close>
  global_scope :: "nat list" \<comment> \<open>indices into \<open>libs\<close>, in search order\<close>

record nccl_env =
  hooks :: hook_env \<comment> \<open>\<open>self\<close> is the position of this library in the global scope\<close>
  disk :: "string \<Rightarrow> lib option" \<comment> \<open>the file the loader finds for a name\<close>
  CR_NCCL_LIB :: "string option"
  dli_fname :: "string option" \<comment> \<open>what \<open>dladdr\<close> says of this library\<close>
  realpath :: "string \<Rightarrow> string option"

fun lib_index :: "(lib \<Rightarrow> bool) \<Rightarrow> lib list \<Rightarrow> nat option" where
  "lib_index p [] = None"
| "lib_index p (l # ls) = (if p l then Some 0 else map_option Suc (lib_index p ls))"

definition named :: "string \<Rightarrow> lib \<Rightarrow> bool" where
  "named name l \<longleftrightarrow> name = soname l \<or> name = path l"

definition dlopen_noload :: "string \<Rightarrow> linker \<Rightarrow> nat option" where
  "dlopen_noload name ld = lib_index (named name) (libs ld)"

definition promote :: "nat \<Rightarrow> linker \<Rightarrow> linker" where
  "promote i ld = (if i \<in> set (global_scope ld) then ld else ld\<lparr>global_scope := global_scope ld @ [i]\<rparr>)"

definition load :: "bool \<Rightarrow> lib \<Rightarrow> linker \<Rightarrow> linker" where
  "load global l ld = (let i = length (libs ld); ld1 = ld\<lparr>libs := libs ld @ [l]\<rparr> in if global then promote i ld1 else ld1)"

definition dlopen_global :: "nccl_env \<Rightarrow> string \<Rightarrow> linker \<Rightarrow> nat option \<times> linker" where
  \<comment> \<open>\<open>dlopen(name, RTLD_NOW | RTLD_GLOBAL)\<close>: a library that is loaded is not loaded again\<close>
  "dlopen_global env name ld =
     (case lib_index (named name) (libs ld) of
        Some i \<Rightarrow> (Some i, promote i ld)
      | None \<Rightarrow> (case disk env name of
          None \<Rightarrow> (None, ld)
        | Some l \<Rightarrow> (case lib_index (\<lambda>x. path x = path l) (libs ld) of
            Some i \<Rightarrow> (Some i, promote i ld)
          | None \<Rightarrow> (Some (length (libs ld)), load True l ld))))"

section \<open>State\<close>

datatype slot = Loaded | Explicit | Relative | Fallback \<comment> \<open>the static handles of \<open>find_real_nccl_sym\<close>\<close>

type_synonym init_args = "int \<times> string \<times> int \<times> nat option" \<comment> \<open>ranks, unique id, rank, and the configuration if any\<close>

datatype nccl_call =
    Inited fn int nat \<comment> \<open>function, result, and what it left in \<open>*comm\<close> (0 for null)\<close>
  | Destroyed fn nat int
  | Finalized fn nat int
  | Registered nat
  | Unregistered nat

record nccl_state =
  hook_st :: hook_state
  linker :: linker
  handles :: "slot \<Rightarrow> nat option"
  tried :: "slot \<Rightarrow> bool"
  real_fns :: "string \<Rightarrow> fn option" \<comment> \<open>the static \<open>real_fn\<close> of each hook\<close>
  g_tracked_comms :: "nat list"
  nccl_log :: "nccl_call list"

section \<open>The search for NCCL\<close>

definition nccl_dlsym :: "nccl_env \<Rightarrow> dl_handle \<Rightarrow> string \<Rightarrow> nccl_state \<Rightarrow> fn option \<times> nccl_state" where
  "nccl_dlsym env h name st =
     (let ld = linker st;
          objects = (case h of Scope is \<Rightarrow> map exports (libs ld) | _ \<Rightarrow> map (\<lambda>i. exports (libs ld ! i)) (global_scope ld)) in
      case dlsym ((hooks env)\<lparr>link_map := objects\<rparr>) h name (hook_st st) of (f, hk) \<Rightarrow> (f, st\<lparr>hook_st := hk\<rparr>))"

definition in_slot :: "nccl_env \<Rightarrow> slot \<Rightarrow> string \<Rightarrow> nccl_state \<Rightarrow> fn option \<times> nccl_state" where
  "in_slot env s name st = (case handles st s of Some i \<Rightarrow> nccl_dlsym env (Scope [i]) name st | None \<Rightarrow> (None, st))"

definition open_once :: "nccl_env \<Rightarrow> slot \<Rightarrow> string option \<Rightarrow> nccl_state \<Rightarrow> nccl_state" where
  "open_once env s name st =
     (if tried st s then st
      else let st1 = st\<lparr>tried := (tried st)(s := True)\<rparr> in
        case name of
          None \<Rightarrow> st1
        | Some p \<Rightarrow> (case dlopen_global env p (linker st1) of (h, ld) \<Rightarrow>
            st1\<lparr>linker := ld, handles := (handles st1)(s := h)\<rparr>))"

fun first_loaded :: "string list \<Rightarrow> linker \<Rightarrow> nat option" where
  "first_loaded [] ld = None"
| "first_loaded (c # cs) ld = (case dlopen_noload c ld of Some i \<Rightarrow> Some i | None \<Rightarrow> first_loaded cs ld)"

definition strategy_next :: "nccl_env \<Rightarrow> string \<Rightarrow> nccl_state \<Rightarrow> fn option \<times> nccl_state" where
  "strategy_next env name st = nccl_dlsym env RTLD_NEXT name st"

definition strategy_loaded :: "nccl_env \<Rightarrow> string \<Rightarrow> nccl_state \<Rightarrow> fn option \<times> nccl_state" where
  "strategy_loaded env name st =
     in_slot env Loaded name
       (case first_loaded [''libnccl.so.2'', ''libnccl.so''] (linker st) of
          Some h \<Rightarrow> st\<lparr>handles := (handles st)(Loaded := Some h)\<rparr>
        | None \<Rightarrow> st)"

definition explicit_path :: "nccl_env \<Rightarrow> string option" where
  "explicit_path env = (case CR_NCCL_LIB env of Some p \<Rightarrow> if p \<noteq> '''' then Some p else None | None \<Rightarrow> None)"

definition strategy_explicit :: "nccl_env \<Rightarrow> string \<Rightarrow> nccl_state \<Rightarrow> fn option \<times> nccl_state" where
  "strategy_explicit env name st = in_slot env Explicit name (open_once env Explicit (explicit_path env) st)"

definition build_dir :: "string \<Rightarrow> string option" where
  \<comment> \<open>\<open>our_path.substr(0, our_path.rfind('/'))\<close>, if there is a slash\<close>
  "build_dir p = (if CHR ''/'' \<in> set p then Some (rev (tl (dropWhile (\<lambda>c. c \<noteq> CHR ''/'') (rev p)))) else None)"

definition relative_path :: "nccl_env \<Rightarrow> string option" where
  "relative_path env =
     (case dli_fname env of
        None \<Rightarrow> None
      | Some our_path \<Rightarrow> (case build_dir our_path of
          None \<Rightarrow> None
        | Some dir \<Rightarrow> (let local_nccl = dir @ ''/../nccl_install/lib/libnccl.so.2'' in
            Some (case realpath env local_nccl of Some resolved \<Rightarrow> resolved | None \<Rightarrow> local_nccl))))"

definition strategy_relative :: "nccl_env \<Rightarrow> string \<Rightarrow> nccl_state \<Rightarrow> fn option \<times> nccl_state" where
  "strategy_relative env name st = in_slot env Relative name (open_once env Relative (relative_path env) st)"

definition strategy_fallback :: "nccl_env \<Rightarrow> string \<Rightarrow> nccl_state \<Rightarrow> fn option \<times> nccl_state" where
  "strategy_fallback env name st = in_slot env Fallback name (open_once env Fallback (Some ''libnccl.so.2'') st)"

fun first_found :: "(nccl_state \<Rightarrow> fn option \<times> nccl_state) list \<Rightarrow> nccl_state \<Rightarrow> fn option \<times> nccl_state" where
  "first_found [] st = (None, st)"
| "first_found (s # ss) st = (case s st of (Some f, st1) \<Rightarrow> (Some f, st1) | (None, st1) \<Rightarrow> first_found ss st1)"

definition find_real_nccl_sym :: "nccl_env \<Rightarrow> string \<Rightarrow> nccl_state \<Rightarrow> fn option \<times> nccl_state" where
  "find_real_nccl_sym env name =
     first_found [strategy_next env name, strategy_loaded env name, strategy_explicit env name,
       strategy_relative env name, strategy_fallback env name]"

section \<open>Tracked communicators\<close>

definition nccl_register_comm :: "nat \<Rightarrow> nccl_state \<Rightarrow> nccl_state" where
  "nccl_register_comm comm st =
     (if comm = 0 \<or> comm \<in> set (g_tracked_comms st) then st
      else st\<lparr>g_tracked_comms := g_tracked_comms st @ [comm]\<rparr>)"

definition nccl_unregister_comm :: "nat \<Rightarrow> nccl_state \<Rightarrow> nccl_state" where
  "nccl_unregister_comm comm st =
     (if comm = 0 then st else st\<lparr>g_tracked_comms := remove1 comm (g_tracked_comms st)\<rparr>)"

definition nccl_get_comm_count :: "nccl_state \<Rightarrow> int" where
  "nccl_get_comm_count st = sint (of_nat (length (g_tracked_comms st)) :: 32 word)"

definition nccl_suspend_available :: bool where "nccl_suspend_available = False"

definition nccl_suspend_all_comms :: "nccl_state \<Rightarrow> int \<times> nccl_state" where
  "nccl_suspend_all_comms st = (1, st)"

definition nccl_resume_all_comms :: "nccl_state \<Rightarrow> int \<times> nccl_state" where
  "nccl_resume_all_comms st = (1, st)"

section \<open>Hooked entry points\<close>

definition with_real :: "nccl_env \<Rightarrow> string \<Rightarrow> (nccl_state \<Rightarrow> int \<times> nccl_state) \<Rightarrow> (fn \<Rightarrow> nccl_state \<Rightarrow> int \<times> nccl_state)
    \<Rightarrow> nccl_state \<Rightarrow> int \<times> nccl_state" where
  \<comment> \<open>the static \<open>real_fn\<close> of a hook is found once, and searched again as long as it is null\<close>
  "with_real env name missing cont st =
     (case real_fns st name of
        Some f \<Rightarrow> cont f st
      | None \<Rightarrow> (case find_real_nccl_sym env name st of
          (None, st1) \<Rightarrow> missing st1
        | (Some f, st1) \<Rightarrow> cont f (st1\<lparr>real_fns := (real_fns st1)(name := Some f)\<rparr>)))"

definition log_call :: "nccl_call \<Rightarrow> nccl_state \<Rightarrow> nccl_state" where
  "log_call c st = st\<lparr>nccl_log := nccl_log st @ [c]\<rparr>"

definition init_with :: "(fn \<Rightarrow> init_args \<Rightarrow> int \<times> nat) \<Rightarrow> bool \<Rightarrow> init_args \<Rightarrow> fn \<Rightarrow> nccl_state \<Rightarrow> int \<times> nccl_state" where
  \<comment> \<open>the call and the registration; \<open>comm_ptr\<close> tells whether the caller's \<open>comm\<close> is non-null\<close>
  "init_with nccl comm_ptr args f st =
     (case nccl f args of (ret, c) \<Rightarrow>
        let c' = (if comm_ptr then c else 0); st1 = log_call (Inited f ret c') st in
        (ret, if ret = 0 \<and> comm_ptr \<and> c \<noteq> 0 then nccl_register_comm c st1 else st1))"

definition ncclCommInitRank :: "nccl_env \<Rightarrow> (fn \<Rightarrow> init_args \<Rightarrow> int \<times> nat) \<Rightarrow> bool \<Rightarrow> int \<Rightarrow> string \<Rightarrow> int
    \<Rightarrow> nccl_state \<Rightarrow> int \<times> nccl_state" where
  "ncclCommInitRank env nccl comm_ptr nranks commId rank =
     with_real env ''ncclCommInitRank'' (\<lambda>st. (3, st)) (init_with nccl comm_ptr (nranks, commId, rank, None))"

definition ncclCommInitRankConfig :: "nccl_env \<Rightarrow> (fn \<Rightarrow> init_args \<Rightarrow> int \<times> nat) \<Rightarrow> bool \<Rightarrow> int \<Rightarrow> string \<Rightarrow> int \<Rightarrow> nat
    \<Rightarrow> nccl_state \<Rightarrow> int \<times> nccl_state" where
  "ncclCommInitRankConfig env nccl comm_ptr nranks commId rank config =
     with_real env ''ncclCommInitRankConfig'' (ncclCommInitRank env nccl comm_ptr nranks commId rank)
       (init_with nccl comm_ptr (nranks, commId, rank, Some config))"

definition ncclCommDestroy :: "nccl_env \<Rightarrow> (fn \<Rightarrow> nat \<Rightarrow> int) \<Rightarrow> nat \<Rightarrow> nccl_state \<Rightarrow> int \<times> nccl_state" where
  "ncclCommDestroy env nccl comm =
     with_real env ''ncclCommDestroy'' (\<lambda>st. (3, st))
       (\<lambda>f st. (nccl f comm, log_call (Destroyed f comm (nccl f comm)) (nccl_unregister_comm comm st)))"

definition ncclCommFinalize :: "nccl_env \<Rightarrow> (fn \<Rightarrow> nat \<Rightarrow> int) \<Rightarrow> nat \<Rightarrow> nccl_state \<Rightarrow> int \<times> nccl_state" where
  "ncclCommFinalize env nccl comm =
     with_real env ''ncclCommFinalize'' (\<lambda>st. (0, st))
       (\<lambda>f st. (nccl f comm, log_call (Finalized f comm (nccl f comm)) st))"

definition cr_register_nccl_comm :: "nat \<Rightarrow> nccl_state \<Rightarrow> nccl_state" where
  "cr_register_nccl_comm comm st = log_call (Registered comm) (nccl_register_comm comm st)"

definition cr_unregister_nccl_comm :: "nat \<Rightarrow> nccl_state \<Rightarrow> nccl_state" where
  "cr_unregister_nccl_comm comm st = log_call (Unregistered comm) (nccl_unregister_comm comm st)"

section \<open>Runs\<close>

datatype nccl_event =
    Load bool lib \<comment> \<open>the program loads a library, with \<open>RTLD_GLOBAL\<close> or not\<close>
  | InitRank "fn \<Rightarrow> init_args \<Rightarrow> int \<times> nat" bool int string int
  | InitRankConfig "fn \<Rightarrow> init_args \<Rightarrow> int \<times> nat" bool int string int nat
  | Destroy "fn \<Rightarrow> nat \<Rightarrow> int" nat
  | Finalize "fn \<Rightarrow> nat \<Rightarrow> int" nat
  | Register nat
  | Unregister nat

fun nccl_step :: "nccl_env \<Rightarrow> nccl_event \<Rightarrow> nccl_state \<Rightarrow> nccl_state" where
  "nccl_step env (Load g l) st = st\<lparr>linker := load g l (linker st)\<rparr>"
| "nccl_step env (InitRank nccl p n u r) st = snd (ncclCommInitRank env nccl p n u r st)"
| "nccl_step env (InitRankConfig nccl p n u r c) st = snd (ncclCommInitRankConfig env nccl p n u r c st)"
| "nccl_step env (Destroy nccl c) st = snd (ncclCommDestroy env nccl c st)"
| "nccl_step env (Finalize nccl c) st = snd (ncclCommFinalize env nccl c st)"
| "nccl_step env (Register c) st = cr_register_nccl_comm c st"
| "nccl_step env (Unregister c) st = cr_unregister_nccl_comm c st"

definition nccl_run :: "nccl_env \<Rightarrow> nccl_event list \<Rightarrow> nccl_state \<Rightarrow> nccl_state" where
  "nccl_run env evs = fold (nccl_step env) evs"

definition nccl_init :: "hook_state \<Rightarrow> linker \<Rightarrow> nccl_state" where
  "nccl_init hk ld = \<lparr>hook_st = hk, linker = ld, handles = (\<lambda>_. None), tried = (\<lambda>_. False),
     real_fns = (\<lambda>_. None), g_tracked_comms = [], nccl_log = []\<rparr>"
section \<open>What an observer of the hooks relies on\<close>

definition nccl_names :: "string list" where
  "nccl_names = [''ncclCommInitRank'', ''ncclCommInitRankConfig'', ''ncclCommDestroy'', ''ncclCommFinalize'']"

locale nccl_observer =
  fixes env :: nccl_env and I :: "nccl_state \<Rightarrow> bool" and J :: "fn \<Rightarrow> bool" and ok :: "lib \<Rightarrow> bool"
  assumes search: "\<lbrakk>I st; n \<in> set nccl_names\<rbrakk> \<Longrightarrow> I (snd (find_real_nccl_sym env n st))"
    and found: "\<lbrakk>I st; n \<in> set nccl_names; fst (find_real_nccl_sym env n st) = Some f\<rbrakk> \<Longrightarrow> J f"
    and cached: "\<lbrakk>I st; real_fns st n = Some f\<rbrakk> \<Longrightarrow> J f"
    and remember: "\<lbrakk>I st; J f\<rbrakk> \<Longrightarrow> I (st\<lparr>real_fns := (real_fns st)(n := Some f)\<rparr>)"
    and loads: "\<lbrakk>I st; ok l\<rbrakk> \<Longrightarrow> I (st\<lparr>linker := load g l (linker st)\<rparr>)"
    and inits: "\<lbrakk>I st; J f\<rbrakk> \<Longrightarrow> I (snd (init_with nccl p args f st))"
    and destroys: "\<lbrakk>I st; J f\<rbrakk> \<Longrightarrow> I (log_call (Destroyed f c r) (nccl_unregister_comm c st))"
    and finalizes: "\<lbrakk>I st; J f\<rbrakk> \<Longrightarrow> I (log_call (Finalized f c r) st)"
    and registers: "I st \<Longrightarrow> I (cr_register_nccl_comm c st)"
    and unregisters: "I st \<Longrightarrow> I (cr_unregister_nccl_comm c st)"
begin

lemma with_real_keeps:
  assumes "I st" "n \<in> set nccl_names" "\<And>st. I st \<Longrightarrow> I (snd (missing st))" "\<And>f st. \<lbrakk>I st; J f\<rbrakk> \<Longrightarrow> I (snd (cont f st))"
  shows "I (snd (with_real env n missing cont st))"
proof (cases "real_fns st n")
  case (Some f)
  then show ?thesis using assms(1,4) cached by (simp add: with_real_def)
next
  case None
  obtain r st1 where e: "find_real_nccl_sym env n st = (r, st1)" by fastforce
  have st1: "I st1" using search[OF assms(1,2)] e by simp
  show ?thesis
  proof (cases r)
    case None
    then show ?thesis using \<open>real_fns st n = None\<close> e st1 assms(3) by (simp add: with_real_def)
  next
    case (Some f)
    have "J f" using found[OF assms(1,2)] e Some by simp
    then show ?thesis using \<open>real_fns st n = None\<close> e Some st1 assms(4) remember by (simp add: with_real_def)
  qed
qed

lemma init_rank_keeps: "I st \<Longrightarrow> I (snd (ncclCommInitRank env nccl p n u r st))"
  unfolding ncclCommInitRank_def by (rule with_real_keeps) (auto simp: nccl_names_def inits)

lemma step_keeps: "\<lbrakk>I st; \<And>g l. e = Load g l \<Longrightarrow> ok l\<rbrakk> \<Longrightarrow> I (nccl_step env e st)"
proof (cases e)
  case (InitRankConfig nccl p n u r c)
  assume "I st"
  then have "I (snd (ncclCommInitRankConfig env nccl p n u r c st))"
    unfolding ncclCommInitRankConfig_def by (rule with_real_keeps) (auto simp: nccl_names_def inits init_rank_keeps)
  then show ?thesis using InitRankConfig by simp
next
  case (Destroy nccl c)
  assume "I st"
  then have "I (snd (ncclCommDestroy env nccl c st))"
    unfolding ncclCommDestroy_def by (rule with_real_keeps) (auto simp: nccl_names_def destroys)
  then show ?thesis using Destroy by simp
next
  case (Finalize nccl c)
  assume "I st"
  then have "I (snd (ncclCommFinalize env nccl c st))"
    unfolding ncclCommFinalize_def by (rule with_real_keeps) (auto simp: nccl_names_def finalizes)
  then show ?thesis using Finalize by simp
qed (auto simp: loads registers unregisters init_rank_keeps)

lemma run_keeps: "\<lbrakk>I st; \<And>g l. Load g l \<in> set evs \<Longrightarrow> ok l\<rbrakk> \<Longrightarrow> I (nccl_run env evs st)"
proof (induction evs arbitrary: st)
  case (Cons e evs)
  have "I (nccl_step env e st)" using Cons.prems by (intro step_keeps) auto
  then have "I (nccl_run env evs (nccl_step env e st))" using Cons.prems(2) by (intro Cons.IH) auto
  then show ?case by (simp add: nccl_run_def)
qed (simp add: nccl_run_def)

end

section \<open>The table of communicators\<close>

definition same_table :: "nccl_state \<Rightarrow> nccl_state \<Rightarrow> bool" where
  "same_table st st' \<longleftrightarrow> g_tracked_comms st' = g_tracked_comms st \<and> nccl_log st' = nccl_log st \<and> real_fns st' = real_fns st"

lemma same_table_dlsym: "same_table st (snd (nccl_dlsym env h name st))"
  by (simp add: nccl_dlsym_def Let_def same_table_def split: prod.split)

lemma same_table_slot: "same_table st (snd (in_slot env s name st))"
  by (simp add: in_slot_def same_table_dlsym split: option.split) (simp add: same_table_def)

lemma same_table_trans: "same_table a b \<Longrightarrow> same_table b c \<Longrightarrow> same_table a c"
  by (simp add: same_table_def)

lemma same_table_open: "same_table st (open_once env s name st)"
  by (simp add: open_once_def same_table_def Let_def split: option.split prod.split)

lemma same_table_found:
  "\<forall>s\<in>set ss. \<forall>st. same_table st (snd (s st)) \<Longrightarrow> same_table st (snd (first_found ss st))"
proof (induction ss arbitrary: st)
  case (Cons s ss)
  obtain r st1 where e: "s st = (r, st1)" by fastforce
  have "same_table st st1" using Cons.prems e by (metis list.set_intros(1) snd_conv)
  then show ?case using Cons e by (auto split: option.split intro: same_table_trans)
qed (simp add: same_table_def)

lemma same_table_search: "same_table st (snd (find_real_nccl_sym env name st))"
proof -
  have "same_table st (snd (strategy_loaded env name st))" for st
    unfolding strategy_loaded_def by (rule same_table_trans[OF _ same_table_slot]) (simp add: same_table_def split: option.split)
  moreover have "same_table st (snd (in_slot env s name (open_once env s p st)))" for st s p
    by (rule same_table_trans[OF same_table_open same_table_slot])
  ultimately show ?thesis
    unfolding find_real_nccl_sym_def
    by (intro same_table_found) (simp add: strategy_next_def same_table_dlsym strategy_explicit_def strategy_relative_def strategy_fallback_def)
qed

fun adds :: "nat \<Rightarrow> nccl_call \<Rightarrow> bool" where
  "adds c (Inited f ret c') \<longleftrightarrow> ret = 0 \<and> c' = c"
| "adds c (Registered c') \<longleftrightarrow> c' = c"
| "adds c _ \<longleftrightarrow> False"

fun drops :: "nat \<Rightarrow> nccl_call \<Rightarrow> bool" where
  "drops c (Destroyed f c' ret) \<longleftrightarrow> c' = c"
| "drops c (Unregistered c') \<longleftrightarrow> c' = c"
| "drops c _ \<longleftrightarrow> False"

definition live :: "nccl_call list \<Rightarrow> nat \<Rightarrow> bool" where
  \<comment> \<open>a call made \<open>c\<close> known, and none after it ended it\<close>
  "live log c \<longleftrightarrow> c \<noteq> 0 \<and> (\<exists>pre e post. log = pre @ e # post \<and> adds c e \<and> (\<forall>x\<in>set post. \<not> drops c x))"

lemma live_Nil [simp]: "\<not> live [] c"
  by (simp add: live_def)

lemma live_snoc: "live (log @ [e]) c \<longleftrightarrow> c \<noteq> 0 \<and> (adds c e \<or> live log c \<and> \<not> drops c e)"
proof -
  have "(\<exists>pre x post. log @ [e] = pre @ x # post \<and> adds c x \<and> (\<forall>y\<in>set post. \<not> drops c y)) \<longleftrightarrow>
      adds c e \<or> (\<exists>pre x post. log = pre @ x # post \<and> adds c x \<and> (\<forall>y\<in>set post. \<not> drops c y)) \<and> \<not> drops c e" (is "?l \<longleftrightarrow> ?r")
  proof
    assume ?l
    then obtain pre x post where a: "log @ [e] = pre @ x # post" "adds c x" "\<forall>y\<in>set post. \<not> drops c y" by blast
    show ?r
    proof (cases post rule: rev_cases)
      case Nil
      then show ?thesis using a by simp
    next
      case (snoc ys y)
      then have "log = pre @ x # ys" "y = e" using a(1) by (auto simp flip: append_Cons append_assoc)
      then show ?thesis using a snoc by auto
    qed
  next
    assume ?r
    then show ?l
    proof (elim disjE conjE exE)
      assume "adds c e"
      then show ?l by (intro exI[of _ log] exI[of _ e] exI[of _ "[]"]) simp
    next
      fix pre x post
      assume "log = pre @ x # post" "adds c x" "\<forall>y\<in>set post. \<not> drops c y" "\<not> drops c e"
      then show ?l by (intro exI[of _ pre] exI[of _ x] exI[of _ "post @ [e]"]) auto
    qed
  qed
  then show ?thesis by (auto simp: live_def)
qed

definition tracks :: "nccl_state \<Rightarrow> bool" where
  "tracks st \<longleftrightarrow> distinct (g_tracked_comms st) \<and> (\<forall>c. c \<in> set (g_tracked_comms st) \<longleftrightarrow> live (nccl_log st) c)"

lemmas table_defs = tracks_def log_call_def nccl_register_comm_def nccl_unregister_comm_def cr_register_nccl_comm_def
  cr_unregister_nccl_comm_def live_snoc

lemma live_nonzero: "live log c \<Longrightarrow> c \<noteq> 0"
  by (simp add: live_def)

lemma tracks_search: "tracks st \<Longrightarrow> tracks (snd (find_real_nccl_sym env n st))"
  using same_table_search[of st env n] by (simp add: tracks_def same_table_def)

lemma tracks_init: "tracks st \<Longrightarrow> tracks (snd (init_with nccl p args f st))"
  by (auto simp: init_with_def table_defs Let_def split: prod.split if_splits dest: live_nonzero)

interpretation tracking: nccl_observer env tracks "\<lambda>_. True" "\<lambda>_. True" for env
proof (unfold_locales, goal_cases)
  case (1 st n)
  then show ?case by (simp add: tracks_search)
next
  case (6 st f nccl p args)
  then show ?case by (simp add: tracks_init)
qed (auto simp: table_defs dest: live_nonzero)

section \<open>Where the search can lead\<close>

lemma lib_index_Some: "lib_index p ls = Some i \<Longrightarrow> i < length ls \<and> p (ls ! i)"
  by (induction p ls arbitrary: i rule: lib_index.induct) (auto split: if_splits)

lemma lookup_in_Some: "lookup_in maps is name = Some f \<Longrightarrow> \<exists>i\<in>set is. (name, f) \<in> set (maps ! i)"
  by (induction maps "is" name rule: lookup_in.induct) (auto split: option.splits dest: map_of_SomeD)

definition objects_of :: "dl_handle \<Rightarrow> linker \<Rightarrow> object list" where
  "objects_of h ld = (case h of Scope is \<Rightarrow> map exports (libs ld) | _ \<Rightarrow> map (\<lambda>i. exports (libs ld ! i)) (global_scope ld))"

lemma nccl_names_not_hooked:
  "list_all (\<lambda>n. n \<notin> set lookup_functions \<and> map_of g_hook_table n = None) nccl_names"
  by code_simp

lemma nccl_dlsym_is_real:
  assumes "n \<in> set nccl_names"
  shows "nccl_dlsym env h n st = (real_dlsym (objects_of h (linker st)) (self (hooks env)) h n, st)"
proof -
  have "n \<notin> set lookup_functions" "map_of g_hook_table n = None"
    using assms nccl_names_not_hooked by (simp_all add: list_all_iff)
  then show ?thesis by (simp add: nccl_dlsym_def dlsym_def objects_of_def Let_def)
qed

definition foreign_lib :: "lib \<Rightarrow> bool" where
  "foreign_lib l \<longleftrightarrow> list_all (\<lambda>(_, f). case f of Ext _ \<Rightarrow> True | Own _ \<Rightarrow> False) (exports l)"

definition is_foreign :: "fn \<Rightarrow> bool" where
  "is_foreign f = (case f of Ext _ \<Rightarrow> True | Own _ \<Rightarrow> False)"

lemma foreign_libD: "foreign_lib l \<Longrightarrow> (n, f) \<in> set (exports l) \<Longrightarrow> is_foreign f"
  by (auto simp: foreign_lib_def is_foreign_def list_all_iff)

definition opened_names :: "nccl_env \<Rightarrow> string list" where
  "opened_names env = [''libnccl.so.2'', ''libnccl.so''] @ List.map_filter id [explicit_path env, relative_path env]"

definition this_lib :: "nccl_env \<Rightarrow> linker \<Rightarrow> nat" where
  "this_lib env ld = global_scope ld ! self (hooks env)"

definition not_opened :: "nccl_env \<Rightarrow> lib \<Rightarrow> bool" where
  "not_opened env me = list_all (\<lambda>name. \<not> named name me \<and>
     (case disk env name of None \<Rightarrow> True | Some l \<Rightarrow> path l \<noteq> path me \<and> foreign_lib l)) (opened_names env)"

definition scope_ok :: "nccl_env \<Rightarrow> linker \<Rightarrow> bool" where
  \<comment> \<open>this library is in the global scope, no other one exports its functions, and none of the names
     that are opened is its own\<close>
  "scope_ok env ld \<longleftrightarrow>
     self (hooks env) < length (global_scope ld) \<and> distinct (global_scope ld) \<and>
     list_all (\<lambda>i. i < length (libs ld)) (global_scope ld) \<and>
     list_all (\<lambda>i. i \<noteq> this_lib env ld \<longrightarrow> foreign_lib (libs ld ! i)) [0..<length (libs ld)] \<and>
     not_opened env (libs ld ! this_lib env ld)"

definition other_lib :: "nccl_env \<Rightarrow> linker \<Rightarrow> nat \<Rightarrow> bool" where
  "other_lib env ld i \<longleftrightarrow> i < length (libs ld) \<and> i \<noteq> this_lib env ld"

definition search_ok :: "nccl_env \<Rightarrow> nccl_state \<Rightarrow> bool" where
  "search_ok env st \<longleftrightarrow> scope_ok env (linker st) \<and> (\<forall>s i. handles st s = Some i \<longrightarrow> other_lib env (linker st) i)"

fun call_target :: "nccl_call \<Rightarrow> fn option" where
  "call_target (Inited f _ _) = Some f"
| "call_target (Destroyed f _ _) = Some f"
| "call_target (Finalized f _ _) = Some f"
| "call_target _ = None"

definition calls_foreign :: "nccl_env \<Rightarrow> nccl_state \<Rightarrow> bool" where
  "calls_foreign env st \<longleftrightarrow> search_ok env st \<and> (\<forall>n f. real_fns st n = Some f \<longrightarrow> is_foreign f) \<and>
     (\<forall>c\<in>set (nccl_log st). \<forall>f. call_target c = Some f \<longrightarrow> is_foreign f)"

lemma other_lib_foreign: "scope_ok env ld \<Longrightarrow> other_lib env ld i \<Longrightarrow> foreign_lib (libs ld ! i)"
  by (auto simp: scope_ok_def other_lib_def list_all_iff)

lemma next_is_foreign:
  assumes "scope_ok env (linker st)" "n \<in> set nccl_names" "fst (nccl_dlsym env RTLD_NEXT n st) = Some f"
  shows "is_foreign f"
proof -
  let ?g = "global_scope (linker st)"
  have "lookup_in (objects_of RTLD_NEXT (linker st)) [Suc (self (hooks env))..<length ?g] n = Some f"
    using assms(2,3) by (simp add: nccl_dlsym_is_real real_dlsym_def objects_of_def)
  from lookup_in_Some[OF this] obtain k where k: "self (hooks env) < k" "k < length ?g" "(n, f) \<in> set (exports (libs (linker st) ! (?g ! k)))"
    by (auto simp: objects_of_def Suc_le_eq)
  have "?g ! k \<noteq> ?g ! self (hooks env)" using assms(1) k by (auto simp: scope_ok_def nth_eq_iff_index_eq)
  then have "other_lib env (linker st) (?g ! k)" using assms(1) k(2) by (auto simp: other_lib_def this_lib_def scope_ok_def list_all_iff)
  then show ?thesis using other_lib_foreign assms(1) k(3) foreign_libD by blast
qed

lemma slot_is_foreign:
  assumes "search_ok env st" "n \<in> set nccl_names" "fst (in_slot env s n st) = Some f"
  shows "is_foreign f"
proof -
  obtain i where i: "handles st s = Some i" "fst (nccl_dlsym env (Scope [i]) n st) = Some f"
    using assms(3) by (auto simp: in_slot_def split: option.splits)
  have o: "other_lib env (linker st) i" using assms(1) i(1) by (simp add: search_ok_def)
  then have "(n, f) \<in> set (exports (libs (linker st) ! i))"
    using i(2) assms(2) by (auto simp: nccl_dlsym_is_real real_dlsym_def objects_of_def other_lib_def split: option.splits dest: map_of_SomeD)
  then show ?thesis using o assms(1) other_lib_foreign foreign_libD by (metis search_ok_def)
qed

lemma slot_keeps_state: "n \<in> set nccl_names \<Longrightarrow> snd (in_slot env s n st) = st"
  by (simp add: in_slot_def nccl_dlsym_is_real split: option.split)

subsection \<open>Loading\<close>

lemma this_lib_grows:
  assumes "self (hooks env) < length (global_scope ld)"
  shows "this_lib env (promote i ld) = this_lib env ld" "this_lib env (load g l ld) = this_lib env ld"
  using assms by (simp_all add: this_lib_def promote_def load_def Let_def nth_append)

lemma promote_ok: "scope_ok env ld \<Longrightarrow> i < length (libs ld) \<Longrightarrow> scope_ok env (promote i ld)"
  using this_lib_grows(1)[of env ld i] by (auto simp: scope_ok_def promote_def)

lemma load_ok:
  assumes "scope_ok env ld" "foreign_lib l"
  shows "scope_ok env (load g l ld)"
proof -
  let ?ld = "ld\<lparr>libs := libs ld @ [l]\<rparr>"
  have t: "this_lib env ?ld = this_lib env ld" "this_lib env ld < length (libs ld)"
    using assms(1) by (auto simp: this_lib_def scope_ok_def list_all_iff)
  have "scope_ok env ?ld"
    using assms t by (auto simp: scope_ok_def list_all_iff nth_append less_Suc_eq)
  then show ?thesis using promote_ok[of env ?ld "length (libs ld)"] by (simp add: load_def Let_def)
qed

lemma handle_survives:
  assumes "scope_ok env ld" "other_lib env ld i"
  shows "other_lib env (promote j ld) i" "other_lib env (load g l ld) i"
  using assms this_lib_grows[of env ld]
  by (auto simp: other_lib_def scope_ok_def promote_def load_def Let_def)

lemma named_other:
  assumes "scope_ok env ld" "name \<in> set (opened_names env)" "lib_index (named name) (libs ld) = Some i"
  shows "other_lib env ld i"
  using assms lib_index_Some[OF assms(3)] by (auto simp: scope_ok_def not_opened_def other_lib_def list_all_iff)

lemma dlopen_other:
  assumes ok: "scope_ok env ld" and name: "name \<in> set (opened_names env)" and e: "dlopen_global env name ld = (h, ld')"
  shows "scope_ok env ld' \<and> (\<forall>i. h = Some i \<longrightarrow> other_lib env ld' i) \<and> (\<forall>i. other_lib env ld i \<longrightarrow> other_lib env ld' i)"
proof -
  have via: "scope_ok env (promote i ld) \<and> other_lib env (promote i ld) i" if "other_lib env ld i" for i
    using that ok promote_ok handle_survives(1) by (auto simp: other_lib_def)
  have new: "other_lib env (load True l ld) (length (libs ld))" for l
    using ok this_lib_grows(2)[of env ld True l] by (auto simp: other_lib_def load_def promote_def scope_ok_def list_all_iff this_lib_def Let_def)
  show ?thesis
  proof (cases "lib_index (named name) (libs ld)")
    case (Some i)
    then show ?thesis using via[OF named_other[OF ok name Some]] e handle_survives(1)[OF ok] by (auto simp: dlopen_global_def)
  next
    case None
    note n = this
    show ?thesis
    proof (cases "disk env name")
      case None
      then show ?thesis using n e ok by (auto simp: dlopen_global_def)
    next
      case (Some l)
      have l: "path l \<noteq> path (libs ld ! this_lib env ld)" "foreign_lib l" using ok name Some by (auto simp: scope_ok_def not_opened_def list_all_iff)
      show ?thesis
      proof (cases "lib_index (\<lambda>x. path x = path l) (libs ld)")
        case None
        then show ?thesis using n Some e new load_ok[OF ok l(2)] handle_survives(2)[OF ok] by (auto simp: dlopen_global_def)
      next
        case (Some i)
        then have "other_lib env ld i" using lib_index_Some[OF Some] l(1) by (auto simp: other_lib_def)
        then show ?thesis using n \<open>disk env name = Some l\<close> Some e via handle_survives(1)[OF ok] by (auto simp: dlopen_global_def)
      qed
    qed
  qed
qed

subsection \<open>The strategies\<close>

lemma search_ok_open:
  assumes "search_ok env st" "\<And>p. name = Some p \<Longrightarrow> p \<in> set (opened_names env)"
  shows "search_ok env (open_once env s name st)"
proof (cases "tried st s \<or> name = None")
  case True
  then show ?thesis using assms(1) by (auto simp: open_once_def search_ok_def Let_def)
next
  case False
  then obtain p where p: "name = Some p" "\<not> tried st s" by auto
  obtain h ld where e: "dlopen_global env p (linker st) = (h, ld)" by fastforce
  have "scope_ok env ld" "\<forall>i. h = Some i \<longrightarrow> other_lib env ld i" "\<forall>i. other_lib env (linker st) i \<longrightarrow> other_lib env ld i"
    using dlopen_other[OF _ assms(2)[OF p(1)] e] assms(1) by (auto simp: search_ok_def)
  then show ?thesis using p e assms(1) by (auto simp: open_once_def search_ok_def Let_def)
qed

lemma first_loaded_other:
  assumes "scope_ok env ld"
  shows "\<lbrakk>set cs \<subseteq> set (opened_names env); first_loaded cs ld = Some i\<rbrakk> \<Longrightarrow> other_lib env ld i"
  by (induction cs) (auto simp: dlopen_noload_def dest: named_other[OF assms] split: option.splits)

lemma opened_names_mem:
  "''libnccl.so.2'' \<in> set (opened_names env)" "set [''libnccl.so.2'', ''libnccl.so''] \<subseteq> set (opened_names env)"
  "explicit_path env = Some p \<Longrightarrow> p \<in> set (opened_names env)" "relative_path env = Some q \<Longrightarrow> q \<in> set (opened_names env)"
  by (simp_all add: opened_names_def List.map_filter_def)

definition sound_strategy :: "nccl_env \<Rightarrow> (nccl_state \<Rightarrow> fn option \<times> nccl_state) \<Rightarrow> bool" where
  "sound_strategy env s \<longleftrightarrow> (\<forall>st. search_ok env st \<longrightarrow> search_ok env (snd (s st)) \<and> (\<forall>f. fst (s st) = Some f \<longrightarrow> is_foreign f))"

lemma sound_found:
  "\<forall>s\<in>set ss. sound_strategy env s \<Longrightarrow> sound_strategy env (first_found ss)"
proof (induction ss)
  case (Cons s ss)
  show ?case
    unfolding sound_strategy_def
  proof (intro allI impI)
    fix st
    assume st: "search_ok env st"
    obtain r st1 where e: "s st = (r, st1)" by fastforce
    have "search_ok env st1" "\<And>f. r = Some f \<Longrightarrow> is_foreign f"
      using Cons.prems st e by (auto simp: sound_strategy_def)
    then show "search_ok env (snd (first_found (s # ss) st)) \<and> (\<forall>f. fst (first_found (s # ss) st) = Some f \<longrightarrow> is_foreign f)"
      using Cons e by (cases r) (simp_all add: sound_strategy_def)
  qed
qed (simp add: sound_strategy_def)

lemma sound_slot:
  assumes "n \<in> set nccl_names" "\<And>st. search_ok env st \<Longrightarrow> search_ok env (prepare st)"
  shows "sound_strategy env (\<lambda>st. in_slot env s n (prepare st))"
  using assms slot_is_foreign[OF assms(2) assms(1)] by (auto simp: sound_strategy_def slot_keeps_state)

lemma sound_search:
  assumes n: "n \<in> set nccl_names"
  shows "sound_strategy env (find_real_nccl_sym env n)"
proof -
  have "sound_strategy env (strategy_next env n)"
    using n next_is_foreign by (auto simp: sound_strategy_def strategy_next_def nccl_dlsym_is_real search_ok_def)
  moreover have "sound_strategy env (strategy_loaded env n)"
    unfolding strategy_loaded_def using first_loaded_other[OF _ opened_names_mem(2)]
    by (intro sound_slot n) (auto simp: search_ok_def split: option.split)
  moreover have "sound_strategy env (strategy_explicit env n)"
    unfolding strategy_explicit_def by (intro sound_slot n search_ok_open opened_names_mem(3))
  moreover have "sound_strategy env (strategy_relative env n)"
    unfolding strategy_relative_def by (intro sound_slot n search_ok_open opened_names_mem(4))
  moreover have "sound_strategy env (strategy_fallback env n)"
    unfolding strategy_fallback_def by (intro sound_slot n search_ok_open) (auto simp: opened_names_mem(1))
  ultimately show ?thesis unfolding find_real_nccl_sym_def by (intro sound_found) simp
qed

lemma calls_foreign_search:
  assumes "calls_foreign env st" "n \<in> set nccl_names"
  shows "calls_foreign env (snd (find_real_nccl_sym env n st))"
  using assms sound_search[OF assms(2), of env] same_table_search[of st env n]
  by (simp add: calls_foreign_def sound_strategy_def same_table_def)

lemma search_ok_table [simp]:
  "search_ok env (st\<lparr>real_fns := x\<rparr>) = search_ok env st" "search_ok env (st\<lparr>nccl_log := y\<rparr>) = search_ok env st"
  "search_ok env (st\<lparr>g_tracked_comms := z\<rparr>) = search_ok env st"
  by (simp_all add: search_ok_def)

lemma calls_foreign_init: "calls_foreign env st \<Longrightarrow> is_foreign f \<Longrightarrow> calls_foreign env (snd (init_with nccl p args f st))"
  by (auto simp: init_with_def calls_foreign_def log_call_def nccl_register_comm_def Let_def split: prod.split)

interpretation foreign_calls: nccl_observer env "calls_foreign env" is_foreign foreign_lib for env
proof (unfold_locales, goal_cases)
  case (1 st n)
  then show ?case by (rule calls_foreign_search)
next
  case (2 st n f)
  then show ?case using sound_search[of n env] by (auto simp: calls_foreign_def sound_strategy_def)
next
  case (5 st l g)
  then show ?case using load_ok handle_survives(2) by (auto simp: calls_foreign_def search_ok_def)
next
  case (6 st f nccl p args)
  then show ?case by (rule calls_foreign_init)
qed (auto simp: calls_foreign_def log_call_def nccl_register_comm_def nccl_unregister_comm_def cr_register_nccl_comm_def cr_unregister_nccl_comm_def)

section \<open>Properties\<close>

text \<open>C17: whatever sequence of NCCL calls, manual registrations and library loads a process makes, the
  table of tracked communicators never holds one twice, a communicator is in it exactly when a
  successful initialisation or a manual registration made it known and no destruction or
  unregistration came after, and the reported count is the number of those, at the width of \<open>int\<close>; the
  search for the real functions never disturbs it.\<close>

theorem tracked_comms_are_live:
  "distinct (g_tracked_comms (nccl_run env evs (nccl_init hk ld))) \<and>
   (\<forall>c. c \<in> set (g_tracked_comms (nccl_run env evs (nccl_init hk ld))) \<longleftrightarrow> live (nccl_log (nccl_run env evs (nccl_init hk ld))) c) \<and>
   nccl_get_comm_count (nccl_run env evs (nccl_init hk ld)) =
     sint (of_nat (card {c. live (nccl_log (nccl_run env evs (nccl_init hk ld))) c}) :: 32 word)"
proof -
  let ?st = "nccl_run env evs (nccl_init hk ld)"
  have "tracks (nccl_init hk ld)" by (simp add: tracks_def nccl_init_def)
  then have t: "tracks ?st" by (rule tracking.run_keeps) simp
  then have "{c. live (nccl_log ?st) c} = set (g_tracked_comms ?st)" by (auto simp: tracks_def)
  then have "card {c. live (nccl_log ?st) c} = length (g_tracked_comms ?st)" using t by (simp add: tracks_def distinct_card)
  then show ?thesis using t by (simp add: tracks_def nccl_get_comm_count_def)
qed

text \<open>C18: every call a hook makes goes to a function of another library and never back to a hook, for all
  five strategies, libraries loaded at any time in any scope and any order of calls, provided no other
  library exports the functions of this one and none of the names that are opened is this library.\<close>

theorem nccl_calls_leave_library:
  assumes "scope_ok env ld" "\<And>g l. Load g l \<in> set evs \<Longrightarrow> foreign_lib l"
    and "c \<in> set (nccl_log (nccl_run env evs (nccl_init hk ld)))" "call_target c = Some f"
  shows "\<exists>address. f = Ext address"
proof -
  have "calls_foreign env (nccl_init hk ld)" using assms(1) by (simp add: calls_foreign_def search_ok_def nccl_init_def)
  then have "calls_foreign env (nccl_run env evs (nccl_init hk ld))" using assms(2) by (rule foreign_calls.run_keeps)
  then have "is_foreign f" using assms(3,4) by (auto simp: calls_foreign_def)
  then show ?thesis by (auto simp: is_foreign_def split: fn.splits)
qed

definition demo_self :: lib where
  "demo_self = \<lparr>soname = ''vGPU.so'', path = ''/p/build/vGPU.so'', exports = [(''ncclCommInitRank'', Own ''ncclCommInitRank'')]\<rparr>"

definition demo_nccl :: lib where
  "demo_nccl = \<lparr>soname = ''libnccl.so.2'', path = ''/t/libnccl.so.2'', exports = [(''ncclCommInitRank'', Ext 7)]\<rparr>"

definition demo_linker :: linker where
  "demo_linker = \<lparr>libs = [demo_self], global_scope = [0]\<rparr>"

definition demo_nccl_env :: nccl_env where
  "demo_nccl_env = \<lparr>hooks = \<lparr>link_map = [], self = 0, entry = (\<lambda>_ _. (0, None)), ext_result = (\<lambda>_. 0), get_ok = True, push_ok = (\<lambda>_. True)\<rparr>,
     disk = (\<lambda>_. None), CR_NCCL_LIB = None, dli_fname = Some ''/p/build/vGPU.so'', realpath = (\<lambda>_. None)\<rparr>"

definition demo_hook_state :: hook_state where
  "demo_hook_state = \<lparr>ptrs = (\<lambda>_. None), ctx_stack = [], g_pytorch_context = 0, inited = [], ext_calls = []\<rparr>"

definition demo_events :: "nccl_event list" where
  \<comment> \<open>a call before NCCL is loaded, then \<open>dlopen\<close> with \<open>RTLD_LOCAL\<close>, and the call again\<close>
  "demo_events = [InitRank (\<lambda>_ _. (0, 5)) True 2 ''id'' 0, Load False demo_nccl, InitRank (\<lambda>_ _. (0, 5)) True 2 ''id'' 0]"

lemma demo_scope: "scope_ok demo_nccl_env demo_linker"
  by code_simp

lemma demo_log: "nccl_log (nccl_run demo_nccl_env demo_events (nccl_init demo_hook_state demo_linker)) = [Inited (Ext 7) 0 5]"
  by code_simp

lemma demo_loads: "Load g l \<in> set demo_events \<Longrightarrow> foreign_lib l"
  by (auto simp: demo_events_def demo_nccl_def foreign_lib_def)

theorem nccl_calls_leave_library_witness:
  "scope_ok demo_nccl_env demo_linker \<and> (\<exists>address. (Ext 7) = Ext address) \<and>
   nccl_log (nccl_run demo_nccl_env demo_events (nccl_init demo_hook_state demo_linker)) = [Inited (Ext 7) 0 5]"
  using nccl_calls_leave_library[OF demo_scope demo_loads, where c = "Inited (Ext 7) 0 5" and hk = demo_hook_state and f = "Ext 7"] demo_scope demo_log
  by simp

text \<open>However many calls failed before, once a library called \<open>libnccl.so.2\<close> with the function is loaded, in
  whatever scope, \<open>ncclCommInitRank\<close> reaches an NCCL function with the caller's arguments, and its result is
  what the caller gets.\<close>

theorem loaded_nccl_is_reached:
  assumes "dlopen_noload ''libnccl.so.2'' (linker st) = Some i"
    and "map_of (exports (libs (linker st) ! i)) ''ncclCommInitRank'' = Some f"
  shows "\<exists>g. fst (ncclCommInitRank env nccl True nranks commId rank st) = fst (nccl g (nranks, commId, rank, None)) \<and>
    nccl_log (snd (ncclCommInitRank env nccl True nranks commId rank st)) =
      nccl_log st @ [Inited g (fst (nccl g (nranks, commId, rank, None))) (snd (nccl g (nranks, commId, rank, None)))]"
proof -
  let ?n = "''ncclCommInitRank''"
  have n: "?n \<in> set nccl_names" by (simp add: nccl_names_def)
  have i: "i < length (libs (linker st))" using lib_index_Some assms(1) by (auto simp: dlopen_noload_def)
  have "fst (strategy_loaded env ?n st) = Some f"
    using assms i n by (simp add: strategy_loaded_def in_slot_def nccl_dlsym_is_real real_dlsym_def objects_of_def)
  moreover have "snd (strategy_next env ?n st) = st" using n by (simp add: strategy_next_def nccl_dlsym_is_real)
  ultimately obtain g where "fst (find_real_nccl_sym env ?n st) = Some g"
    by (cases "strategy_next env ?n st"; cases "strategy_loaded env ?n st"; cases "fst (strategy_next env ?n st)")
      (auto simp: find_real_nccl_sym_def)
  then obtain st1 where e: "find_real_nccl_sym env ?n st = (Some g, st1)" "nccl_log st1 = nccl_log st"
    using same_table_search[of st env ?n] by (cases "find_real_nccl_sym env ?n st") (auto simp: same_table_def)
  have call: "fst (init_with nccl True args h s) = fst (nccl h args) \<and>
      nccl_log (snd (init_with nccl True args h s)) = nccl_log s @ [Inited h (fst (nccl h args)) (snd (nccl h args))]" for args h s
    by (simp add: init_with_def log_call_def nccl_register_comm_def Let_def split: prod.split)
  show ?thesis
  proof (cases "real_fns st ?n")
    case None
    then show ?thesis using e call by (intro exI[of _ g]) (simp add: ncclCommInitRank_def with_real_def)
  next
    case (Some h)
    then show ?thesis using call by (intro exI[of _ h]) (simp add: ncclCommInitRank_def with_real_def)
  qed
qed

definition demo_after_load :: nccl_state where
  "demo_after_load = nccl_run demo_nccl_env (take 2 demo_events) (nccl_init demo_hook_state demo_linker)"

lemma demo_after_load_found:
  "dlopen_noload ''libnccl.so.2'' (linker demo_after_load) = Some 1"
  "map_of (exports (libs (linker demo_after_load) ! 1)) ''ncclCommInitRank'' = Some (Ext 7)"
  by code_simp+

theorem loaded_nccl_is_reached_witness:
  "fst (ncclCommInitRank demo_nccl_env (\<lambda>_ _. (0, 5)) True 2 ''id'' 0 (nccl_init demo_hook_state demo_linker)) = 3 \<and>
   fst (ncclCommInitRank demo_nccl_env (\<lambda>_ _. (0, 5)) True 2 ''id'' 0 demo_after_load) = 0"
proof
  show "fst (ncclCommInitRank demo_nccl_env (\<lambda>_ _. (0, 5)) True 2 ''id'' 0 (nccl_init demo_hook_state demo_linker)) = 3" by code_simp
  show "fst (ncclCommInitRank demo_nccl_env (\<lambda>_ _. (0, 5)) True 2 ''id'' 0 demo_after_load) = 0"
    using loaded_nccl_is_reached[OF demo_after_load_found, of demo_nccl_env "\<lambda>_ _. (0, 5)" 2 "''id''" 0] by auto
qed

end
