(* ===== verification/Locks.thy ===== *)
theory Locks
  imports Prelude
begin

text \<open>
  The mutexes of the preloaded library and the order in which its entry points take them.  A
  worker process has several threads; each runs a sequence of hooked calls (\<open>GPUs/NVIDIA/nv.cpp\<close>,
  \<open>ipc_hooks.cpp\<close>, \<open>nccl_hooks.cpp\<close>) and of the NCCL runtime, and the handlers that \<open>vGPU.cpp\<close> installs with \<open>signal\<close> run
  on whichever thread the signal interrupts.  The model keeps of every operation its sequence of
  lock and unlock calls on each branch, and of a thread the calls it has still to make: a signal
  puts the calls of the handler in front of them.  Proved: if a signal only interrupts a thread
  where the handler respects the order of the mutexes, some thread can always go on and all of
  them finish; the IPC handlers respect it inside every tracked cuMem hook, because
  \<open>g_ipc_hook_mutex\<close> is recursive; the checkpoint handler does not inside \<open>cudaMalloc\<close> or
  \<open>cudaFree\<close>, and there the thread is blocked for good.
\<close>

section \<open>Mutexes\<close>

datatype mutex = Fs_mutex | Gpu_mem_mutex | G_ipc_hook_mutex | G_ipc_events_mutex
  | G_peer_access_mutex | G_comms_mutex | G_state_mutex

definition mutexes :: "mutex list" where
  "mutexes = [Fs_mutex, Gpu_mem_mutex, G_ipc_hook_mutex, G_ipc_events_mutex,
              G_peer_access_mutex, G_comms_mutex, G_state_mutex]"

definition recursive :: "mutex \<Rightarrow> bool" where
  \<comment> \<open>only \<open>g_ipc_hook_mutex\<close> is a \<open>std::recursive_mutex\<close>\<close>
  "recursive m \<longleftrightarrow> m = G_ipc_hook_mutex"

datatype lock_act = Lock mutex | Unlock mutex | Exit_process

definition lock_guard :: "mutex \<Rightarrow> lock_act list \<Rightarrow> lock_act list" where
  \<comment> \<open>\<open>std::lock_guard\<close> around a block that runs to its end\<close>
  "lock_guard m body = Lock m # body @ [Unlock m]"

section \<open>The tracked cuMem calls\<close>

text \<open>The flag of each hook says whether the driver's function succeeded.\<close>

definition hook_cuMemCreate_locks :: "bool \<Rightarrow> bool \<Rightarrow> lock_act list" where
  \<comment> \<open>only an allocation with requested handle types is recorded\<close>
  "hook_cuMemCreate_locks ok shareable =
     (if ok \<and> shareable then lock_guard G_ipc_hook_mutex [] else [])"

definition hook_cuMemExport_locks :: "bool \<Rightarrow> lock_act list" where
  "hook_cuMemExport_locks ok = (if ok then lock_guard G_ipc_hook_mutex [] else [])"

definition hook_cuMemImport_locks :: "bool \<Rightarrow> lock_act list" where
  "hook_cuMemImport_locks ok = (if ok then lock_guard G_ipc_hook_mutex [] else [])"

definition hook_cuMemMap_locks :: "bool \<Rightarrow> lock_act list" where
  "hook_cuMemMap_locks ok = (if ok then lock_guard G_ipc_hook_mutex [] else [])"

definition hook_cuMemUnmap_locks :: "bool \<Rightarrow> lock_act list" where
  "hook_cuMemUnmap_locks ok = (if ok then lock_guard G_ipc_hook_mutex [] else [])"

definition hook_cuMemRelease_locks :: "bool \<Rightarrow> lock_act list" where
  \<comment> \<open>one section for the alias table, one for the cleanup\<close>
  "hook_cuMemRelease_locks ok =
     lock_guard G_ipc_hook_mutex [] @ (if ok then lock_guard G_ipc_hook_mutex [] else [])"

definition hook_cuMemSetAccess_locks :: "bool \<Rightarrow> lock_act list" where
  "hook_cuMemSetAccess_locks ok = (if ok then lock_guard G_ipc_hook_mutex [] else [])"

section \<open>Allocation, release and remapping\<close>

text \<open>
  The cuMem functions that \<open>nv.cpp\<close> calls are the library's own exported wrappers, so they take
  \<open>g_ipc_hook_mutex\<close> below \<open>gpu_mem_mutex\<close>.
\<close>

datatype malloc_run = Malloc_early \<comment> \<open>size 0, or no reservation\<close>
  | Malloc_create_fails
  | Malloc_map_fails bool
  | Malloc_access_fails bool bool
  | Malloc_done

fun cudaMalloc_body :: "malloc_run \<Rightarrow> lock_act list" where
  "cudaMalloc_body Malloc_early = []"
| "cudaMalloc_body Malloc_create_fails = hook_cuMemCreate_locks False False"
| "cudaMalloc_body (Malloc_map_fails released) =
     hook_cuMemCreate_locks True False @ hook_cuMemMap_locks False @ hook_cuMemRelease_locks released"
| "cudaMalloc_body (Malloc_access_fails unmapped released) =
     hook_cuMemCreate_locks True False @ hook_cuMemMap_locks True @ hook_cuMemSetAccess_locks False @
     hook_cuMemUnmap_locks unmapped @ hook_cuMemRelease_locks released"
| "cudaMalloc_body Malloc_done =
     hook_cuMemCreate_locks True False @ hook_cuMemMap_locks True @ hook_cuMemSetAccess_locks True"

definition cudaMalloc_locks :: "malloc_run \<Rightarrow> lock_act list" where
  "cudaMalloc_locks r = lock_guard Gpu_mem_mutex (cudaMalloc_body r)"

datatype free_run = Free_untracked | Free_no_handle | Free_vmm bool bool

fun cudaFree_body :: "free_run \<Rightarrow> lock_act list" where
  "cudaFree_body Free_untracked = []"
| "cudaFree_body Free_no_handle = []"
| "cudaFree_body (Free_vmm unmapped released) =
     hook_cuMemUnmap_locks unmapped @ hook_cuMemRelease_locks released"

definition cudaFree_locks :: "free_run \<Rightarrow> lock_act list" where
  "cudaFree_locks r = lock_guard Gpu_mem_mutex (cudaFree_body r)"

datatype release_run = Release_untracked | Release_unmap_fails | Release_no_handle
  | Release_handle bool

fun releasePhysicalMemory_locks :: "release_run \<Rightarrow> lock_act list \<times> bool" where
  \<comment> \<open>and whether it returns 0\<close>
  "releasePhysicalMemory_locks Release_untracked = ([], False)"
| "releasePhysicalMemory_locks Release_unmap_fails = (hook_cuMemUnmap_locks False, False)"
| "releasePhysicalMemory_locks Release_no_handle = (hook_cuMemUnmap_locks True, True)"
| "releasePhysicalMemory_locks (Release_handle released) =
     (hook_cuMemUnmap_locks True @ hook_cuMemRelease_locks released, released)"

datatype create_run = Create_fails | Map_fails | Access_fails | All_mapped

fun create_locks :: "create_run \<Rightarrow> lock_act list" where
  \<comment> \<open>a failing \<open>CU_CHECK\<close> ends the process\<close>
  "create_locks Create_fails = hook_cuMemCreate_locks False False @ [Exit_process]"
| "create_locks Map_fails = hook_cuMemCreate_locks True False @ hook_cuMemMap_locks False @ [Exit_process]"
| "create_locks Access_fails =
     hook_cuMemCreate_locks True False @ hook_cuMemMap_locks True @ hook_cuMemSetAccess_locks False @ [Exit_process]"
| "create_locks All_mapped =
     hook_cuMemCreate_locks True False @ hook_cuMemMap_locks True @ hook_cuMemSetAccess_locks True"

datatype remap_run = Remap_untracked | Remap_unmap_fails | Remap_release_fails
  | Remap bool create_run \<comment> \<open>whether an old mapping was replaced\<close>

fun remapPhysicalMemory_locks :: "remap_run \<Rightarrow> lock_act list \<times> bool" where
  "remapPhysicalMemory_locks Remap_untracked = ([], False)"
| "remapPhysicalMemory_locks Remap_unmap_fails = (hook_cuMemUnmap_locks False, False)"
| "remapPhysicalMemory_locks Remap_release_fails =
     (hook_cuMemUnmap_locks True @ hook_cuMemRelease_locks False, False)"
| "remapPhysicalMemory_locks (Remap old c) =
     ((if old then hook_cuMemUnmap_locks True @ hook_cuMemRelease_locks True else []) @ create_locks c,
      True)"

section \<open>Checkpoint and restore\<close>

datatype ckpt_stop = Stop_in_backend \<comment> \<open>\<open>CUDA_CHECK_RET\<close> ends the process\<close>
  | Stop_reported \<comment> \<open>\<open>fs_mutex.unlock(); exit(-1)\<close>\<close>

fun release_loop_locks :: "release_run list \<Rightarrow> lock_act list" where
  "release_loop_locks [] = [Unlock Fs_mutex, Unlock Gpu_mem_mutex]"
| "release_loop_locks (r # rs) =
     (case releasePhysicalMemory_locks r of (acts, ok) \<Rightarrow>
        acts @ (if ok then release_loop_locks rs else [Unlock Fs_mutex, Exit_process]))"

fun ckpt_locks :: "ckpt_stop option \<Rightarrow> release_run list \<Rightarrow> lock_act list" where
  \<comment> \<open>\<open>ckpt\<close> and \<open>ckpt_selective\<close>: the same calls on \<open>fs_mutex\<close> and \<open>gpu_mem_mutex\<close>\<close>
  "ckpt_locks (Some Stop_in_backend) rs = [Lock Fs_mutex, Lock Gpu_mem_mutex, Exit_process]"
| "ckpt_locks (Some Stop_reported) rs =
     [Lock Fs_mutex, Lock Gpu_mem_mutex, Unlock Fs_mutex, Exit_process]"
| "ckpt_locks None rs = [Lock Fs_mutex, Lock Gpu_mem_mutex] @ release_loop_locks rs"

fun remap_loop_locks :: "remap_run list \<Rightarrow> bool \<Rightarrow> lock_act list" where
  \<comment> \<open>the flag: whether the copy loops after the remapping run to the end\<close>
  "remap_loop_locks [] fin = (if fin then [Unlock Gpu_mem_mutex] else [Exit_process])"
| "remap_loop_locks (r # rs) fin =
     (case remapPhysicalMemory_locks r of (acts, ok) \<Rightarrow>
        acts @ (if ok then remap_loop_locks rs fin else [Exit_process]))"

definition restore_locks :: "remap_run list \<Rightarrow> bool \<Rightarrow> lock_act list" where
  \<comment> \<open>\<open>restore_ptr_and_content\<close> and its selective variant\<close>
  "restore_locks rs fin = Lock Gpu_mem_mutex # remap_loop_locks rs fin"

section \<open>Peer access, IPC events, communicators\<close>

definition peer_hook_locks :: "bool \<Rightarrow> lock_act list" where
  \<comment> \<open>\<open>cudaDeviceEnablePeerAccess\<close> and \<open>cudaDeviceDisablePeerAccess\<close>: the flag says whether the set
      of devices is updated\<close>
  "peer_hook_locks recorded = (if recorded then lock_guard G_peer_access_mutex [] else [])"

definition all_peer_access_locks :: "bool \<Rightarrow> lock_act list" where
  \<comment> \<open>\<open>ipc_disable_all_peer_access\<close> and \<open>ipc_reenable_all_peer_access\<close>: the flag says whether the
      runtime's function was found\<close>
  "all_peer_access_locks found = (if found then lock_guard G_peer_access_mutex [] else [])"

definition event_hook_locks :: "bool \<Rightarrow> lock_act list" where
  \<comment> \<open>\<open>cudaIpcGetEventHandle\<close>, \<open>cudaIpcOpenEventHandle\<close>\<close>
  "event_hook_locks ok = (if ok then lock_guard G_ipc_events_mutex [] else [])"

definition nccl_track_locks :: "bool \<Rightarrow> lock_act list" where
  \<comment> \<open>\<open>nccl_register_comm\<close>, \<open>nccl_unregister_comm\<close>: nothing for a null communicator\<close>
  "nccl_track_locks comm = (if comm then lock_guard G_comms_mutex [] else [])"

section \<open>Signal handlers\<close>

definition ipc_tables_locks :: "lock_act list" where
  \<comment> \<open>a function of the public IPC interface: one section over the tables\<close>
  "ipc_tables_locks = lock_guard G_ipc_hook_mutex []"

definition ipc_events_locks :: "lock_act list" where
  \<comment> \<open>\<open>ipc_get_event_count\<close>, \<open>ipc_teardown_all_events\<close>\<close>
  "ipc_events_locks = lock_guard G_ipc_events_mutex []"

datatype cr_work = Cr_init | Cr_other
  | Cr_ckpt "ckpt_stop option" "release_run list" bool
  | Cr_selective_ckpt "ckpt_stop option" "release_run list"
  | Cr_restore "remap_run list" bool bool
  | Cr_selective_restore "remap_run list" bool

fun cr_signal_handler_locks :: "cr_work \<Rightarrow> lock_act list" where
  "cr_signal_handler_locks Cr_init = []"
| "cr_signal_handler_locks Cr_other = []"
| "cr_signal_handler_locks (Cr_ckpt stop rs found) = ckpt_locks stop rs @ all_peer_access_locks found"
| "cr_signal_handler_locks (Cr_selective_ckpt stop rs) = ckpt_locks stop rs"
| "cr_signal_handler_locks (Cr_restore rs fin found) = restore_locks rs fin @ all_peer_access_locks found"
| "cr_signal_handler_locks (Cr_selective_restore rs fin) = restore_locks rs fin"

datatype ipc_work = Ipc_teardown bool bool bool | Ipc_export bool bool | Ipc_import bool bool
  | Ipc_unexpected | Ipc_validate

fun cr_ipc_signal_handler_locks :: "ipc_work \<Rightarrow> lock_act list" where
  "cr_ipc_signal_handler_locks (Ipc_teardown exports locals found) =
     ipc_tables_locks @ ipc_tables_locks @ ipc_events_locks @ \<comment> \<open>the three counts\<close>
     ipc_tables_locks @ \<comment> \<open>\<open>ipc_dump_state\<close>\<close>
     ipc_tables_locks @ \<comment> \<open>\<open>ipc_teardown_all_imports\<close>\<close>
     ipc_tables_locks @ \<comment> \<open>\<open>ipc_get_export_data_size\<close>\<close>
     (if exports then ipc_tables_locks else []) @
     ipc_events_locks @ \<comment> \<open>\<open>ipc_teardown_all_events\<close>\<close>
     ipc_tables_locks @ \<comment> \<open>\<open>ipc_get_local_alloc_data_size\<close>\<close>
     (if locals then ipc_tables_locks else []) @
     all_peer_access_locks found"
| "cr_ipc_signal_handler_locks (Ipc_export exports locals) =
     (if exports then ipc_tables_locks else []) @ (if locals then ipc_tables_locks else []) @
     ipc_tables_locks \<comment> \<open>\<open>ipc_write_export_info_to_shm\<close>\<close>"
| "cr_ipc_signal_handler_locks (Ipc_import peers found) =
     (if peers then ipc_tables_locks else []) @
     ipc_tables_locks @ \<comment> \<open>\<open>ipc_validate_all_mappings\<close>\<close>
     all_peer_access_locks found"
| "cr_ipc_signal_handler_locks Ipc_unexpected = []"
| "cr_ipc_signal_handler_locks Ipc_validate = ipc_tables_locks"

section \<open>The runtime of the NCCL adapter\<close>

text \<open>
  The three phases of \<open>gcr_checkpoint_runtime.cpp\<close> hold \<open>g_state_mutex\<close> throughout and call the same
  IPC functions; each run ends at one of the returns of the source.
\<close>

definition prepare_imports_locks :: "lock_act list" where
  "prepare_imports_locks =
     ipc_tables_locks @ ipc_tables_locks @ ipc_events_locks @ \<comment> \<open>the three counts\<close>
     ipc_tables_locks @ \<comment> \<open>\<open>ipc_dump_state\<close>\<close>
     ipc_tables_locks @ \<comment> \<open>\<open>ipc_reset_timing_snapshot\<close>\<close>
     ipc_tables_locks \<comment> \<open>\<open>ipc_teardown_all_imports\<close>\<close>"

definition prepare_exports_locks :: "bool \<Rightarrow> lock_act list" where
  "prepare_exports_locks exports =
     prepare_imports_locks @ ipc_tables_locks @ (if exports then ipc_tables_locks else [])"

definition prepare_locals_locks :: "bool \<Rightarrow> bool \<Rightarrow> lock_act list" where
  "prepare_locals_locks exports locals =
     prepare_exports_locks exports @ ipc_events_locks @ ipc_tables_locks @
     (if locals then ipc_tables_locks else [])"

datatype prepare_run = Prepared_before | Prepare_sync_fails | Prepare_imports_fail
  | Prepare_export_buffer_fails | Prepare_exports_fail | Prepare_events_fail bool
  | Prepare_local_buffer_fails bool | Prepare_locals_fail bool | Prepare_done bool bool bool

fun gcr_prepare_body :: "prepare_run \<Rightarrow> lock_act list" where
  "gcr_prepare_body Prepared_before = []"
| "gcr_prepare_body Prepare_sync_fails = ipc_tables_locks @ ipc_tables_locks @ ipc_events_locks"
| "gcr_prepare_body Prepare_imports_fail = prepare_imports_locks"
| "gcr_prepare_body Prepare_export_buffer_fails = prepare_exports_locks False"
| "gcr_prepare_body Prepare_exports_fail = prepare_exports_locks True"
| "gcr_prepare_body (Prepare_events_fail exports) = prepare_exports_locks exports @ ipc_events_locks"
| "gcr_prepare_body (Prepare_local_buffer_fails exports) = prepare_locals_locks exports False"
| "gcr_prepare_body (Prepare_locals_fail exports) = prepare_locals_locks exports True"
| "gcr_prepare_body (Prepare_done exports locals found) =
     prepare_locals_locks exports locals @ all_peer_access_locks found @ ipc_tables_locks"

datatype restore_export_run = Restore_exports_fail | Restore_locals_fail bool
  | Restore_map_fails bool bool | Restore_block bool bool bool
  \<comment> \<open>the last flag: whether the phase ends with reading the timings\<close>

fun gcr_restore_export_body :: "restore_export_run \<Rightarrow> lock_act list" where
  "gcr_restore_export_body Restore_exports_fail = ipc_tables_locks @ ipc_tables_locks"
| "gcr_restore_export_body (Restore_locals_fail exports) =
     ipc_tables_locks @ (if exports then ipc_tables_locks else []) @ ipc_tables_locks"
| "gcr_restore_export_body (Restore_map_fails exports locals) =
     ipc_tables_locks @ (if exports then ipc_tables_locks else []) @ (if locals then ipc_tables_locks else [])"
| "gcr_restore_export_body (Restore_block exports locals fin) =
     ipc_tables_locks @ (if exports then ipc_tables_locks else []) @ (if locals then ipc_tables_locks else []) @
     ipc_tables_locks @ \<comment> \<open>\<open>ipc_write_export_info_to_shm\<close> or \<open>ipc_get_export_count\<close>\<close>
     (if fin then ipc_tables_locks else [])"

datatype restore_import_run = Import_map_fails | Import_fails | Import_validate_fails | Import_done bool bool

fun gcr_restore_import_body :: "restore_import_run \<Rightarrow> lock_act list" where
  "gcr_restore_import_body Import_map_fails = ipc_tables_locks"
| "gcr_restore_import_body Import_fails = ipc_tables_locks @ ipc_tables_locks"
| "gcr_restore_import_body Import_validate_fails = ipc_tables_locks @ ipc_tables_locks @ ipc_tables_locks"
| "gcr_restore_import_body (Import_done checked found) =
     ipc_tables_locks @ ipc_tables_locks @ (if checked then ipc_tables_locks else []) @
     all_peer_access_locks found @ ipc_tables_locks"

section \<open>The calls of an application thread\<close>

datatype worker_op = Op_cudaMalloc malloc_run | Op_cudaFree free_run
  | Op_cuMemCreate bool bool | Op_cuMemExport bool | Op_cuMemImport bool | Op_cuMemMap bool
  | Op_cuMemUnmap bool | Op_cuMemRelease bool | Op_cuMemSetAccess bool
  | Op_peer_access bool | Op_ipc_event bool | Op_nccl_comm bool
  | Op_gcr_prepare prepare_run | Op_gcr_restore_export restore_export_run
  | Op_gcr_restore_import restore_import_run | Op_gcr_validate

fun op_locks :: "worker_op \<Rightarrow> lock_act list" where
  "op_locks (Op_cudaMalloc r) = cudaMalloc_locks r"
| "op_locks (Op_cudaFree r) = cudaFree_locks r"
| "op_locks (Op_cuMemCreate ok shareable) = hook_cuMemCreate_locks ok shareable"
| "op_locks (Op_cuMemExport ok) = hook_cuMemExport_locks ok"
| "op_locks (Op_cuMemImport ok) = hook_cuMemImport_locks ok"
| "op_locks (Op_cuMemMap ok) = hook_cuMemMap_locks ok"
| "op_locks (Op_cuMemUnmap ok) = hook_cuMemUnmap_locks ok"
| "op_locks (Op_cuMemRelease ok) = hook_cuMemRelease_locks ok"
| "op_locks (Op_cuMemSetAccess ok) = hook_cuMemSetAccess_locks ok"
| "op_locks (Op_peer_access recorded) = peer_hook_locks recorded"
| "op_locks (Op_ipc_event ok) = event_hook_locks ok"
| "op_locks (Op_nccl_comm comm) = nccl_track_locks comm"
| "op_locks (Op_gcr_prepare r) = lock_guard G_state_mutex (gcr_prepare_body r)"
| "op_locks (Op_gcr_restore_export r) = lock_guard G_state_mutex (gcr_restore_export_body r)"
| "op_locks (Op_gcr_restore_import r) = lock_guard G_state_mutex (gcr_restore_import_body r)"
| "op_locks Op_gcr_validate = ipc_tables_locks"

definition thread_locks :: "worker_op list \<Rightarrow> lock_act list" where
  "thread_locks ops = concat (map op_locks ops)"

section \<open>Threads, steps and signals\<close>

record lock_state =
  pending :: "lock_act list list" \<comment> \<open>per thread, the calls still to be made\<close>
  owner :: "mutex \<Rightarrow> (nat \<times> nat) option" \<comment> \<open>owning thread and how often it has locked it\<close>
  exited :: bool

definition can_lock :: "mutex \<Rightarrow> nat \<Rightarrow> lock_state \<Rightarrow> bool" where
  "can_lock m t s = (case owner s m of None \<Rightarrow> True | Some (t', n) \<Rightarrow> t' = t \<and> recursive m)"

definition held :: "lock_state \<Rightarrow> nat \<Rightarrow> mutex \<Rightarrow> nat" where
  "held s t m = (case owner s m of None \<Rightarrow> 0 | Some (t', n) \<Rightarrow> if t' = t then n else 0)"

definition take_lock :: "mutex \<Rightarrow> nat \<Rightarrow> lock_state \<Rightarrow> lock_state" where
  "take_lock m t s = s\<lparr>owner := (owner s)(m \<mapsto> (t, Suc (held s t m)))\<rparr>"

definition drop_lock :: "mutex \<Rightarrow> nat \<Rightarrow> lock_state \<Rightarrow> lock_state" where
  "drop_lock m t s = s\<lparr>owner := (owner s)(m := (if held s t m \<le> 1 then None else Some (t, held s t m - 1)))\<rparr>"

definition set_pending :: "nat \<Rightarrow> lock_act list \<Rightarrow> lock_state \<Rightarrow> lock_state" where
  "set_pending t p s = s\<lparr>pending := (pending s)[t := p]\<rparr>"

inductive lock_step :: "lock_state \<Rightarrow> lock_state \<Rightarrow> bool" where
  Step_lock: "\<lbrakk>\<not> exited s; t < length (pending s); pending s ! t = Lock m # p; can_lock m t s\<rbrakk>
    \<Longrightarrow> lock_step s (set_pending t p (take_lock m t s))"
| Step_unlock: "\<lbrakk>\<not> exited s; t < length (pending s); pending s ! t = Unlock m # p; 0 < held s t m\<rbrakk>
    \<Longrightarrow> lock_step s (set_pending t p (drop_lock m t s))"
| Step_exit: "\<lbrakk>\<not> exited s; t < length (pending s); pending s ! t = Exit_process # p\<rbrakk>
    \<Longrightarrow> lock_step s (s\<lparr>exited := True\<rparr>)"

definition thread_step :: "nat \<Rightarrow> lock_state \<Rightarrow> lock_state option" where
  \<comment> \<open>the next call of thread \<open>t\<close>, \<open>None\<close> while it waits or has finished\<close>
  "thread_step t s = (if exited s \<or> length (pending s) \<le> t then None else
     case pending s ! t of
       [] \<Rightarrow> None
     | Lock m # p \<Rightarrow> if can_lock m t s then Some (set_pending t p (take_lock m t s)) else None
     | Unlock m # p \<Rightarrow> if 0 < held s t m then Some (set_pending t p (drop_lock m t s)) else None
     | Exit_process # p \<Rightarrow> Some (s\<lparr>exited := True\<rparr>))"

fun run_schedule :: "nat list \<Rightarrow> lock_state \<Rightarrow> lock_state option" where
  "run_schedule [] s = Some s"
| "run_schedule (t # ts) s = (case thread_step t s of None \<Rightarrow> None | Some s' \<Rightarrow> run_schedule ts s')"

definition deliver :: "nat \<Rightarrow> lock_act list \<Rightarrow> lock_state \<Rightarrow> lock_state" where
  \<comment> \<open>a signal on thread \<open>t\<close>: the handler runs before the interrupted calls go on\<close>
  "deliver t handler s = set_pending t (handler @ pending s ! t) s"

definition finished :: "lock_state \<Rightarrow> bool" where
  "finished s \<longleftrightarrow> exited s \<or> list_all (\<lambda>p. p = []) (pending s)"

definition start_threads :: "worker_op list list \<Rightarrow> lock_state" where
  "start_threads opss = \<lparr>pending = map thread_locks opss, owner = (\<lambda>_. None), exited = False\<rparr>"

section \<open>The lock order\<close>

definition rank :: "mutex \<Rightarrow> nat" where
  "rank m = (case m of G_comms_mutex \<Rightarrow> 0 | G_state_mutex \<Rightarrow> 0 | Fs_mutex \<Rightarrow> 1 | Gpu_mem_mutex \<Rightarrow> 2
     | G_ipc_hook_mutex \<Rightarrow> 3 | G_ipc_events_mutex \<Rightarrow> 4 | G_peer_access_mutex \<Rightarrow> 5)"

definition above :: "(mutex \<Rightarrow> nat) \<Rightarrow> mutex \<Rightarrow> bool" where
  "above H m \<longleftrightarrow> list_all (\<lambda>h. 0 < H h \<longrightarrow> rank h < rank m) mutexes"

fun ordered :: "(mutex \<Rightarrow> nat) \<Rightarrow> (mutex \<Rightarrow> nat) \<Rightarrow> lock_act list \<Rightarrow> bool" where
  \<comment> \<open>starting with \<open>H\<close> held, every plain mutex is taken in ascending rank and the calls end with
      \<open>B\<close> held\<close>
  "ordered B H [] \<longleftrightarrow> list_all (\<lambda>m. H m = B m) mutexes"
| "ordered B H (Lock m # p) \<longleftrightarrow> (recursive m \<and> 0 < H m \<or> above H m) \<and> ordered B (H(m := Suc (H m))) p"
| "ordered B H (Unlock m # p) \<longleftrightarrow> 0 < H m \<and> ordered B (H(m := H m - 1)) p"
| "ordered B H (Exit_process # p) \<longleftrightarrow> True"

text \<open>
  The runs in which a checkpoint or restore signal only interrupts a thread that holds none of the
  library's mutexes (those of the communicator list and of the NCCL runtime apart), and an IPC signal only one that is not inside a
  section over the events or the peer devices.
\<close>

definition cr_interruptible :: "lock_state \<Rightarrow> nat \<Rightarrow> bool" where
  "cr_interruptible s t \<longleftrightarrow> list_all (\<lambda>m. m = G_comms_mutex \<or> m = G_state_mutex \<or> held s t m = 0) mutexes"

definition ipc_interruptible :: "lock_state \<Rightarrow> nat \<Rightarrow> bool" where
  "ipc_interruptible s t \<longleftrightarrow> held s t G_ipc_events_mutex = 0 \<and> held s t G_peer_access_mutex = 0"

inductive orderly_run :: "worker_op list list \<Rightarrow> lock_state \<Rightarrow> bool" for opss where
  Run_start: "orderly_run opss (start_threads opss)"
| Run_step: "\<lbrakk>orderly_run opss s; lock_step s s'\<rbrakk> \<Longrightarrow> orderly_run opss s'"
| Run_cr: "\<lbrakk>orderly_run opss s; t < length (pending s); cr_interruptible s t\<rbrakk>
    \<Longrightarrow> orderly_run opss (deliver t (cr_signal_handler_locks w) s)"
| Run_ipc: "\<lbrakk>orderly_run opss s; t < length (pending s); ipc_interruptible s t\<rbrakk>
    \<Longrightarrow> orderly_run opss (deliver t (cr_ipc_signal_handler_locks w) s)"

section \<open>Calls in order\<close>

lemma set_mutexes [simp]: "set mutexes = UNIV"
proof -
  have "m \<in> set mutexes" for m by (cases m) (simp_all add: mutexes_def)
  then show ?thesis by auto
qed

lemma all_mutexes_iff [simp]: "list_all P mutexes \<longleftrightarrow> (\<forall>m. P m)"
  by (simp add: list_all_iff)

lemma not_above_held: "0 < H m \<Longrightarrow> \<not> above H m"
  by (auto simp: above_def)

lemma ordered_nil_iff: "ordered B H [] \<longleftrightarrow> H = B"
  by (auto simp: fun_eq_iff)

lemma ordered_append:
  "ordered B H p \<Longrightarrow> ordered C B q \<Longrightarrow> ordered C H (p @ q)"
  by (induction B H p rule: ordered.induct) (auto simp: ordered_nil_iff simp del: ordered.simps(1))

lemma ordered_guard:
  assumes "recursive m \<and> 0 < H m \<or> above H m"
    and "ordered (H(m := Suc (H m))) (H(m := Suc (H m))) body"
  shows "ordered H H (lock_guard m body)"
proof -
  have "ordered H (H(m := Suc (H m))) (body @ [Unlock m])"
    by (rule ordered_append [OF assms(2)]) simp
  with assms(1) show ?thesis by (simp add: lock_guard_def)
qed

lemma ordered_empty [simp]: "ordered H H []"
  by simp

section \<open>Who holds what\<close>

lemma pending_updates [simp]:
  "pending (take_lock m t s) = pending s" "pending (drop_lock m t s) = pending s"
  "pending (set_pending t p s) = (pending s)[t := p]"
  "owner (set_pending t p s) = owner s" "exited (set_pending t p s) = exited s"
  "exited (take_lock m t s) = exited s" "exited (drop_lock m t s) = exited s"
  by (simp_all add: take_lock_def drop_lock_def set_pending_def)

lemma held_cong: "owner s = owner s' \<Longrightarrow> held s = held s'"
  by (auto simp: held_def fun_eq_iff)

lemma held_set_pending [simp]: "held (set_pending t p s) = held s"
  by (rule held_cong) simp

lemma held_take_lock:
  "can_lock m t s \<Longrightarrow> held (take_lock m t s) u =
     (if u = t then (held s t)(m := Suc (held s t m)) else held s u)"
  by (auto simp: can_lock_def held_def take_lock_def fun_eq_iff split: option.splits)

lemma held_drop_lock:
  "0 < held s t m \<Longrightarrow> held (drop_lock m t s) u =
     (if u = t then (held s t)(m := held s t m - 1) else held s u)"
  by (auto simp: held_def drop_lock_def fun_eq_iff split: option.splits if_splits)

lemma thread_step_iff: "lock_step s s' \<longleftrightarrow> (\<exists>t < length (pending s). thread_step t s = Some s')"
proof
  assume "lock_step s s'"
  then show "\<exists>t < length (pending s). thread_step t s = Some s'"
    by cases (rule exI, rule conjI, assumption, simp add: thread_step_def)+
next
  assume "\<exists>t < length (pending s). thread_step t s = Some s'"
  then show "lock_step s s'"
    by (auto simp: thread_step_def intro: lock_step.intros
        split: if_splits list.splits lock_act.splits)
qed

lemma thread_step_lock_step: "thread_step t s = Some s' \<Longrightarrow> lock_step s s'"
  unfolding thread_step_iff by (auto simp: thread_step_def split: if_splits)

lemma run_schedule_steps: "run_schedule ts s = Some s' \<Longrightarrow> lock_step\<^sup>*\<^sup>* s s'"
  by (induction ts arbitrary: s)
    (auto split: option.splits intro: converse_rtranclp_into_rtranclp thread_step_lock_step)

lemma two_threads_stuck:
  "length (pending s) = 2 \<Longrightarrow> thread_step 0 s = None \<Longrightarrow> thread_step 1 s = None \<Longrightarrow> \<nexists>s'. lock_step s s'"
  by (auto simp: thread_step_iff dest!: less_2_cases)

definition owners_ok :: "lock_state \<Rightarrow> bool" where
  "owners_ok s \<longleftrightarrow> (\<forall>m t n. owner s m = Some (t, n) \<longrightarrow> t < length (pending s) \<and> 0 < n)"

definition lock_inv :: "lock_state \<Rightarrow> bool" where
  "lock_inv s \<longleftrightarrow> owners_ok s \<and>
     (\<forall>t < length (pending s). ordered (\<lambda>_. 0) (held s t) (pending s ! t))"

lemma owners_ok_take: "owners_ok s \<Longrightarrow> t < length (pending s) \<Longrightarrow> owners_ok (take_lock m t s)"
  by (auto simp: owners_ok_def take_lock_def split: if_splits)

lemma owners_ok_drop: "owners_ok s \<Longrightarrow> t < length (pending s) \<Longrightarrow> owners_ok (drop_lock m t s)"
  by (auto simp: owners_ok_def drop_lock_def split: if_splits)

lemma owners_ok_set_pending [simp]: "owners_ok (set_pending t p s) = owners_ok s"
  by (simp add: owners_ok_def)

lemma lock_inv_step:
  assumes "lock_step s s'" and "lock_inv s"
  shows "lock_inv s'"
  using assms
proof cases
  case (Step_lock t m p)
  then have "ordered (\<lambda>_. 0) (held s t) (Lock m # p)" using assms(2) by (auto simp: lock_inv_def)
  then show ?thesis using Step_lock assms(2)
    by (auto simp: lock_inv_def held_take_lock owners_ok_take nth_list_update)
next
  case (Step_unlock t m p)
  then have "ordered (\<lambda>_. 0) (held s t) (Unlock m # p)" using assms(2) by (auto simp: lock_inv_def)
  then show ?thesis using Step_unlock assms(2)
    by (auto simp: lock_inv_def held_drop_lock owners_ok_drop nth_list_update)
next
  case (Step_exit t p)
  moreover have "held (s\<lparr>exited := True\<rparr>) = held s" by (rule held_cong) simp
  ultimately show ?thesis using assms(2) by (simp add: lock_inv_def owners_ok_def)
qed

lemma lock_inv_deliver:
  assumes "lock_inv s" and "t < length (pending s)" and "ordered (held s t) (held s t) h"
  shows "lock_inv (deliver t h s)"
  using assms by (auto simp: lock_inv_def deliver_def nth_list_update intro: ordered_append)

section \<open>Every operation respects the order\<close>

lemma all_mutex_iff:
  "(\<forall>m. P m) \<longleftrightarrow> P Fs_mutex \<and> P Gpu_mem_mutex \<and> P G_ipc_hook_mutex \<and> P G_ipc_events_mutex \<and>
     P G_peer_access_mutex \<and> P G_comms_mutex \<and> P G_state_mutex"
  by (metis mutex.exhaust)

lemma above_iff:
  "above H Fs_mutex \<longleftrightarrow> H Fs_mutex = 0 \<and> H Gpu_mem_mutex = 0 \<and> H G_ipc_hook_mutex = 0 \<and>
     H G_ipc_events_mutex = 0 \<and> H G_peer_access_mutex = 0"
  "above H Gpu_mem_mutex \<longleftrightarrow> H Gpu_mem_mutex = 0 \<and> H G_ipc_hook_mutex = 0 \<and>
     H G_ipc_events_mutex = 0 \<and> H G_peer_access_mutex = 0"
  "above H G_ipc_hook_mutex \<longleftrightarrow> H G_ipc_hook_mutex = 0 \<and> H G_ipc_events_mutex = 0 \<and>
     H G_peer_access_mutex = 0"
  "above H G_ipc_events_mutex \<longleftrightarrow> H G_ipc_events_mutex = 0 \<and> H G_peer_access_mutex = 0"
  "above H G_peer_access_mutex \<longleftrightarrow> H G_peer_access_mutex = 0"
  "above H G_comms_mutex \<longleftrightarrow> (\<forall>m. H m = 0)"
  "above H G_state_mutex \<longleftrightarrow> (\<forall>m. H m = 0)"
  by (simp_all add: above_def rank_def all_mutex_iff)

text \<open>
  Holding neither of the two leaf mutexes, a thread may take \<open>g_ipc_hook_mutex\<close>: it is free of the
  mutexes above it, or it holds it already and locks it once more.
\<close>

definition leaves_free :: "(mutex \<Rightarrow> nat) \<Rightarrow> bool" where
  "leaves_free H \<longleftrightarrow> H G_ipc_events_mutex = 0 \<and> H G_peer_access_mutex = 0"

named_theorems lock_sections \<open>lock sequences that respect the order over what is held\<close>

lemma ordered_tables [lock_sections]: "leaves_free H \<Longrightarrow> ordered H H (lock_guard G_ipc_hook_mutex [])"
  by (rule ordered_guard) (auto simp: above_iff leaves_free_def recursive_def)

lemma ordered_events [lock_sections]: "leaves_free H \<Longrightarrow> ordered H H (lock_guard G_ipc_events_mutex [])"
  by (rule ordered_guard) (auto simp: above_iff leaves_free_def)

lemma ordered_peers [lock_sections]: "leaves_free H \<Longrightarrow> ordered H H (lock_guard G_peer_access_mutex [])"
  by (rule ordered_guard) (auto simp: above_iff leaves_free_def)

lemma ordered_if [lock_sections]: "(b \<Longrightarrow> ordered H H p) \<Longrightarrow> ordered H H (if b then p else [])"
  by simp

lemmas ordered_seq [lock_sections] = ordered_append [where B = H and C = H for H]

lemmas hook_locks_defs = hook_cuMemCreate_locks_def hook_cuMemExport_locks_def
  hook_cuMemImport_locks_def hook_cuMemMap_locks_def hook_cuMemUnmap_locks_def
  hook_cuMemRelease_locks_def hook_cuMemSetAccess_locks_def

lemma ordered_hooks [lock_sections]:
  assumes "leaves_free H"
  shows "ordered H H (hook_cuMemCreate_locks a b)" "ordered H H (hook_cuMemExport_locks a)"
    "ordered H H (hook_cuMemImport_locks a)" "ordered H H (hook_cuMemMap_locks a)"
    "ordered H H (hook_cuMemUnmap_locks a)" "ordered H H (hook_cuMemRelease_locks a)"
    "ordered H H (hook_cuMemSetAccess_locks a)"
  using assms by (auto simp: hook_locks_defs simp del: append.simps intro!: lock_sections)

lemma ordered_ipc_handler:
  assumes "leaves_free H"
  shows "ordered H H (cr_ipc_signal_handler_locks w)"
  using assms
  by (cases w) (auto simp: ipc_tables_locks_def ipc_events_locks_def all_peer_access_locks_def
      intro!: lock_sections)

lemma ordered_malloc_body: "leaves_free H \<Longrightarrow> ordered H H (cudaMalloc_body r)"
  by (cases r) (auto intro!: lock_sections)

lemma ordered_free_body: "leaves_free H \<Longrightarrow> ordered H H (cudaFree_body r)"
  by (cases r) (auto intro!: lock_sections)

lemma ordered_release: "leaves_free H \<Longrightarrow> ordered H H (fst (releasePhysicalMemory_locks r))"
  by (cases r) (auto intro!: lock_sections)

lemma ordered_exit: "ordered H H p \<Longrightarrow> ordered B H (p @ Exit_process # q)"
  by (rule ordered_append [of H H p]) simp_all

lemma ordered_create:
  assumes "leaves_free H"
  shows "ordered H H (create_locks c)"
proof (cases c)
  case Access_fails
  have "ordered H H ((hook_cuMemCreate_locks True False @ hook_cuMemMap_locks True @
      hook_cuMemSetAccess_locks False) @ [Exit_process])"
    using assms by (intro ordered_exit) (auto intro!: lock_sections)
  then show ?thesis using Access_fails by simp
next
  case Map_fails
  have "ordered H H ((hook_cuMemCreate_locks True False @ hook_cuMemMap_locks False) @ [Exit_process])"
    using assms by (intro ordered_exit) (auto intro!: lock_sections)
  then show ?thesis using Map_fails by simp
qed (use assms in \<open>auto intro!: lock_sections ordered_exit\<close>)

lemma ordered_remap:
  assumes "leaves_free H"
  shows "ordered H H (fst (remapPhysicalMemory_locks r))"
proof (cases r)
  case (Remap old c)
  with assms show ?thesis
    by (cases old) (auto intro!: lock_sections ordered_create)
qed (use assms in \<open>auto intro!: lock_sections\<close>)

lemma ordered_release_loop:
  assumes "leaves_free H" and "ordered B H [Unlock Fs_mutex, Unlock Gpu_mem_mutex]"
    and "0 < H Fs_mutex"
  shows "ordered B H (release_loop_locks rs)"
proof (induction rs)
  case Nil
  show ?case using assms(2) by simp
next
  case (Cons r rs)
  obtain acts ok where r: "releasePhysicalMemory_locks r = (acts, ok)" by fastforce
  have "ordered H H acts" using ordered_release [OF assms(1), of r] r by simp
  moreover have "ordered B H (if ok then release_loop_locks rs else [Unlock Fs_mutex, Exit_process])"
    using Cons.IH assms(3) by simp
  ultimately show ?case using r by (simp add: ordered_append del: ordered.simps)
qed

lemma ordered_remap_loop:
  assumes "leaves_free H" and "ordered B H [Unlock Gpu_mem_mutex]"
  shows "ordered B H (remap_loop_locks rs fin)"
proof (induction rs)
  case Nil
  show ?case using assms(2) by simp
next
  case (Cons r rs)
  obtain acts ok where r: "remapPhysicalMemory_locks r = (acts, ok)" by fastforce
  have "ordered H H acts" using ordered_remap [OF assms(1), of r] r by simp
  moreover have "ordered B H (if ok then remap_loop_locks rs fin else [Exit_process])"
    using Cons.IH by simp
  ultimately show ?case using r by (simp add: ordered_append del: ordered.simps)
qed

lemma ordered_gpu_mem_guard:
  assumes "above H Gpu_mem_mutex"
    and "leaves_free (H(Gpu_mem_mutex := Suc (H Gpu_mem_mutex))) \<Longrightarrow>
      ordered (H(Gpu_mem_mutex := Suc (H Gpu_mem_mutex))) (H(Gpu_mem_mutex := Suc (H Gpu_mem_mutex))) body"
  shows "ordered H H (lock_guard Gpu_mem_mutex body)"
  using assms by (intro ordered_guard) (auto simp: above_iff leaves_free_def)

lemma ordered_ckpt:
  assumes "above H Fs_mutex"
  shows "ordered H H (ckpt_locks stop rs)"
proof -
  let ?H = "H(Fs_mutex := Suc (H Fs_mutex), Gpu_mem_mutex := Suc (H Gpu_mem_mutex))"
  have "leaves_free ?H" using assms by (simp add: above_iff leaves_free_def)
  then have "ordered H ?H (release_loop_locks rs)"
    by (rule ordered_release_loop) auto
  then show ?thesis using assms
    by (cases "(stop, rs)" rule: ckpt_locks.cases) (auto simp: above_iff)
qed

lemma ordered_restore:
  assumes "above H Gpu_mem_mutex"
  shows "ordered H H (restore_locks rs fin)"
proof -
  let ?H = "H(Gpu_mem_mutex := Suc (H Gpu_mem_mutex))"
  have "leaves_free ?H" using assms by (simp add: above_iff leaves_free_def)
  then have "ordered H ?H (remap_loop_locks rs fin)"
    by (rule ordered_remap_loop) auto
  then show ?thesis using assms by (simp add: restore_locks_def)
qed

lemma ordered_cr_handler:
  assumes "above H Fs_mutex"
  shows "ordered H H (cr_signal_handler_locks w)"
proof -
  have g: "above H Gpu_mem_mutex" and l: "leaves_free H"
    using assms by (simp_all add: above_iff leaves_free_def)
  then have "ordered H H (all_peer_access_locks found)" for found
    by (auto simp: all_peer_access_locks_def intro!: lock_sections)
  then show ?thesis
    by (cases w) (auto intro!: ordered_seq ordered_ckpt ordered_restore assms g)
qed

lemma ordered_gcr:
  assumes "leaves_free H"
  shows "ordered H H (gcr_prepare_body r)" "ordered H H (gcr_restore_export_body x)"
    "ordered H H (gcr_restore_import_body y)"
proof -
  have t: "ordered H H ipc_tables_locks" "ordered H H ipc_events_locks"
    using assms by (auto simp: ipc_tables_locks_def ipc_events_locks_def intro!: lock_sections)
  have p: "ordered H H (all_peer_access_locks found)" for found
    using assms by (auto simp: all_peer_access_locks_def intro!: lock_sections)
  note sub = prepare_imports_locks_def prepare_exports_locks_def prepare_locals_locks_def
  show "ordered H H (gcr_prepare_body r)"
    by (cases r) (auto simp: sub intro!: ordered_seq t p)
  show "ordered H H (gcr_restore_export_body x)"
    by (cases x) (auto intro!: ordered_seq t)
  show "ordered H H (gcr_restore_import_body y)"
    by (cases y) (auto intro!: ordered_seq t p)
qed

lemma ordered_state_guard:
  assumes "\<And>H. leaves_free H \<Longrightarrow> ordered H H body"
  shows "ordered (\<lambda>_. 0) (\<lambda>_. 0) (lock_guard G_state_mutex body)"
  by (rule ordered_guard) (auto simp: above_def leaves_free_def intro!: assms)

lemma ordered_op: "ordered (\<lambda>_. 0) (\<lambda>_. 0) (op_locks q)"
proof -
  have l: "leaves_free (\<lambda>_. 0)" by (simp add: leaves_free_def)
  have g: "above (\<lambda>_. 0) m" for m by (simp add: above_def)
  show ?thesis
    by (cases q) (use l g in \<open>auto simp: cudaMalloc_locks_def cudaFree_locks_def peer_hook_locks_def
        event_hook_locks_def nccl_track_locks_def ipc_tables_locks_def intro!: lock_sections ordered_gpu_mem_guard
        ordered_malloc_body ordered_free_body ordered_guard [of G_comms_mutex] ordered_state_guard ordered_gcr\<close>)
qed

lemma ordered_thread: "ordered (\<lambda>_. 0) (\<lambda>_. 0) (thread_locks ops)"
  by (induction ops) (auto simp: thread_locks_def intro!: ordered_seq ordered_op simp del: ordered.simps)

section \<open>Waiting in one direction only\<close>

text \<open>
  The argument from the order to progress, once and for all: in a state where every waiting member
  waits for a member of a higher level, some member is not waiting.
\<close>

locale ranked_waiting =
  fixes ok :: "'s \<Rightarrow> bool"
    and live :: "'s \<Rightarrow> 't set"
    and waits :: "'s \<Rightarrow> 't \<Rightarrow> 't \<Rightarrow> bool"
    and level :: "'s \<Rightarrow> 't \<Rightarrow> nat"
  assumes finite_live: "ok s \<Longrightarrow> finite (live s)"
    and waits_upwards: "ok s \<Longrightarrow> t \<in> live s \<Longrightarrow> waits s t u \<Longrightarrow> u \<in> live s \<and> level s t < level s u"
begin

lemma some_not_waiting:
  assumes "ok s" and "live s \<noteq> {}"
  shows "\<exists>t \<in> live s. \<forall>u. \<not> waits s t u"
proof -
  let ?top = "Max (level s ` live s)"
  have fin: "finite (level s ` live s)" using finite_live [OF assms(1)] by simp
  have "?top \<in> level s ` live s" using fin assms(2) by (intro Max_in) auto
  then obtain t where t: "t \<in> live s" and top: "level s t = ?top" by auto
  have "\<not> waits s t u" for u
  proof
    assume "waits s t u"
    from waits_upwards [OF assms(1) t this] have "u \<in> live s" and "?top < level s u"
      using top by auto
    moreover have "level s u \<le> ?top" using fin \<open>u \<in> live s\<close> by (intro Max_ge) auto
    ultimately show False by simp
  qed
  with t show ?thesis by blast
qed

end

definition live_threads :: "lock_state \<Rightarrow> nat set" where
  "live_threads s = {t. t < length (pending s) \<and> pending s ! t \<noteq> []}"

definition waits_for :: "lock_state \<Rightarrow> nat \<Rightarrow> nat \<Rightarrow> bool" where
  "waits_for s t u \<longleftrightarrow> (\<exists>m p n. pending s ! t = Lock m # p \<and> \<not> can_lock m t s \<and> owner s m = Some (u, n))"

definition wait_level :: "lock_state \<Rightarrow> nat \<Rightarrow> nat" where
  "wait_level s t = (case pending s ! t of
       Lock m # p \<Rightarrow> if recursive m \<and> 0 < held s t m then 6 else rank m
     | _ \<Rightarrow> 6)"

lemma rank_less_6: "rank m < 6"
  by (cases m) (simp_all add: rank_def)

lemma owner_held: "owner s m = Some (u, n) \<Longrightarrow> owners_ok s \<Longrightarrow> 0 < held s u m"
  by (auto simp: owners_ok_def held_def)

lemma wait_level_above:
  assumes "ordered B (held s u) (pending s ! u)" and "pending s ! u \<noteq> []" and "0 < held s u m"
  shows "rank m < wait_level s u"
proof (cases "pending s ! u")
  case (Cons a p)
  then show ?thesis using assms rank_less_6 [of m]
    by (cases a) (auto simp: wait_level_def above_def)
qed (use assms in simp)

lemma waits_for_upwards:
  assumes inv: "lock_inv s" and t: "t \<in> live_threads s" and w: "waits_for s t u"
  shows "u \<in> live_threads s \<and> wait_level s t < wait_level s u"
proof -
  from w obtain m p n where pend: "pending s ! t = Lock m # p" and no: "\<not> can_lock m t s"
    and own: "owner s m = Some (u, n)" by (auto simp: waits_for_def)
  have ok: "owners_ok s" and u: "u < length (pending s)"
    using inv own by (auto simp: lock_inv_def owners_ok_def)
  have hu: "0 < held s u m" using owner_held [OF own ok] .
  have ou: "ordered (\<lambda>_. 0) (held s u) (pending s ! u)" using inv u by (simp add: lock_inv_def)
  have live: "pending s ! u \<noteq> []"
  proof
    assume "pending s ! u = []"
    with ou hu show False by (simp add: ordered_nil_iff del: ordered.simps)
  qed
  have "rank m < wait_level s u" using wait_level_above [OF ou live hu] .
  moreover have "wait_level s t = rank m"
  proof -
    have "\<not> (recursive m \<and> 0 < held s t m)"
      using no own by (auto simp: can_lock_def held_def split: if_splits)
    then show ?thesis using pend by (auto simp: wait_level_def)
  qed
  ultimately show ?thesis using u live by (simp add: live_threads_def)
qed

interpretation worker_locks: ranked_waiting lock_inv live_threads waits_for wait_level
proof unfold_locales
  show "finite (live_threads s)" for s by (simp add: live_threads_def)
qed (fact waits_for_upwards)

lemma not_waiting_steps:
  assumes inv: "lock_inv s" and t: "t \<in> live_threads s" and nw: "\<forall>u. \<not> waits_for s t u"
    and run: "\<not> exited s"
  shows "\<exists>s'. lock_step s s'"
proof -
  from t obtain a p where pend: "pending s ! t = a # p" and lt: "t < length (pending s)"
    by (auto simp: live_threads_def neq_Nil_conv)
  have o: "ordered (\<lambda>_. 0) (held s t) (a # p)" using inv lt pend by (auto simp: lock_inv_def)
  show ?thesis
  proof (cases a)
    case (Lock m)
    have "can_lock m t s"
      using nw pend Lock by (cases "owner s m") (auto simp: waits_for_def can_lock_def)
    then show ?thesis using run lt pend Lock by (blast intro: Step_lock)
  next
    case (Unlock m)
    then have "0 < held s t m" using o by simp
    then show ?thesis using run lt pend Unlock by (blast intro: Step_unlock)
  next
    case Exit_process
    then show ?thesis using run lt pend by (blast intro: Step_exit)
  qed
qed

lemma lock_inv_start: "lock_inv (start_threads opss)"
proof -
  have "held (start_threads opss) t = (\<lambda>_. 0)" for t
    by (simp add: held_def start_threads_def fun_eq_iff)
  then show ?thesis
    by (simp add: lock_inv_def owners_ok_def ordered_thread start_threads_def)
qed

lemma lock_inv_run: "orderly_run opss s \<Longrightarrow> lock_inv s"
proof (induction rule: orderly_run.induct)
  case (Run_cr s t w)
  have "above (held s t) Fs_mutex" using Run_cr.hyps(3)
    by (simp add: cr_interruptible_def above_iff all_mutex_iff)
  then show ?case using Run_cr by (intro lock_inv_deliver ordered_cr_handler)
next
  case (Run_ipc s t w)
  then show ?case
    by (intro lock_inv_deliver ordered_ipc_handler) (auto simp: ipc_interruptible_def leaves_free_def)
qed (auto intro: lock_inv_start lock_inv_step)

lemma lock_inv_progress:
  assumes "lock_inv s" and "\<not> finished s"
  shows "\<exists>s'. lock_step s s'"
proof -
  have run: "\<not> exited s" and "live_threads s \<noteq> {}"
    using assms(2) by (auto simp: finished_def live_threads_def list_all_length)
  with worker_locks.some_not_waiting [OF assms(1)] obtain t
    where "t \<in> live_threads s" and "\<forall>u. \<not> waits_for s t u" by auto
  then show ?thesis using not_waiting_steps [OF assms(1)] run by blast
qed

section \<open>Completion\<close>

definition work_left :: "lock_state \<Rightarrow> nat" where
  "work_left s = (if exited s then 0 else Suc (sum_list (map length (pending s))))"

lemma sum_list_update_less:
  "t < length xs \<Longrightarrow> f y < f (xs ! t) \<Longrightarrow> sum_list (map f (xs[t := y])) < (sum_list (map f xs) :: nat)"
  by (induction xs arbitrary: t) (auto split: nat.splits)

lemma lock_step_work: "lock_step s s' \<Longrightarrow> work_left s' < work_left s"
  by (induction rule: lock_step.induct) (auto simp: work_left_def intro!: sum_list_update_less)

lemma lock_inv_completes: "lock_inv s \<Longrightarrow> \<exists>s'. lock_step\<^sup>*\<^sup>* s s' \<and> finished s'"
proof (induction "work_left s" arbitrary: s rule: less_induct)
  case less
  show ?case
  proof (cases "finished s")
    case False
    then obtain s1 where s1: "lock_step s s1" using lock_inv_progress [OF less.prems] by blast
    then obtain s' where "lock_step\<^sup>*\<^sup>* s1 s'" and "finished s'"
      using less.hyps [OF lock_step_work [OF s1] lock_inv_step [OF s1 less.prems]] by blast
    with s1 show ?thesis by (meson converse_rtranclp_into_rtranclp)
  qed blast
qed

section \<open>Handlers inside a hook\<close>

lemma guard_pending:
  assumes "\<not> exited s" and "t < length (pending s)" and "can_lock m t s"
    and "owners_ok s"
  shows "lock_step\<^sup>*\<^sup>* (set_pending t (lock_guard m [] @ q) s) (set_pending t q s)"
proof -
  let ?s0 = "set_pending t (lock_guard m [] @ q) s"
  let ?s1 = "set_pending t (Unlock m # q) (take_lock m t ?s0)"
  have a: "lock_step ?s0 ?s1"
    using assms by (intro Step_lock) (auto simp: lock_guard_def can_lock_def)
  have can: "can_lock m t ?s0" using assms(3) by (simp add: can_lock_def)
  have h: "held ?s1 t m = Suc (held s t m)" using held_take_lock [OF can, of t] by simp
  have b: "lock_step ?s1 (set_pending t q (drop_lock m t ?s1))"
    using assms h by (intro Step_unlock) auto
  have pos: "0 < n" if "owner s m = Some (t, n)" for n using assms(4) that by (simp add: owners_ok_def)
  have "owner (drop_lock m t ?s1) = owner s"
  proof (rule ext)
    fix k
    show "owner (drop_lock m t ?s1) k = owner s k"
      using assms(3) h pos
      by (cases "owner s m") (fastforce simp: drop_lock_def take_lock_def held_def can_lock_def split: if_splits)+
  qed
  then have "set_pending t q (drop_lock m t ?s1) = set_pending t q s"
    by (simp add: set_pending_def drop_lock_def take_lock_def)
  with a b show ?thesis by (metis converse_rtranclp_into_rtranclp r_into_rtranclp)
qed

definition own_run :: "nat \<Rightarrow> lock_state \<Rightarrow> lock_act list \<Rightarrow> bool" where
  \<comment> \<open>thread \<open>t\<close> makes these calls without any other thread moving, and leaves every mutex as it was\<close>
  "own_run t s p \<longleftrightarrow> (\<forall>q. lock_step\<^sup>*\<^sup>* (set_pending t (p @ q) s) (set_pending t q s))"

lemma own_run_append: "own_run t s p \<Longrightarrow> own_run t s q \<Longrightarrow> own_run t s (p @ q)"
  by (auto simp: own_run_def) (meson rtranclp_trans)

lemma own_run_nil [simp]: "own_run t s []"
  by (simp add: own_run_def)

lemma own_run_guard:
  "\<not> exited s \<Longrightarrow> t < length (pending s) \<Longrightarrow> can_lock m t s \<Longrightarrow> owners_ok s \<Longrightarrow> own_run t s (lock_guard m [])"
  by (simp add: own_run_def guard_pending)

lemma own_run_ipc_handler:
  assumes "\<not> exited s" and "t < length (pending s)" and "owners_ok s"
    and "can_lock G_ipc_hook_mutex t s" and "can_lock G_ipc_events_mutex t s"
    and "can_lock G_peer_access_mutex t s"
  shows "own_run t s (cr_ipc_signal_handler_locks w)"
  using assms
  by (cases w) (auto simp: ipc_tables_locks_def ipc_events_locks_def all_peer_access_locks_def
      intro!: own_run_append own_run_guard)

lemma deliver_own_run:
  assumes "own_run t s h"
  shows "lock_step\<^sup>*\<^sup>* (deliver t h s) s"
proof -
  have "lock_step\<^sup>*\<^sup>* (deliver t h s) (set_pending t (pending s ! t) s)"
    using assms by (simp add: own_run_def deliver_def)
  then show ?thesis by (simp add: set_pending_def)
qed

section \<open>The checkpoint handler on a thread that holds \<open>gpu_mem_mutex\<close>\<close>

lemma blocked_step:
  assumes step: "lock_step s s'" and len: "t < length (pending s)"
    and own: "owner s Gpu_mem_mutex = Some (t, n)"
    and pend: "pending s ! t = drop k (Lock Fs_mutex # Lock Gpu_mem_mutex # q)" and k: "k \<le> 1"
  shows "t < length (pending s') \<and> owner s' Gpu_mem_mutex = Some (t, n) \<and>
    (\<exists>k \<le> 1. pending s' ! t = drop k (Lock Fs_mutex # Lock Gpu_mem_mutex # q))"
proof -
  have k01: "k = 0 \<or> k = 1" using k by auto
  from step show ?thesis
  proof cases
    case (Step_lock u m p)
    show ?thesis
    proof (cases "u = t")
      case True
      then have "k = 0 \<and> m = Fs_mutex \<and> p = Lock Gpu_mem_mutex # q"
        using Step_lock pend own k01 by (auto simp: can_lock_def recursive_def)
      then show ?thesis using Step_lock len own True
        by (auto simp: take_lock_def set_pending_def intro: exI [of _ 1])
    next
      case False
      then have "m \<noteq> Gpu_mem_mutex" using Step_lock own by (auto simp: can_lock_def recursive_def)
      then show ?thesis using Step_lock len own pend k False
        by (auto simp: take_lock_def set_pending_def)
    qed
  next
    case (Step_unlock u m p)
    have ut: "u \<noteq> t" using Step_unlock pend k01 by auto
    then have "m \<noteq> Gpu_mem_mutex" using Step_unlock own by (auto simp: held_def)
    then show ?thesis using Step_unlock len own pend k ut
      by (auto simp: drop_lock_def set_pending_def)
  next
    case (Step_exit u p)
    then show ?thesis using len own pend k by auto
  qed
qed

lemma blocked_forever:
  assumes "lock_step\<^sup>*\<^sup>* s s'" and "t < length (pending s)" and "owner s Gpu_mem_mutex = Some (t, n)"
    and "pending s ! t = drop k (Lock Fs_mutex # Lock Gpu_mem_mutex # q)" and "k \<le> 1"
  shows "t < length (pending s') \<and> owner s' Gpu_mem_mutex = Some (t, n) \<and>
    (\<exists>k \<le> 1. pending s' ! t = drop k (Lock Fs_mutex # Lock Gpu_mem_mutex # q))"
  using assms(1)
proof (induction rule: rtranclp_induct)
  case base
  show ?case using assms(2-) by blast
next
  case (step s1 s2)
  then show ?case by (meson blocked_step)
qed

definition moves_memory :: "cr_work \<Rightarrow> bool" where
  "moves_memory w \<longleftrightarrow> (case w of Cr_init \<Rightarrow> False | Cr_other \<Rightarrow> False | _ \<Rightarrow> True)"

lemma ckpt_locks_head: "\<exists>q. ckpt_locks stop rs = Lock Fs_mutex # Lock Gpu_mem_mutex # q \<and> q \<noteq> []"
proof -
  have "release_loop_locks rs \<noteq> []" by (induction rs) (auto split: prod.splits)
  then show ?thesis by (cases "(stop, rs)" rule: ckpt_locks.cases) auto
qed

lemma restore_locks_head: "\<exists>q. restore_locks rs fin = Lock Gpu_mem_mutex # q \<and> q \<noteq> []"
proof -
  have "remap_loop_locks rs fin \<noteq> []" by (induction rs) (auto split: prod.splits)
  then show ?thesis by (simp add: restore_locks_def)
qed

lemma cr_handler_head:
  assumes "moves_memory w"
  shows "\<exists>k q. k \<le> 1 \<and> q \<noteq> [] \<and> cr_signal_handler_locks w = drop k (Lock Fs_mutex # Lock Gpu_mem_mutex # q)"
proof (cases w)
  case (Cr_ckpt stop rs found)
  then show ?thesis using ckpt_locks_head [of stop rs] by (auto intro: exI [of _ 0])
next
  case (Cr_selective_ckpt stop rs)
  then show ?thesis using ckpt_locks_head [of stop rs] by (auto intro: exI [of _ 0])
next
  case (Cr_restore rs fin found)
  then show ?thesis using restore_locks_head [of rs fin] by (auto intro: exI [of _ 1])
next
  case (Cr_selective_restore rs fin)
  then show ?thesis using restore_locks_head [of rs fin] by (auto intro: exI [of _ 1])
qed (use assms in \<open>simp_all add: moves_memory_def\<close>)

lemma lock_inv_steps: "lock_step\<^sup>*\<^sup>* s s' \<Longrightarrow> lock_inv s \<Longrightarrow> lock_inv s'"
  by (induction rule: rtranclp_induct) (auto intro: lock_inv_step)

lemma lock_inv_all_free:
  assumes inv: "lock_inv s" and fin: "finished s" and run: "\<not> exited s"
  shows "owner s m = None"
proof (rule ccontr)
  assume "owner s m \<noteq> None"
  then obtain t n where own: "owner s m = Some (t, n)" by auto
  have ok: "owners_ok s" using inv by (simp add: lock_inv_def)
  then have t: "t < length (pending s)" using own by (auto simp: owners_ok_def)
  then have "pending s ! t = []" using fin run by (auto simp: finished_def list_all_length)
  then have "held s t m = 0" using inv t by (auto simp: lock_inv_def)
  then show False using owner_held [OF own ok] by simp
qed

section \<open>Properties\<close>

text \<open>C14: No deadlock among the threads of a worker.  Each thread runs any sequence of the hooked
  calls on any of their branches; checkpoint and restore signals interrupt threads that hold none
  of the mutexes (those of the communicator list and of the NCCL runtime apart), IPC signals threads outside the sections over
  events and peer devices (inside \<open>cudaMalloc\<close> and the cuMem hooks included).  Then from every
  state reached the threads can all run to their end or to \<open>exit\<close>, they cannot get stuck before,
  and when they have run to their end every mutex is free again.\<close>

theorem worker_threads_complete:
  assumes "orderly_run opss s"
  shows "(\<exists>s'. lock_step\<^sup>*\<^sup>* s s' \<and> finished s') \<and>
    (\<forall>s'. lock_step\<^sup>*\<^sup>* s s' \<and> (\<nexists>s''. lock_step s' s'') \<longrightarrow> finished s') \<and>
    (finished s \<and> \<not> exited s \<longrightarrow> (\<forall>m. owner s m = None))"
proof -
  have inv: "lock_inv s" using assms by (rule lock_inv_run)
  have "finished s'" if "lock_step\<^sup>*\<^sup>* s s'" and "\<nexists>s''. lock_step s' s''" for s'
    using lock_inv_steps [OF that(1) inv] lock_inv_progress that(2) by blast
  then show ?thesis
    using lock_inv_completes [OF inv] lock_inv_all_free [OF inv] by blast
qed

theorem worker_threads_complete_witness:
  "(\<exists>s'. lock_step\<^sup>*\<^sup>* (deliver 0 (cr_ipc_signal_handler_locks Ipc_validate)
       (start_threads [[Op_cudaMalloc Malloc_done], [Op_cuMemMap True]])) s' \<and> finished s')"
proof -
  have "orderly_run [[Op_cudaMalloc Malloc_done], [Op_cuMemMap True]]
      (deliver 0 (cr_ipc_signal_handler_locks Ipc_validate)
        (start_threads [[Op_cudaMalloc Malloc_done], [Op_cuMemMap True]]))"
    by (intro Run_ipc Run_start) (simp_all add: start_threads_def ipc_interruptible_def held_def)
  then show ?thesis using worker_threads_complete by blast
qed

text \<open>C37: When an IPC signal interrupts a hook on the thread that holds \<open>g_ipc_hook_mutex\<close>, and no
  thread of the process is inside a section over the IPC events or the peer devices, the handler runs
  to its end on that thread, whatever its message and with no step of the other threads, and leaves
  every mutex and the interrupted calls as they were: the mutex is recursive.  (While another thread
  is inside such a section the handler waits for it.)\<close>

theorem ipc_signal_inside_hook:
  assumes "\<not> exited s" and "owners_ok s" and "owner s G_ipc_hook_mutex = Some (t, n)"
    and "owner s G_ipc_events_mutex = None" and "owner s G_peer_access_mutex = None"
  shows "lock_step\<^sup>*\<^sup>* (deliver t (cr_ipc_signal_handler_locks w) s) s"
proof (rule deliver_own_run, rule own_run_ipc_handler)
  show "t < length (pending s)" using assms(2,3) by (auto simp: owners_ok_def)
qed (use assms in \<open>auto simp: can_lock_def recursive_def\<close>)

definition sample_in_hook :: lock_state where
  "sample_in_hook = \<lparr>pending = [[Unlock G_ipc_hook_mutex]],
     owner = (\<lambda>m. if m = G_ipc_hook_mutex then Some (0, 1) else None), exited = False\<rparr>"

theorem ipc_signal_inside_hook_witness:
  "lock_step\<^sup>*\<^sup>* (deliver 0 (cr_ipc_signal_handler_locks (Ipc_teardown True True True)) sample_in_hook)
     sample_in_hook"
  by (rule ipc_signal_inside_hook [where n = 1])
    (auto simp: sample_in_hook_def owners_ok_def split: if_splits)

text \<open>C38: A checkpoint or restore signal that interrupts \<open>cudaMalloc\<close>, \<open>cudaFree\<close> or another
  checkpoint on the thread that holds \<open>gpu_mem_mutex\<close> blocks that thread for good: in every state
  reached afterwards it still holds the mutex and has not come back to the interrupted call, so
  the threads never all finish.\<close>

theorem cr_signal_blocks_allocating_thread:
  assumes "t < length (pending s)" and "owner s Gpu_mem_mutex = Some (t, n)" and "moves_memory w"
    and "lock_step\<^sup>*\<^sup>* (deliver t (cr_signal_handler_locks w) s) s'"
  shows "owner s' Gpu_mem_mutex = Some (t, n) \<and> length (pending s ! t) < length (pending s' ! t) \<and>
    (finished s' \<longrightarrow> exited s')"
proof -
  from cr_handler_head [OF assms(3)] obtain k q where k: "k \<le> 1" and q: "q \<noteq> []"
    and h: "cr_signal_handler_locks w = drop k (Lock Fs_mutex # Lock Gpu_mem_mutex # q)" by blast
  let ?q = "q @ pending s ! t"
  have "pending (deliver t (cr_signal_handler_locks w) s) ! t = drop k (Lock Fs_mutex # Lock Gpu_mem_mutex # ?q)"
    using assms(1) h k by (cases k) (auto simp: deliver_def)
  from blocked_forever [OF assms(4) _ _ this k] assms(1,2) obtain j where j: "j \<le> 1"
    and t': "t < length (pending s')" and own: "owner s' Gpu_mem_mutex = Some (t, n)"
    and pend: "pending s' ! t = drop j (Lock Fs_mutex # Lock Gpu_mem_mutex # ?q)"
    by (auto simp: deliver_def)
  have len: "length (pending s ! t) < length (pending s' ! t)" using pend j q by (cases j) auto
  then have "pending s' ! t \<noteq> []" by auto
  then have "finished s' \<longrightarrow> exited s'" using t' by (auto simp: finished_def list_all_length)
  with own len show ?thesis by blast
qed

definition sample_in_malloc :: lock_state where
  "sample_in_malloc = \<lparr>pending = [[Unlock Gpu_mem_mutex]],
     owner = (\<lambda>m. if m = Gpu_mem_mutex then Some (0, 1) else None), exited = False\<rparr>"

theorem cr_signal_blocks_allocating_thread_witness:
  "owner (deliver 0 (cr_signal_handler_locks (Cr_ckpt None [] True)) sample_in_malloc) Gpu_mem_mutex = Some (0, 1)"
  using cr_signal_blocks_allocating_thread [of 0 sample_in_malloc 1 "Cr_ckpt None [] True"
      "deliver 0 (cr_signal_handler_locks (Cr_ckpt None [] True)) sample_in_malloc"]
  by (simp add: sample_in_malloc_def moves_memory_def)

text \<open>A checkpoint signal inside a cuMem hook can deadlock two threads: the first is in
  \<open>cuMemMap\<close>, holds \<open>g_ipc_hook_mutex\<close> and the handler on it waits for \<open>gpu_mem_mutex\<close>; the second
  is in \<open>cudaMalloc\<close>, holds \<open>gpu_mem_mutex\<close> and waits for \<open>g_ipc_hook_mutex\<close>.\<close>

theorem cr_signal_inside_hook_can_deadlock:
  "\<exists>s s'. orderly_run [[Op_cuMemMap True], [Op_cudaMalloc Malloc_done]] s \<and>
     held s 0 G_ipc_hook_mutex = 1 \<and>
     lock_step\<^sup>*\<^sup>* (deliver 0 (cr_signal_handler_locks (Cr_ckpt None [] True)) s) s' \<and>
     \<not> finished s' \<and> (\<nexists>s''. lock_step s' s'')"
proof -
  let ?init = "start_threads [[Op_cuMemMap True], [Op_cudaMalloc Malloc_done]]"
  let ?mid = "the (thread_step 0 ?init)"
  let ?d = "deliver 0 (cr_signal_handler_locks (Cr_ckpt None [] True)) ?mid"
  let ?stuck = "the (run_schedule [1, 0] ?d)"
  note eval = start_threads_def thread_locks_def hook_locks_defs cudaMalloc_locks_def lock_guard_def
    thread_step_def can_lock_def held_def take_lock_def set_pending_def deliver_def recursive_def
    all_peer_access_locks_def finished_def
  have "thread_step 0 ?init = Some ?mid" by (simp add: eval)
  then have run: "orderly_run [[Op_cuMemMap True], [Op_cudaMalloc Malloc_done]] ?mid"
    by (blast intro: Run_start Run_step thread_step_lock_step)
  have held: "held ?mid 0 G_ipc_hook_mutex = 1" by (simp add: eval)
  have "run_schedule [1, 0] ?d = Some ?stuck" by (simp add: eval)
  then have steps: "lock_step\<^sup>*\<^sup>* ?d ?stuck" by (rule run_schedule_steps)
  have unfin: "\<not> finished ?stuck" by (simp add: eval)
  have "length (pending ?stuck) = 2" by (simp add: eval)
  moreover have "thread_step 0 ?stuck = None" "thread_step 1 ?stuck = None" by (simp_all add: eval)
  ultimately have "\<nexists>s''. lock_step ?stuck s''" by (rule two_threads_stuck)
  with run held steps unfin show ?thesis by blast
qed

end
