(* ===== verification/Lock_Traces.thy ===== *)
theory Lock_Traces
  imports Locks NV_Backend
begin

text \<open>
  The lock sequences of \<open>Locks\<close> against the functional model.  Every run of \<open>cudaMalloc\<close>,
  \<open>cudaFree\<close>, \<open>releasePhysicalMemory\<close>, \<open>remapPhysicalMemory\<close>, of the checkpoints and of the
  restores in \<open>NV_Backend\<close> and \<open>Checkpoint\<close> calls the tracked hooks in one exact sequence, which
  the state before it and the answers of the driver determine; the mutexes of those hooks are the ones
  \<open>Locks\<close> gives to that branch of the operation.
\<close>

section \<open>The tracked calls of a branch\<close>

datatype hook_call = H_create bool | H_map bool | H_access bool | H_unmap bool | H_release bool
  \<comment> \<open>the tracked call and whether the driver's function succeeded\<close>

fun hook_locks :: "hook_call \<Rightarrow> lock_act list" where
  "hook_locks (H_create ok) = hook_cuMemCreate_locks ok False"
| "hook_locks (H_map ok) = hook_cuMemMap_locks ok"
| "hook_locks (H_access ok) = hook_cuMemSetAccess_locks ok"
| "hook_locks (H_unmap ok) = hook_cuMemUnmap_locks ok"
| "hook_locks (H_release ok) = hook_cuMemRelease_locks ok"

definition hooks_locks :: "hook_call list \<Rightarrow> lock_act list" where
  "hooks_locks hs = concat (map hook_locks hs)"

lemma hooks_locks_simps [simp]:
  "hooks_locks [] = []" "hooks_locks (h # hs) = hook_locks h @ hooks_locks hs"
  "hooks_locks (hs @ hs') = hooks_locks hs @ hooks_locks hs'"
  by (simp_all add: hooks_locks_def)

fun malloc_hooks :: "malloc_run \<Rightarrow> hook_call list" where
  "malloc_hooks Malloc_early = []"
| "malloc_hooks Malloc_create_fails = [H_create False]"
| "malloc_hooks (Malloc_map_fails released) = [H_create True, H_map False, H_release released]"
| "malloc_hooks (Malloc_access_fails unmapped released) =
     [H_create True, H_map True, H_access False, H_unmap unmapped, H_release released]"
| "malloc_hooks Malloc_done = [H_create True, H_map True, H_access True]"

fun free_hooks :: "free_run \<Rightarrow> hook_call list" where
  "free_hooks (Free_vmm unmapped released) = [H_unmap unmapped, H_release released]"
| "free_hooks _ = []"

fun release_hooks :: "release_run \<Rightarrow> hook_call list" where
  "release_hooks Release_untracked = []"
| "release_hooks Release_unmap_fails = [H_unmap False]"
| "release_hooks Release_no_handle = [H_unmap True]"
| "release_hooks (Release_handle released) = [H_unmap True, H_release released]"

fun create_hooks :: "create_run \<Rightarrow> hook_call list" where
  "create_hooks Create_fails = [H_create False]"
| "create_hooks Map_fails = [H_create True, H_map False]"
| "create_hooks Access_fails = [H_create True, H_map True, H_access False]"
| "create_hooks All_mapped = [H_create True, H_map True, H_access True]"

fun remap_hooks :: "remap_run \<Rightarrow> hook_call list" where
  "remap_hooks Remap_untracked = []"
| "remap_hooks Remap_unmap_fails = [H_unmap False]"
| "remap_hooks Remap_release_fails = [H_unmap True, H_release False]"
| "remap_hooks (Remap old c) = (if old then [H_unmap True, H_release True] else []) @ create_hooks c"

lemma malloc_hooks_locks: "cudaMalloc_locks r = lock_guard Gpu_mem_mutex (hooks_locks (malloc_hooks r))"
  by (cases r) (simp_all add: cudaMalloc_locks_def)

lemma free_hooks_locks: "cudaFree_locks r = lock_guard Gpu_mem_mutex (hooks_locks (free_hooks r))"
  by (cases r) (simp_all add: cudaFree_locks_def)

section \<open>The tracked calls of a run\<close>

fun call_hooks :: "vmm_call \<times> int \<times> nat \<Rightarrow> hook_call list" where
  "call_hooks (MemCreate n d, r, v) = [H_create (r = 0)]"
| "call_hooks (MemMap p n h, r, v) = [H_map (r = 0)]"
| "call_hooks (MemUnmap p n, r, v) = [H_unmap (r = 0)]"
| "call_hooks (MemRelease h, r, v) = [H_release (r = 0)]"
| "call_hooks (MemSetAccess p n d, r, v) = [H_access (r = 0)]"
| "call_hooks _ = []"

definition hooks_between :: "vmm_state machine \<Rightarrow> vmm_state machine \<Rightarrow> hook_call list" where
  \<comment> \<open>the tracked calls made from one state to a later one\<close>
  "hooks_between m m' = concat (map call_hooks (drop (length (calls (gst m))) (calls (gst m'))))"

definition later :: "vmm_state machine \<Rightarrow> vmm_state machine \<Rightarrow> bool" where
  "later m m' \<longleftrightarrow> (\<exists>xs. calls (gst m') = calls (gst m) @ xs)"

lemma later_refl [simp]: "later m m"
  by (simp add: later_def)

lemma later_trans: "later m m1 \<Longrightarrow> later m1 m2 \<Longrightarrow> later m m2"
  by (auto simp: later_def)

lemma later_after [simp]: "later m m1 \<Longrightarrow> later m (after drv c m1)"
  by (auto simp: later_def vcall_calls)

lemma hooks_same [simp]: "hooks_between m m = []"
  by (simp add: hooks_between_def)

lemma hooks_after [simp]:
  "later m m1 \<Longrightarrow> hooks_between m (after drv c m1) = hooks_between m m1 @ call_hooks (c, rc drv c m1, val drv c m1)"
  by (auto simp: later_def vcall_calls hooks_between_def)

lemma hooks_trans:
  "later m m1 \<Longrightarrow> later m1 m2 \<Longrightarrow> hooks_between m m2 = hooks_between m m1 @ hooks_between m1 m2"
  by (auto simp: later_def hooks_between_def)

lemma hooks_upd [simp]:
  "calls (f (gst m1)) = calls (gst m1) \<Longrightarrow> hooks_between m (vmm_upd f m1) = hooks_between m m1"
  "calls (f (gst m1)) = calls (gst m1) \<Longrightarrow> later m (vmm_upd f m1) = later m m1"
  by (simp_all add: later_def hooks_between_def)

section \<open>The allocator\<close>

lemma capture_hooks:
  "later m (capture_context drv m) \<and> hooks_between m (capture_context drv m) = []"
  by (simp add: capture_context_def split_beta Let_def)

lemma hook_init_hooks:
  assumes "hook_init drv m = (ok, m')"
  shows "later m m' \<and> hooks_between m m' = []"
  using assms unfolding hook_init_def by (auto simp: split_beta Let_def split: if_splits)

definition alloc_branch :: "vmm_driver \<Rightarrow> nat \<Rightarrow> int \<Rightarrow> vmm_state machine \<Rightarrow> malloc_run" where
  \<comment> \<open>the branch of the allocation that the answers of the driver lead to\<close>
  "alloc_branch drv n d m =
     (let m1 = after drv (AddressReserve n) m; va = val drv (AddressReserve n) m;
          m2 = after drv (MemCreate n d) m1; h = val drv (MemCreate n d) m1;
          m3 = after drv (MemMap va n h) m2; m4 = after drv (MemSetAccess va n d) m3;
          m5 = after drv (MemUnmap va n) m4 in
      if rc drv (AddressReserve n) m \<noteq> 0 then Malloc_early
      else if rc drv (MemCreate n d) m1 \<noteq> 0 then Malloc_create_fails
      else if rc drv (MemMap va n h) m2 \<noteq> 0 then Malloc_map_fails (rc drv (MemRelease h) m3 = 0)
      else if rc drv (MemSetAccess va n d) m3 \<noteq> 0 then
        Malloc_access_fails (rc drv (MemUnmap va n) m4 = 0) (rc drv (MemRelease h) m5 = 0)
      else Malloc_done)"

definition malloc_branch :: "vmm_driver \<Rightarrow> nat \<Rightarrow> vmm_state machine \<Rightarrow> malloc_run" where
  "malloc_branch drv sz m =
     (let (ok, m2) = hook_init drv (capture_context drv m) in
      if sz = 0 \<or> \<not> ok then Malloc_early else alloc_branch drv (round_up_2mb sz) (hook_device (gst m2)) m2)"

lemma vmm_alloc_hooks:
  assumes "vmm_alloc drv n d m = (e, m')"
  shows "later m m' \<and> hooks_between m m' = malloc_hooks (alloc_branch drv n d m) \<and>
    (isl e \<longleftrightarrow> alloc_branch drv n d m \<noteq> Malloc_done)"
  using assms by (auto simp: vmm_alloc_def alloc_branch_def split_beta Let_def split: if_splits)

lemma cudaMalloc_hooks:
  assumes run: "cudaMalloc drv sz m = (e, q, m')"
  shows "hooks_between m m' = malloc_hooks (malloc_branch drv sz m)"
    "e = cudaSuccess \<longleftrightarrow> sz = 0 \<or> malloc_branch drv sz m = Malloc_done"
proof -
  let ?m1 = "capture_context drv m"
  obtain ok m2 where 2: "hook_init drv ?m1 = (ok, m2)" by fastforce
  have l2: "later m m2" "hooks_between m m2 = []"
    using capture_hooks [of m drv] hook_init_hooks [OF 2] later_trans [of m ?m1 m2] hooks_trans [of m ?m1 m2]
    by auto
  obtain o3 m3 where 3: "vmm_alloc drv (round_up_2mb sz) (hook_device (gst m2)) m2 = (o3, m3)" by fastforce
  note al = vmm_alloc_hooks [OF 3]
  have l3: "hooks_between m m3 = malloc_hooks (alloc_branch drv (round_up_2mb sz) (hook_device (gst m2)) m2)"
    using l2 al hooks_trans [of m m2 m3] by simp
  show "hooks_between m m' = malloc_hooks (malloc_branch drv sz m)"
    using run 2 3 l2 l3 capture_hooks [of m drv]
    by (cases o3) (auto simp: cudaMalloc_def malloc_branch_def Let_def split: if_splits)
  show "e = cudaSuccess \<longleftrightarrow> sz = 0 \<or> malloc_branch drv sz m = Malloc_done"
    using run 2 3 al by (cases o3) (auto simp: cudaMalloc_def malloc_branch_def Let_def split: if_splits)
qed

definition free_branch :: "vmm_driver \<Rightarrow> nat \<Rightarrow> vmm_state machine \<Rightarrow> free_run" where
  "free_branch drv p m =
     (case map_of (allocated (gst m)) p of
        None \<Rightarrow> Free_untracked
      | Some sz \<Rightarrow>
          let unmap = MemUnmap p (round_up_2mb sz) in
          (case map_of (global_handle_map (gst m)) p of
             Some h \<Rightarrow> if map_of (allocated_memory_type (gst m)) p = Some 1
               then Free_vmm (rc drv unmap m = 0) (rc drv (MemRelease h) (after drv unmap m) = 0) else Free_no_handle
           | None \<Rightarrow> Free_no_handle))"

lemma cudaFree_hooks:
  assumes run: "cudaFree drv p m = (e, m')"
  shows "hooks_between m m' = free_hooks (free_branch drv p m)"
proof (cases "map_of (allocated (gst m)) p")
  case None
  then show ?thesis using run by (auto simp: cudaFree_def free_branch_def split_beta Let_def split: if_splits)
next
  case (Some sz)
  then show ?thesis using run
    by (cases "map_of (global_handle_map (gst m)) p")
      (auto simp: cudaFree_def free_branch_def split_beta Let_def split: if_splits)
qed

section \<open>Release and remap\<close>

definition mapped_ptrs :: "vmm_state machine \<Rightarrow> nat set" where
  \<comment> \<open>the pointers whose physical memory is known\<close>
  "mapped_ptrs m = dom (map_of (global_handle_map (gst m)))"

lemma mapped_ptrs_simps [simp]:
  "mapped_ptrs (after drv c m) = mapped_ptrs m"
  "omap_ok (global_handle_map (gst m)) \<Longrightarrow>
   mapped_ptrs (vmm_upd (\<lambda>s. s\<lparr>global_handle_map := omap_erase p (global_handle_map s)\<rparr>) m) = mapped_ptrs m - {p}"
  "omap_ok (global_handle_map (gst m)) \<Longrightarrow>
   mapped_ptrs (vmm_upd (\<lambda>s. s\<lparr>global_handle_map := omap_put p h (global_handle_map s)\<rparr>) m) = insert p (mapped_ptrs m)"
  by (auto simp: mapped_ptrs_def)

lemma mapped_ptrs_iff: "p \<in> mapped_ptrs m \<longleftrightarrow> map_of (global_handle_map (gst m)) p \<noteq> None"
  by (auto simp: mapped_ptrs_def)

fun release_branches :: "nat set \<Rightarrow> nat list \<Rightarrow> release_run list" where
  \<comment> \<open>the branches of a loop of releases that succeeds\<close>
  "release_branches K [] = []"
| "release_branches K (p # ps) =
     (if p \<in> K then Release_handle True else Release_no_handle) # release_branches (K - {p}) ps"

fun remap_branches :: "nat set \<Rightarrow> nat list \<Rightarrow> remap_run list" where
  "remap_branches K [] = []"
| "remap_branches K (p # ps) = Remap (p \<in> K) All_mapped # remap_branches (insert p K) ps"

lemma release_step_hooks:
  assumes run: "nv_releasePhysicalMemory drv p m = Inr (0, m')" and ok: "omap_ok (global_handle_map (gst m))"
  shows "later m m' \<and> omap_ok (global_handle_map (gst m')) \<and> mapped_ptrs m' = mapped_ptrs m - {p} \<and>
    hooks_between m m' = release_hooks (if p \<in> mapped_ptrs m then Release_handle True else Release_no_handle)"
  using run ok
  by (auto simp: nv_releasePhysicalMemory_def split_beta Let_def mapped_ptrs_iff simp del: not_None_eq
      split: option.splits if_splits)

lemma drop_old_hooks:
  assumes "nv_drop_old drv p n m = (0, m')" and "omap_ok (global_handle_map (gst m))"
  shows "later m m' \<and> omap_ok (global_handle_map (gst m')) \<and> mapped_ptrs m' = mapped_ptrs m - {p} \<and>
    hooks_between m m' = (if p \<in> mapped_ptrs m then [H_unmap True, H_release True] else [])"
  using assms by (auto simp: nv_drop_old_def split_beta Let_def mapped_ptrs_iff split: option.splits if_splits)

lemma remap_step_hooks:
  assumes run: "nv_remapPhysicalMemory drv p sz m = Inr (0, m')" and ok: "omap_ok (global_handle_map (gst m))"
  shows "later m m' \<and> omap_ok (global_handle_map (gst m')) \<and> mapped_ptrs m' = insert p (mapped_ptrs m) \<and>
    hooks_between m m' = remap_hooks (Remap (p \<in> mapped_ptrs m) All_mapped)"
proof -
  obtain old where old: "map_of (allocated (gst m)) p = Some old"
    using run by (auto simp: nv_remapPhysicalMemory_def split: option.splits)
  obtain y m1 where 1: "nv_drop_old drv p old m = (y, m1)" by fastforce
  have y: "y = 0" using run old 1 by (auto simp: nv_remapPhysicalMemory_def split: if_splits)
  note d = drop_old_hooks [OF 1 [unfolded y] ok]
  have "later m1 m' \<and> hooks_between m1 m' = create_hooks All_mapped"
    using run old 1 y by (auto simp: nv_remapPhysicalMemory_def split_beta Let_def split: if_splits)
  moreover obtain h m4 where m': "m' = vmm_upd (\<lambda>s. s\<lparr>global_handle_map := omap_put p h (global_handle_map s)\<rparr>) m4"
      and "global_handle_map (gst m4) = global_handle_map (gst m1)"
    using run old 1 y by (auto simp: nv_remapPhysicalMemory_def split_beta Let_def split: if_splits)
  ultimately have x: "later m1 m' \<and> hooks_between m1 m' = create_hooks All_mapped \<and> omap_ok (global_handle_map (gst m')) \<and>
      mapped_ptrs m' = insert p (mapped_ptrs m1)"
    using d by (simp add: m' mapped_ptrs_def)
  then show ?thesis using d later_trans [of m m1 m'] hooks_trans [of m m1 m'] by auto
qed

section \<open>Checkpoint and restore\<close>

lemma release_all_hooks:
  "release_all (nv_gpu drv) ps m = Inr m' \<Longrightarrow> omap_ok (global_handle_map (gst m)) \<Longrightarrow>
   later m m' \<and> omap_ok (global_handle_map (gst m')) \<and>
   hooks_between m m' = concat (map release_hooks (release_branches (mapped_ptrs m) ps)) \<and>
   release_loop_locks (release_branches (mapped_ptrs m) ps) =
     hooks_locks (hooks_between m m') @ [Unlock Fs_mutex, Unlock Gpu_mem_mutex]"
proof (induction ps arbitrary: m)
  case (Cons p ps)
  then obtain m1 where 1: "nv_releasePhysicalMemory drv p m = Inr (0, m1)" "release_all (nv_gpu drv) ps m1 = Inr m'"
    by (auto simp: rbind_Inr_iff nv_gpu_def split: if_splits)
  note r = release_step_hooks [OF 1(1) Cons.prems(2)]
  note rs = Cons.IH [OF 1(2)]
  show ?case using r rs later_trans [of m m1 m'] hooks_trans [of m m1 m']
    by (cases "p \<in> mapped_ptrs m") simp_all
qed simp

lemma remap_all_hooks:
  "remap_all (nv_gpu drv) fl m = Inr m' \<Longrightarrow> omap_ok (global_handle_map (gst m)) \<Longrightarrow>
   later m m' \<and> hooks_between m m' = concat (map remap_hooks (remap_branches (mapped_ptrs m) (map ptr fl))) \<and>
   remap_loop_locks (remap_branches (mapped_ptrs m) (map ptr fl)) True =
     hooks_locks (hooks_between m m') @ [Unlock Gpu_mem_mutex]"
proof (induction fl arbitrary: m)
  case (Cons f fl)
  then obtain m1 where 1: "nv_remapPhysicalMemory drv (ptr f) (size f) m = Inr (0, m1)" "remap_all (nv_gpu drv) fl m1 = Inr m'"
    by (auto simp: rbind_Inr_iff nv_gpu_def split: if_splits)
  note r = remap_step_hooks [OF 1(1) Cons.prems(2)]
  note rs = Cons.IH [OF 1(2)]
  show ?case using r rs later_trans [of m m1 m'] hooks_trans [of m m1 m']
    by (cases "ptr f \<in> mapped_ptrs m") simp_all
qed simp

lemma hooks_gst: "gst m1 = gst m \<Longrightarrow> hooks_between m m' = hooks_between m1 m'"
  "gst m2 = gst m' \<Longrightarrow> hooks_between m m2 = hooks_between m m'"
  by (simp_all add: hooks_between_def)

lemma ckpt_hooks:
  assumes "(ckpt drv (nv_gpu v) (fs, m) = Inr ((fs', m'), n) \<and> ps = map fst (allocated (gst m))) \<or>
      (ckpt_selective drv (nv_gpu v) regions (fs, m) = Inr ((fs', m'), n) \<and> ps = map ptr (file_list fs'))"
    and "omap_ok (global_handle_map (gst m))"
  shows "omap_ok (global_handle_map (gst m')) \<and>
    hooks_between m m' = concat (map release_hooks (release_branches (mapped_ptrs m) ps)) \<and>
    ckpt_locks None (release_branches (mapped_ptrs m) ps) =
      [Lock Fs_mutex, Lock Gpu_mem_mutex] @ hooks_locks (hooks_between m m') @ [Unlock Fs_mutex, Unlock Gpu_mem_mutex]"
proof -
  have al: "allocated_memory (nv_gpu v) = allocated" by (simp add: nv_gpu_def)
  obtain m1 where g: "gst m1 = gst m" and r: "release_all (nv_gpu v) ps m1 = Inr m'"
    using assms(1) by (auto simp: ckpt_def ckpt_selective_def rbind_Inr_iff Let_def al dest: save_image_gst)
  show ?thesis
    using release_all_hooks [OF r] assms(2) hooks_gst(1) [OF g, of m'] by (simp add: g mapped_ptrs_def)
qed

lemma restore_hooks:
  assumes "restore_ptr_and_content drv (nv_gpu v) (fs, m) = Inr (m', n) \<or>
    restore_ptr_and_content_selective drv (nv_gpu v) (fs, m) = Inr (m', n)"
    and "omap_ok (global_handle_map (gst m))"
  shows "hooks_between m m' = concat (map remap_hooks (remap_branches (mapped_ptrs m) (map ptr (file_list fs)))) \<and>
    restore_locks (remap_branches (mapped_ptrs m) (map ptr (file_list fs))) True =
      lock_guard Gpu_mem_mutex (hooks_locks (hooks_between m m'))"
proof -
  obtain clamp where "load_image drv (nv_gpu v) clamp (fs, m) = Inr (m', n)"
    using assms(1) by (auto simp: restore_ptr_and_content_def restore_ptr_and_content_selective_def)
  then obtain m1 where r: "remap_all (nv_gpu v) (file_list fs) m = Inr m1" and g: "gst m' = gst m1"
    by (auto simp: load_image_def rbind_Inr_iff dest!: open_stream_gst load_files_gst stream_calls_gst)
  show ?thesis
    using remap_all_hooks [OF r assms(2)] hooks_gst(2) [OF g, of m] by (simp add: restore_locks_def lock_guard_def)
qed

section \<open>Properties\<close>

text \<open>C40: What the memory operations ask of the driver, call by call, and the mutexes this takes.  A
  full or selective checkpoint that returns unmaps every allocation it saved, in order, and releases
  it when its handle is known; a restore that returns unmaps and releases what is still mapped and
  then creates, maps and allows access, file by file; \<open>cudaMalloc\<close> and \<open>cudaFree\<close> make exactly
  the tracked calls of the branch that the answers of the driver lead to, undoing after a failure
  included, and \<open>cudaMalloc\<close> reports success for size 0 and on the branch where every call succeeded
  only.  The mutexes that \<open>Locks\<close> gives to these branches are those of the operation around those of
  the hooks called.\<close>

theorem lock_sequences_refine:
  assumes "omap_ok (global_handle_map (gst m))" and "omap_ok (global_handle_map (gst m2))"
    and "(ckpt drv (nv_gpu v) (fs, m) = Inr ((fs', m'), n) \<and> ps = map fst (allocated (gst m))) \<or>
      (ckpt_selective drv (nv_gpu v) regions (fs, m) = Inr ((fs', m'), n) \<and> ps = map ptr (file_list fs'))"
    and "restore_ptr_and_content drv (nv_gpu v) (fs', m2) = Inr (m3, k) \<or>
      restore_ptr_and_content_selective drv (nv_gpu v) (fs', m2) = Inr (m3, k)"
    and "cudaMalloc v sz m = (e, q, m4)" and "cudaFree v p m = (e', m5)"
  shows "hooks_between m m' = concat (map release_hooks (release_branches (mapped_ptrs m) ps)) \<and>
    ckpt_locks None (release_branches (mapped_ptrs m) ps) =
      [Lock Fs_mutex, Lock Gpu_mem_mutex] @ hooks_locks (hooks_between m m') @ [Unlock Fs_mutex, Unlock Gpu_mem_mutex] \<and>
    hooks_between m2 m3 = concat (map remap_hooks (remap_branches (mapped_ptrs m2) (map ptr (file_list fs')))) \<and>
    restore_locks (remap_branches (mapped_ptrs m2) (map ptr (file_list fs'))) True =
      lock_guard Gpu_mem_mutex (hooks_locks (hooks_between m2 m3)) \<and>
    hooks_between m m4 = malloc_hooks (malloc_branch v sz m) \<and>
    (e = cudaSuccess \<longleftrightarrow> sz = 0 \<or> malloc_branch v sz m = Malloc_done) \<and>
    cudaMalloc_locks (malloc_branch v sz m) = lock_guard Gpu_mem_mutex (hooks_locks (hooks_between m m4)) \<and>
    hooks_between m m5 = free_hooks (free_branch v p m) \<and>
    cudaFree_locks (free_branch v p m) = lock_guard Gpu_mem_mutex (hooks_locks (hooks_between m m5))"
  using ckpt_hooks [OF assms(3,1)] restore_hooks [OF assms(4,2)] cudaMalloc_hooks [OF assms(5)] cudaFree_hooks [OF assms(6)]
  by (simp add: malloc_hooks_locks free_hooks_locks)

theorem lock_sequences_refine_witness:
  "\<exists>fs' m' m3 n. ckpt prompt_driver (nv_gpu counting_vmm) (fs_reset undefined, sample_machine) = Inr ((fs', m'), n) \<and>
     restore_ptr_and_content prompt_driver (nv_gpu counting_vmm) (fs', m') = Inr (m3, n) \<and>
     hooks_between sample_machine m' = [H_unmap True, H_release True, H_unmap True, H_release True]"
proof -
  obtain fs' m' n where c: "ckpt prompt_driver (nv_gpu counting_vmm) (fs_reset undefined, sample_machine) = Inr ((fs', m'), n)"
    and r: "\<exists>m3. restore_ptr_and_content prompt_driver (nv_gpu counting_vmm) (fs', m') = Inr (m3, n)"
    using nv_saved_and_loaded [OF prompt_driver_contract prompt_driver_contract counting_vmm_contract(2)
      sample_facts, of "fs_reset undefined"] by blast
  have o: "omap_ok (global_handle_map (gst sample_machine))" by (simp add: sample_machine_def)
  from r obtain m3 where r: "restore_ptr_and_content prompt_driver (nv_gpu counting_vmm) (fs', m') = Inr (m3, n)" by blast
  have o': "omap_ok (global_handle_map (gst m'))"
    using ckpt_hooks [OF disjI1 [OF conjI [OF c refl]] o] by blast
  obtain e q m4 where 4: "cudaMalloc counting_vmm 5000 sample_machine = (e, q, m4)" by (metis prod_cases3)
  obtain e' m5 where 5: "cudaFree counting_vmm 4194304 sample_machine = (e', m5)" by fastforce
  from lock_sequences_refine [OF o o' disjI1 [OF conjI [OF c refl]] disjI1 [OF r] 4 5]
  have "hooks_between sample_machine m' =
      concat (map release_hooks (release_branches (mapped_ptrs sample_machine) (map fst (allocated (gst sample_machine)))))"
    by blast
  then have "hooks_between sample_machine m' = [H_unmap True, H_release True, H_unmap True, H_release True]"
    by (simp add: mapped_ptrs_def sample_machine_def)
  with c r show ?thesis by blast
qed

end
