(* ===== verification/Client_Run.thy ===== *)
theory Client_Run
  imports Client Lock_Traces
begin

text \<open>
  A run of \<open>coordinator/cr_client.cpp\<close> against the worker of \<open>vGPU.cpp\<close>.  The client writes a message,
  sends a signal and polls for the answer before it goes on; the external tool \<open>cuda-checkpoint\<close> freezes and
  resumes the worker.  What a freeze does is documented with the tool: the driver functions that
  manage resources are locked, and a call of one blocks until the process is resumed.  Which functions
  these are is a parameter.  Proved: after \<open>cr_client -c\<close> has frozen the worker, \<open>cr_client -r\<close> waits
  for an answer that never comes, although the same two actions in the other order restore the worker.
\<close>

section \<open>The worker and the client\<close>

record live_worker =
  lw_process :: process
  lw_counter :: nat  \<comment> \<open>the counter of identifiers, in its shared file\<close>
  lw_frozen :: bool

datatype client_run = Ended live_worker
  | Waiting "client_event list" \<comment> \<open>polls for ever; what it would have done next\<close>

definition locked_calls :: "(vmm_call \<Rightarrow> bool) \<Rightarrow> process \<Rightarrow> process \<Rightarrow> bool" where
  \<comment> \<open>from \<open>p\<close> to \<open>p'\<close> the worker calls a function that is locked in a frozen process\<close>
  "locked_calls locked p p' \<longleftrightarrow>
     (\<exists>x \<in> set (drop (length (calls (gst (mch p)))) (calls (gst (mch p')))). locked (fst x))"

fun run_client ::
    "cr_env \<Rightarrow> client_env \<Rightarrow> (vmm_call \<Rightarrow> bool) \<Rightarrow> client_event list \<Rightarrow> live_worker \<Rightarrow> client_run" where
  "run_client env ce locked [] w = Ended w"
| "run_client env ce locked (Request req # es) w =
     run_client env ce locked es (w\<lparr>lw_process := (lw_process w)\<lparr>selective_req := map fst req\<rparr>\<rparr>)"
| "run_client env ce locked (Run cmd # es) w =
     run_client env ce locked es
       (if cmd = toggle_cmd ce (int (ce_pid env)) \<and> system_rc ce cmd = 0 then w\<lparr>lw_frozen := \<not> lw_frozen w\<rparr> else w)"
| "run_client env ce locked (Signal pid msg signum # es) w =
     (let p = (lw_process w)\<lparr>control_word := msg\<rparr> in
      if pid \<noteq> int (ce_pid env) then Waiting es
      else case cr_signal_handler env signum (lw_counter w) p of
        Inl _ \<Rightarrow> Waiting es
      | Inr (counter', p') \<Rightarrow>
          if control_word p' \<noteq> FINISH_MSG \<or> lw_frozen w \<and> locked_calls locked p p' then Waiting es
          else run_client env ce locked es (w\<lparr>lw_process := p', lw_counter := counter'\<rparr>))"

section \<open>A restore creates physical memory\<close>

definition creates :: "vmm_state machine \<Rightarrow> vmm_state machine \<Rightarrow> bool" where
  "creates m m' \<longleftrightarrow> (\<exists>xs n d r v ys. calls (gst m') = calls (gst m) @ xs @ (MemCreate n d, r, v) # ys)"

lemma creates_after: "later (after drv (MemCreate n d) m) m' \<Longrightarrow> creates m m'"
  unfolding creates_def later_def vcall_calls by (rule exI [of _ "[]"]) auto

lemma creates_later: "creates m m1 \<Longrightarrow> later m1 m2 \<Longrightarrow> creates m m2"
  unfolding creates_def later_def by (elim exE) (metis append.assoc append_Cons)

lemma later_creates: "later m m1 \<Longrightarrow> creates m1 m2 \<Longrightarrow> creates m m2"
  unfolding creates_def later_def by (elim exE) (metis append.assoc)

lemma creates_imp_later: "creates m m' \<Longrightarrow> later m m'"
  unfolding creates_def later_def by blast

lemma pushContext_later: "pushContext drv m = Inr (r, m') \<Longrightarrow> later m m'"
  by (auto simp: pushContext_def ensureCudaInitialized_def rbind_Inr_iff Let_def split_beta split: if_splits)

lemma popContext_later: "later m (snd (popContext drv m))"
  by (simp add: popContext_def Let_def split_beta)

lemma nv_drop_old_later: "nv_drop_old drv p n m = (r, m') \<Longrightarrow> later m m'"
  by (auto simp: nv_drop_old_def split_beta Let_def split: option.splits if_splits)

lemma nv_remap_creates:
  assumes "nv_remapPhysicalMemory drv p sz m = Inr (0, m')"
  shows "creates m m'"
proof -
  obtain old where old: "map_of (allocated (gst m)) p = Some old"
    using assms by (auto simp: nv_remapPhysicalMemory_def split: option.splits)
  obtain y m1 where 1: "nv_drop_old drv p old m = (y, m1)" by fastforce
  have "later (after drv (MemCreate (round_up_2mb sz) (gpu_device (gst m1))) m1) m'"
    using assms old 1 by (auto simp: nv_remapPhysicalMemory_def split_beta Let_def split: if_splits)
  then show ?thesis using nv_drop_old_later [OF 1] creates_after later_creates by blast
qed

lemma remap_all_later: "remap_all (nv_gpu drv) fl m = Inr m' \<Longrightarrow> later m m'"
proof (induction fl arbitrary: m)
  case (Cons f fl)
  then obtain m1 where 1: "nv_remapPhysicalMemory drv (ptr f) (size f) m = Inr (0, m1)" "remap_all (nv_gpu drv) fl m1 = Inr m'"
    by (auto simp: rbind_Inr_iff nv_gpu_def split: if_splits)
  show ?case using creates_imp_later [OF nv_remap_creates [OF 1(1)]] Cons.IH [OF 1(2)] later_trans by blast
qed simp

lemma restore_creates:
  assumes "restore_ptr_and_content drv (nv_gpu v) (fs, m) = Inr (m', n)" and "file_list fs \<noteq> []"
  shows "creates m m'"
proof -
  obtain m1 where r: "remap_all (nv_gpu v) (file_list fs) m = Inr m1" and g: "gst m' = gst m1"
    using assms(1)
    by (auto simp: restore_ptr_and_content_def load_image_def rbind_Inr_iff dest!: open_stream_gst load_files_gst stream_calls_gst)
  obtain f fl where f: "file_list fs = f # fl" using assms(2) by (cases "file_list fs") auto
  obtain m2 where 2: "nv_remapPhysicalMemory v (ptr f) (size f) m = Inr (0, m2)" "remap_all (nv_gpu v) fl m2 = Inr m1"
    using r f by (auto simp: rbind_Inr_iff nv_gpu_def split: if_splits)
  have "creates m m1" using nv_remap_creates [OF 2(1)] remap_all_later [OF 2(2)] by (rule creates_later)
  then show ?thesis by (simp add: creates_def g)
qed

lemma restore_handler_creates:
  assumes "cr_signal_handler env CR_RESTORE_SIGNAL counter p = Inr (c, p')"
    and "control_word p = RESTORE_MSG" and "CR_initialized p" and "file_list (fsys p) \<noteq> []"
  shows "creates (mch p) (mch p')"
proof -
  obtain e m1 where 1: "pushContext (ce_vmm env) (mch p) = Inr (e, m1)"
    and rest: "rbind (dispatch env (p\<lparr>mch := m1\<rparr>)) (\<lambda>p2.
      Inr (counter, p2\<lparr>mch := snd (popContext (ce_vmm env) (mch p2)), control_word := FINISH_MSG\<rparr>)) = Inr (c, p')"
    using assms(1,3) by (auto simp: cr_signal_handler_def init_CR_def signal_defs rbind_Inr_iff)
  obtain m2 n where 2: "restore_ptr_and_content (ce_drv env) (nv_gpu (ce_vmm env)) (fsys p, m1) = Inr (m2, n)"
    and p': "mch p' = snd (popContext (ce_vmm env) m2)"
    using rest assms(2) by (auto simp: dispatch_def msg_defs rbind_Inr_iff)
  have "creates (mch p) m2" using pushContext_later [OF 1] restore_creates [OF 2 assms(4)] by (rule later_creates)
  then show ?thesis unfolding p' using popContext_later by (rule creates_later)
qed

lemma ckpt_handler_files:
  assumes "gpu_ready env p" and "cr_signal_handler env CR_CKPT_SIGNAL counter p = Inr (c, p1)"
    and "control_word p = CKPT_MSG"
  shows "map ptr (file_list (fsys p1)) = map fst (allocated (gst (mch p)))"
proof -
  obtain e m1 where 1: "pushContext (ce_vmm env) (mch p) = Inr (e, m1)"
    and rest: "rbind (dispatch env (p\<lparr>mch := m1\<rparr>)) (\<lambda>p2.
      Inr (counter, p2\<lparr>mch := snd (popContext (ce_vmm env) (mch p2)), control_word := FINISH_MSG\<rparr>)) = Inr (c, p1)"
    using assms(1,2) by (auto simp: gpu_ready_def cr_signal_handler_def init_CR_def signal_defs rbind_Inr_iff)
  obtain fs' m2 n where 2: "ckpt (ce_drv env) (nv_gpu (ce_vmm env)) (fsys p, m1) = Inr ((fs', m2), n)" and f: "fsys p1 = fs'"
    using rest assms(3) by (auto simp: dispatch_def msg_defs rbind_Inr_iff syncAllKernels_def)
  have al: "allocated (gst m1) = allocated (gst (mch p))"
    using pushContext_keeps [OF 1] by (simp add: kept_def tables_def)
  have "fs_data_start + total (rounded (allocated (gst m1))) < 2 ^ 64"
    using assms(1) SHM_SIZE_lt unfolding gpu_ready_def fits_def al by linarith
  then have "holds_image (rounded (allocated (gst m1))) (dev m1) (fs', m2)"
    using nv.ckpt_sound [OF _ refl _ 2] assms(1) by (simp add: gpu_ready_def)
  then have "map fst (map (\<lambda>f. (ptr f, size f)) (file_list fs')) = map fst (rounded (allocated (gst m1)))"
    by (simp add: holds_image_def lay_out_blocks del: map_map)
  then show ?thesis using f al by (simp add: rounded_def comp_def split_beta)
qed

section \<open>Properties\<close>

text \<open>C32: \<open>cr_client -r\<close> on NVIDIA waits for ever for the worker that \<open>cr_client -c\<close> has frozen.
  For a worker with at least one allocation, the checkpoint client returns with the data saved and the
  worker frozen.  A restore client started then never gets to \<open>cuda-checkpoint\<close>: the handler of its
  message creates physical memory, the call blocks in a frozen process, and the client polls for an answer
  before it resumes the process.  The same two actions in the other order give back all device memory
  and the peers of the worker.\<close>

theorem client_restore_waits_for_frozen_worker:
  assumes "ce_pid env = pid" "0 < pid" "pid < 2 ^ 31" "\<not> hip_build ce" "comm_ok ce"
    and "system_rc ce (toggle_cmd ce (int pid)) = 0"
    and "gpu_ready env (lw_process w)" "allocated (gst (mch (lw_process w))) \<noteq> []" "\<not> lw_frozen w"
    and "\<And>n d. locked (MemCreate n d)"
  shows "\<exists>w1. run_client env ce locked (fst (cr_client_main ce [CR_c, CR_p (digits pid)])) w = Ended w1 \<and>
    lw_frozen w1 \<and>
    run_client env ce locked (fst (cr_client_main ce [CR_r, CR_p (digits pid)])) w1 =
      Waiting [Run (toggle_cmd ce (int pid))] \<and>
    (\<exists>w3. run_client env ce locked (rev (fst (cr_client_main ce [CR_r, CR_p (digits pid)]))) w1 = Ended w3 \<and>
      \<not> lw_frozen w3 \<and> dev (mch (lw_process w3)) = dev (mch (lw_process w)) \<and>
      g_peer_access_devices (peer (lw_process w3)) = g_peer_access_devices (peer (lw_process w)))"
proof -
  let ?p = "(lw_process w)\<lparr>control_word := CKPT_MSG\<rparr>" and ?c = "lw_counter w"
  have ready: "gpu_ready env ?p" and msg: "control_word ?p = CKPT_MSG"
    using assms(7) by (simp_all add: gpu_ready_def)
  obtain p1 where 1: "cr_signal_handler env CR_CKPT_SIGNAL ?c ?p = Inr (?c, p1)" "control_word p1 = FINISH_MSG"
      "CR_initialized p1"
    and again: "\<forall>q. frozen_copy ?p p1 q \<and> control_word q = RESTORE_MSG \<longrightarrow>
       (\<exists>p3. cr_signal_handler env CR_RESTORE_SIGNAL ?c q = Inr (?c, p3) \<and> control_word p3 = FINISH_MSG \<and>
          dev (mch p3) = dev (mch ?p) \<and> g_peer_access_devices (peer p3) = g_peer_access_devices (peer ?p))"
    using handler_restores [OF ready msg, of ?c] by blast
  define w1 where "w1 = w\<lparr>lw_process := p1, lw_frozen := True\<rparr>"
  let ?q = "p1\<lparr>control_word := RESTORE_MSG\<rparr>"
  have "frozen_copy ?p p1 ?q" using 1(3) by (simp add: frozen_copy_def)
  with again [rule_format, of ?q] obtain p3 where 3: "cr_signal_handler env CR_RESTORE_SIGNAL ?c ?q = Inr (?c, p3)"
      "control_word p3 = FINISH_MSG" "dev (mch p3) = dev (mch (lw_process w))"
      "g_peer_access_devices (peer p3) = g_peer_access_devices (peer (lw_process w))"
    by auto
  have "file_list (fsys p1) \<noteq> []" using ckpt_handler_files [OF ready 1(1) msg] assms(8) by auto
  then have "creates (mch ?q) (mch p3)" using restore_handler_creates [OF 3(1)] 1(3) by simp
  then have l: "locked_calls locked ?q p3" using assms(10) by (auto simp: creates_def locked_calls_def)
  note ev = client_events(1,2) [OF assms(2,3,5,4)]
  have "run_client env ce locked (fst (cr_client_main ce [CR_c, CR_p (digits pid)])) w = Ended w1"
    using 1 assms(1,6,9) by (simp add: ev w1_def Let_def)
  moreover have "run_client env ce locked (fst (cr_client_main ce [CR_r, CR_p (digits pid)])) w1 =
      Waiting [Run (toggle_cmd ce (int pid))]"
    using 3 l assms(1) by (simp add: ev w1_def Let_def)
  moreover have "run_client env ce locked (rev (fst (cr_client_main ce [CR_r, CR_p (digits pid)]))) w1 =
      Ended (w1\<lparr>lw_process := p3, lw_frozen := False\<rparr>)"
    using 3 assms(1,6) by (simp add: ev w1_def Let_def)
  moreover have "lw_frozen w1" by (simp add: w1_def)
  ultimately show ?thesis using 3 by (intro exI [of _ w1]) simp
qed

definition sample_client :: client_env where
  "sample_client = \<lparr>hip_build = False, AMD_CKPT_DIR = None, bin_path = ''cuda-checkpoint'', system_rc = \<lambda>_. 0,
     comm_ok = True, ret_initial = 0\<rparr>"

definition sample_live_worker :: live_worker where
  "sample_live_worker = \<lparr>lw_process = sample_process, lw_counter = 1, lw_frozen = False\<rparr>"

theorem client_restore_waits_for_frozen_worker_witness:
  "\<exists>w1. run_client sample_cr_env sample_client (\<lambda>_. True) (fst (cr_client_main sample_client [CR_c, CR_p (digits 7)])) sample_live_worker =
       Ended w1 \<and>
     run_client sample_cr_env sample_client (\<lambda>_. True) (fst (cr_client_main sample_client [CR_r, CR_p (digits 7)])) w1 =
       Waiting [Run (toggle_cmd sample_client 7)]"
proof -
  have "allocated (gst (mch (lw_process sample_live_worker))) \<noteq> []"
    by (simp add: sample_live_worker_def sample_process_def sample_machine_def)
  moreover have "gpu_ready sample_cr_env (lw_process sample_live_worker)" using gpu_ready_sample by (simp add: sample_live_worker_def)
  ultimately show ?thesis
    using client_restore_waits_for_frozen_worker [of sample_cr_env 7 sample_client sample_live_worker "\<lambda>_. True"]
    by (auto simp: sample_client_def sample_live_worker_def sample_cr_env_def)
qed

end
