(* ===== verification/Hooked_Driver.thy ===== *)
theory Hooked_Driver
  imports NV_Backend Ipc_Track
begin

text \<open>
  The allocator of \<open>nv.cpp\<close> on top of the tracking hooks of \<open>ipc_hooks.cpp\<close>.  Both are part of the
  same library, and the exported \<open>cuMemCreate\<close>, \<open>cuMemMap\<close>, \<open>cuMemUnmap\<close>, \<open>cuMemRelease\<close> and
  \<open>cuMemSetAccess\<close> are wrappers of the hooks, so every call of the allocator passes through them.
  \<open>hooked_driver\<close> is the driver that the allocator sees: the hook of the call, run in the state the
  hooks have reached after the calls before it.  Proved: the allocator leaves the tables of
  exports, imports, created and local allocations alone, so that the IPC phases of a checkpoint and
  \<open>ckpt()\<close> work on separate memory; and what happens when the driver reuses a handle that the table
  of rebuilt handles still lists.
\<close>

section \<open>The driver the allocator sees\<close>

definition nv_prop :: "int \<Rightarrow> CUmemAllocationProp" where
  \<comment> \<open>\<open>prop = {}\<close>, pinned, on the device: no handle types are requested\<close>
  "nv_prop d = \<lparr>requestedHandleTypes = 0, location_type = CU_MEM_LOCATION_TYPE_DEVICE, location_id = d\<rparr>"

definition nv_access :: "int \<Rightarrow> CUmemAccessDesc" where
  "nv_access d = \<lparr>desc_type = CU_MEM_LOCATION_TYPE_DEVICE, desc_id = d,
     desc_flags = CU_MEM_ACCESS_FLAGS_PROT_READWRITE\<rparr>"

fun via_hook :: "cu_lib \<Rightarrow> vmm_call \<Rightarrow> ipc_state \<Rightarrow> (int \<times> nat \<times> ipc_state) option" where
  \<comment> \<open>\<open>None\<close>: the call is not hooked and goes to the driver\<close>
  "via_hook lib (MemCreate n d) s =
     (case hook_cuMemCreate lib n (nv_prop d) s of (r, h, s') \<Rightarrow> Some (r, case h of None \<Rightarrow> 0 | Some x \<Rightarrow> x, s'))"
| "via_hook lib (MemMap p n h) s = (case hook_cuMemMap lib p n h s of (r, s') \<Rightarrow> Some (r, 0, s'))"
| "via_hook lib (MemUnmap p n) s = (case hook_cuMemUnmap lib p n s of (r, s') \<Rightarrow> Some (r, 0, s'))"
| "via_hook lib (MemRelease h) s = (case hook_cuMemRelease lib h s of (r, s') \<Rightarrow> Some (r, 0, s'))"
| "via_hook lib (MemSetAccess p n d) s =
     (case hook_cuMemSetAccess lib p n [nv_access d] s of (r, s') \<Rightarrow> Some (r, 0, s'))"
| "via_hook lib _ s = None"

definition hook_after :: "cu_lib \<Rightarrow> vmm_call \<Rightarrow> ipc_state \<Rightarrow> ipc_state" where
  "hook_after lib c s = (case via_hook lib c s of None \<Rightarrow> s | Some (_, _, s') \<Rightarrow> s')"

definition hook_state :: "cu_lib \<Rightarrow> ipc_state \<Rightarrow> vmm_call history \<Rightarrow> ipc_state" where
  "hook_state lib s0 h = fold (\<lambda>(c, _) s. hook_after lib c s) h s0"

definition hooked_driver :: "cu_lib \<Rightarrow> vmm_driver \<Rightarrow> ipc_state \<Rightarrow> nat \<Rightarrow> vmm_driver" where
  \<comment> \<open>the hooks are in state \<open>s0\<close> after \<open>k\<close> calls of the allocator; \<open>drv\<close> answers the calls that are
      not hooked\<close>
  "hooked_driver lib drv s0 k = drv\<lparr>vmm := \<lambda>c h.
     case via_hook lib c (hook_state lib s0 (drop k h)) of
       None \<Rightarrow> vmm drv c h
     | Some (r, v, _) \<Rightarrow> (r, v)\<rparr>"

definition hooks_of :: "cu_lib \<Rightarrow> ipc_state \<Rightarrow> nat \<Rightarrow> vmm_state machine \<Rightarrow> ipc_state" where
  \<comment> \<open>the state of the hooks when the allocator is in the given state\<close>
  "hooks_of lib s0 k m = hook_state lib s0 (drop k (calls (gst m)))"

section \<open>What the IPC phases work on\<close>

definition alloc_tables :: "ipc_state \<Rightarrow> ipc_state" where
  \<comment> \<open>everything but the access descriptors, the memories and the call history\<close>
  "alloc_tables s = s\<lparr>g_va_access_descs := [], gmem := \<lambda>_. 0, hbuf := \<lambda>_. 0, cu_calls := []\<rparr>"

definition tracked_handles :: "ipc_state \<Rightarrow> nat set" where
  \<comment> \<open>the handles the tables list; zero marks a record without a handle\<close>
  "tracked_handles s = fst ` set (g_created_allocs s) \<union> fst ` set (g_handle_to_va s) \<union>
     set (g_imported_handles s) \<union> (imp_handle ` set (g_ipc_imports s) - {0}) \<union>
     (local_handle ` set (g_ipc_exports s) - {0}) \<union> loc_handle ` {e \<in> set (g_local_allocs s). \<not> loc_torn_down e} \<union>
     fst ` set (g_rebuilt_handle_alias s) \<union> snd ` set (g_rebuilt_handle_alias s)"

definition tracked_addrs :: "ipc_state \<Rightarrow> nat set" where
  "tracked_addrs s = fst ` set (g_vaddr_to_import_idx s) \<union> fst ` set (g_vaddr_to_export_idx s)"

fun harmless :: "ipc_state \<Rightarrow> vmm_call \<Rightarrow> bool" where
  "harmless s (MemMap p n h) \<longleftrightarrow> h \<notin> tracked_handles s"
| "harmless s (MemUnmap p n) \<longleftrightarrow> p \<notin> tracked_addrs s"
| "harmless s (MemRelease h) \<longleftrightarrow> h \<notin> tracked_handles s"
| "harmless s (MemSetAccess p n d) \<longleftrightarrow> p \<notin> tracked_addrs s"
| "harmless s _ \<longleftrightarrow> True"

definition untracked :: "ipc_state \<Rightarrow> vmm_state \<Rightarrow> bool" where
  \<comment> \<open>the allocator's pointers and handles are not those of an IPC allocation\<close>
  "untracked s v \<longleftrightarrow> (\<forall>x \<in> set (allocated v). fst x \<notin> tracked_addrs s) \<and>
     (\<forall>x \<in> set (global_handle_map v). snd x \<notin> tracked_handles s)"

fun open_step :: "cu_call \<times> int \<times> nat \<Rightarrow> nat set \<Rightarrow> nat set" where
  "open_step (CuMemCreate n prop, r, v) S = (if r = 0 then insert v S else S)"
| "open_step (CuMemImport fd, r, v) S = (if r = 0 then insert v S else S)"
| "open_step (CuMemRelease h, r, v) S = (if r = 0 then S - {h} else S)"
| "open_step _ S = S"

definition open_handles :: "cu_call history \<Rightarrow> nat set" where
  \<comment> \<open>created or imported and not released\<close>
  "open_handles h = fold open_step h {}"




section \<open>Harmless calls leave the tables\<close>

lemma alloc_tables_same: "same_tables s s' \<Longrightarrow> alloc_tables s' = alloc_tables s"
  by (cases s; cases s') (simp add: alloc_tables_def same_tables_def)

lemma alloc_tablesD:
  assumes "alloc_tables s' = alloc_tables s"
  shows "tracked_handles s' = tracked_handles s" "tracked_addrs s' = tracked_addrs s"
  using assms by (cases s; cases s'; simp add: alloc_tables_def tracked_handles_def tracked_addrs_def)+

lemma alloc_tables_descs [simp]: "alloc_tables (s\<lparr>g_va_access_descs := x\<rparr>) = alloc_tables s"
  by (simp add: alloc_tables_def)

lemma omap_erase_absent: "k \<notin> fst ` set xs \<Longrightarrow> omap_erase k xs = xs"
  by (induction k xs rule: omap_erase.induct) auto















section \<open>Tracked handles stay open\<close>

lemma open_handles_snoc [simp]: "open_handles (h @ [e]) = open_step e (open_handles h)"
  by (simp add: open_handles_def)

lemma ccall_history: "ccall lib c s = (r, v, s') \<Longrightarrow> cu_calls s' = cu_calls s @ [(c, r, v)]"
  by (auto simp: ccall_def native_def split: prod.splits)


lemma bind_exports_cu_calls [simp]: "cu_calls (bind_exports p n h is s) = cu_calls s"
  by (induction p n h "is" s rule: bind_exports.induct) (simp_all add: Let_def upd_exp_def)

lemma track_map_calls [simp]: "cu_calls (track_local_map p n h (track_import_map p n h s)) = cu_calls s"
  by (simp add: track_local_map_def track_import_map_def Let_def)



lemma cleanup_calls [simp]: "cu_calls (cleanup_handle a s) = cu_calls s"
  by (auto simp: cleanup_handle_def Let_def split: option.splits if_splits)





section \<open>The allocator only makes harmless calls\<close>

definition good :: "ipc_state \<Rightarrow> nat \<Rightarrow> vmm_state \<Rightarrow> bool" where
  "good s0 k v \<longleftrightarrow> k \<le> length (calls v) \<and> (\<forall>x \<in> set (drop k (calls v)). harmless s0 (fst x)) \<and> untracked s0 v"

lemma good_after [simp]:
  assumes "good s0 k (gst m)" and "harmless s0 c"
  shows "good s0 k (gst (after drv c m))"
  using assms by (auto simp: good_def vcall_calls untracked_def)

lemma good_view:
  "good s0 k v \<Longrightarrow> calls w = calls v \<Longrightarrow> allocated w = allocated v \<Longrightarrow>
   global_handle_map w = global_handle_map v \<Longrightarrow> good s0 k w"
  by (simp add: good_def untracked_def)

lemma omap_put_entry: "x \<in> set (omap_put k v xs) \<Longrightarrow> x = (k, v) \<or> x \<in> set xs"
  by (induction k v xs rule: omap_put.induct) (auto split: if_splits)


lemma good_tables [simp]:
  "good s0 k v \<Longrightarrow> good s0 k (v\<lparr>global_handle_map := g\<rparr>) \<longleftrightarrow> (\<forall>a b. (a, b) \<in> set g \<longrightarrow> b \<notin> tracked_handles s0)"
  "good s0 k v \<Longrightarrow> good s0 k (v\<lparr>allocated := al\<rparr>) \<longleftrightarrow> (\<forall>a b. (a, b) \<in> set al \<longrightarrow> a \<notin> tracked_addrs s0)"
  unfolding good_def untracked_def by auto






lemma good_neutral [simp]:
  "good s0 k (v\<lparr>g_pytorch_context := a\<rparr>) = good s0 k v" "good s0 k (v\<lparr>hook_inited := b\<rparr>) = good s0 k v"
  "good s0 k (v\<lparr>hook_device := c\<rparr>) = good s0 k v" "good s0 k (v\<lparr>hook_context := a\<rparr>) = good s0 k v"
  "good s0 k (v\<lparr>allocated_memory_type := t\<rparr>) = good s0 k v"
  by (simp_all add: good_def untracked_def)












section \<open>Checkpoints and restores\<close>








section \<open>Releasing a handle that stands for another\<close>

lemma ccall_ok:
  assumes "\<And>c x. fst (cu lib c x) = 0"
  shows "\<exists>v s'. ccall lib c s = (0, v, s') \<and> map fst (cu_calls s') = map fst (cu_calls s) @ [c] \<and> same_tables s s'"
proof -
  obtain r v s' where 1: "ccall lib c s = (r, v, s')" by (metis prod_cases3)
  then have "r = 0" "map fst (cu_calls s') = map fst (cu_calls s) @ [c]"
    using assms [of c "cu_calls s"] by (auto simp: ccall_def native_def split: prod.splits)
  then show ?thesis using 1 ccall_tables [OF 1] by blast
qed

lemma hook_unmap_effect:
  assumes "\<And>c x. fst (cu lib c x) = 0" and "\<And>f. avail lib f"
  shows "map fst (cu_calls (hook_after lib (MemUnmap p n) s)) = map fst (cu_calls s) @ [CuMemUnmap p n]"
    "g_rebuilt_handle_alias (hook_after lib (MemUnmap p n) s) = g_rebuilt_handle_alias s"
proof -
  obtain v s1 where 1: "ccall lib (CuMemUnmap p n) s = (0, v, s1)"
      "map fst (cu_calls s1) = map fst (cu_calls s) @ [CuMemUnmap p n]" "same_tables s s1"
    using ccall_ok [OF assms(1)] by blast
  then show "map fst (cu_calls (hook_after lib (MemUnmap p n) s)) = map fst (cu_calls s) @ [CuMemUnmap p n]"
    "g_rebuilt_handle_alias (hook_after lib (MemUnmap p n) s) = g_rebuilt_handle_alias s"
    using assms(2) same_tablesD(8) [OF 1(3)]
    by (auto simp: hook_after_def hook_cuMemUnmap_def upd_imp_def split: option.splits)
qed

lemma cleanup_exports:
  "a \<noteq> 0 \<Longrightarrow> e \<in> set (g_ipc_exports (cleanup_handle a s)) \<Longrightarrow> local_handle e \<noteq> a"
  "cu_calls (cleanup_handle a s) = cu_calls s"
  by (auto simp: cleanup_handle_def Let_def split: option.splits if_splits)

lemma hook_release_alias_effect:
  assumes "\<And>c x. fst (cu lib c x) = 0" and "\<And>f. avail lib f"
    and "map_of (g_rebuilt_handle_alias s) h = Some a" and "a \<noteq> h" and "a \<noteq> 0"
  shows "map fst (cu_calls (hook_after lib (MemRelease h) s)) = map fst (cu_calls s) @ [CuMemRelease a]"
    "\<forall>e \<in> set (g_ipc_exports (hook_after lib (MemRelease h) s)). local_handle e \<noteq> a"
proof -
  obtain v s1 where 1: "ccall lib (CuMemRelease a) s = (0, v, s1)"
      "map fst (cu_calls s1) = map fst (cu_calls s) @ [CuMemRelease a]"
    using ccall_ok [OF assms(1)] by blast
  then show "map fst (cu_calls (hook_after lib (MemRelease h) s)) = map fst (cu_calls s) @ [CuMemRelease a]"
    "\<forall>e \<in> set (g_ipc_exports (hook_after lib (MemRelease h) s)). local_handle e \<noteq> a"
    using assms(2-5) cleanup_exports(1) [OF assms(5)]
    by (auto simp: hook_after_def hook_cuMemRelease_def Let_def cleanup_exports(2))
qed

section \<open>The hooks list only open handles\<close>

definition exports_open :: "cu_lib \<Rightarrow> bool" where
  \<comment> \<open>the driver exports no handle that was not created or imported, or was released\<close>
  "exports_open lib \<longleftrightarrow> (\<forall>h ty x. fst (cu lib (CuMemExport h ty) x) = 0 \<longrightarrow> h \<in> open_handles x)"

definition listed_open :: "ipc_state \<Rightarrow> bool" where
  "listed_open s \<longleftrightarrow> track_inv s \<and> g_rebuilt_handle_alias s = [] \<and> g_local_allocs s = [] \<and>
     tracked_handles s \<subseteq> open_handles (cu_calls s)"

lemma tracked_same: "same_tables s s' \<Longrightarrow> tracked_handles s' = tracked_handles s"
  by (rule alloc_tablesD(1) [OF alloc_tables_same])

lemma listed_open_call:
  assumes "listed_open s" and "ccall lib c s = (r, v, s')" and "\<And>h. c \<noteq> CuMemRelease h"
  shows "listed_open s'"
proof -
  have "open_handles (cu_calls s) \<subseteq> open_handles (cu_calls s')"
    using assms(3) ccall_history [OF assms(2)]
    by (cases "((c, r, v), open_handles (cu_calls s))" rule: open_step.cases) auto
  then show ?thesis
    using assms(1) same_tablesD [OF ccall_tables [OF assms(2)]] track_inv_call [OF assms(2)]
      tracked_same [OF ccall_tables [OF assms(2)]]
    by (simp add: listed_open_def) blast
qed

lemma ccall_answer: "ccall lib c s = (r, v, s') \<Longrightarrow> cu lib c (cu_calls s) = (r, v)"
  by (auto simp: ccall_def native_def split: prod.splits)

lemma omap_put_keys: "fst ` set (omap_put k v xs) \<subseteq> insert k (fst ` set xs)"
  using omap_put_entry [of _ k v xs] by fastforce

lemma listed_open_create:
  assumes "listed_open s" and run: "hook_cuMemCreate lib sz prop s = (r, h, s')"
  shows "listed_open s'"
proof -
  obtain r1 h1 s1 where 1: "ccall lib (CuMemCreate sz prop) s = (r1, h1, s1)" by (metis prod_cases3)
  have l: "listed_open s1" by (rule listed_open_call [OF assms(1) 1]) simp
  have inv: "track_inv s'" using hook_create_inv [OF _ run] assms(1) by (simp add: listed_open_def)
  show ?thesis
  proof (cases "avail lib F_MemCreate \<and> r1 = 0 \<and> requestedHandleTypes prop \<noteq> 0")
    case True
    let ?c = "\<lparr>cr_size = sz, cr_prop = prop\<rparr>"
    have s': "s' = s1\<lparr>g_created_allocs := omap_put h1 ?c (g_created_allocs s1)\<rparr>"
      using True run 1 by (simp add: hook_cuMemCreate_def)
    have "h1 \<in> open_handles (cu_calls s1)" using True ccall_history [OF 1] by simp
    then show ?thesis
      using l inv omap_put_keys [of h1 ?c "g_created_allocs s1"]
      by (auto simp: s' listed_open_def tracked_handles_def)
  next
    case False
    then show ?thesis using run 1 l assms(1) by (auto simp: hook_cuMemCreate_def split: if_splits)
  qed
qed

lemma listed_open_import:
  assumes "listed_open s" and run: "hook_cuMemImportFromShareableHandle lib f s = (r, h, s')"
  shows "listed_open s'"
proof -
  obtain r1 h1 s1 where 1: "ccall lib (CuMemImport f) s = (r1, h1, s1)" by (metis prod_cases3)
  have l: "listed_open s1" by (rule listed_open_call [OF assms(1) 1]) simp
  have inv: "track_inv s'" using hook_import_inv [OF _ run] assms(1) by (simp add: listed_open_def)
  show ?thesis
  proof (cases "avail lib F_MemImport \<and> r1 = 0")
    case True
    have s': "s' = s1\<lparr>g_imported_handles := oset_insert h1 (g_imported_handles s1)\<rparr>"
      using True run 1 by (simp add: hook_cuMemImportFromShareableHandle_def)
    have "h1 \<in> open_handles (cu_calls s1)" using True ccall_history [OF 1] by simp
    then show ?thesis using l inv by (auto simp: s' listed_open_def tracked_handles_def)
  next
    case False
    then show ?thesis using run 1 l assms(1)
      by (auto simp: hook_cuMemImportFromShareableHandle_def split: if_splits)
  qed
qed

lemma listed_open_export:
  assumes "exports_open lib" and "listed_open s" and run: "hook_cuMemExportToShareableHandle lib h ty s = (r, fd, s')"
  shows "listed_open s'"
proof -
  obtain r1 f1 s1 where 1: "ccall lib (CuMemExport h ty) s = (r1, f1, s1)" by (metis prod_cases3)
  have l: "listed_open s1" by (rule listed_open_call [OF assms(2) 1]) simp
  have inv: "track_inv s'" using hook_export_inv [OF _ run] assms(2) by (simp add: listed_open_def)
  show ?thesis
  proof (cases "avail lib F_MemExport \<and> r1 = 0")
    case True
    have "h \<in> open_handles (cu_calls s)"
      using assms(1) True ccall_answer [OF 1] by (metis exports_open_def fst_conv)
    then have "h \<in> open_handles (cu_calls s1)" using ccall_history [OF 1] by simp
    moreover have "tracked_handles s' \<subseteq> insert h (tracked_handles s1)"
      "g_rebuilt_handle_alias s' = g_rebuilt_handle_alias s1" "g_local_allocs s' = g_local_allocs s1"
      "cu_calls s' = cu_calls s1"
    proof -
      let ?rec = "export_record h ty (int f1) s1"
      let ?s = "s1\<lparr>g_ipc_exports := g_ipc_exports s1 @ [?rec]\<rparr>"
      have "local_handle ?rec = h" by (simp add: export_record_def Let_def)
      then have "tracked_handles ?s \<subseteq> insert h (tracked_handles s1)" by (auto simp: tracked_handles_def)
      moreover have "tracked_handles (?s\<lparr>g_vaddr_to_export_idx := x\<rparr>) = tracked_handles ?s" for x
        by (simp add: tracked_handles_def)
      ultimately show "tracked_handles s' \<subseteq> insert h (tracked_handles s1)"
        using True run 1 by (auto simp: hook_cuMemExportToShareableHandle_def Let_def split: if_splits)
    qed (use True run 1 in \<open>auto simp: hook_cuMemExportToShareableHandle_def Let_def\<close>)
    ultimately show ?thesis using l inv by (auto simp: listed_open_def)
  next
    case False
    then show ?thesis using run 1 l assms(2)
      by (auto simp: hook_cuMemExportToShareableHandle_def split: if_splits)
  qed
qed

lemma bind_exports_frame:
  "map local_handle (g_ipc_exports (bind_exports p n h is s)) = map local_handle (g_ipc_exports s)"
  "g_created_allocs (bind_exports p n h is s) = g_created_allocs s"
  "g_handle_to_va (bind_exports p n h is s) = g_handle_to_va s"
  "g_imported_handles (bind_exports p n h is s) = g_imported_handles s"
  "g_ipc_imports (bind_exports p n h is s) = g_ipc_imports s"
  "g_local_allocs (bind_exports p n h is s) = g_local_allocs s"
  "g_rebuilt_handle_alias (bind_exports p n h is s) = g_rebuilt_handle_alias s"
  by (induction p n h "is" s rule: bind_exports.induct)
    (simp_all add: Let_def upd_exp_def map_update, (metis list_update_id map_update)?)

lemma bind_exports_handles: "tracked_handles (bind_exports p n h is s) = tracked_handles s"
proof -
  have "local_handle ` set (g_ipc_exports (bind_exports p n h is s)) = local_handle ` set (g_ipc_exports s)"
    using arg_cong [OF bind_exports_frame(1), of set] by simp
  then show ?thesis by (simp add: tracked_handles_def bind_exports_frame(2-))
qed

lemma track_map_handles:
  "tracked_handles (track_local_map p n h (track_import_map p n h s)) \<subseteq> tracked_handles s"
  "g_rebuilt_handle_alias (track_local_map p n h (track_import_map p n h s)) = g_rebuilt_handle_alias s"
  "g_local_allocs (track_local_map p n h (track_import_map p n h s)) = g_local_allocs s"
proof -
  let ?s = "track_import_map p n h s"
  have 1: "tracked_handles ?s \<subseteq> tracked_handles s" by (auto simp: track_import_map_def tracked_handles_def)
  have c: "g_created_allocs ?s = g_created_allocs s" by (simp add: track_import_map_def)
  show "tracked_handles (track_local_map p n h ?s) \<subseteq> tracked_handles s"
  proof (cases "h \<in> dom (map_of (g_created_allocs ?s))")
    case True
    then have "h \<in> fst ` set (g_created_allocs ?s)" by (simp add: dom_map_of_conv_image_fst)
    then have "tracked_handles (?s\<lparr>g_handle_to_va := omap_put h p (g_handle_to_va ?s)\<rparr>) \<subseteq> tracked_handles ?s"
      using omap_put_keys [of h p "g_handle_to_va ?s"] by (auto simp: tracked_handles_def)
    then show ?thesis using 1 True by (simp add: track_local_map_def Let_def bind_exports_handles)
  qed (use 1 in \<open>simp add: track_local_map_def\<close>)
qed (simp_all add: track_local_map_def track_import_map_def Let_def bind_exports_frame)

lemma listed_open_map:
  assumes "listed_open s" and run: "hook_cuMemMap lib p n h s = (r, s')"
  shows "listed_open s'"
proof -
  obtain r1 v1 s1 where 1: "ccall lib (CuMemMap p n h) s = (r1, v1, s1)" by (metis prod_cases3)
  have l: "listed_open s1" by (rule listed_open_call [OF assms(1) 1]) simp
  have inv: "track_inv s'" using hook_map_inv [OF _ run] assms(1) by (simp add: listed_open_def)
  have "s' \<in> {s, s1, track_local_map p n h (track_import_map p n h s1)}"
    using run 1 by (auto simp: hook_cuMemMap_def split: if_splits)
  then show ?thesis using l assms(1) inv track_map_handles [of p n h s1] by (auto simp: listed_open_def)
qed

lemma upd_imp_handles:
  assumes "\<And>e. imp_handle (f e) = imp_handle e"
  shows "tracked_handles (upd_imp i f s) = tracked_handles s" "g_local_allocs (upd_imp i f s) = g_local_allocs s"
    "g_rebuilt_handle_alias (upd_imp i f s) = g_rebuilt_handle_alias s" "cu_calls (upd_imp i f s) = cu_calls s"
proof -
  have "map imp_handle (g_ipc_imports (upd_imp i f s)) = map imp_handle (g_ipc_imports s)"
    by (cases "i < length (g_ipc_imports s)") (simp_all add: upd_imp_def map_update assms list_update_same_conv list_update_beyond)
  from arg_cong [OF this, of set] show "tracked_handles (upd_imp i f s) = tracked_handles s"
    by (simp add: tracked_handles_def) (simp add: upd_imp_def)
qed (simp_all add: upd_imp_def)

lemma upd_exp_handles:
  assumes "\<And>e. local_handle (f e) = local_handle e"
  shows "tracked_handles (upd_exp i f s) = tracked_handles s" "g_local_allocs (upd_exp i f s) = g_local_allocs s"
    "g_rebuilt_handle_alias (upd_exp i f s) = g_rebuilt_handle_alias s" "cu_calls (upd_exp i f s) = cu_calls s"
proof -
  have "map local_handle (g_ipc_exports (upd_exp i f s)) = map local_handle (g_ipc_exports s)"
    by (cases "i < length (g_ipc_exports s)") (simp_all add: upd_exp_def map_update assms list_update_same_conv list_update_beyond)
  from arg_cong [OF this, of set] show "tracked_handles (upd_exp i f s) = tracked_handles s"
    by (simp add: tracked_handles_def) (simp add: upd_exp_def)
qed (simp_all add: upd_exp_def)

lemma listed_open_unmap:
  assumes "listed_open s" and run: "hook_cuMemUnmap lib p n s = (r, s')"
  shows "listed_open s'"
proof -
  obtain r1 v1 s1 where 1: "ccall lib (CuMemUnmap p n) s = (r1, v1, s1)" by (metis prod_cases3)
  have l: "listed_open s1" by (rule listed_open_call [OF assms(1) 1]) simp
  have inv: "track_inv s'" using hook_unmap_inv [OF _ run] assms(1) by (simp add: listed_open_def)
  have "s' = s \<or> s' = s1 \<or> (\<exists>i. s' = upd_imp i (\<lambda>e. e\<lparr>imp_torn_down := True\<rparr>) s1)"
    using run 1 by (auto simp: hook_cuMemUnmap_def split: if_splits option.splits)
  then show ?thesis using l assms(1) inv by (auto simp: listed_open_def upd_imp_handles)
qed

lemma listed_open_access:
  assumes "listed_open s" and run: "hook_cuMemSetAccess lib p n ds s = (r, s')"
  shows "listed_open s'"
proof -
  obtain r1 v1 s1 where 1: "ccall lib (CuMemSetAccess p n ds) s = (r1, v1, s1)" by (metis prod_cases3)
  have l: "listed_open s1" by (rule listed_open_call [OF assms(1) 1]) simp
  have inv: "track_inv s'" using hook_access_inv [OF _ run] assms(1) by (simp add: listed_open_def)
  have d: "tracked_handles (x\<lparr>g_va_access_descs := y\<rparr>) = tracked_handles x" for x y
    by (simp add: tracked_handles_def)
  have "s' = s \<or> (tracked_handles s' = tracked_handles s1 \<and> g_local_allocs s' = g_local_allocs s1 \<and>
      g_rebuilt_handle_alias s' = g_rebuilt_handle_alias s1 \<and> cu_calls s' = cu_calls s1)"
    using run 1 by (auto simp: hook_cuMemSetAccess_def Let_def upd_imp_handles upd_exp_handles d
        split: if_splits option.splits)
  then show ?thesis using l assms(1) inv by (auto simp: listed_open_def)
qed

lemma cleanup_tracked:
  assumes "track_inv s" and "g_rebuilt_handle_alias s = []" and "g_local_allocs s = []"
  shows "tracked_handles (cleanup_handle h s) \<subseteq> tracked_handles s - {h}"
proof -
  note ok = assms(1) [unfolded track_defs]
  have va: "g_handle_to_va (cleanup_handle h s) = omap_erase h (g_handle_to_va s)"
    by (cases "map_of (g_handle_to_va s) h")
      (simp_all add: cleanup_handle_def Let_def omap_erase_absent [OF iffD1 [OF map_of_eq_None_iff]])
  have keys: "fst ` set (omap_erase h xs) \<subseteq> fst ` set xs - {h}" if "omap_ok xs" for xs :: "(nat \<times> 'c) list"
    using arg_cong [OF map_of_omap_erase [OF that, of h], of dom] by (simp add: dom_map_of_conv_image_fst)
  have rest: "g_created_allocs (cleanup_handle h s) = omap_erase h (g_created_allocs s)"
    "g_imported_handles (cleanup_handle h s) = oset_erase h (g_imported_handles s)"
    "imp_handle ` set (g_ipc_imports (cleanup_handle h s)) - {0} \<subseteq> imp_handle ` set (g_ipc_imports s) - {0, h}"
    "local_handle ` set (g_ipc_exports (cleanup_handle h s)) - {0} \<subseteq> local_handle ` set (g_ipc_exports s) - {0, h}"
    "g_local_allocs (cleanup_handle h s) = []" "g_rebuilt_handle_alias (cleanup_handle h s) = []"
    using assms(2,3) by (auto simp: cleanup_handle_def Let_def split: option.splits)
  have imp: "set (oset_erase h (g_imported_handles s)) = set (g_imported_handles s) - {h}"
    using ok by (simp add: set_oset_erase)
  have k: "fst ` set (omap_erase h (g_created_allocs s)) \<subseteq> fst ` set (g_created_allocs s) - {h}"
    "fst ` set (omap_erase h (g_handle_to_va s)) \<subseteq> fst ` set (g_handle_to_va s) - {h}"
    by (rule keys; use ok in simp)+
  show ?thesis unfolding tracked_handles_def [of "cleanup_handle h s"] rest(1,2,5,6) va imp
    using k rest(3,4) by (auto simp: tracked_handles_def)
qed

lemma listed_open_release:
  assumes "listed_open s" and run: "hook_cuMemRelease lib h s = (r, s')"
  shows "listed_open s'"
proof -
  have a: "map_of (g_rebuilt_handle_alias s) h = None" using assms(1) by (simp add: listed_open_def)
  obtain r1 v1 s1 where 1: "ccall lib (CuMemRelease h) s = (r1, v1, s1)" by (metis prod_cases3)
  have inv: "track_inv s'" using hook_release_inv [OF _ run] assms(1) by (simp add: listed_open_def)
  have t1: "track_inv s1" "g_rebuilt_handle_alias s1 = []" "g_local_allocs s1 = []"
      "tracked_handles s1 \<subseteq> open_handles (cu_calls s)"
    using assms(1) same_tablesD [OF ccall_tables [OF 1]] track_inv_call [OF 1] tracked_same [OF ccall_tables [OF 1]]
    by (simp_all add: listed_open_def)
  have o: "open_handles (cu_calls s1) = (if r1 = 0 then open_handles (cu_calls s) - {h} else open_handles (cu_calls s))"
    using ccall_history [OF 1] by simp
  show ?thesis
  proof (cases "avail lib F_MemRelease \<and> r1 = 0")
    case True
    have c: "g_rebuilt_handle_alias (cleanup_handle h s1) = []" "g_local_allocs (cleanup_handle h s1) = []"
      using t1 by (auto simp: cleanup_handle_def Let_def split: option.splits)
    then have s': "s' = (cleanup_handle h s1)\<lparr>g_rebuilt_handle_alias := []\<rparr>"
      using True run 1 a by (simp add: hook_cuMemRelease_def)
    have "tracked_handles s' = tracked_handles (cleanup_handle h s1)" using c by (simp add: s' tracked_handles_def)
    then have "tracked_handles s' \<subseteq> open_handles (cu_calls s) - {h}"
      using cleanup_tracked [OF t1(1-3), of h] t1(4) by blast
    then show ?thesis using inv c o True by (simp add: listed_open_def s')
  next
    case False
    then show ?thesis using run 1 a t1 o assms(1)
      by (auto simp: hook_cuMemRelease_def listed_open_def Let_def split: if_splits)
  qed
qed

lemma hooks_list_open:
  assumes "exports_open lib" and "(track_step lib)\<^sup>*\<^sup>* ipc_start s"
  shows "tracked_handles s \<subseteq> open_handles (cu_calls s)"
proof -
  have "listed_open s" using assms(2)
  proof (induction rule: rtranclp_induct)
    case base
    show ?case by (simp add: listed_open_def track_defs tracked_handles_def ipc_start_def)
  next
    case (step y z)
    from step.hyps(2) step.IH show ?case
      by (elim track_stepE)
        (blast intro: listed_open_create listed_open_export [OF assms(1)] listed_open_import listed_open_map
          listed_open_unmap listed_open_release listed_open_access)+
  qed
  then show ?thesis by (simp add: listed_open_def)
qed

section \<open>Properties\<close>


definition sample_cu :: cu_lib where
  \<comment> \<open>every call succeeds; a new handle is one above the open ones, so released handles come back\<close>
  "sample_cu = \<lparr>cu = \<lambda>c h. (0, Suc (Max (insert 8 (open_handles h)))), avail = \<lambda>_. True, cu_junk = \<lambda>_ _. 255\<rparr>"

definition sample_vmm :: vmm_driver where
  "sample_vmm = \<lparr>vmm = \<lambda>c h. (0, 1048576 + length h), junk = \<lambda>_ _. 255, has_real_free = False\<rparr>"


lemma open_handles_finite [simp]: "finite (open_handles h)"
proof (induction h rule: rev_induct)
  case (snoc x h)
  then show ?case by (cases "(x, open_handles h)" rule: open_step.cases) simp_all
qed (simp add: open_handles_def)





definition sample_tracked :: ipc_state where
  "sample_tracked = ipc_start\<lparr>g_created_allocs := [(9, \<lparr>cr_size = 64, cr_prop = no_prop\<rparr>)],
     g_handle_to_va := [(9, 4096)], g_rebuilt_handle_alias := [(5, 9)]\<rparr>"

text \<open>A handle the driver uses again is released in the name of another allocation.  The table of
  rebuilt handles keeps the application's old handle of a rebuilt export although the driver has
  that handle back.  When \<open>cudaMalloc\<close> is given it for new memory, \<open>cudaFree\<close> of that memory,
  with every driver call succeeding, releases the physical memory of the rebuilt export instead: the
  handle of the freed memory is never released, the pointer is forgotten, and the records of the
  export lose their handle.\<close>

theorem reused_handle_frees_rebuilt_export:
  assumes "\<And>c x. fst (cu lib c x) = 0" and "\<And>f. avail lib f" and "k \<le> length (calls (gst m))"
    and "map_of (allocated (gst m)) p = Some sz" and "map_of (allocated_memory_type (gst m)) p = Some 1"
    and "map_of (global_handle_map (gst m)) p = Some h"
    and "map_of (g_rebuilt_handle_alias (hooks_of lib s0 k m)) h = Some a" and "a \<noteq> h" and "a \<noteq> 0"
  shows "\<exists>m'. cudaFree (hooked_driver lib drv s0 k) p m = (cudaSuccess, m') \<and>
    map fst (cu_calls (hooks_of lib s0 k m')) =
      map fst (cu_calls (hooks_of lib s0 k m)) @ [CuMemUnmap p (round_up_2mb sz), CuMemRelease a] \<and>
    (\<forall>e \<in> set (g_ipc_exports (hooks_of lib s0 k m')). local_handle e \<noteq> a)"
proof -
  let ?D = "hooked_driver lib drv s0 k"
  let ?s = "hooks_of lib s0 k m"
  obtain m' where m': "cudaFree ?D p m = (cudaSuccess, m')"
    and calls: "calls (gst m') = calls (gst (after ?D (AddressFree p (round_up_2mb sz))
        (after ?D (MemRelease h) (after ?D (MemUnmap p (round_up_2mb sz)) m))))"
    using assms(4-6) by (simp add: cudaFree_def split_beta Let_def)
  let ?s1 = "hook_after lib (MemUnmap p (round_up_2mb sz)) ?s"
  have s': "hooks_of lib s0 k m' = hook_after lib (MemRelease h) ?s1"
    using calls assms(3) by (simp add: hooks_of_def vcall_calls hook_state_def split_beta hook_after_def)
  have 1: "map fst (cu_calls ?s1) = map fst (cu_calls ?s) @ [CuMemUnmap p (round_up_2mb sz)]"
    and al: "map_of (g_rebuilt_handle_alias ?s1) h = Some a"
    using hook_unmap_effect [OF assms(1,2)] assms(7) by simp_all
  show ?thesis
    using m' s' 1 hook_release_alias_effect [OF assms(1,2) al assms(8,9)] by auto
qed

definition sample_reused :: vmm_state where
  \<comment> \<open>\<open>cudaMalloc\<close> was given the handle 5 that the table of rebuilt handles still lists\<close>
  "sample_reused = vmm_start\<lparr>allocated := [(2097152, 5000)], allocated_memory_type := [(2097152, 1)],
     global_handle_map := [(2097152, 5)]\<rparr>"

theorem reused_handle_frees_rebuilt_export_witness:
  "\<exists>m'. cudaFree (hooked_driver sample_cu sample_vmm sample_tracked 0) 2097152 (sample_machine\<lparr>gst := sample_reused\<rparr>) =
       (cudaSuccess, m') \<and>
     map fst (cu_calls (hooks_of sample_cu sample_tracked 0 m')) = [CuMemUnmap 2097152 (round_up_2mb 5000), CuMemRelease 9]"
  using reused_handle_frees_rebuilt_export [of sample_cu 0 "sample_machine\<lparr>gst := sample_reused\<rparr>" 2097152 5000 5
      sample_tracked 9 sample_vmm]
  by (auto simp: sample_cu_def sample_reused_def sample_tracked_def vmm_start_def ipc_start_def hooks_of_def hook_state_def)

end
