(* ===== verification/Hook_Window.thy ===== *)
theory Hook_Window
  imports Ipc_Import
begin

text \<open>
  A signal inside a tracking hook.  \<open>hook_cuMemMap\<close> first calls the driver and then takes
  \<open>g_ipc_hook_mutex\<close> to record the mapping; the two halves are \<open>map_call\<close> and \<open>map_record\<close>.  The
  teardown handler may interrupt the thread between them, before the mutex is taken, or inside the
  section, which the recursive mutex allows.
\<close>

definition map_call :: "cu_lib \<Rightarrow> nat \<Rightarrow> nat \<Rightarrow> nat \<Rightarrow> ipc_state \<Rightarrow> int \<times> ipc_state" where
  \<comment> \<open>the driver call, outside the mutex\<close>
  "map_call lib p n h s =
     (if \<not> avail lib F_MemMap then (CUDA_ERROR_NOT_INITIALIZED, s)
      else case ccall lib (CuMemMap p n h) s of (r, _, s1) \<Rightarrow> (r, s1))"

definition map_record :: "nat \<Rightarrow> nat \<Rightarrow> nat \<Rightarrow> ipc_state \<Rightarrow> ipc_state" where
  \<comment> \<open>the section over the tables\<close>
  "map_record p n h s = track_local_map p n h (track_import_map p n h s)"

lemma hook_cuMemMap_halves:
  "hook_cuMemMap lib p n h s =
     (case map_call lib p n h s of (r, s1) \<Rightarrow> (r, if r = CUDA_SUCCESS then map_record p n h s1 else s1))"
  by (auto simp: hook_cuMemMap_def map_call_def map_record_def split: prod.splits)

definition new_import :: "nat \<Rightarrow> nat \<Rightarrow> nat \<Rightarrow> IpcImportRecord" where
  "new_import p n h = \<lparr>imp_vaddr = p, imp_size = n, imp_handle = h, imp_access_dev = -1,
     imp_access_desc = no_desc, all_access = [], imp_torn_down = False\<rparr>"

lemma bind_exports_imports [simp]: "g_ipc_imports (bind_exports p n h is s) = g_ipc_imports s"
  by (induction p n h "is" s rule: bind_exports.induct) (simp_all add: Let_def upd_exp_def)

lemma bind_exports_calls [simp]: "cu_calls (bind_exports p n h is s) = cu_calls s"
  by (induction p n h "is" s rule: bind_exports.induct) (simp_all add: Let_def upd_exp_def)

lemma map_record_imports:
  assumes "h \<in> set (g_imported_handles s)"
  shows "g_ipc_imports (map_record p n h s) = g_ipc_imports s @ [new_import p n h]"
    "cu_calls (map_record p n h s) = cu_calls s"
  using assms by (simp_all add: map_record_def track_local_map_def track_import_map_def new_import_def Let_def)

lemma cdo_if_handles [simp]: "g_imported_handles (cdo_if b lib c s) = g_imported_handles s"
proof -
  obtain r v s' where "ccall lib c s = (r, v, s')" by (metis prod_cases3)
  with same_tablesD(3) [OF ccall_tables [OF this]] show ?thesis by (simp add: cdo_if_def cdo_def)
qed

lemma teardown_keeps_handles [simp]:
  "g_imported_handles (snd (teardown_imports lib is k s)) = g_imported_handles s"
  by (induction lib "is" k s rule: teardown_imports.induct)
    (auto simp: Let_def upd_imp_def)

lemma teardown_all_keeps_handles [simp]:
  "g_imported_handles (snd (ipc_teardown_all_imports lib s)) = g_imported_handles s"
  by (simp add: ipc_teardown_all_imports_def split_beta)

text \<open>The window between the driver call and the record.  If the teardown interrupts \<open>cuMemMap\<close> of an
  imported handle after the driver has mapped it and before the hook has recorded it, the teardown
  makes no call for it, and when the hook goes on it records a live import, so that the process
  goes into the freeze with an IPC mapping.  If the teardown runs once the record is there, inside
  the section included, every import is torn down and the new mapping is unmapped and released.\<close>

theorem teardown_in_map_window:
  assumes "avail lib F_MemUnmap" "avail lib F_MemRelease"
    and "map_call lib p n h s = (CUDA_SUCCESS, s1)" and "h \<in> set (g_imported_handles s)"
  shows "g_ipc_imports (map_record p n h (snd (ipc_teardown_all_imports lib s1))) =
      map torn_import (g_ipc_imports s) @ [new_import p n h]"
    and "map fst (cu_calls (map_record p n h (snd (ipc_teardown_all_imports lib s1)))) =
      map fst (cu_calls s1) @ concat (map teardown_calls (g_ipc_imports s))"
    and "g_ipc_imports (snd (ipc_teardown_all_imports lib (map_record p n h s1))) =
      map torn_import (g_ipc_imports s @ [new_import p n h])"
    and "map fst (cu_calls (snd (ipc_teardown_all_imports lib (map_record p n h s1)))) =
      map fst (cu_calls s1) @ concat (map teardown_calls (g_ipc_imports s @ [new_import p n h]))"
proof -
  obtain r v where 1: "ccall lib (CuMemMap p n h) s = (r, v, s1)"
    using assms(3) by (auto simp: map_call_def split: if_splits prod.splits)
  note same = same_tablesD [OF ccall_tables [OF 1]]
  have h: "h \<in> set (g_imported_handles s1)" using assms(4) same by simp
  obtain s2 where s2: "snd (ipc_teardown_all_imports lib s1) = s2"
      "g_ipc_imports s2 = map torn_import (g_ipc_imports s)"
      "map fst (cu_calls s2) = map fst (cu_calls s1) @ concat (map teardown_calls (g_ipc_imports s))"
    using import_teardown_once [OF assms(1,2), of s1] same by auto
  have "h \<in> set (g_imported_handles s2)" using h s2(1) by auto
  then show "g_ipc_imports (map_record p n h (snd (ipc_teardown_all_imports lib s1))) =
      map torn_import (g_ipc_imports s) @ [new_import p n h]"
    and "map fst (cu_calls (map_record p n h (snd (ipc_teardown_all_imports lib s1)))) =
      map fst (cu_calls s1) @ concat (map teardown_calls (g_ipc_imports s))"
    using s2 by (simp_all add: map_record_imports)
  show "g_ipc_imports (snd (ipc_teardown_all_imports lib (map_record p n h s1))) =
      map torn_import (g_ipc_imports s @ [new_import p n h])"
    and "map fst (cu_calls (snd (ipc_teardown_all_imports lib (map_record p n h s1)))) =
      map fst (cu_calls s1) @ concat (map teardown_calls (g_ipc_imports s @ [new_import p n h]))"
    using import_teardown_once [OF assms(1,2), of "map_record p n h s1"] map_record_imports [OF h] same by auto
qed

end
