(* ===== verification/Spec2Isabelle.thy ===== *)
theory Spec2Isabelle
  imports Amd_Handler Ckpt_Tool Fd_Server Nccl_Plugin Nccl_Hooks Client_Run Hooked_Driver Hook_Window
begin

text \<open>
  GPU-CR checkpoints and restores processes that use GPUs.  A library preloaded into every worker
  process hooks the allocation calls of the CUDA or HIP runtime, so that device memory lives in ranges
  of virtual addresses whose physical memory can be released and mapped again.  On a signal a worker
  copies its device memory through two pinned staging buffers into a shared file and releases it; an
  external tool (\<open>cuda-checkpoint\<close> or CRIU) freezes the rest.  For several GPUs a coordinator also makes
  the workers tear down the memory they share with each other over inter-process handles, and rebuild
  it after the restore.  This development models the C++ code of the library, of the coordinator and of
  the clients as executable functions on explicit states and proves that a checkpoint followed by a
  restore loses nothing, with the conditions under which that holds.

  \<^bold>\<open>Conventions.\<close>  Memory is a function from addresses to bytes (\<open>Prelude\<close>).  \<open>exit()\<close>, \<open>assert\<close> and endless
  loops are values \<open>Inl\<close> of a sum.  \<open>std::map\<close> and \<open>std::set\<close> are ordered association lists with the
  laws of locale \<open>ordered_map\<close>.  The CUDA driver and runtime, system calls and the external tools are
  parameters: a \<open>native_lib\<close> chooses every return code and handle from the history of calls, memory
  that is mapped or unmapped holds arbitrary bytes.  The asynchronous copies of a checkpoint and of a
  restore (\<open>Data_Path\<close>, \<open>Checkpoint\<close>) complete in any order the stream allows (\<open>stream_contract\<close>), so that a
  missing wait would be seen; those of the IPC phases (\<open>Ipc_State\<close>) take effect when they are issued, and
  there a missing synchronisation would not be.  Sizes are 64-bit where they can wrap (\<open>Layout\<close>).

  \<^bold>\<open>Theories.\<close>
  \<^item> \<open>Layout\<close> (\<open>src/common.h\<close>, \<open>src/ipc_hooks.h\<close>): constants, \<open>ROUND_UP_2MB\<close> on words, the file table and the
    blocks in the first huge page, which do not overlap.
  \<^item> \<open>Data_Path\<close> (\<open>src/vGPU.cpp\<close>): the multi-threaded copy, the streams and events, and the two rotating
    staging buffers of both directions, for every chunk policy (locale \<open>chunk_policy\<close>).
  \<^item> \<open>Checkpoint\<close> (\<open>src/vGPU.cpp\<close>): \<open>ckpt\<close>, \<open>ckpt_selective\<close> and the two restores against an abstract layout of
    the image; locales \<open>gpu_backend\<close> (what a backend may touch), \<open>image_transfer\<close> and \<open>gpu_total\<close> (its calls
    succeed) carry the round trips for both vendors.
  \<^item> \<open>Vmm\<close>, \<open>NV_Backend\<close>, \<open>AMD_Backend\<close> (\<open>src/GPUs\<close>): the hooked allocators and the release and remapping of
    physical memory; interpretations of the locales; the invariant of the tables of the NVIDIA backend
    over all reachable states.
  \<^item> \<open>Ipc_State\<close>, \<open>Ipc_Track\<close> (\<open>src/ipc_hooks.cpp\<close>): the tables of imports, exports and created allocations and
    the hooks that keep them; their consistency in every reachable state.
  \<^item> \<open>Hooked_Driver\<close> (\<open>nv.cpp\<close> over \<open>ipc_hooks.cpp\<close>): the allocator's own driver calls pass through the tracking
    hooks; over all sequences of allocations, checkpoints and restores the two parts work on separate
    memory.
  \<^item> \<open>Locks\<close>, \<open>Lock_Traces\<close>, \<open>Hook_Window\<close> (all of \<open>src\<close>, \<open>adapters/nccl/runtime\<close>): the mutexes each entry point takes, on every
    branch; threads and the signals that interrupt them as a step relation.  Locale \<open>ranked_waiting\<close>
    carries the argument from the order of the mutexes to progress.  The tracked calls of every run of the
    allocator, the checkpoints and the restores of the functional model, and the mutexes they take, are
    those of the branch the state and the driver's answers lead to.  A teardown between the two halves
    of a hook.
  \<^item> \<open>Ipc_Export\<close>, \<open>Ipc_Local\<close>, \<open>Ipc_Import\<close> (\<open>src/ipc_hooks.cpp\<close>): save, teardown and rebuild of exports and of
    local allocations, teardown and positional re-import of imports, validation.
  \<^item> \<open>Fd_Exchange\<close>, \<open>Fd_Server\<close> (\<open>src/ipc_fd_exchange.cpp\<close>): descriptors passed over Unix sockets; the interface the
    import relies on is locale \<open>fd_receiver\<close>, interpreted by the exchange; the server thread serves the
    requests the client writes, byte by byte.
  \<^item> \<open>Amd_Interface\<close>, \<open>Amd_Handler\<close> (\<open>src/GPUs\<close>, \<open>src/vGPU.cpp\<close>): the rest of the interface \<open>GPU\<close>; what an ignored
    error means on AMD; the worker as the AMD build compiles it.
  \<^item> \<open>Peer_Access\<close> (\<open>src/ipc_hooks.cpp\<close>): peer access and IPC events.
  \<^item> \<open>Comm_Protocol\<close> (\<open>src/comm\<close>, \<open>broadcast_and_wait\<close>): the control word and the interleavings of coordinator and
    workers as a step relation; a broadcast refines one atomic step on all workers, and terminates if
    the handlers return.
  \<^item> \<open>Ipc_Worker\<close>, \<open>Signal_Handler\<close>, \<open>Worker\<close> (\<open>src/vGPU.cpp\<close>, \<open>src/backend\<close>, \<open>src/GPUs/gpu_factory.cpp\<close>): the
    initialisation of a worker, its two signal handlers and the table of signals.
  \<^item> \<open>Gcr_Runtime\<close>, \<open>Nccl_Plugin\<close> (\<open>adapters/nccl\<close>): the second way to the same IPC phases, through NCCL's public
    checkpoint calls, a loaded plugin and a runtime with its own storage; the plugin relies on locale
    \<open>checkpoint_runtime\<close>, which the runtime interprets.
  \<^item> \<open>Hook_Table\<close> (\<open>src/ipc_hooks.cpp\<close>): how the hooks get in front of the driver, on a model of the dynamic
    linker: the hook table, the interposed \<open>dlsym\<close>, the lookup functions and the launch hooks.
  \<^item> \<open>Nccl_Hooks\<close> (\<open>src/nccl_hooks.cpp\<close>): the search for NCCL and the table of communicators; locale
    \<open>nccl_observer\<close> carries invariants over every sequence of calls and is interpreted twice.
  \<^item> \<open>Text_Util\<close>, \<open>Client\<close> (\<open>coordinator/multi_cr_client.cpp\<close>, \<open>coordinator/cr_client.cpp\<close>): the command lines.
  \<^item> \<open>Client_Run\<close> (\<open>coordinator/cr_client.cpp\<close>): the single-GPU client against a worker that \<open>cuda-checkpoint\<close> freezes
    and resumes.
  \<^item> \<open>Coordinator\<close> (\<open>coordinator/multi_cr_client.cpp\<close>): exchange of export blocks, \<open>cuda-checkpoint\<close> in both modes,
    the checkpoint and restore flows over all workers.
  \<^item> \<open>Ckpt_Tool\<close> (\<open>coordinator/multi_cr_client.cpp\<close>): finding, probing and running \<open>cuda-checkpoint\<close>, and the names
    of the shared files.

  \<^bold>\<open>What is shown.\<close>  Round trips at every level, each resting on the one below: the staging loops, the
  image of one process, exports and local allocations, one worker through its handlers, all workers
  through the coordinator (\<open>multi_gpu_round_trip\<close>), and a process through the NCCL calls
  (\<open>nccl_checkpoint_round_trip\<close>).  Errors: a checkpoint that does not fit exits, a buffer
  too small touches nothing, a failed allocation leaves nothing behind.  Invariants of the tables, bounds
  of the blocks, termination of the broadcast, storage that never leaks, hooks that reach the driver behind
  a pointer found before, communicator hooks that always leave the library, threads that never deadlock while signals
  keep to the sections where they may interrupt.  Some theorems state what the code does where that is not
  what it means to do: contents moved between local allocations on mixed devices, an unmapped import that
  takes a place, lost peer access, a handle released twice, a repeated prepare that loses the exports, a
  symbol search that ends in recursion, a failed wait on AMD that goes unnoticed, an exchange that opens
  the wrong files, a coordinator that waits for a dead worker, a client that waits for a frozen worker, a
  checkpoint signal that blocks the thread it interrupts inside an allocation, an import that escapes
  the teardown, a reused handle that frees a rebuilt export.

  \<^bold>\<open>Bounds.\<close>  The loops are structural or have a measure, and a loop of the program that makes no
  progress is the value \<open>Diverges\<close>.  Fuel bounds only the depth of calls through function pointers in
  \<open>Hook_Table\<close>: two levels suffice for every hook that returns, and one that recurses is shown to return
  for no amount of it.  The checkpoint file holds \<open>SHM_SIZE\<close> (25 GB) and 4095
  files, a block 64 entries, a request 64 descriptors, a coordinator 32 workers, as in the source.

  \<^bold>\<open>Not modelled.\<close>  Data races on the state that a mutex protects: \<open>Locks\<close> models who waits for whom, and the
  operations of the other theories run one after the other, apart from the interleavings of the
  broadcast, of the copying threads and of \<open>Hook_Window\<close>; kernels in flight (device memory is what they
  leave behind); logging, timing, the file of measurements and the diagnostic dumps; overflow of the
  path buffers written with \<open>sprintf\<close>, and of \<open>size + 3\<close> in the split of a copy over four threads; a
  \<open>cudaFreeHost\<close> that fails (\<open>os_fresh\<close>: the runtime only warns and drops the pointer); the client's own socket in
  the table of descriptors; the \<open>fs_mutex\<close> of the object a new \<open>ShareMem\<close> is, which no other thread sees; the IPC
  handler of the AMD build, whose functions that build leaves out; and everything outside the repository (driver, \<open>cuda-checkpoint\<close>,
  CRIU, NCCL itself, the dynamic linker beyond its documented search).
\<close>

end
